(* ===== verification/Gw_Prelude.thy ===== *)
theory Gw_Prelude
  imports Main "HOL-Library.AList" "HOL-Library.Char_ord" "HOL-Library.List_Lexorder"
    "HOL-Library.Sublist"
begin

text \<open>
  Shared vocabulary of the development.

  A Go \<open>map[K]V\<close> is an association list (type \<open>gomap\<close>): \<open>m[k]\<close> is \<open>map_of m k\<close>, an assignment is
  \<open>AList.update\<close>, \<open>delete(m, k)\<close> is \<open>AList.delete\<close>. A Go \<open>map[K]struct{}\<close> used as a set is a list
  of keys without duplicates, updated by \<open>List.insert\<close> and \<open>removeAll\<close>. A \<open>range\<close> over a map
  visits its keys in an order the language leaves open, so every definition that ranges over a
  map takes that order as an argument \<open>rng\<close>, a function that permutes the list of keys; the
  predicate \<open>range_order\<close> is all that is assumed of it.

  A fallible Go function \<open>(T, error)\<close> returns \<open>error + T\<close>, with \<open>Inl\<close> for the error.
\<close>

named_theorems gomap_simps \<open>how map_of sees the updates of a Go map\<close>
named_theorems reg_simps \<open>what the registry operations do to the owner and payload maps\<close>
named_theorems ok_simps \<open>when a chain of fallible steps succeeds\<close>
named_theorems inv_intros \<open>preservation of the component invariants\<close>

type_synonym ('k, 'v) gomap = "('k \<times> 'v) list"

declare AList.update_conv' [simp, gomap_simps] AList.delete_conv' [simp, gomap_simps]

text \<open>The value of a map of strings at a key, the empty string when the key is absent.\<close>

definition str_get :: "(string, string) gomap \<Rightarrow> string \<Rightarrow> string" where
  "str_get m k = (case map_of m k of Some v \<Rightarrow> v | None \<Rightarrow> [])"

text \<open>A set-valued map entry, empty when the key is absent (a nil inner map reads as empty).\<close>

definition set_get :: "('k, 'a list) gomap \<Rightarrow> 'k \<Rightarrow> 'a list" where
  "set_get m k = (case map_of m k of Some v \<Rightarrow> v | None \<Rightarrow> [])"

lemma set_get_update [simp, gomap_simps]:
  "set_get (AList.update k v m) k' = (if k' = k then v else set_get m k')"
  by (simp add: set_get_def)

lemma set_get_delete [simp, gomap_simps]:
  "set_get (AList.delete k m) k' = (if k' = k then [] else set_get m k')"
  by (simp add: set_get_def)

lemma set_get_Nil [simp]: "set_get [] k = []"
  by (simp add: set_get_def)

text \<open>Appending to a slice stored in a map: \<open>m[k] = append(m[k], x)\<close>.\<close>

definition app_put :: "'k \<Rightarrow> 'a \<Rightarrow> ('k, 'a list) gomap \<Rightarrow> ('k, 'a list) gomap" where
  "app_put k x m = AList.update k (set_get m k @ [x]) m"

lemma set_get_app_put [simp, gomap_simps]:
  "set_get (app_put k x m) k' = (if k' = k then set_get m k @ [x] else set_get m k')"
  by (simp add: app_put_def)

subsection \<open>The order of a range over a map\<close>

definition range_order :: "('k list \<Rightarrow> 'k list) \<Rightarrow> bool" where
  "range_order rng \<longleftrightarrow> (\<forall>ks. set (rng ks) = set ks \<and> (distinct ks \<longrightarrow> distinct (rng ks)))"

lemma range_order_set [simp]: "range_order rng \<Longrightarrow> set (rng ks) = set ks"
  by (simp add: range_order_def)

lemma range_order_distinct [simp]: "range_order rng \<Longrightarrow> distinct ks \<Longrightarrow> distinct (rng ks)"
  by (simp add: range_order_def)

lemma range_order_id [simp]: "range_order (\<lambda>ks. ks)"
  by (simp add: range_order_def)

lemma range_order_rev [simp]: "range_order rev"
  by (simp add: range_order_def)

subsection \<open>Folds that delete or insert a list of keys\<close>

lemma map_of_fold_delete [simp, gomap_simps]:
  "map_of (fold AList.delete ks m) k = (if k \<in> set ks then None else map_of m k)"
  by (induction ks arbitrary: m) auto

lemma map_of_fold_update_fst:
  "map_of (fold (\<lambda>k. AList.update k (f k)) ks m) k =
     (if k \<in> set ks then Some (f k) else map_of m k)"
  by (induction ks arbitrary: m) auto

lemma map_of_fold_update_pairs:
  "map_of (fold (\<lambda>(k, v). AList.update k v) kvs m) = map_of m ++ map_of (rev kvs)"
  by (induction kvs arbitrary: m) (auto simp: map_add_def fun_eq_iff split: option.splits)

lemma in_set_fold_insert [simp]: "set (fold List.insert ks xs) = set ks \<union> set xs"
  by (induction ks arbitrary: xs) auto

lemma distinct_fold_insert [simp]: "distinct xs \<Longrightarrow> distinct (fold List.insert ks xs)"
  by (induction ks arbitrary: xs) auto

lemma distinct_keys_update [simp]:
  "distinct (map fst m) \<Longrightarrow> distinct (map fst (AList.update k v m))"
  by (rule distinct_update)

lemma distinct_keys_delete [simp]:
  "distinct (map fst m) \<Longrightarrow> distinct (map fst (AList.delete k m))"
  by (rule distinct_delete)

lemma keys_dom: "set (map fst m) = dom (map_of m)"
  by (simp add: dom_map_of_conv_image_fst)

subsection \<open>Lists\<close>

lemma Nil_iff_notin: "xs = [] \<longleftrightarrow> (\<forall>x. x \<notin> set xs)"
  by (cases xs) auto

lemma length_filter_exists: "n < length (filter P xs) \<Longrightarrow> \<exists>x\<in>set xs. P x"
  by (cases "filter P xs") (auto dest!: filter_eq_ConsD)

lemma distinct_filter_length: "distinct xs \<longleftrightarrow> (\<forall>x. length (filter (\<lambda>y. y = x) xs) \<le> 1)"
proof (induction xs)
  case (Cons a xs)
  have "a \<in> set xs \<longleftrightarrow> filter (\<lambda>y. y = a) xs \<noteq> []" by (auto simp: filter_empty_conv)
  moreover have "distinct xs \<longleftrightarrow> (\<forall>x. x \<noteq> a \<longrightarrow> length (filter (\<lambda>y. y = x) xs) \<le> 1)
      \<and> length (filter (\<lambda>y. y = a) xs) \<le> 1"
    unfolding Cons by metis
  ultimately show ?case by (auto simp: le_Suc_eq)
qed simp

subsection \<open>Results\<close>

definition is_ok :: "'e + 'a \<Rightarrow> bool" where
  "is_ok r = (case r of Inl _ \<Rightarrow> False | Inr _ \<Rightarrow> True)"

lemma is_ok_simps [simp]: "is_ok (Inr x)" "\<not> is_ok (Inl e)"
  by (simp_all add: is_ok_def)

lemma is_ok_iff: "is_ok r \<longleftrightarrow> (\<exists>x. r = Inr x)"
  by (cases r) simp_all

lemma seq_ok [ok_simps]:
  "(case r of Inl e \<Rightarrow> Inl e | Inr x \<Rightarrow> g x) = Inr y \<longleftrightarrow> (\<exists>x. r = Inr x \<and> g x = Inr y)"
  "(case r of Inl e \<Rightarrow> Inl (f e) | Inr x \<Rightarrow> g' x) = Inr y \<longleftrightarrow> (\<exists>x. r = Inr x \<and> g' x = Inr y)"
  "(case q of None \<Rightarrow> Inl e' | Some z \<Rightarrow> h z) = Inr y \<longleftrightarrow> (\<exists>z. q = Some z \<and> h z = Inr y)"
  "(if b then Inl e'' else r') = Inr y \<longleftrightarrow> \<not> b \<and> r' = Inr y"
  by (auto split: sum.splits option.splits)

lemma ex_unit [ok_simps]: "(\<exists>x :: unit. P x) \<longleftrightarrow> P ()"
  by auto

text \<open>Runs a fallible action over a list and stops at the first error, as an early return does.\<close>

fun first_err :: "('a \<Rightarrow> 'e + unit) \<Rightarrow> 'a list \<Rightarrow> 'e + unit" where
  "first_err f [] = Inr ()"
| "first_err f (x # xs) = (case f x of Inl e \<Rightarrow> Inl e | Inr _ \<Rightarrow> first_err f xs)"

lemma first_err_ok: "first_err f xs = Inr () \<longleftrightarrow> (\<forall>x\<in>set xs. f x = Inr ())"
  by (induction xs) (auto split: sum.splits)

end
