(* ===== verification/Gw_Strings.thy ===== *)
theory Gw_Strings
  imports Gw_Prelude
begin

text \<open>
  What the program uses of Go's \<open>strings\<close>, \<open>unicode\<close> and \<open>unicode/utf8\<close> packages, on byte strings:
  a Go \<open>string\<close> is a \<open>string\<close> of HOL, whose \<open>char\<close> is one byte, and \<open>len\<close> is \<open>length\<close>.

  \<open>strings.ToLower\<close> lowers ASCII letters byte by byte when the string is pure ASCII; for any
  other string it consults the Unicode tables, which are the argument \<open>uni\<close>.
\<close>

abbreviation byte_of :: "char \<Rightarrow> nat" where
  "byte_of c \<equiv> of_char c"

subsection \<open>strings\<close>

definition has_prefix :: "string \<Rightarrow> string \<Rightarrow> bool" where
  "has_prefix s p \<longleftrightarrow> take (length p) s = p"

definition cut_prefix :: "string \<Rightarrow> string \<Rightarrow> string option" where
  "cut_prefix s p = (if has_prefix s p then Some (drop (length p) s) else None)"

definition trim_prefix :: "string \<Rightarrow> string \<Rightarrow> string" where
  "trim_prefix s p = (if has_prefix s p then drop (length p) s else s)"

definition trim_suffix :: "string \<Rightarrow> string \<Rightarrow> string" where
  "trim_suffix s p =
     (if length p \<le> length s \<and> drop (length s - length p) s = p
      then take (length s - length p) s else s)"

fun str_contains :: "string \<Rightarrow> string \<Rightarrow> bool" where
  "str_contains [] sub = (sub = [])"
| "str_contains (c # cs) sub = (has_prefix (c # cs) sub \<or> str_contains cs sub)"

fun index_byte :: "string \<Rightarrow> char \<Rightarrow> nat option" where
  "index_byte [] b = None"
| "index_byte (c # cs) b = (if c = b then Some 0 else map_option Suc (index_byte cs b))"

text \<open>\<open>strings.Cut\<close> at a separator of one byte.\<close>

definition str_cut :: "string \<Rightarrow> char \<Rightarrow> (string \<times> string) option" where
  "str_cut s b = (case index_byte s b of
     None \<Rightarrow> None
   | Some i \<Rightarrow> Some (take i s, drop (Suc i) s))"

definition trim_right_byte :: "string \<Rightarrow> char \<Rightarrow> string" where
  "trim_right_byte s b = rev (dropWhile (\<lambda>c. c = b) (rev s))"

definition is_ascii :: "string \<Rightarrow> bool" where
  "is_ascii s \<longleftrightarrow> (\<forall>c\<in>set s. byte_of c < 128)"

definition lower_byte :: "char \<Rightarrow> char" where
  "lower_byte c = (if 65 \<le> byte_of c \<and> byte_of c \<le> 90 then char_of (byte_of c + 32) else c)"

definition to_lower :: "(string \<Rightarrow> string) \<Rightarrow> string \<Rightarrow> string" where
  "to_lower uni s = (if is_ascii s then map lower_byte s else uni s)"

fun str_join :: "string \<Rightarrow> string list \<Rightarrow> string" where
  "str_join sep [] = []"
| "str_join sep [x] = x"
| "str_join sep (x # y # ys) = x @ sep @ str_join sep (y # ys)"

text \<open>\<open>%d\<close> on a non-negative number.\<close>

fun dec_nat :: "nat \<Rightarrow> string" where
  "dec_nat n = (if n < 10 then [char_of (48 + n)] else dec_nat (n div 10) @ [char_of (48 + n mod 10)])"

declare dec_nat.simps [simp del]

text \<open>
  \<open>strings.TrimSpace\<close>: the encodings of the code points \<open>unicode.IsSpace\<close> accepts are stripped
  from both ends.
\<close>

definition space_encs :: "string list" where
  "space_encs =
     [[CHR 0x09], [CHR 0x0A], [CHR 0x0B], [CHR 0x0C], [CHR 0x0D], [CHR 0x20],
      [CHR 0xC2, CHR 0x85], [CHR 0xC2, CHR 0xA0], [CHR 0xE1, CHR 0x9A, CHR 0x80],
      [CHR 0xE2, CHR 0x80, CHR 0x80], [CHR 0xE2, CHR 0x80, CHR 0x81],
      [CHR 0xE2, CHR 0x80, CHR 0x82], [CHR 0xE2, CHR 0x80, CHR 0x83],
      [CHR 0xE2, CHR 0x80, CHR 0x84], [CHR 0xE2, CHR 0x80, CHR 0x85],
      [CHR 0xE2, CHR 0x80, CHR 0x86], [CHR 0xE2, CHR 0x80, CHR 0x87],
      [CHR 0xE2, CHR 0x80, CHR 0x88], [CHR 0xE2, CHR 0x80, CHR 0x89],
      [CHR 0xE2, CHR 0x80, CHR 0x8A], [CHR 0xE2, CHR 0x80, CHR 0xA8],
      [CHR 0xE2, CHR 0x80, CHR 0xA9], [CHR 0xE2, CHR 0x80, CHR 0xAF],
      [CHR 0xE2, CHR 0x81, CHR 0x9F], [CHR 0xE3, CHR 0x80, CHR 0x80]]"

definition lead_enc :: "string list \<Rightarrow> string \<Rightarrow> string option" where
  "lead_enc encs s = find (\<lambda>e. e \<noteq> [] \<and> has_prefix s e) encs"

lemma lead_enc_SomeD: "lead_enc encs s = Some e \<Longrightarrow> e \<noteq> [] \<and> has_prefix s e \<and> e \<in> set encs"
  by (auto simp: lead_enc_def find_Some_iff in_set_conv_nth)

lemma lead_enc_shorter: "lead_enc encs s = Some e \<Longrightarrow> length (drop (length e) s) < length s"
  by (auto dest!: lead_enc_SomeD simp: has_prefix_def) (cases s, auto)

function strip_left :: "string list \<Rightarrow> string \<Rightarrow> string" where
  "strip_left encs s = (case lead_enc encs s of
     None \<Rightarrow> s
   | Some e \<Rightarrow> strip_left encs (drop (length e) s))"
  by pat_completeness auto
termination
  by (relation "measure (\<lambda>(encs, s). length s)") (auto dest: lead_enc_shorter)

declare strip_left.simps [simp del]

definition trim_space :: "string \<Rightarrow> string" where
  "trim_space s = rev (strip_left (map rev space_encs) (rev (strip_left space_encs s)))"

lemma strip_left_none: "lead_enc encs s = None \<Longrightarrow> strip_left encs s = s"
  by (simp add: strip_left.simps)

lemma lead_enc_none: "(\<forall>e\<in>set encs. e \<noteq> [] \<longrightarrow> \<not> has_prefix s e) \<Longrightarrow> lead_enc encs s = None"
  by (auto simp: lead_enc_def find_None_iff)

definition ink_byte :: "char \<Rightarrow> bool" where
  "ink_byte c \<longleftrightarrow> 33 \<le> byte_of c \<and> byte_of c < 128"

lemma no_space_lead:
  assumes "ink_byte c"
  shows "lead_enc space_encs (c # cs) = None" and "lead_enc (map rev space_encs) (c # cs) = None"
  using assms
  by (intro lead_enc_none; auto simp: space_encs_def has_prefix_def ink_byte_def)+

lemma trim_space_ink:
  assumes "s \<noteq> []" and "ink_byte (hd s)" and "ink_byte (last s)"
  shows "trim_space s = s"
proof -
  have "strip_left space_encs s = s"
    using assms(1,2) no_space_lead(1) [of "hd s" "tl s"] by (simp add: strip_left_none)
  moreover have "hd (rev s) = last s" using assms(1) by (simp add: hd_rev)
  then have "strip_left (map rev space_encs) (rev s) = rev s"
    using assms(1,3) no_space_lead(2) [of "last s" "tl (rev s)"]
    by (metis hd_Cons_tl rev_is_Nil_conv strip_left_none)
  ultimately show ?thesis by (simp add: trim_space_def)
qed

subsection \<open>unicode/utf8\<close>

text \<open>
  \<open>utf8.DecodeRuneInString\<close>: the rune and the number of bytes it takes; a malformed sequence is
  \<open>RuneError\<close> of size 1, the empty string \<open>RuneError\<close> of size 0.
\<close>

definition rune_error :: nat where
  "rune_error = 0xFFFD"

definition cont_byte :: "nat \<Rightarrow> bool" where
  "cont_byte b \<longleftrightarrow> 0x80 \<le> b \<and> b \<le> 0xBF"

text \<open>The length a lead byte announces and the range of its second byte.\<close>

definition utf8_lead :: "nat \<Rightarrow> (nat \<times> nat \<times> nat) option" where
  "utf8_lead b =
     (if 0xC2 \<le> b \<and> b \<le> 0xDF then Some (2, 0x80, 0xBF)
      else if b = 0xE0 then Some (3, 0xA0, 0xBF)
      else if b = 0xED then Some (3, 0x80, 0x9F)
      else if 0xE1 \<le> b \<and> b \<le> 0xEF then Some (3, 0x80, 0xBF)
      else if b = 0xF0 then Some (4, 0x90, 0xBF)
      else if 0xF1 \<le> b \<and> b \<le> 0xF3 then Some (4, 0x80, 0xBF)
      else if b = 0xF4 then Some (4, 0x80, 0x8F)
      else None)"

fun decode_rune :: "string \<Rightarrow> nat \<times> nat" where
  "decode_rune [] = (rune_error, 0)"
| "decode_rune (c # cs) =
     (let b0 = byte_of c in
      if b0 < 0x80 then (b0, 1)
      else case utf8_lead b0 of
        None \<Rightarrow> (rune_error, 1)
      | Some (sz, lo, hi) \<Rightarrow>
          (if length (c # cs) < sz then (rune_error, 1)
           else let b1 = byte_of (cs ! 0) in
             if b1 < lo \<or> hi < b1 then (rune_error, 1)
             else if sz = 2 then ((b0 mod 32) * 64 + b1 mod 64, 2)
             else let b2 = byte_of (cs ! 1) in
               if \<not> cont_byte b2 then (rune_error, 1)
               else if sz = 3 then ((b0 mod 16) * 4096 + (b1 mod 64) * 64 + b2 mod 64, 3)
               else let b3 = byte_of (cs ! 2) in
                 if \<not> cont_byte b3 then (rune_error, 1)
                 else ((b0 mod 8) * 262144 + (b1 mod 64) * 4096 + (b2 mod 64) * 64 + b3 mod 64, 4)))"

declare decode_rune.simps(2) [simp del]

lemma decode_rune_ascii [simp]: "byte_of c < (128::nat) \<Longrightarrow> decode_rune (c # cs) = (byte_of c, 1)"
  by (simp add: decode_rune.simps)

lemma utf8_lead_size: "utf8_lead b = Some (sz, lo, hi) \<Longrightarrow> 2 \<le> sz \<and> sz \<le> 4"
  by (auto simp: utf8_lead_def split: if_splits)

lemma decode_rune_size:
  assumes "s \<noteq> []"
  shows "1 \<le> snd (decode_rune s) \<and> snd (decode_rune s) \<le> 4 \<and> snd (decode_rune s) \<le> length s"
proof -
  obtain c cs where s: "s = c # cs" using assms by (cases s) auto
  show ?thesis
    unfolding s
    by (auto simp: decode_rune.simps Let_def rune_error_def not_less split: option.splits prod.splits
        dest!: utf8_lead_size)
qed

lemma decode_rune_pos [simp]: "s \<noteq> [] \<Longrightarrow> 0 < snd (decode_rune s)"
  using decode_rune_size [of s] by simp

lemma decode_rune_le [simp]: "snd (decode_rune s) \<le> length s"
  using decode_rune_size [of s] by (cases s) auto

subsection \<open>Prefix facts\<close>

lemma has_prefix_append [simp]: "has_prefix (p @ s) p"
  by (simp add: has_prefix_def)

lemma has_prefix_iff: "has_prefix s p \<longleftrightarrow> (\<exists>r. s = p @ r)"
  unfolding has_prefix_def by (metis append_take_drop_id append_eq_conv_conj)

lemma trim_prefix_append [simp]: "trim_prefix (p @ s) p = s"
  by (simp add: trim_prefix_def)

lemma cut_prefix_Some_iff: "cut_prefix s p = Some r \<longleftrightarrow> s = p @ r"
  by (auto simp: cut_prefix_def has_prefix_iff)

lemma index_byte_None: "index_byte s b = None \<longleftrightarrow> b \<notin> set s"
  by (induction s) auto

lemma index_byte_SomeD:
  "index_byte s b = Some i \<Longrightarrow> i < length s \<and> s ! i = b \<and> b \<notin> set (take i s)"
  by (induction s arbitrary: i) (auto split: if_splits)

lemma index_byte_append_notin:
  "b \<notin> set xs \<Longrightarrow> index_byte (xs @ b # ys) b = Some (length xs)"
  by (induction xs) auto

end
