(* ===== verification/Gw_Glob.thy ===== *)
theory Gw_Glob
  imports Gw_Strings
begin

text \<open>
  Go's \<open>path.Match\<close>, which the gateway uses to match tool names against the
  allow, deny and scope patterns. It returns
  \<open>None\<close> for \<open>ErrBadPattern\<close> and \<open>Some b\<close> for a verdict without error.
\<close>

subsection \<open>path.Match\<close>

fun strip_stars :: "string \<Rightarrow> bool \<times> string" where
  "strip_stars [] = (False, [])"
| "strip_stars (c # cs) = (if c = CHR ''*'' then (True, snd (strip_stars cs)) else (False, c # cs))"

fun scan_split :: "bool \<Rightarrow> string \<Rightarrow> string \<times> string" where
  "scan_split inr [] = ([], [])"
| "scan_split inr (c # cs) =
     (if c = CHR 0x5C then
        (case cs of
           [] \<Rightarrow> ([c], [])
         | d # ds \<Rightarrow> let (a, b) = scan_split inr ds in (c # d # a, b))
      else if c = CHR ''*'' \<and> \<not> inr then ([], c # cs)
      else let inr' = (if c = CHR ''['' then True else if c = CHR '']'' then False else inr);
               (a, b) = scan_split inr' cs
           in (c # a, b))"

text \<open>\<open>scanChunk\<close>: whether stars were skipped, the next star-free chunk, and what is left.\<close>

definition scan_chunk :: "string \<Rightarrow> bool \<times> string \<times> string" where
  "scan_chunk pat = (let (star, p) = strip_stars pat; (chunk, rest) = scan_split False p
     in (star, chunk, rest))"

text \<open>\<open>getEsc\<close>: one possibly escaped rune of a character class.\<close>

definition get_esc :: "string \<Rightarrow> (nat \<times> string) option" where
  "get_esc chunk =
     (case chunk of
        [] \<Rightarrow> None
      | c # cs \<Rightarrow>
          if c = CHR ''-'' \<or> c = CHR '']'' then None
          else let body = (if c = CHR 0x5C then cs else c # cs) in
            if body = [] then None
            else let (r, n) = decode_rune body; rest = drop n body in
              if (r = rune_error \<and> n = 1) \<or> rest = [] then None else Some (r, rest))"

lemma decode_rune_eq_pos: "decode_rune s = (r, n) \<Longrightarrow> s \<noteq> [] \<Longrightarrow> 0 < n"
  by (metis decode_rune_pos snd_conv)

lemma get_esc_shorter: "get_esc chunk = Some (r, rest) \<Longrightarrow> length rest < length chunk \<and> rest \<noteq> []"
  by (auto simp: get_esc_def Let_def split: list.splits if_splits prod.splits
      dest!: decode_rune_eq_pos)

text \<open>The ranges of a character class up to its closing bracket: whether one of them holds \<open>r\<close>.\<close>

function class_ranges :: "nat \<Rightarrow> bool \<Rightarrow> nat \<Rightarrow> string \<Rightarrow> (bool \<times> string) option" where
  "class_ranges r matched nrange chunk =
     (if chunk \<noteq> [] \<and> hd chunk = CHR '']'' \<and> 0 < nrange then Some (matched, tl chunk)
      else case get_esc chunk of
        None \<Rightarrow> None
      | Some (lo, chunk1) \<Rightarrow>
          (if hd chunk1 = CHR ''-'' then
             (case get_esc (tl chunk1) of
                None \<Rightarrow> None
              | Some (hi, chunk2) \<Rightarrow>
                  class_ranges r (matched \<or> (lo \<le> r \<and> r \<le> hi)) (Suc nrange) chunk2)
           else class_ranges r (matched \<or> (lo \<le> r \<and> r \<le> lo)) (Suc nrange) chunk1))"
  by pat_completeness auto
termination
  by (relation "measure (\<lambda>(r, m, n, chunk). length chunk)")
    (auto dest!: get_esc_shorter)

declare class_ranges.simps [simp del]

lemma class_ranges_shorter:
  "class_ranges r m n chunk = Some (b, rest) \<Longrightarrow> length rest < length chunk"
proof (induction r m n chunk arbitrary: b rest rule: class_ranges.induct)
  case (1 r m n chunk)
  show ?case
  proof (cases "chunk \<noteq> [] \<and> hd chunk = CHR '']'' \<and> 0 < n")
    case True
    then have "class_ranges r m n chunk = Some (m, tl chunk)"
      by (simp add: class_ranges.simps [of r m n chunk])
    with "1.prems" True show ?thesis by (cases chunk) simp_all
  next
    case False
    with "1.prems" obtain lo chunk1 where lo: "get_esc chunk = Some (lo, chunk1)"
      by (auto simp: class_ranges.simps [of r m n chunk] split: option.splits if_splits)
    note short = get_esc_shorter [OF lo]
    show ?thesis
    proof (cases "hd chunk1 = CHR ''-''")
      case True
      with False lo "1.prems" obtain hi chunk2 where hi: "get_esc (tl chunk1) = Some (hi, chunk2)"
        and rest: "class_ranges r (m \<or> (lo \<le> r \<and> r \<le> hi)) (Suc n) chunk2 = Some (b, rest)"
        by (auto simp: class_ranges.simps [of r m n chunk] split: option.splits)
      from "1.IH"(1) [OF False lo refl True hi refl rest] get_esc_shorter [OF hi] short
      show ?thesis by (simp add: less_diff_conv)
    next
      case no_dash: False
      with False lo "1.prems"
      have "class_ranges r (m \<or> (lo \<le> r \<and> r \<le> lo)) (Suc n) chunk1 = Some (b, rest)"
        by (auto simp: class_ranges.simps [of r m n chunk] split: if_splits)
      from "1.IH"(2) [OF False lo refl no_dash this] short show ?thesis by simp
    qed
  qed
qed

text \<open>
  \<open>matchChunk\<close>: \<open>None\<close> for a bad pattern, \<open>Some None\<close> for no match, \<open>Some (Some rest)\<close> when the
  chunk matches a prefix of the name. After a failure the chunk is still checked for its syntax.
\<close>

function match_chunk :: "bool \<Rightarrow> string \<Rightarrow> string \<Rightarrow> string option option" where
  "match_chunk failed [] s = Some (if failed then None else Some s)"
| "match_chunk failed (c # cs) s =
     (let failed = (failed \<or> s = []) in
      if c = CHR ''['' then
        (let (r, n) = (if failed then (0, 0) else decode_rune s);
             negated = (cs \<noteq> [] \<and> hd cs = CHR ''^'');
             body = (if negated then tl cs else cs)
         in case class_ranges r False 0 body of
              None \<Rightarrow> None
            | Some (matched, rest) \<Rightarrow>
                match_chunk (failed \<or> matched = negated) rest (drop n s))
      else if c = CHR ''?'' then
        (if failed then match_chunk True cs s
         else match_chunk (hd s = CHR ''/'') cs (drop (snd (decode_rune s)) s))
      else if c = CHR 0x5C then
        (case cs of
           [] \<Rightarrow> None
         | d # ds \<Rightarrow>
             if failed then match_chunk True ds s else match_chunk (d \<noteq> hd s) ds (tl s))
      else if failed then match_chunk True cs s
      else match_chunk (c \<noteq> hd s) cs (tl s))"
  by pat_completeness auto
termination
  by (relation "measure (\<lambda>(failed, chunk, s). length chunk)")
    (simp_all, auto dest!: class_ranges_shorter split: if_splits)

declare match_chunk.simps(2) [simp del]

text \<open>The scan after a star: the chunk is tried after skipping one byte more, never a slash.\<close>

fun try_star :: "string \<Rightarrow> bool \<Rightarrow> string \<Rightarrow> string option option" where
  "try_star chunk lastc [] = Some None"
| "try_star chunk lastc (c # cs) =
     (if c = CHR ''/'' then Some None
      else case match_chunk False chunk cs of
        None \<Rightarrow> None
      | Some None \<Rightarrow> try_star chunk lastc cs
      | Some (Some t) \<Rightarrow> if lastc \<and> t \<noteq> [] then try_star chunk lastc cs else Some (Some t))"

lemma strip_stars_length: "length (snd (strip_stars p)) \<le> length p"
  by (induction p) auto

lemma scan_split_append: "fst (scan_split inr p) @ snd (scan_split inr p) = p"
proof (induction inr p rule: scan_split.induct)
  case (1 inr)
  show ?case by simp
next
  case (2 inr c cs)
  show ?case
  proof (cases "c = CHR 0x5C")
    case True
    with 2 show ?thesis by (cases cs) (simp_all add: case_prod_beta Let_def)
  next
    case False
    with 2 show ?thesis by (simp add: case_prod_beta Let_def)
  qed
qed

lemma scan_split_length: "length (snd (scan_split inr p)) \<le> length p"
  using arg_cong [OF scan_split_append [of inr p], of length] by simp

lemma scan_chunk_shorter:
  assumes "scan_chunk pat = (star, chunk, rest)" and "pat \<noteq> []"
  shows "length rest < length pat"
proof (cases pat)
  case Nil
  with assms show ?thesis by simp
next
  case (Cons c cs)
  show ?thesis
  proof (cases "c = CHR ''*''")
    case True
    then have "length (snd (strip_stars pat)) < length pat"
      using Cons strip_stars_length [of cs] by simp
    moreover have "length rest \<le> length (snd (strip_stars pat))"
      using assms(1) scan_split_length [of False "snd (strip_stars pat)"]
      by (auto simp: scan_chunk_def case_prod_beta Let_def)
    ultimately show ?thesis by linarith
  next
    case False
    with Cons assms(1) have "scan_split False pat = (chunk, rest)"
      by (auto simp: scan_chunk_def split: prod.splits)
    moreover from this Cons False have "chunk \<noteq> []"
      by (auto simp: Let_def split: if_splits list.splits prod.splits)
    ultimately show ?thesis
      using scan_split_append [of False pat] by (cases chunk) auto
  qed
qed

text \<open>The remaining chunks are only checked for their syntax once the match has failed.\<close>

function check_rest :: "string \<Rightarrow> bool option" where
  "check_rest pat =
     (if pat = [] then Some False
      else case scan_chunk pat of (star, chunk, rest) \<Rightarrow>
        (case match_chunk False chunk [] of None \<Rightarrow> None | Some _ \<Rightarrow> check_rest rest))"
  by pat_completeness auto
termination
  by (relation "measure length") (auto dest: scan_chunk_shorter [OF sym])

declare check_rest.simps [simp del]

function path_match :: "string \<Rightarrow> string \<Rightarrow> bool option" where
  "path_match pat name =
     (if pat = [] then Some (name = [])
      else case scan_chunk pat of (star, chunk, rest) \<Rightarrow>
        (if star \<and> chunk = [] then Some (CHR ''/'' \<notin> set name)
         else case match_chunk False chunk name of
           None \<Rightarrow> None
         | Some m \<Rightarrow>
             (case (case m of None \<Rightarrow> None
                    | Some t \<Rightarrow> if t = [] \<or> rest \<noteq> [] then Some t else None) of
                Some t \<Rightarrow> path_match rest t
              | None \<Rightarrow>
                  (if star then
                     (case try_star chunk (rest = []) name of
                        None \<Rightarrow> None
                      | Some (Some t) \<Rightarrow> path_match rest t
                      | Some None \<Rightarrow> check_rest rest)
                   else check_rest rest))))"
  by pat_completeness auto
termination
  by (relation "measure (\<lambda>(pat, name). length pat)") (auto dest: scan_chunk_shorter [OF sym])

declare path_match.simps [simp del]

text \<open>\<open>ok, _ := path.Match(p, name); ok\<close>: the error counts as no match.\<close>

definition glob_ok :: "string \<Rightarrow> string \<Rightarrow> bool" where
  "glob_ok pat name = (path_match pat name = Some True)"

subsection \<open>Patterns without metacharacters\<close>

definition plain_char :: "char \<Rightarrow> bool" where
  "plain_char c \<longleftrightarrow> c \<noteq> CHR ''*'' \<and> c \<noteq> CHR ''?'' \<and> c \<noteq> CHR ''['' \<and> c \<noteq> CHR 0x5C"

definition plain_pat :: "string \<Rightarrow> bool" where
  "plain_pat p \<longleftrightarrow> (\<forall>c\<in>set p. plain_char c)"

lemma plain_pat_simps [simp]:
  "plain_pat []" "plain_pat (c # cs) \<longleftrightarrow> plain_char c \<and> plain_pat cs"
  by (auto simp: plain_pat_def)

lemma scan_split_plain:
  "plain_pat p \<Longrightarrow> scan_split False p = (p, [])"
  "plain_pat p \<Longrightarrow> scan_split False (p @ CHR ''*'' # q) = (p, CHR ''*'' # q)"
  by (induction p) (auto simp: plain_char_def)

lemma match_chunk_plain_failed:
  "plain_pat p \<Longrightarrow> match_chunk True p s = Some None"
proof (induction p arbitrary: s)
  case (Cons c cs)
  then show ?case by (simp add: match_chunk.simps plain_char_def)
qed simp

lemma match_chunk_plain:
  "plain_pat p \<Longrightarrow> match_chunk False p s = Some (cut_prefix s p)"
proof (induction p arbitrary: s)
  case Nil
  then show ?case by (simp add: cut_prefix_def has_prefix_def)
next
  case (Cons c cs)
  then have plain: "plain_pat cs" "plain_char c" by simp_all
  show ?case
  proof (cases s)
    case Nil
    with plain show ?thesis
      by (simp add: match_chunk.simps plain_char_def match_chunk_plain_failed cut_prefix_def
          has_prefix_def)
  next
    case (Cons d ds)
    with plain have "match_chunk False (c # cs) s = match_chunk (c \<noteq> d) cs ds"
      by (simp add: match_chunk.simps plain_char_def)
    with Cons Cons.IH [of ds] plain show ?thesis
      by (cases "c = d") (auto simp: match_chunk_plain_failed cut_prefix_def has_prefix_def)
  qed
qed

lemma path_match_plain:
  assumes "plain_pat p"
  shows "path_match p name = Some (name = p)"
proof (cases p)
  case Nil
  then show ?thesis by (simp add: path_match.simps)
next
  case (Cons c cs)
  with assms have sc: "scan_chunk p = (False, p, [])" and ne: "p \<noteq> []"
    by (simp_all add: scan_chunk_def scan_split_plain plain_char_def)
  have "path_match [] t = Some (t = [])" for t
    by (simp add: path_match.simps)
  moreover have "check_rest [] = Some False"
    by (simp add: check_rest.simps)
  ultimately show ?thesis
    by (subst path_match.simps)
      (auto simp: ne sc match_chunk_plain assms cut_prefix_def has_prefix_iff)
qed

lemma path_match_star_only: "path_match ''*'' name = Some (CHR ''/'' \<notin> set name)"
  by (simp add: path_match.simps scan_chunk_def)

lemma path_match_prefix_star:
  assumes "plain_pat p" and "p \<noteq> []"
  shows "path_match (p @ ''*'') name = Some (\<exists>r. name = p @ r \<and> CHR ''/'' \<notin> set r)"
proof -
  have "hd p \<noteq> CHR ''*''" using assms by (cases p) (auto simp: plain_char_def)
  then have "strip_stars (p @ ''*'') = (False, p @ ''*'')"
    using assms(2) by (cases p) auto
  then have sc: "scan_chunk (p @ ''*'') = (False, p, ''*'')"
    using assms(1) scan_split_plain(2) [of p "[]"] by (simp add: scan_chunk_def)
  have "check_rest ''*'' = Some False"
    by (simp add: check_rest.simps scan_chunk_def)
  then show ?thesis
    by (subst path_match.simps)
      (auto simp: assms sc path_match_star_only match_chunk_plain cut_prefix_def has_prefix_iff)
qed

subsection \<open>Whether a pattern is bad does not depend on the name\<close>

lemma class_ranges_rest:
  "map_option snd (class_ranges r m n chunk) = map_option snd (class_ranges r' m' n chunk)"
proof (induction r m n chunk arbitrary: r' m' rule: class_ranges.induct)
  case (1 r m n chunk)
  note unf = class_ranges.simps [of r m n chunk] class_ranges.simps [of r' m' n chunk]
  show ?case
  proof (cases "chunk \<noteq> [] \<and> hd chunk = CHR '']'' \<and> 0 < n")
    case True
    then show ?thesis by (simp add: unf)
  next
    case False
    show ?thesis
    proof (cases "get_esc chunk")
      case None
      with False show ?thesis by (auto simp: unf)
    next
      case (Some p)
      obtain lo c1 where p: "p = (lo, c1)" by (cases p)
      show ?thesis
      proof (cases "hd c1 = CHR ''-''")
        case True
        show ?thesis
        proof (cases "get_esc (tl c1)")
          case None
          with False Some p True show ?thesis by (auto simp: unf)
        next
          case (Some q)
          obtain hi c2 where q: "q = (hi, c2)" by (cases q)
          note IH = "1.IH"(1) [OF False \<open>get_esc chunk = Some p\<close> p [symmetric] True Some q [symmetric]]
          from False \<open>get_esc chunk = Some p\<close> p True Some q
          show ?thesis by (simp only: unf if_False option.case prod.case if_True refl) (rule IH)
        qed
      next
        case no: False
        note IH = "1.IH"(2) [OF False Some p [symmetric] no]
        from False Some p no show ?thesis
          by (simp only: unf if_False option.case prod.case) (rule IH)
      qed
    qed
  qed
qed

lemma class_ranges_cases:
  obtains "\<And>r m. class_ranges r m n chunk = None"
  | rest where "\<And>r m. \<exists>b. class_ranges r m n chunk = Some (b, rest)"
proof (cases "class_ranges 0 False n chunk")
  case None
  then have "class_ranges r m n chunk = None" for r m
    using class_ranges_rest [of r m n chunk 0 False] by simp
  then show ?thesis by (rule that(1))
next
  case (Some p)
  then have "\<exists>b. class_ranges r m n chunk = Some (b, snd p)" for r m
    using class_ranges_rest [of r m n chunk 0 False] by auto
  then show ?thesis by (rule that(2))
qed

lemma match_chunk_error: "match_chunk f chunk s = None \<longleftrightarrow> match_chunk True chunk [] = None"
proof (induction chunk arbitrary: f s rule: length_induct)
  case (1 chunk)
  show ?case
  proof (cases chunk)
    case Nil
    then show ?thesis by simp
  next
    case (Cons c cs)
    define B where "B = (match_chunk True cs [] = None)"
    have "length cs < length chunk" by (simp add: Cons)
    then have IH: "match_chunk f cs s = None \<longleftrightarrow> B" for f s
      unfolding B_def using "1.IH" by blast
    show ?thesis
    proof (cases "c = CHR ''[''")
      case True
      define body where "body = (if cs \<noteq> [] \<and> hd cs = CHR ''^'' then tl cs else cs)"
      have body: "length body < length chunk" using Cons by (cases cs) (simp_all add: body_def)
      have eq: "match_chunk f chunk s = (let (r, n) = (if f \<or> s = [] then (0, 0) else decode_rune s)
          in case class_ranges r False 0 body of None \<Rightarrow> None
           | Some (b, rest) \<Rightarrow>
              match_chunk ((f \<or> s = []) \<or> b = (cs \<noteq> [] \<and> hd cs = CHR ''^'')) rest (drop n s))"
        for f s
        using True Cons by (simp add: match_chunk.simps(2) Let_def body_def)
      show ?thesis
      proof (cases rule: class_ranges_cases [of 0 body])
        case 1
        then show ?thesis by (simp add: eq case_prod_beta)
      next
        case (2 rest)
        obtain b0 where "class_ranges 0 False 0 body = Some (b0, rest)" using 2 by blast
        from class_ranges_shorter [OF this] body
        have IH2: "match_chunk f rest s = None \<longleftrightarrow> match_chunk True rest [] = None" for f s
          using "1.IH" by (meson less_trans)
        have "match_chunk f chunk s = None \<longleftrightarrow> match_chunk True rest [] = None" for f s
        proof -
          obtain r n where rn: "(if f \<or> s = [] then (0, 0) else decode_rune s) = (r, n)"
            by (cases "if f \<or> s = [] then (0, 0) else decode_rune s")
          obtain b where b: "class_ranges r False 0 body = Some (b, rest)" using 2 by blast
          show ?thesis unfolding eq rn Let_def prod.case b option.case by (rule IH2)
        qed
        then show ?thesis by blast
      qed
    next
      case False
      show ?thesis
      proof (cases "c = CHR 0x5C \<and> cs \<noteq> []")
        case True
        then obtain d ds where cs: "cs = d # ds" by (cases cs) auto
        define D where "D = (match_chunk True ds [] = None)"
        have "length ds < length chunk" by (simp add: Cons cs)
        then have D: "match_chunk f ds s = None \<longleftrightarrow> D" for f s
          unfolding D_def using "1.IH" by blast
        with True cs Cons False show ?thesis by (simp add: match_chunk.simps(2) Let_def)
      next
        case no: False
        with False Cons show ?thesis
          by (cases "c = CHR 0x5C") (auto simp: IH match_chunk.simps(2) Let_def)
      qed
    qed
  qed
qed

lemma try_star_error: "match_chunk f chunk t \<noteq> None \<Longrightarrow> try_star chunk l s \<noteq> None"
proof (induction s)
  case (Cons c cs)
  then have "match_chunk False chunk cs \<noteq> None" using match_chunk_error by metis
  with Cons show ?case by (auto split: option.splits)
qed simp

lemma scan_split_nil: "scan_split False p = ([], rest) \<Longrightarrow> p = [] \<or> hd p = CHR ''*''"
  by (cases p) (auto simp: Let_def split: if_splits list.splits prod.splits)

lemma strip_stars_hd: "snd (strip_stars p) = [] \<or> hd (snd (strip_stars p)) \<noteq> CHR ''*''"
  by (induction p) auto

lemma scan_chunk_empty: "scan_chunk pat = (star, [], rest) \<Longrightarrow> rest = []"
  using strip_stars_hd [of pat] scan_split_append [of False "snd (strip_stars pat)"]
  by (auto simp: scan_chunk_def split: prod.splits dest: scan_split_nil)

lemma path_match_Nil [simp]: "path_match [] name = Some (name = [])"
  by (simp add: path_match.simps)

lemma check_rest_Nil [simp]: "check_rest [] = Some False"
  by (simp add: check_rest.simps)

lemma path_match_error: "path_match pat name = None \<longleftrightarrow> check_rest pat = None"
proof (induction pat arbitrary: name rule: length_induct)
  case (1 pat)
  obtain star chunk rest where sc: "scan_chunk pat = (star, chunk, rest)" by (metis prod_cases3)
  note unf = path_match.simps [of pat name] check_rest.simps [of pat] sc
  consider "pat = []" | "pat \<noteq> []" "star \<and> chunk = []" | "pat \<noteq> []" "\<not> (star \<and> chunk = [])" by blast
  then show ?case
  proof cases
    case 1
    then show ?thesis by (simp add: path_match.simps)
  next
    case 2
    with sc have "rest = []" using scan_chunk_empty by simp
    with 2 show ?thesis by (simp add: unf)
  next
    case 3
    have IH: "path_match rest n = None \<longleftrightarrow> check_rest rest = None" for n
      using "1" scan_chunk_shorter [OF sc] 3 by blast
    show ?thesis
    proof (cases "match_chunk False chunk name")
      case None
      with 3 match_chunk_error [of False chunk] show ?thesis by (simp add: unf)
    next
      case (Some m)
      then have "match_chunk False chunk [] \<noteq> None" and t: "try_star chunk (rest = []) name \<noteq> None"
        using match_chunk_error try_star_error by (metis option.discI)+
      then have cr: "check_rest pat = check_rest rest"
        using 3 by (auto simp: unf split: option.splits)
      have "path_match pat name = None \<longleftrightarrow> check_rest rest = None"
        using 3 Some t by (auto simp: unf(1) sc IH split: option.splits)
      then show ?thesis by (simp add: cr)
    qed
  qed
qed

lemma path_match_error_independent: "path_match pat a = None \<longleftrightarrow> path_match pat b = None"
  by (simp only: path_match_error)

end
