(* ===== verification/Gw_Router.thy ===== *)
theory Gw_Router
  imports Gw_Strings
begin

text \<open>
  The host and path router of \<open>internal/gateway/router/router.go\<close>: one byte trie per host and one
  for requests of any host. A node of the trie is a \<open>node\<close>; its children are a partial function
  from bytes. A lookup takes the longest registered path that ends at a segment boundary of the
  request path, first among the routes of the host, then among those of any host.

  The abstract view of a trie is \<open>node_get\<close>, the route registered for exactly a path; the abstract
  view of a router is \<open>rtab\<close>, the same for a host and a path. The locale \<open>path_router\<close> states what
  the gateway relies on over that view, and is interpreted on the trie.
\<close>

subsection \<open>The trie\<close>

datatype 'v node = Node (children: "char \<Rightarrow> 'v node option") (val: "'v option") (is_route: bool)

definition new_node :: "'v node" where
  "new_node = Node (\<lambda>_. None) None False"

record 'v router =
  hosts :: "(string, 'v node) gomap"
  any_host :: "'v node"

definition new_router :: "'v router" where
  "new_router = \<lparr>hosts = [], any_host = new_node\<rparr>"

text \<open>The loop of \<open>Add\<close> that walks the path, creating the nodes it lacks, and marks the last.\<close>

fun node_add :: "string \<Rightarrow> 'v \<Rightarrow> 'v node \<Rightarrow> 'v node" where
  "node_add [] v (Node ch _ _) = Node ch (Some v) True"
| "node_add (c # cs) v (Node ch w r) =
     Node (ch(c \<mapsto> node_add cs v (case ch c of None \<Rightarrow> new_node | Some n \<Rightarrow> n))) w r"

definition router_add :: "(string \<Rightarrow> string) \<Rightarrow> 'v router \<Rightarrow> string \<Rightarrow> string \<Rightarrow> 'v \<Rightarrow> 'v router" where
  "router_add uni r host path v =
     (if host \<noteq> [] then
        let h = to_lower uni host;
            n = (case map_of (hosts r) h of None \<Rightarrow> new_node | Some n \<Rightarrow> n)
        in r\<lparr>hosts := AList.update h (node_add path v n) (hosts r)\<rparr>
      else r\<lparr>any_host := node_add path v (any_host r)\<rparr>)"

text \<open>\<open>isBoundary\<close>: a prefix match of the given length is structurally valid.\<close>

definition is_boundary :: "string \<Rightarrow> nat \<Rightarrow> bool" where
  "is_boundary path k \<longleftrightarrow>
     k = length path \<or> (0 < k \<and> path ! (k - 1) = CHR ''/'') \<or> (k < length path \<and> path ! k = CHR ''/'')"

text \<open>The walk of \<open>lookupNode\<close>: \<open>i\<close> bytes are matched, \<open>rest\<close> are left, \<open>best\<close> is the route so far.\<close>

fun lookup_walk :: "string \<Rightarrow> nat \<Rightarrow> string \<Rightarrow> 'v node \<Rightarrow> 'v option \<Rightarrow> 'v option" where
  "lookup_walk path i [] nd best = best"
| "lookup_walk path i (c # rest) nd best =
     (case children nd c of
        None \<Rightarrow> best
      | Some n \<Rightarrow>
          lookup_walk path (Suc i) rest n
            (if is_route n \<and> is_boundary path (Suc i) then val n else best))"

definition lookup_node :: "'v node \<Rightarrow> string \<Rightarrow> 'v option" where
  "lookup_node n path =
     lookup_walk path 0 path n (if is_route n \<and> is_boundary path 0 then val n else None)"

definition router_lookup :: "(string \<Rightarrow> string) \<Rightarrow> 'v router \<Rightarrow> string \<Rightarrow> string \<Rightarrow> 'v option" where
  "router_lookup uni r host path =
     (let h = to_lower uni host in
      case (case map_of (hosts r) h of None \<Rightarrow> None | Some n \<Rightarrow> lookup_node n path) of
        Some v \<Rightarrow> Some v
      | None \<Rightarrow> lookup_node (any_host r) path)"

subsection \<open>The exact-path view of a trie\<close>

fun node_at :: "'v node \<Rightarrow> string \<Rightarrow> 'v node option" where
  "node_at n [] = Some n"
| "node_at n (c # cs) = (case children n c of None \<Rightarrow> None | Some m \<Rightarrow> node_at m cs)"

definition node_get :: "'v node \<Rightarrow> string \<Rightarrow> 'v option" where
  "node_get n p = (case node_at n p of None \<Rightarrow> None | Some m \<Rightarrow> if is_route m then val m else None)"

lemma node_get_Nil [simp]: "node_get n [] = (if is_route n then val n else None)"
  by (simp add: node_get_def)

lemma node_get_Cons [simp]:
  "node_get n (c # cs) = (case children n c of None \<Rightarrow> None | Some m \<Rightarrow> node_get m cs)"
  by (simp add: node_get_def split: option.splits)

lemma node_get_new [simp]: "node_get new_node p = None"
  by (cases p) (simp_all add: new_node_def)

lemma node_get_add: "node_get (node_add p v n) q = (if q = p then Some v else node_get n q)"
proof (induction p v n arbitrary: q rule: node_add.induct)
  case (1 v ch w r)
  then show ?case by (cases q) auto
next
  case (2 c cs v ch w r)
  show ?case
  proof (cases q)
    case Nil
    then show ?thesis by simp
  next
    case (Cons d ds)
    with 2 [of ds] show ?thesis by (cases "ch c") auto
  qed
qed

text \<open>Every node on the way to a path holds a value exactly when it is a route.\<close>

definition node_ok :: "'v node \<Rightarrow> bool" where
  "node_ok n \<longleftrightarrow> (\<forall>p m. node_at n p = Some m \<longrightarrow> (is_route m \<longleftrightarrow> val m \<noteq> None))"

lemma node_okI_child:
  assumes "is_route n \<longleftrightarrow> val n \<noteq> None" and "\<And>c m. children n c = Some m \<Longrightarrow> node_ok m"
  shows "node_ok n"
  unfolding node_ok_def
proof (intro allI impI)
  fix p m
  assume "node_at n p = Some m"
  with assms show "is_route m \<longleftrightarrow> val m \<noteq> None"
    by (cases p) (fastforce simp: node_ok_def split: option.splits)+
qed

lemma node_okD: "node_ok n \<Longrightarrow> is_route n \<longleftrightarrow> val n \<noteq> None"
  unfolding node_ok_def by (metis node_at.simps(1))

lemma node_ok_child: "node_ok n \<Longrightarrow> children n c = Some m \<Longrightarrow> node_ok m"
  unfolding node_ok_def by (metis node_at.simps(2) option.simps(5))

lemma node_ok_new [simp, inv_intros]: "node_ok new_node"
  by (rule node_okI_child) (simp_all add: new_node_def)

lemma node_ok_add [inv_intros]: "node_ok n \<Longrightarrow> node_ok (node_add p v n)"
proof (induction p v n rule: node_add.induct)
  case (1 v ch w r)
  have "ch c = Some m \<Longrightarrow> node_ok m" for c m
    by (rule node_ok_child [OF 1]) simp
  then show ?case by (auto intro: node_okI_child [of "Node ch (Some v) True"])
next
  case (2 c cs v ch w r)
  have old: "ch d = Some m \<Longrightarrow> node_ok m" for d m
    by (rule node_ok_child [OF "2.prems"]) simp
  then have "node_ok (case ch c of None \<Rightarrow> new_node | Some n \<Rightarrow> n)"
    by (auto split: option.split)
  then have new: "node_ok (node_add cs v (case ch c of None \<Rightarrow> new_node | Some n \<Rightarrow> n))"
    by (rule "2.IH")
  show ?case
    by (rule node_okI_child) (use node_okD [OF "2.prems"] old new in \<open>auto split: if_splits\<close>)
qed

subsection \<open>The longest boundary prefix\<close>

text \<open>What a lookup means over the exact-path view: the longest prefix that is a route.\<close>

fun best_prefix :: "(string \<Rightarrow> 'v option) \<Rightarrow> string \<Rightarrow> nat \<Rightarrow> 'v option" where
  "best_prefix f path 0 = (if is_boundary path 0 then f [] else None)"
| "best_prefix f path (Suc k) =
     (if f (take (Suc k) path) \<noteq> None \<and> is_boundary path (Suc k) then f (take (Suc k) path)
      else best_prefix f path k)"

lemma best_prefix_Some:
  "best_prefix f path n = Some v \<longleftrightarrow>
     (\<exists>k\<le>n. f (take k path) = Some v \<and> is_boundary path k \<and>
        (\<forall>j. k < j \<longrightarrow> j \<le> n \<longrightarrow> is_boundary path j \<longrightarrow> f (take j path) = None))"
proof (induction n)
  case 0
  then show ?case by auto
next
  case (Suc n)
  show ?case
  proof (cases "f (take (Suc n) path) \<noteq> None \<and> is_boundary path (Suc n)")
    case True
    then have "best_prefix f path (Suc n) = f (take (Suc n) path)" by simp
    with True show ?thesis
      by (metis le_Suc_eq nless_le option.distinct(1) option.inject order_refl not_less_eq_eq)
  next
    case False
    then have "best_prefix f path (Suc n) = best_prefix f path n" by auto
    with False show ?thesis by (simp only: Suc) (auto simp: le_Suc_eq)
  qed
qed

lemma best_prefix_None:
  "best_prefix f path n = None \<longleftrightarrow> (\<forall>k\<le>n. is_boundary path k \<longrightarrow> f (take k path) = None)"
  by (induction n) (auto simp: le_Suc_eq)

lemma best_prefix_cong:
  "(\<And>k. k \<le> n \<Longrightarrow> f (take k path) = g (take k path)) \<Longrightarrow>
     best_prefix f path n = best_prefix g path n"
  by (induction n) auto

lemma node_get_none_beyond:
  "node_at n p = None \<Longrightarrow> node_get n (p @ q) = None"
  by (induction n p rule: node_at.induct) (auto split: option.splits)

lemma node_at_snoc:
  "node_at n (p @ [c]) = (case node_at n p of None \<Rightarrow> None | Some m \<Rightarrow> children m c)"
  by (induction n p rule: node_at.induct) (auto split: option.splits)

lemma best_prefix_stuck:
  assumes "i \<le> n" and "\<And>j. i < j \<Longrightarrow> j \<le> n \<Longrightarrow> f (take j path) = None"
  shows "best_prefix f path n = best_prefix f path i"
  using assms
proof (induction n)
  case (Suc n)
  show ?case
  proof (cases "i = Suc n")
    case False
    with Suc have "best_prefix f path n = best_prefix f path i" by simp
    with Suc False show ?thesis by simp
  qed simp
qed simp

lemma lookup_walk_best:
  assumes "node_ok n" and "path = pre @ rest" and "node_at n pre = Some nd"
    and "i = length pre" and "best = best_prefix (node_get n) path i"
  shows "lookup_walk path i rest nd best = best_prefix (node_get n) path (length path)"
  using assms
proof (induction rest arbitrary: pre nd i best)
  case Nil
  then show ?case by simp
next
  case (Cons c rest)
  have next_at: "node_at n (pre @ [c]) = children nd c"
    using Cons.prems(3) by (simp add: node_at_snoc)
  show ?case
  proof (cases "children nd c")
    case None
    have "node_get n (take j path) = None" if j: "i < j" "j \<le> length path" for j
    proof -
      obtain d where "j = length pre + Suc d"
        using less_imp_Suc_add [of "length pre" j] j(1) Cons.prems(4) by auto
      then have "take j path = (pre @ [c]) @ take d rest" using Cons.prems(2) by simp
      with None next_at show ?thesis by (simp only: node_get_none_beyond)
    qed
    then have "best_prefix (node_get n) path (length path) = best_prefix (node_get n) path i"
      using Cons.prems(2,4) by (intro best_prefix_stuck) auto
    with None Cons.prems(5) show ?thesis by simp
  next
    case (Some m)
    have tk: "take (Suc i) path = pre @ [c]" using Cons.prems(2,4) by simp
    have "node_get n (pre @ [c]) = (if is_route m then val m else None)"
      using next_at Some by (simp add: node_get_def)
    moreover have "node_ok n \<Longrightarrow> is_route m \<longleftrightarrow> val m \<noteq> None"
      using next_at Some by (auto simp: node_ok_def)
    ultimately have step: "(if is_route m \<and> is_boundary path (Suc i) then val m else best)
        = best_prefix (node_get n) path (Suc i)"
      using Cons.prems(1,5) by (auto simp: tk)
    have "lookup_walk path (Suc i) rest m (best_prefix (node_get n) path (Suc i))
        = best_prefix (node_get n) path (length path)"
      by (rule Cons.IH [of "pre @ [c]"]) (use Cons.prems next_at Some in simp_all)
    with Some show ?thesis by (simp only: lookup_walk.simps option.case step)
  qed
qed

lemma lookup_node_best:
  "node_ok n \<Longrightarrow> lookup_node n path = best_prefix (node_get n) path (length path)"
  unfolding lookup_node_def
  by (rule lookup_walk_best [where pre = "[]"]) auto

subsection \<open>The router over its table of routes\<close>

text \<open>The key of a route's host: none for a route of any host, else the lowered name.\<close>

definition host_key :: "(string \<Rightarrow> string) \<Rightarrow> string \<Rightarrow> string option" where
  "host_key uni host = (if host = [] then None else Some (to_lower uni host))"

definition rtab :: "'v router \<Rightarrow> string option \<Rightarrow> string \<Rightarrow> 'v option" where
  "rtab r k p = (case k of
     None \<Rightarrow> node_get (any_host r) p
   | Some h \<Rightarrow> (case map_of (hosts r) h of None \<Rightarrow> None | Some n \<Rightarrow> node_get n p))"

definition router_ok :: "'v router \<Rightarrow> bool" where
  "router_ok r \<longleftrightarrow> node_ok (any_host r) \<and> (\<forall>h n. map_of (hosts r) h = Some n \<longrightarrow> node_ok n)"

lemma router_ok_new [simp, inv_intros]: "router_ok new_router"
  by (simp add: router_ok_def new_router_def)

lemma router_ok_add [inv_intros]: "router_ok r \<Longrightarrow> router_ok (router_add uni r h p v)"
  by (auto simp: router_ok_def router_add_def Let_def intro!: node_ok_add split: option.splits)

lemma rtab_new [simp]: "rtab new_router k p = None"
  by (simp add: rtab_def new_router_def split: option.splits)

lemma rtab_add:
  "rtab (router_add uni r h p v) k q = (if k = host_key uni h \<and> q = p then Some v else rtab r k q)"
  by (auto simp: rtab_def router_add_def host_key_def Let_def node_get_add split: option.splits)

lemma router_lookup_tab:
  assumes "router_ok r"
  shows "router_lookup uni r host path =
     (case best_prefix (rtab r (Some (to_lower uni host))) path (length path) of
        Some v \<Rightarrow> Some v
      | None \<Rightarrow> best_prefix (rtab r None) path (length path))"
proof -
  have "rtab r None = node_get (any_host r)" by (simp add: rtab_def fun_eq_iff)
  then have any: "lookup_node (any_host r) path = best_prefix (rtab r None) path (length path)"
    using assms by (simp add: router_ok_def lookup_node_best)
  show ?thesis
  proof (cases "map_of (hosts r) (to_lower uni host)")
    case None
    then have "best_prefix (rtab r (Some (to_lower uni host))) path (length path) = None"
      by (simp add: best_prefix_None rtab_def)
    with None any show ?thesis by (simp add: router_lookup_def Let_def)
  next
    case (Some n)
    then have "lookup_node n path = best_prefix (rtab r (Some (to_lower uni host))) path (length path)"
      using assms by (auto simp: router_ok_def lookup_node_best rtab_def intro!: best_prefix_cong)
    with Some any show ?thesis by (simp add: router_lookup_def Let_def split: option.splits)
  qed
qed

subsection \<open>The interface the gateway uses\<close>

locale path_router =
  fixes empty :: "'r"
    and add :: "'r \<Rightarrow> string \<Rightarrow> string \<Rightarrow> 'v \<Rightarrow> 'r"
    and lookup :: "'r \<Rightarrow> string \<Rightarrow> string \<Rightarrow> 'v option"
    and ok :: "'r \<Rightarrow> bool"
    and tab :: "'r \<Rightarrow> string option \<Rightarrow> string \<Rightarrow> 'v option"
    and key :: "string \<Rightarrow> string option"
    and req_key :: "string \<Rightarrow> string"
  assumes ok_empty: "ok empty"
    and ok_add: "ok r \<Longrightarrow> ok (add r h p v)"
    and tab_empty: "tab empty k q = None"
    and tab_add: "tab (add r h p v) k q = (if k = key h \<and> q = p then Some v else tab r k q)"
    and lookup_tab: "ok r \<Longrightarrow> lookup r host path =
      (case best_prefix (tab r (Some (req_key host))) path (length path) of
         Some v \<Rightarrow> Some v
       | None \<Rightarrow> best_prefix (tab r None) path (length path))"
begin

abbreviation build :: "(string \<times> string \<times> 'v) list \<Rightarrow> 'r" where
  "build rs \<equiv> fold (\<lambda>(h, p, v) r. add r h p v) rs empty"

abbreviation keyed :: "(string \<times> string \<times> 'v) list \<Rightarrow> ((string option \<times> string) \<times> 'v) list" where
  "keyed rs \<equiv> map (\<lambda>(h, p, v). ((key h, p), v)) rs"

lemma ok_build: "ok (build rs)"
proof -
  have "ok r \<Longrightarrow> ok (fold (\<lambda>(h, p, v) r. add r h p v) rs r)" for r
    by (induction rs arbitrary: r) (auto intro: ok_add)
  then show ?thesis using ok_empty .
qed

lemma tab_fold:
  "tab (fold (\<lambda>(h, p, v) r. add r h p v) rs r) k q =
     (case map_of (rev (keyed rs)) (k, q) of Some v \<Rightarrow> Some v | None \<Rightarrow> tab r k q)"
proof (induction rs arbitrary: r)
  case (Cons x rs)
  then show ?case
    by (cases x) (auto simp: tab_add map_add_def split: option.splits)
qed simp

lemma tab_build: "tab (build rs) k = (\<lambda>q. map_of (rev (keyed rs)) (k, q))"
  by (simp add: fun_eq_iff tab_fold tab_empty split: option.splits)

lemma lookup_build:
  "lookup (build rs) host path =
     (case best_prefix (\<lambda>p. map_of (rev (keyed rs)) (Some (req_key host), p)) path (length path) of
        Some v \<Rightarrow> Some v
      | None \<Rightarrow> best_prefix (\<lambda>p. map_of (rev (keyed rs)) (None, p)) path (length path))"
  unfolding lookup_tab [OF ok_build] tab_build ..

lemma tab_build_in:
  assumes "tab (build rs) k q = Some v"
  shows "\<exists>h. (h, q, v) \<in> set rs \<and> key h = k"
  using assms by (auto simp: tab_build dest!: map_of_SomeD)

lemma lookup_build_sound:
  assumes "lookup (build rs) host path = Some v"
  obtains h p where "(h, p, v) \<in> set rs" and "key h = None \<or> key h = Some (req_key host)"
    and "has_prefix path p" and "is_boundary path (length p)"
proof -
  have "\<exists>k. (k = None \<or> k = Some (req_key host)) \<and>
      best_prefix (tab (build rs) k) path (length path) = Some v"
    using assms lookup_tab [OF ok_build, of rs host path] by (auto split: option.splits)
  then obtain k n where k: "k = None \<or> k = Some (req_key host)"
    and "n \<le> length path" and "tab (build rs) k (take n path) = Some v"
    and "is_boundary path n"
    by (auto simp: best_prefix_Some)
  moreover from this obtain h where "(h, take n path, v) \<in> set rs" and "key h = k"
    using tab_build_in by blast
  ultimately show thesis by (intro that [of h "take n path"]) (auto simp: has_prefix_def)
qed

lemma lookup_build_none:
  assumes none: "lookup (build rs) host path = None" and route: "(h, p, v) \<in> set rs"
    and host: "key h = None \<or> key h = Some (req_key host)" and pre: "has_prefix path p"
  shows "\<not> is_boundary path (length p)"
proof -
  have "best_prefix (tab (build rs) (key h)) path (length path) = None"
    using none host unfolding lookup_tab [OF ok_build] by (auto split: option.splits)
  then have "\<forall>k\<le>length path. is_boundary path k \<longrightarrow> tab (build rs) (key h) (take k path) = None"
    by (simp only: best_prefix_None)
  moreover have "map_of (rev (keyed rs)) (key h, p) \<noteq> None"
    unfolding map_of_eq_None_iff using route by force
  moreover have "take (length p) path = p" "length p \<le> length path"
    using pre by (auto simp: has_prefix_iff)
  ultimately show ?thesis by (auto simp: tab_build)
qed

end

interpretation trie: path_router new_router "router_add uni" "router_lookup uni" router_ok rtab
    "host_key uni" "to_lower uni" for uni
  by unfold_locales (auto intro: inv_intros simp: rtab_add router_lookup_tab)

subsection \<open>Properties\<close>

text \<open>The router a list of \<open>Add\<close> calls builds, and the last route added for a key and a path.\<close>

definition build_router :: "(string \<Rightarrow> string) \<Rightarrow> (string \<times> string \<times> 'v) list \<Rightarrow> 'v router" where
  "build_router uni rs = fold (\<lambda>(h, p, v) r. router_add uni r h p v) rs new_router"

definition last_route ::
  "(string \<Rightarrow> string) \<Rightarrow> (string \<times> string \<times> 'v) list \<Rightarrow> string option \<Rightarrow> string \<Rightarrow> 'v option" where
  "last_route uni rs k p = map_of (rev (map (\<lambda>(h, p, v). ((host_key uni h, p), v)) rs)) (k, p)"

text \<open>
  C38. A lookup in the router that a sequence of \<open>Add\<close> calls builds answers with the longest
  registered path that is a segment-boundary prefix of the request path, among the routes of the
  request's host first and among the routes of any host only when no route of the host matches;
  of two routes for the same host and path the later one counts.
\<close>

theorem router_lookup_longest:
  "router_lookup uni (build_router uni rs) host path =
     (case best_prefix (last_route uni rs (Some (to_lower uni host))) path (length path) of
        Some v \<Rightarrow> Some v
      | None \<Rightarrow> best_prefix (last_route uni rs None) path (length path))"
  unfolding build_router_def last_route_def by (rule trie.lookup_build)

text \<open>
  The router never answers with a route the request does not belong to: the route's path is a
  prefix of the request path that ends at a segment boundary (so \<open>/staging-mcp\<close> is never served by
  \<open>/staging\<close>), and its host is empty or equals the request's host up to case.
\<close>

theorem router_lookup_boundary:
  assumes "router_lookup uni (build_router uni rs) host path = Some v"
  shows "\<exists>h p. (h, p, v) \<in> set rs \<and> (h = [] \<or> to_lower uni h = to_lower uni host) \<and>
    (\<exists>r. path = p @ r \<and> (r = [] \<or> hd r = CHR ''/'' \<or> (p \<noteq> [] \<and> last p = CHR ''/'')))"
proof -
  from assms obtain h p where hp: "(h, p, v) \<in> set rs" "has_prefix path p"
    "is_boundary path (length p)"
    and key: "host_key uni h = None \<or> host_key uni h = Some (to_lower uni host)"
    unfolding build_router_def by (rule trie.lookup_build_sound)
  from hp(2) obtain r where r: "path = p @ r" by (auto simp: has_prefix_iff)
  have "r = [] \<or> hd r = CHR ''/'' \<or> (p \<noteq> [] \<and> last p = CHR ''/'')"
    using hp(3) unfolding r
    by (cases r) (auto simp: is_boundary_def nth_append last_conv_nth)
  with hp(1) key r show ?thesis by (auto simp: host_key_def split: if_splits)
qed

definition demo_routes :: "(string \<times> string \<times> nat) list" where
  "demo_routes = [([], ''/staging'', 1), (''Gw'', ''/a'', 2)]"

theorem router_lookup_boundary_witness:
  "router_lookup (\<lambda>s. s) (build_router (\<lambda>s. s) demo_routes) ''gw'' ''/staging/x'' = Some 1 \<and>
   (\<exists>h p. (h, p, 1) \<in> set demo_routes \<and> (h = [] \<or> to_lower (\<lambda>s. s) h = to_lower (\<lambda>s. s) ''gw'') \<and>
      (\<exists>r. ''/staging/x'' = p @ r \<and>
         (r = [] \<or> hd r = CHR ''/'' \<or> (p \<noteq> [] \<and> last p = CHR ''/''))))"
proof -
  have h: "router_lookup (\<lambda>s. s) (build_router (\<lambda>s. s) demo_routes) ''gw'' ''/staging/x'' = Some 1"
    by (simp add: demo_routes_def build_router_def router_add_def router_lookup_def new_router_def
        new_node_def lookup_node_def is_boundary_def to_lower_def is_ascii_def lower_byte_def)
  show ?thesis using h router_lookup_boundary [OF h] by blast
qed

end
