(* ===== verification/Gw_Names.thy ===== *)
theory Gw_Names
  imports Gw_Strings
begin

text \<open>
  Name spaces and collisions, \<open>internal/gateway/ns.go\<close>: the prefixed names of the upstreams' items,
  the detection of names two items share, and the per-kind collision sets of \<open>Build\<close>, which let
  identical items share a name. Log lines are left out; nothing reads them.
\<close>

record collision =
  col_upstream :: string
  col_tool :: string
  col_result :: string

record collisions_error =
  ce_kind :: string
  ce_conflicts :: "collision list"
  ce_counts :: "(string, nat) gomap"

definition NamespaceName :: "string \<Rightarrow> string \<Rightarrow> string" where
  "NamespaceName pfx tool = (if pfx = [] then tool else pfx @ tool)"

lemma NamespaceName_append [simp]: "NamespaceName pfx tool = pfx @ tool"
  by (simp add: NamespaceName_def)

subsection \<open>DetectCollisions\<close>

definition upstream_names :: "(string, 'a) gomap \<Rightarrow> string list" where
  "upstream_names m = sort (map fst m)"

definition add_owners ::
  "(string, string) gomap \<Rightarrow> (string, string list) gomap \<Rightarrow> string
     \<Rightarrow> (string, (string \<times> string) list) gomap \<Rightarrow> (string, (string \<times> string) list) gomap" where
  "add_owners pfxs tool_sets up m =
     fold (\<lambda>t. app_put (NamespaceName (str_get pfxs up) t) (up, t)) (set_get tool_sets up) m"

definition name_owners ::
  "(string, string) gomap \<Rightarrow> (string, string list) gomap
     \<Rightarrow> (string, (string \<times> string) list) gomap" where
  "name_owners pfxs tool_sets =
     fold (add_owners pfxs tool_sets) (upstream_names tool_sets) []"

definition colliding_names :: "(string, (string \<times> string) list) gomap \<Rightarrow> string list" where
  "colliding_names owners = sort (filter (\<lambda>res. 1 < length (set_get owners res)) (map fst owners))"

definition count_owners ::
  "(string, string list) gomap \<Rightarrow> (string \<times> string) list \<Rightarrow> (string, nat) gomap \<Rightarrow> (string, nat) gomap" where
  "count_owners tool_sets os counts =
     fold (\<lambda>o' m. if map_of m (fst o') = None
        then AList.update (fst o') (length (set_get tool_sets (fst o'))) m else m) os counts"

definition conflicts_of :: "(string, (string \<times> string) list) gomap \<Rightarrow> collision list" where
  "conflicts_of owners = concat (map (\<lambda>res. map (\<lambda>(up, t).
     \<lparr>col_upstream = up, col_tool = t, col_result = res\<rparr>) (set_get owners res)) (colliding_names owners))"

definition DetectCollisions ::
  "string \<Rightarrow> (string, string) gomap \<Rightarrow> (string, string list) gomap \<Rightarrow> collisions_error option" where
  "DetectCollisions kind pfxs tool_sets =
     (let owners = name_owners pfxs tool_sets;
          colliding = colliding_names owners;
          conflicts = conflicts_of owners
      in if conflicts \<noteq> [] then
           Some \<lparr>ce_kind = kind, ce_conflicts = conflicts,
             ce_counts = fold (\<lambda>res. count_owners tool_sets (set_get owners res)) colliding []\<rparr>
         else None)"

text \<open>Everything an upstream exposes, with its final name.\<close>

definition final_names ::
  "(string, string) gomap \<Rightarrow> (string, string list) gomap \<Rightarrow> (string \<times> string) list" where
  "final_names pfxs tool_sets =
     concat (map (\<lambda>up. map (\<lambda>t. (up, t)) (set_get tool_sets up)) (upstream_names tool_sets))"

definition final_name :: "(string, string) gomap \<Rightarrow> string \<times> string \<Rightarrow> string" where
  "final_name pfxs = (\<lambda>(up, t). NamespaceName (str_get pfxs up) t)"

lemma set_get_fold_app_put:
  "set_get (fold (\<lambda>x. app_put (k x) (v x)) xs m) res =
     set_get m res @ map v (filter (\<lambda>x. k x = res) xs)"
  by (induction xs arbitrary: m) auto

lemma set_get_add_owners:
  "set_get (add_owners pfxs sets up m) res =
     set_get m res @ filter (\<lambda>o'. final_name pfxs o' = res) (map (Pair up) (set_get sets up))"
  by (simp add: add_owners_def set_get_fold_app_put filter_map final_name_def comp_def)

lemma name_owners_get:
  "set_get (name_owners pfxs sets) res =
     filter (\<lambda>o'. final_name pfxs o' = res) (final_names pfxs sets)"
proof -
  have "set_get (fold (add_owners pfxs sets) ups m) res =
      set_get m res @ filter (\<lambda>o'. final_name pfxs o' = res)
        (concat (map (\<lambda>up. map (Pair up) (set_get sets up)) ups))" for ups m
    by (induction ups arbitrary: m) (simp_all add: set_get_add_owners)
  then show ?thesis by (simp add: name_owners_def final_names_def)
qed

lemma fst_set_app_put [simp]: "fst ` set (app_put k x m) = insert k (fst ` set m)"
  by (simp add: app_put_def dom_update)

lemma name_owners_keys:
  "fst ` set (name_owners pfxs sets) = final_name pfxs ` set (final_names pfxs sets)"
proof -
  have inner: "fst ` set (fold (\<lambda>t. app_put (k t) (v t)) ts m) = fst ` set m \<union> k ` set ts"
    for k v ts and m :: "(string, (string \<times> string) list) gomap"
    by (induction ts arbitrary: m) auto
  have "fst ` set (fold (add_owners pfxs sets) ups m) = fst ` set m \<union>
      final_name pfxs ` set (concat (map (\<lambda>up. map (Pair up) (set_get sets up)) ups))" for ups m
    by (induction ups arbitrary: m)
      (auto simp: add_owners_def inner final_name_def image_image image_Un)
  then show ?thesis by (simp add: name_owners_def final_names_def)
qed

lemma colliding_names_set:
  "set (colliding_names (name_owners pfxs sets)) =
     {res. 1 < length (filter (\<lambda>o'. final_name pfxs o' = res) (final_names pfxs sets))}"
proof -
  have "res \<in> fst ` set (name_owners pfxs sets)"
    if "1 < length (filter (\<lambda>o'. final_name pfxs o' = res) (final_names pfxs sets))" for res
    using length_filter_exists [OF that] by (auto simp: name_owners_keys)
  then show ?thesis by (auto simp: colliding_names_def name_owners_get)
qed

lemma conflicts_of_mem:
  "c \<in> set (conflicts_of owners) \<longleftrightarrow> col_result c \<in> set (colliding_names owners) \<and>
     (col_upstream c, col_tool c) \<in> set (set_get owners (col_result c))"
  by (cases c) (force simp: conflicts_of_def)

lemma conflicts_of_iff:
  "c \<in> set (conflicts_of (name_owners pfxs sets)) \<longleftrightarrow>
     (col_upstream c, col_tool c) \<in> set (final_names pfxs sets) \<and>
     final_name pfxs (col_upstream c, col_tool c) = col_result c \<and>
     1 < length (filter (\<lambda>o'. final_name pfxs o' = col_result c) (final_names pfxs sets))"
  by (auto simp: conflicts_of_mem colliding_names_set name_owners_get)

lemma DetectCollisions_Some:
  "DetectCollisions kind pfxs sets = Some e \<Longrightarrow>
     ce_conflicts e = conflicts_of (name_owners pfxs sets) \<and> ce_kind e = kind"
  by (auto simp: DetectCollisions_def Let_def split: if_splits)

lemma conflicts_of_Nil_iff:
  "conflicts_of (name_owners pfxs sets) = [] \<longleftrightarrow>
     distinct (map (final_name pfxs) (final_names pfxs sets))"
proof -
  let ?n = "\<lambda>res. length (filter (\<lambda>o'. final_name pfxs o' = res) (final_names pfxs sets))"
  have "\<exists>c. c \<in> set (conflicts_of (name_owners pfxs sets))" if n: "1 < ?n res" for res
  proof -
    obtain up t where "(up, t) \<in> set (final_names pfxs sets)" "final_name pfxs (up, t) = res"
      using length_filter_exists [OF n] by auto
    with n have "\<lparr>col_upstream = up, col_tool = t, col_result = res\<rparr>
        \<in> set (conflicts_of (name_owners pfxs sets))"
      by (simp add: conflicts_of_iff)
    then show ?thesis ..
  qed
  then have "conflicts_of (name_owners pfxs sets) = [] \<longleftrightarrow> (\<forall>res. ?n res \<le> 1)"
    unfolding Nil_iff_notin by (metis conflicts_of_iff not_le)
  then show ?thesis by (simp add: distinct_filter_length filter_map comp_def)
qed

lemma DetectCollisions_None:
  "DetectCollisions kind pfxs sets = None \<longleftrightarrow>
     distinct (map (final_name pfxs) (final_names pfxs sets))"
  unfolding conflicts_of_Nil_iff [symmetric] by (simp add: DetectCollisions_def Let_def)

subsection \<open>Collision sets\<close>

record 'a collision_set =
  cs_kind :: string
  cs_equal :: "'a \<Rightarrow> 'a \<Rightarrow> bool"
  cs_sets :: "(string, string list) gomap"
  cs_by_upstream :: "(string, (string, 'a) gomap) gomap"

definition newCollisionSet :: "string \<Rightarrow> ('a \<Rightarrow> 'a \<Rightarrow> bool) \<Rightarrow> 'a collision_set" where
  "newCollisionSet kind equal =
     \<lparr>cs_kind = kind, cs_equal = equal, cs_sets = [], cs_by_upstream = []\<rparr>"

text \<open>\<open>add\<close>: \<open>keep\<close> is \<open>None\<close> for the nil filter.\<close>

definition cs_add ::
  "'a collision_set \<Rightarrow> string \<Rightarrow> 'a list \<Rightarrow> ('a \<Rightarrow> string) \<Rightarrow> ('a \<Rightarrow> bool) option \<Rightarrow> 'a collision_set" where
  "cs_add cs up items name keep =
     (let (sets, by_name) = fold (\<lambda>it (sets, by_name).
            if (case keep of None \<Rightarrow> False | Some k \<Rightarrow> \<not> k it) then (sets, by_name)
            else (app_put up (name it) sets, AList.update (name it) it by_name))
          items (cs_sets cs, [])
      in cs\<lparr>cs_sets := sets, cs_by_upstream := AList.update up by_name (cs_by_upstream cs)\<rparr>)"

definition cs_item :: "'a collision_set \<Rightarrow> string \<times> string \<Rightarrow> 'a option" where
  "cs_item cs = (\<lambda>(up, t). case map_of (cs_by_upstream cs) up of None \<Rightarrow> None | Some m \<Rightarrow> map_of m t)"

fun identical_loop :: "'a collision_set \<Rightarrow> 'a option \<Rightarrow> collision list \<Rightarrow> bool" where
  "identical_loop cs first [] = True"
| "identical_loop cs first (cf # cfs) =
     (case cs_item cs (col_upstream cf, col_tool cf) of
        None \<Rightarrow> False
      | Some item \<Rightarrow>
          (case first of
             None \<Rightarrow> identical_loop cs (Some item) cfs
           | Some f \<Rightarrow> if \<not> cs_equal cs f item then False else identical_loop cs first cfs))"

definition identicalGroup :: "'a collision_set \<Rightarrow> collision list \<Rightarrow> bool" where
  "identicalGroup cs grp = identical_loop cs None grp"

function hard_conflicts :: "'a collision_set \<Rightarrow> collision list \<Rightarrow> collision list" where
  "hard_conflicts cs [] = []"
| "hard_conflicts cs (c # confs) =
     (let grp = c # takeWhile (\<lambda>d. col_result d = col_result c) confs;
          rest = dropWhile (\<lambda>d. col_result d = col_result c) confs
      in (if identicalGroup cs grp then [] else grp) @ hard_conflicts cs rest)"
  by pat_completeness auto
termination
  by (relation "measure (\<lambda>(cs, confs). length confs)") (auto simp: length_dropWhile_le le_imp_less_Suc)

definition dropIdentical :: "'a collision_set \<Rightarrow> collisions_error \<Rightarrow> collisions_error option" where
  "dropIdentical cs ce =
     (let hard = hard_conflicts cs (ce_conflicts ce) in
      if hard = [] then None
      else Some \<lparr>ce_kind = cs_kind cs, ce_conflicts = hard,
        ce_counts = fold (\<lambda>cf m. if map_of m (col_upstream cf) = None
          then AList.update (col_upstream cf) (length (set_get (cs_by_upstream cs) (col_upstream cf))) m
          else m) hard []\<rparr>)"

definition cs_check :: "'a collision_set \<Rightarrow> (string, string) gomap \<Rightarrow> collisions_error option" where
  "cs_check cs pfxs =
     (case DetectCollisions (cs_kind cs) pfxs (cs_sets cs) of
        None \<Rightarrow> None
      | Some ce \<Rightarrow> dropIdentical cs ce)"

subsection \<open>What a passing check means\<close>

lemma distinct_keys_fold_app_put:
  "distinct (map fst m) \<Longrightarrow> distinct (map fst (fold (\<lambda>t. app_put (k t) (v t)) ts m))"
  by (induction ts arbitrary: m) (auto simp: app_put_def)

lemma distinct_keys_owners: "distinct (map fst (name_owners pfxs sets))"
proof -
  have "distinct (map fst m) \<Longrightarrow> distinct (map fst (fold (add_owners pfxs sets) ups m))" for ups m
    by (induction ups arbitrary: m) (auto simp: add_owners_def intro!: distinct_keys_fold_app_put)
  then show ?thesis by (simp add: name_owners_def)
qed

lemma distinct_colliding: "distinct (colliding_names (name_owners pfxs sets))"
  by (simp add: colliding_names_def distinct_keys_owners distinct_filter)

lemma hard_conflicts_group:
  assumes "xs \<noteq> []" and "\<forall>c\<in>set xs. col_result c = res" and "\<forall>c\<in>set ys. col_result c \<noteq> res"
  shows "hard_conflicts cs (xs @ ys) =
    (if identicalGroup cs xs then [] else xs) @ hard_conflicts cs ys"
proof -
  obtain c xs' where xs: "xs = c # xs'" using assms(1) by (cases xs) auto
  have "takeWhile (\<lambda>d. col_result d = res) (xs' @ ys) = xs'"
    and "dropWhile (\<lambda>d. col_result d = res) (xs' @ ys) = ys"
    using assms(2,3) unfolding xs by (auto simp: takeWhile_append dropWhile_append)
      (cases ys, auto)+
  then show ?thesis using assms(2) unfolding xs by (simp add: Let_def)
qed

lemma hard_conflicts_concat:
  assumes "distinct rs" and "\<And>r. r \<in> set rs \<Longrightarrow> g r \<noteq> [] \<and> (\<forall>c\<in>set (g r). col_result c = r)"
  shows "hard_conflicts cs (concat (map g rs)) =
    concat (map (\<lambda>r. if identicalGroup cs (g r) then [] else g r) rs)"
  using assms
proof (induction rs)
  case (Cons r rs)
  have "hard_conflicts cs (g r @ concat (map g rs)) =
      (if identicalGroup cs (g r) then [] else g r) @ hard_conflicts cs (concat (map g rs))"
  proof (rule hard_conflicts_group [where res = r])
    show "g r \<noteq> []" "\<forall>c\<in>set (g r). col_result c = r" using Cons.prems(2) [of r] by simp_all
    have "col_result c \<noteq> r" if "s \<in> set rs" "c \<in> set (g s)" for s c
      using that Cons.prems(1) Cons.prems(2) [of s] by auto
    then show "\<forall>c\<in>set (concat (map g rs)). col_result c \<noteq> r" by auto
  qed
  with Cons show ?case by simp
qed simp

text \<open>Every name the set lists for an upstream has its item.\<close>

definition cs_wf :: "'a collision_set \<Rightarrow> bool" where
  "cs_wf cs \<longleftrightarrow> (\<forall>up t. t \<in> set (set_get (cs_sets cs) up) \<longrightarrow> cs_item cs (up, t) \<noteq> None)"

lemma identical_loop_iff:
  assumes "\<forall>c\<in>set cfs. cs_item cs (col_upstream c, col_tool c) \<noteq> None"
  shows "identical_loop cs (Some f) cfs \<longleftrightarrow>
    (\<forall>c\<in>set cfs. cs_equal cs f (the (cs_item cs (col_upstream c, col_tool c))))"
  using assms by (induction cfs) auto

lemma identicalGroup_iff:
  assumes "equivp (cs_equal cs)"
    and "\<forall>c\<in>set g. cs_item cs (col_upstream c, col_tool c) \<noteq> None"
  shows "identicalGroup cs g \<longleftrightarrow> (\<forall>c\<in>set g. \<forall>d\<in>set g.
    cs_equal cs (the (cs_item cs (col_upstream c, col_tool c)))
      (the (cs_item cs (col_upstream d, col_tool d))))"
proof (cases g)
  case Nil
  then show ?thesis by (simp add: identicalGroup_def)
next
  case (Cons c cfs)
  with assms(2) obtain f where f: "cs_item cs (col_upstream c, col_tool c) = Some f" by auto
  have "identicalGroup cs g \<longleftrightarrow>
      (\<forall>d\<in>set cfs. cs_equal cs f (the (cs_item cs (col_upstream d, col_tool d))))"
    using Cons f assms(2) by (simp add: identicalGroup_def identical_loop_iff)
  moreover have "cs_equal cs x x" for x
    using assms(1) by (simp add: equivp_reflp)
  moreover have "cs_equal cs x y" if "cs_equal cs f x" "cs_equal cs f y" for x y
    using that assms(1) by (meson equivp_symp equivp_transp)
  ultimately show ?thesis using Cons f by auto
qed

lemma hard_conflicts_all:
  "hard_conflicts cs (conflicts_of (name_owners pfxs sets)) = [] \<longleftrightarrow>
     (\<forall>res\<in>set (colliding_names (name_owners pfxs sets)). identicalGroup cs
        (map (\<lambda>(up, t). \<lparr>col_upstream = up, col_tool = t, col_result = res\<rparr>)
          (set_get (name_owners pfxs sets) res)))"
proof -
  let ?O = "name_owners pfxs sets"
  let ?g = "\<lambda>res. map (\<lambda>(up, t). \<lparr>col_upstream = up, col_tool = t, col_result = res\<rparr>) (set_get ?O res)"
  have ne: "?g r \<noteq> []" if "r \<in> set (colliding_names ?O)" for r
    using that by (auto simp: colliding_names_def)
  have "hard_conflicts cs (conflicts_of ?O) =
      concat (map (\<lambda>r. if identicalGroup cs (?g r) then [] else ?g r) (colliding_names ?O))"
    unfolding conflicts_of_def
    by (rule hard_conflicts_concat [OF distinct_colliding]) (use ne in auto)
  then show ?thesis using ne by auto
qed

lemma cs_check_None_iff:
  assumes eq: "equivp (cs_equal cs)" and wf: "cs_wf cs"
  shows "cs_check cs pfxs = None \<longleftrightarrow>
    (\<forall>o1\<in>set (final_names pfxs (cs_sets cs)). \<forall>o2\<in>set (final_names pfxs (cs_sets cs)).
       final_name pfxs o1 = final_name pfxs o2 \<longrightarrow>
       cs_equal cs (the (cs_item cs o1)) (the (cs_item cs o2)))"
proof -
  let ?F = "final_names pfxs (cs_sets cs)" and ?O = "name_owners pfxs (cs_sets cs)"
  let ?own = "\<lambda>res. filter (\<lambda>o'. final_name pfxs o' = res) ?F"
  let ?same = "\<lambda>o1 o2. cs_equal cs (the (cs_item cs o1)) (the (cs_item cs o2))"
  have item: "cs_item cs o' \<noteq> None" if "o' \<in> set ?F" for o'
    using that wf by (auto simp: final_names_def cs_wf_def)
  have grp: "identicalGroup cs
        (map (\<lambda>(up, t). \<lparr>col_upstream = up, col_tool = t, col_result = res\<rparr>) (set_get ?O res))
      \<longleftrightarrow> (\<forall>o1\<in>set (?own res). \<forall>o2\<in>set (?own res). ?same o1 o2)" for res
    using item by (subst identicalGroup_iff [OF eq]) (auto simp: name_owners_get)
  have small: "?same o1 o2" if "\<not> 1 < length (?own res)" "o1 \<in> set (?own res)" "o2 \<in> set (?own res)"
    for res o1 o2
  proof -
    have "o1 = o2" using that by (cases "?own res") auto
    then show ?thesis using eq by (simp add: equivp_reflp)
  qed
  have "cs_check cs pfxs = None \<longleftrightarrow> hard_conflicts cs (conflicts_of ?O) = []"
    by (auto simp: cs_check_def dropIdentical_def Let_def DetectCollisions_def split: if_splits)
  also have "\<dots> \<longleftrightarrow> (\<forall>res. \<forall>o1\<in>set (?own res). \<forall>o2\<in>set (?own res). ?same o1 o2)"
    unfolding hard_conflicts_all grp using small by (simp only: colliding_names_set) blast
  also have "\<dots> \<longleftrightarrow> (\<forall>o1\<in>set ?F. \<forall>o2\<in>set ?F. final_name pfxs o1 = final_name pfxs o2 \<longrightarrow> ?same o1 o2)"
    by auto
  finally show ?thesis .
qed

text \<open>\<open>add\<close> keeps the set well formed when each upstream is added once.\<close>

lemma cs_add_fold:
  "fold (\<lambda>it (sets, by_name).
       if (case keep of None \<Rightarrow> False | Some k \<Rightarrow> \<not> k it) then (sets, by_name)
       else (app_put up (name it) sets, AList.update (name it) it by_name)) items (sets, by_name) =
   (let kept = filter (\<lambda>it. case keep of None \<Rightarrow> True | Some k \<Rightarrow> k it) items
    in (fold (\<lambda>it. app_put up (name it)) kept sets,
        fold (\<lambda>it. AList.update (name it) it) kept by_name))"
  by (induction items arbitrary: sets by_name) (auto simp: Let_def split: option.splits)

definition kept_items :: "('a \<Rightarrow> bool) option \<Rightarrow> 'a list \<Rightarrow> 'a list" where
  "kept_items keep items = filter (\<lambda>it. case keep of None \<Rightarrow> True | Some k \<Rightarrow> k it) items"

lemma cs_add_sets:
  "set_get (cs_sets (cs_add cs up items name keep)) up' =
     set_get (cs_sets cs) up' @ (if up' = up then map name (kept_items keep items) else [])"
  by (simp add: cs_add_def cs_add_fold Let_def kept_items_def set_get_fold_app_put)

text \<open>The item an upstream keeps for a name is the last one listed under it.\<close>

definition last_item :: "('a \<Rightarrow> string) \<Rightarrow> 'a list \<Rightarrow> string \<Rightarrow> 'a option" where
  "last_item name items t = find (\<lambda>it. name it = t) (rev items)"

lemma last_item_Nil [simp]: "last_item name [] t = None"
  by (simp add: last_item_def)

lemma find_append: "find P (xs @ ys) = (case find P xs of Some x \<Rightarrow> Some x | None \<Rightarrow> find P ys)"
  by (induction xs) auto

lemma last_item_append:
  "last_item name (xs @ [x]) t = (if name x = t then Some x else last_item name xs t)"
  by (simp add: last_item_def)

lemma last_item_None_iff: "last_item name items t = None \<longleftrightarrow> t \<notin> name ` set items"
  by (auto simp: last_item_def find_None_iff)

lemma last_item_SomeD: "last_item name items t = Some x \<Longrightarrow> x \<in> set items \<and> name x = t"
  by (induction items rule: rev_induct) (auto simp: last_item_append split: if_splits)

lemma last_item_ex: "x \<in> set items \<Longrightarrow> \<exists>y. last_item name items (name x) = Some y"
  using last_item_None_iff [of name items "name x"] by auto

lemma map_of_fold_by_name:
  "map_of (fold (\<lambda>it. AList.update (name it) it) items []) t = last_item name items t"
  by (induction items rule: rev_induct) (auto simp: last_item_append)

lemma cs_add_item:
  "cs_item (cs_add cs up items name keep) (up', t) =
     (if up' = up then last_item name (kept_items keep items) t else cs_item cs (up', t))"
  by (simp add: cs_add_def cs_add_fold Let_def kept_items_def cs_item_def map_of_fold_by_name)

lemma cs_add_equal [simp]: "cs_equal (cs_add cs up items name keep) = cs_equal cs"
  by (simp add: cs_add_def Let_def split: prod.splits)

lemma cs_wf_new [simp, inv_intros]: "cs_wf (newCollisionSet kind equal)"
  by (simp add: cs_wf_def newCollisionSet_def)

lemma cs_wf_add [inv_intros]:
  assumes "cs_wf cs" and "set_get (cs_sets cs) up = []"
  shows "cs_wf (cs_add cs up items name keep)"
  using assms by (auto simp: cs_wf_def cs_add_sets cs_add_item last_item_ex)

lemma final_names_mem: "(up, t) \<in> set (final_names pfxs sets) \<longleftrightarrow> t \<in> set (set_get sets up)"
proof -
  have "up \<in> fst ` set sets" if "t \<in> set (set_get sets up)"
    using that by (cases "map_of sets up") (auto simp: set_get_def dest: map_of_SomeD intro: rev_image_eqI)
  then show ?thesis by (auto simp: final_names_def upstream_names_def)
qed

text \<open>The set \<open>Build\<close> fills for one kind of item, one \<open>add\<close> per listed upstream.\<close>

definition cs_fill ::
  "string \<Rightarrow> ('a \<Rightarrow> 'a \<Rightarrow> bool) \<Rightarrow> ('a \<Rightarrow> string) \<Rightarrow> (string \<Rightarrow> ('a \<Rightarrow> bool) option)
     \<Rightarrow> (string \<times> 'a list) list \<Rightarrow> 'a collision_set" where
  "cs_fill kind equal name keep listed =
     fold (\<lambda>(up, items) cs. cs_add cs up items name (keep up)) listed (newCollisionSet kind equal)"

definition exposes ::
  "('a \<Rightarrow> string) \<Rightarrow> (string \<Rightarrow> ('a \<Rightarrow> bool) option) \<Rightarrow> (string \<times> 'a list) list
     \<Rightarrow> string \<Rightarrow> string \<Rightarrow> 'a \<Rightarrow> bool" where
  "exposes name keep listed up t x \<longleftrightarrow>
     (\<exists>items. (up, items) \<in> set listed \<and> last_item name (kept_items (keep up) items) t = Some x)"

lemma cs_fill_facts:
  assumes "distinct (map fst listed)"
  shows "cs_equal (cs_fill kind equal name keep listed) = equal"
    and "set_get (cs_sets (cs_fill kind equal name keep listed)) up =
      (case map_of listed up of None \<Rightarrow> [] | Some items \<Rightarrow> map name (kept_items (keep up) items))"
    and "cs_item (cs_fill kind equal name keep listed) (up, t) =
      (case map_of listed up of None \<Rightarrow> None | Some items \<Rightarrow> last_item name (kept_items (keep up) items) t)"
    and "cs_wf (cs_fill kind equal name keep listed)"
proof -
  have "cs_equal cs' = equal \<and>
      (\<forall>up. set_get (cs_sets cs') up =
         (case map_of ls up of None \<Rightarrow> [] | Some items \<Rightarrow> map name (kept_items (keep up) items))) \<and>
      (\<forall>up t. cs_item cs' (up, t) =
         (case map_of ls up of None \<Rightarrow> None | Some items \<Rightarrow> last_item name (kept_items (keep up) items) t))"
    if "distinct (map fst ls)" and "cs' = cs_fill kind equal name keep ls" for ls cs'
    using that
  proof (induction ls arbitrary: cs' rule: rev_induct)
    case Nil
    then show ?case by (simp add: cs_fill_def newCollisionSet_def cs_item_def)
  next
    case (snoc x ls)
    obtain u items where x: "x = (u, items)" by (cases x)
    with snoc.prems have "map_of ls u = None" "distinct (map fst ls)"
      by (auto simp: map_of_eq_None_iff)
    with snoc.IH [OF _ refl] snoc.prems(2) x show ?case
      by (auto simp: cs_fill_def cs_add_sets cs_add_item map_add_def split: option.splits)
  qed
  note this [OF assms refl]
  then show eq: "cs_equal (cs_fill kind equal name keep listed) = equal"
    and sets: "set_get (cs_sets (cs_fill kind equal name keep listed)) up =
      (case map_of listed up of None \<Rightarrow> [] | Some items \<Rightarrow> map name (kept_items (keep up) items))"
    and items: "cs_item (cs_fill kind equal name keep listed) (up, t) =
      (case map_of listed up of None \<Rightarrow> None | Some items \<Rightarrow> last_item name (kept_items (keep up) items) t)"
    for up t by blast+
  show "cs_wf (cs_fill kind equal name keep listed)"
    by (auto simp: cs_wf_def sets items last_item_ex split: option.splits)
qed

lemma exposes_fill:
  assumes "distinct (map fst listed)"
  shows "exposes name keep listed up t x \<longleftrightarrow>
    (up, t) \<in> set (final_names pfxs (cs_sets (cs_fill kind equal name keep listed))) \<and>
    cs_item (cs_fill kind equal name keep listed) (up, t) = Some x"
  unfolding exposes_def map_of_eq_Some_iff [OF assms, symmetric]
  by (auto simp: final_names_mem cs_fill_facts [OF assms] split: option.splits
      dest: last_item_SomeD)

subsection \<open>Properties\<close>

text \<open>
  \<open>DetectCollisions\<close> succeeds exactly when no two items of the upstreams end up with the same
  prefixed name; when it fails it reports every item whose final name is shared, under that name,
  and nothing else.
\<close>

theorem detect_collisions_correct:
  "case DetectCollisions kind pfxs sets of
     None \<Rightarrow> distinct (map (final_name pfxs) (final_names pfxs sets))
   | Some e \<Rightarrow> \<not> distinct (map (final_name pfxs) (final_names pfxs sets)) \<and>
       set (ce_conflicts e) =
         {c. (col_upstream c, col_tool c) \<in> set (final_names pfxs sets) \<and>
             final_name pfxs (col_upstream c, col_tool c) = col_result c \<and>
             1 < length (filter (\<lambda>o'. final_name pfxs o' = col_result c) (final_names pfxs sets))}"
proof (cases "DetectCollisions kind pfxs sets")
  case None
  with DetectCollisions_None [of kind pfxs sets] show ?thesis by (simp only: option.case simp_thms)
next
  case (Some e)
  then have "\<not> distinct (map (final_name pfxs) (final_names pfxs sets))"
    using DetectCollisions_None [of kind pfxs sets] by simp
  with Some DetectCollisions_Some [OF Some] show ?thesis by (auto simp: conflicts_of_iff)
qed

text \<open>
  The collision check of \<open>Build\<close> accepts a set of listings exactly when any two items exposed
  under one final name are identical (for an equality of items that is an equivalence); for an
  upstream that lists a name several times, the item compared is the last one.
\<close>

theorem collision_check_identical:
  assumes "equivp equal" and "distinct (map fst listed)"
  shows "cs_check (cs_fill kind equal name keep listed) pfxs = None \<longleftrightarrow>
    (\<forall>u1 t1 x1 u2 t2 x2. exposes name keep listed u1 t1 x1 \<longrightarrow> exposes name keep listed u2 t2 x2 \<longrightarrow>
       NamespaceName (str_get pfxs u1) t1 = NamespaceName (str_get pfxs u2) t2 \<longrightarrow> equal x1 x2)"
proof -
  let ?cs = "cs_fill kind equal name keep listed"
  have wf: "cs_wf ?cs" and eq: "cs_equal ?cs = equal"
    using assms(2) by (simp_all add: cs_fill_facts)
  have "cs_check ?cs pfxs = None \<longleftrightarrow>
      (\<forall>o1\<in>set (final_names pfxs (cs_sets ?cs)). \<forall>o2\<in>set (final_names pfxs (cs_sets ?cs)).
         final_name pfxs o1 = final_name pfxs o2 \<longrightarrow>
         equal (the (cs_item ?cs o1)) (the (cs_item ?cs o2)))"
    using cs_check_None_iff [of ?cs pfxs] assms(1) wf eq by simp
  moreover have "\<exists>x. cs_item ?cs (u, t) = Some x"
    if "(u, t) \<in> set (final_names pfxs (cs_sets ?cs))" for u t
    using that wf by (auto simp: cs_wf_def final_names_mem)
  ultimately show ?thesis
    unfolding exposes_fill [OF assms(2), where pfxs = pfxs and kind = kind and equal = equal]
    by (fastforce simp: final_name_def)
qed

theorem collision_check_identical_witness:
  "cs_check (cs_fill ''tool'' (=) (\<lambda>s. s) (\<lambda>_. None) [(''a'', [''x'']), (''b'', [''x''])]) [] = None"
proof -
  have eq: "equivp ((=) :: string \<Rightarrow> string \<Rightarrow> bool)" by (rule identity_equivp)
  have d: "distinct (map fst [(''a'', [''x'']), (''b'', [''x''])])" by simp
  have "t = x" if "exposes (\<lambda>s. s) keep listed up t x" for keep listed up and t x :: string
    using that by (auto simp: exposes_def dest: last_item_SomeD)
  moreover have "str_get [] u = []" for u by (simp add: str_get_def)
  ultimately show ?thesis
    unfolding collision_check_identical [OF eq d] by (simp add: NamespaceName_def) metis
qed

end
