(* ===== verification/Gw_Secrets.thy ===== *)
theory Gw_Secrets
  imports Gw_Strings
begin

text \<open>
  Secrets, \<open>internal/gateway/secret.go\<close>: the resolver with its cache of last good values, the
  \<open>{secret:NAME}\<close> references in a string, and their interpolation.

  The process environment, the file system, the shell-quoting package and the execution of a
  command are the fields of \<open>sec_world\<close>. \<open>DoChanContext\<close> lets concurrent callers share one read;
  to one caller it is a read of the source, or the context's error when it is canceled first, which
  is the argument \<open>canceled\<close>.
\<close>

record secret_source =
  ss_value :: string
  ss_env :: string
  ss_file :: string
  ss_command :: string

record secret_config =
  se_name :: string
  se_value :: string
  se_env :: string
  se_file :: string
  se_command :: string

record sec_world =
  sw_getenv :: "string \<Rightarrow> string"
  sw_read_file :: "string \<Rightarrow> string option"
  sw_split :: "string \<Rightarrow> string list option"
  sw_run :: "string list \<Rightarrow> string option"

datatype secret_error =
    DuplicateSecret
  | SecretNotFound string
  | EnvEmpty string string
  | ReadFailed string
  | ParseFailed string
  | EmptyCommand
  | RunFailed string
  | ContextDone
  | NoResolver

record secret_resolver =
  sr_sources :: "(string, secret_source) gomap"
  sr_last_good :: "(string, string) gomap"

fun collect_sources ::
  "(string, secret_source) gomap \<Rightarrow> secret_config list \<Rightarrow> secret_error + (string, secret_source) gomap" where
  "collect_sources m [] = Inr m"
| "collect_sources m (c # cs) =
     (if map_of m (se_name c) \<noteq> None then Inl DuplicateSecret
      else collect_sources (AList.update (se_name c)
        \<lparr>ss_value = se_value c, ss_env = se_env c, ss_file = se_file c, ss_command = se_command c\<rparr> m) cs)"

definition NewSecretResolver :: "secret_config list \<Rightarrow> secret_error + secret_resolver" where
  "NewSecretResolver cfgs = (case collect_sources [] cfgs of
     Inl e \<Rightarrow> Inl e
   | Inr m \<Rightarrow> Inr \<lparr>sr_sources = m, sr_last_good = []\<rparr>)"

definition resolveSource :: "sec_world \<Rightarrow> string \<Rightarrow> secret_source \<Rightarrow> secret_error + string" where
  "resolveSource w name src =
     (if ss_value src \<noteq> [] then Inr (ss_value src)
      else if ss_env src \<noteq> [] then
        (let v = sw_getenv w (ss_env src) in
         if v = [] then Inl (EnvEmpty (ss_env src) name) else Inr v)
      else if ss_file src \<noteq> [] then
        (case sw_read_file w (ss_file src) of
           None \<Rightarrow> Inl (ReadFailed name)
         | Some b \<Rightarrow> Inr (trim_right_byte b (CHR 0x0A)))
      else if ss_command src \<noteq> [] then
        (case sw_split w (ss_command src) of
           None \<Rightarrow> Inl (ParseFailed name)
         | Some argv \<Rightarrow>
             if argv = [] then Inl EmptyCommand
             else (case sw_run w (argv @ [name]) of
                 None \<Rightarrow> Inl (RunFailed name)
               | Some out \<Rightarrow> Inr (trim_right_byte out (CHR 0x0A))))
      else Inl (SecretNotFound name))"

definition Resolve ::
  "sec_world \<Rightarrow> bool \<Rightarrow> secret_resolver \<Rightarrow> string \<Rightarrow> (secret_error + string) \<times> secret_resolver" where
  "Resolve w canceled r name =
     (case map_of (sr_sources r) name of
        None \<Rightarrow> (Inl (SecretNotFound name), r)
      | Some src \<Rightarrow>
          (case (if canceled then Inl ContextDone else resolveSource w name src) of
             Inr v \<Rightarrow> (Inr v, r\<lparr>sr_last_good := AList.update name v (sr_last_good r)\<rparr>)
           | Inl e \<Rightarrow>
               (case map_of (sr_last_good r) name of
                  Some v \<Rightarrow> (Inr v, r)
                | None \<Rightarrow> (Inl e, r))))"

subsection \<open>References\<close>

definition secret_name_byte :: "char \<Rightarrow> bool" where
  "secret_name_byte b \<longleftrightarrow>
     (CHR ''A'' \<le> b \<and> b \<le> CHR ''Z'') \<or> (CHR ''a'' \<le> b \<and> b \<le> CHR ''z'') \<or>
     (CHR ''0'' \<le> b \<and> b \<le> CHR ''9'') \<or> b = CHR ''_'' \<or> b = CHR ''.'' \<or> b = CHR ''-''"

definition isValidSecretName :: "string \<Rightarrow> bool" where
  "isValidSecretName s = (s \<noteq> [] \<and> list_all secret_name_byte s)"

text \<open>\<open>parseSecretRef\<close>: the name and the index past the closing brace, \<open>([], 0)\<close> for no token.\<close>

definition parseSecretRef :: "string \<Rightarrow> nat \<Rightarrow> string \<times> nat" where
  "parseSecretRef s i =
     (if length s \<le> i \<or> s ! i \<noteq> CHR ''{'' then ([], 0)
      else case index_byte (drop (i + 1) s) (CHR ''}'') of
        None \<Rightarrow> ([], 0)
      | Some cb \<Rightarrow>
          (case str_cut (trim_space (take cb (drop (i + 1) s))) (CHR '':'') of
             None \<Rightarrow> ([], 0)
           | Some (keyword, rest) \<Rightarrow>
               if trim_space keyword \<noteq> ''secret'' then ([], 0)
               else let n = trim_space rest in
                 if \<not> isValidSecretName n then ([], 0) else (n, i + 1 + cb + 1)))"

lemma parseSecretRef_bounds:
  assumes "parseSecretRef s i = (n, e)" and "e \<noteq> 0"
  shows "i < e" and "e \<le> length s" and "isValidSecretName n"
  using assms
  by (auto simp: parseSecretRef_def Let_def split: if_splits option.splits
      dest!: index_byte_SomeD)

text \<open>\<open>extractSecretRefs\<close>: the names it yields, in order.\<close>

function secret_refs_from :: "string \<Rightarrow> nat \<Rightarrow> string list" where
  "secret_refs_from s i =
     (if length s \<le> i then []
      else if s ! i \<noteq> CHR ''{'' then secret_refs_from s (i + 1)
      else case parseSecretRef s i of (name, e) \<Rightarrow>
        if e = 0 then secret_refs_from s (i + 1) else name # secret_refs_from s e)"
  by pat_completeness auto
termination
  by (relation "measure (\<lambda>(s, i). length s - i)")
    (auto dest: parseSecretRef_bounds(1) [OF sym] intro: diff_less_mono2)

declare secret_refs_from.simps [simp del]

definition extractSecretRefs :: "string \<Rightarrow> string list" where
  "extractSecretRefs s = secret_refs_from s 0"

subsection \<open>Interpolate\<close>

text \<open>
  The loop of \<open>Interpolate\<close> over any implementation of the \<open>SecretResolver\<close> interface: \<open>b\<close> is the
  builder, \<open>merr\<close> the last error, \<open>st\<close> the resolver's state.
\<close>

function interp_loop ::
  "('st \<Rightarrow> string \<Rightarrow> ('e + string) \<times> 'st) \<Rightarrow> string \<Rightarrow> nat \<Rightarrow> string \<Rightarrow> 'e option \<Rightarrow> 'st
     \<Rightarrow> string \<times> 'e option \<times> 'st" where
  "interp_loop resolve s i b merr st =
     (if length s \<le> i then (b, merr, st)
      else if s ! i \<noteq> CHR ''{'' then interp_loop resolve s (i + 1) (b @ [s ! i]) merr st
      else case parseSecretRef s i of (name, e) \<Rightarrow>
        if e = 0 then interp_loop resolve s (i + 1) (b @ [s ! i]) merr st
        else case resolve st name of
          (Inl err, st') \<Rightarrow> interp_loop resolve s e (b @ take (e - i) (drop i s)) (Some err) st'
        | (Inr v, st') \<Rightarrow> interp_loop resolve s e (b @ v) merr st')"
  by pat_completeness auto
termination
  by (relation "measure (\<lambda>(resolve, s, i, b, merr, st). length s - i)")
    (auto dest: parseSecretRef_bounds(1) [OF sym] intro: diff_less_mono2)

declare interp_loop.simps [simp del]

text \<open>\<open>None\<close> is the nil resolver.\<close>

definition Interpolate ::
  "('st \<Rightarrow> string \<Rightarrow> (secret_error + string) \<times> 'st) option \<Rightarrow> string \<Rightarrow> 'st
     \<Rightarrow> (secret_error + string) \<times> 'st" where
  "Interpolate r s st =
     (case r of
        None \<Rightarrow> (if str_contains s ''{secret:'' then (Inl NoResolver, st) else (Inr s, st))
      | Some resolve \<Rightarrow>
          (case interp_loop resolve s 0 [] None st of
             (b, None, st') \<Rightarrow> (Inr b, st')
           | (b, Some e, st') \<Rightarrow> (Inl e, st')))"

subsection \<open>The pieces of a string\<close>

text \<open>A string is a sequence of plain bytes and references, each reference with its text.\<close>

datatype piece = Lit char | Ref string string

function pieces_from :: "string \<Rightarrow> nat \<Rightarrow> piece list" where
  "pieces_from s i =
     (if length s \<le> i then []
      else case parseSecretRef s i of (name, e) \<Rightarrow>
        if e = 0 then Lit (s ! i) # pieces_from s (i + 1)
        else Ref name (take (e - i) (drop i s)) # pieces_from s e)"
  by pat_completeness auto
termination
  by (relation "measure (\<lambda>(s, i). length s - i)")
    (auto dest: parseSecretRef_bounds(1) [OF sym] intro: diff_less_mono2)

declare pieces_from.simps [simp del]

fun piece_text :: "piece \<Rightarrow> string" where
  "piece_text (Lit c) = [c]"
| "piece_text (Ref n tok) = tok"

fun piece_refs :: "piece list \<Rightarrow> string list" where
  "piece_refs [] = []"
| "piece_refs (Lit c # ps) = piece_refs ps"
| "piece_refs (Ref n tok # ps) = n # piece_refs ps"

fun run_pieces ::
  "('st \<Rightarrow> string \<Rightarrow> ('e + string) \<times> 'st) \<Rightarrow> piece list \<Rightarrow> string \<Rightarrow> 'e option \<Rightarrow> 'st
     \<Rightarrow> string \<times> 'e option \<times> 'st" where
  "run_pieces resolve [] b merr st = (b, merr, st)"
| "run_pieces resolve (Lit c # ps) b merr st = run_pieces resolve ps (b @ [c]) merr st"
| "run_pieces resolve (Ref n tok # ps) b merr st =
     (case resolve st n of
        (Inl err, st') \<Rightarrow> run_pieces resolve ps (b @ tok) (Some err) st'
      | (Inr v, st') \<Rightarrow> run_pieces resolve ps (b @ v) merr st')"

lemma parse_needs_brace: "s ! i \<noteq> CHR ''{'' \<Longrightarrow> parseSecretRef s i = ([], 0)"
  by (simp add: parseSecretRef_def)

lemma refs_pieces: "secret_refs_from s i = piece_refs (pieces_from s i)"
proof (induction s i rule: secret_refs_from.induct)
  case (1 s i)
  show ?case
  proof (cases "length s \<le> i \<or> s ! i \<noteq> CHR ''{''")
    case True
    with 1 show ?thesis
      by (auto simp: secret_refs_from.simps [of s i] pieces_from.simps [of s i] parse_needs_brace)
  next
    case False
    obtain n e where p: "parseSecretRef s i = (n, e)" by (cases "parseSecretRef s i")
    with False 1 show ?thesis
      by (cases "e = 0") (simp_all add: secret_refs_from.simps [of s i] pieces_from.simps [of s i])
  qed
qed

lemma interp_pieces: "interp_loop resolve s i b merr st = run_pieces resolve (pieces_from s i) b merr st"
proof (induction resolve s i b merr st rule: interp_loop.induct)
  case (1 resolve s i b merr st)
  show ?case
  proof (cases "length s \<le> i \<or> s ! i \<noteq> CHR ''{''")
    case True
    with 1 show ?thesis
      by (auto simp: interp_loop.simps [of resolve s i] pieces_from.simps [of s i] parse_needs_brace)
  next
    case False
    obtain n e where p: "parseSecretRef s i = (n, e)" by (cases "parseSecretRef s i")
    obtain r st' where r: "resolve st n = (r, st')" by (cases "resolve st n")
    show ?thesis
    proof (cases "e = 0")
      case True
      with False p 1 show ?thesis
        by (simp add: interp_loop.simps [of resolve s i] pieces_from.simps [of s i])
    next
      case e: False
      with False p r 1 show ?thesis
        by (cases r) (simp_all add: interp_loop.simps [of resolve s i] pieces_from.simps [of s i])
    qed
  qed
qed

lemma pieces_text: "concat (map piece_text (pieces_from s i)) = drop i s"
proof (induction s i rule: pieces_from.induct)
  case (1 s i)
  obtain n e where p: "parseSecretRef s i = (n, e)" by (cases "parseSecretRef s i")
  show ?case
  proof (cases "length s \<le> i")
    case True
    then show ?thesis by (simp add: pieces_from.simps [of s i])
  next
    case False
    show ?thesis
    proof (cases "e = 0")
      case True
      with False p 1 show ?thesis
        by (simp add: pieces_from.simps [of s i] Cons_nth_drop_Suc)
    next
      case e: False
      have "i < e" by (rule parseSecretRef_bounds(1) [OF p e])
      then have "drop e s = drop (e - i) (drop i s)" by simp
      with False p e 1 show ?thesis
        by (simp add: pieces_from.simps [of s i] del: drop_drop)
    qed
  qed
qed

lemma piece_refs_valid: "n \<in> set (piece_refs (pieces_from s i)) \<Longrightarrow> isValidSecretName n"
proof (induction s i rule: pieces_from.induct)
  case (1 s i)
  obtain m e where p: "parseSecretRef s i = (m, e)" by (cases "parseSecretRef s i")
  with 1 show ?case
    by (cases "e = 0")
      (auto simp: pieces_from.simps [of s i] split: if_splits dest: parseSecretRef_bounds(3))
qed

subsection \<open>What interpolation computes\<close>

fun piece_subst :: "(string \<Rightarrow> 'e + string) \<Rightarrow> piece \<Rightarrow> string" where
  "piece_subst f (Lit c) = [c]"
| "piece_subst f (Ref n tok) = (case f n of Inl _ \<Rightarrow> tok | Inr v \<Rightarrow> v)"

definition ref_errors :: "(string \<Rightarrow> 'e + string) \<Rightarrow> string list \<Rightarrow> 'e list" where
  "ref_errors f ns = concat (map (\<lambda>n. case f n of Inl e \<Rightarrow> [e] | Inr _ \<Rightarrow> []) ns)"

lemma ref_errors_empty: "ref_errors f [] = []"
  by (simp add: ref_errors_def)

lemma ref_errors_Cons:
  "ref_errors f (n # ns) =
     (case f n of Inl e \<Rightarrow> e # ref_errors f ns | Inr _ \<Rightarrow> ref_errors f ns)"
  by (simp add: ref_errors_def split: sum.splits)

lemma ref_errors_Nil_iff: "ref_errors f ns = [] \<longleftrightarrow> (\<forall>n\<in>set ns. \<exists>v. f n = Inr v)"
proof (induction ns)
  case Nil
  show ?case by (simp add: ref_errors_def)
next
  case (Cons n ns)
  then show ?case by (cases "f n") (auto simp: ref_errors_def)
qed

lemma run_pieces_pure:
  "run_pieces (\<lambda>st n. (f n, st)) ps b merr st =
     (b @ concat (map (piece_subst f) ps),
      (if ref_errors f (piece_refs ps) = [] then merr else Some (last (ref_errors f (piece_refs ps)))), st)"
proof (induction ps arbitrary: b merr rule: piece_refs.induct)
  case (3 n tok ps)
  then show ?case by (cases "f n") (simp_all add: ref_errors_Cons)
qed (simp_all add: ref_errors_empty)

locale secret_service =
  fixes resolve :: "'st \<Rightarrow> string \<Rightarrow> (secret_error + string) \<times> 'st"
    and inv :: "'st \<Rightarrow> bool"
    and known :: "string \<Rightarrow> bool"
  assumes resolve_known: "inv st \<Longrightarrow> known n \<Longrightarrow> \<exists>v st'. resolve st n = (Inr v, st') \<and> inv st'"
begin

lemma run_pieces_ok:
  "inv st \<Longrightarrow> (\<forall>n\<in>set (piece_refs ps). known n) \<Longrightarrow>
     \<exists>b' st'. run_pieces resolve ps b None st = (b', None, st') \<and> inv st'"
proof (induction ps arbitrary: b st rule: piece_refs.induct)
  case (3 n tok ps)
  then obtain v st' where "resolve st n = (Inr v, st')" "inv st'"
    using resolve_known [of st n] by auto
  with 3 show ?case by simp
qed auto

lemma interpolate_ok:
  assumes "inv st" and "\<forall>n\<in>set (extractSecretRefs s). known n"
  shows "\<exists>v st'. Interpolate (Some resolve) s st = (Inr v, st') \<and> inv st'"
proof -
  have "\<forall>n\<in>set (piece_refs (pieces_from s 0)). known n"
    using assms(2) by (simp add: extractSecretRefs_def refs_pieces)
  from run_pieces_ok [OF assms(1) this] obtain b st' where
    "run_pieces resolve (pieces_from s 0) [] None st = (b, None, st')" "inv st'" by blast
  then show ?thesis by (simp add: Interpolate_def interp_pieces)
qed

end

text \<open>
  The secrets of \<open>ns\<close> have been read successfully once: each is configured and has a last good value.
\<close>

definition warm :: "string list \<Rightarrow> secret_resolver \<Rightarrow> bool" where
  "warm ns r \<longleftrightarrow> (\<forall>n\<in>set ns. map_of (sr_sources r) n \<noteq> None \<and> map_of (sr_last_good r) n \<noteq> None)"

lemma Resolve_sources [simp]: "sr_sources (snd (Resolve w canceled r n)) = sr_sources r"
  by (auto simp: Resolve_def split: option.splits sum.splits)

lemma Resolve_keeps_good:
  "map_of (sr_last_good r) m \<noteq> None \<Longrightarrow> map_of (sr_last_good (snd (Resolve w canceled r n))) m \<noteq> None"
  by (auto simp: Resolve_def split: option.splits sum.splits)

lemma Resolve_warm [inv_intros]: "warm ns r \<Longrightarrow> warm ns (snd (Resolve w canceled r n))"
  by (simp add: warm_def Resolve_keeps_good)

lemma Resolve_last_good:
  "map_of (sr_sources r) n \<noteq> None \<Longrightarrow> map_of (sr_last_good r) n \<noteq> None \<Longrightarrow>
     \<exists>v. fst (Resolve w canceled r n) = Inr v"
  by (auto simp: Resolve_def split: option.splits sum.splits)

lemma Resolve_ok_caches:
  "fst (Resolve w canceled r n) = Inr v \<Longrightarrow>
     map_of (sr_last_good (snd (Resolve w canceled r n))) n = Some v"
  by (auto simp: Resolve_def split: option.splits sum.splits if_splits)

interpretation warm_cache: secret_service "Resolve w canceled" "warm ns" "\<lambda>n. n \<in> set ns"
  for w canceled ns
proof unfold_locales
  fix st n
  assume warm: "warm ns st" and n: "n \<in> set ns"
  obtain v where "fst (Resolve w canceled st n) = Inr v"
    using Resolve_last_good [of st n w canceled] warm n unfolding warm_def by blast
  then show "\<exists>v st'. Resolve w canceled st n = (Inr v, st') \<and> warm ns st'"
    using Resolve_warm [OF warm] by (metis prod.collapse)
qed

subsection \<open>Recognising a reference\<close>

lemma secret_name_byte_ink: "secret_name_byte b \<Longrightarrow> ink_byte b \<and> b \<noteq> CHR ''}'' \<and> b \<noteq> CHR '':'' \<and> b \<noteq> CHR ''{''"
  by (auto simp: secret_name_byte_def ink_byte_def less_eq_char_def)

lemma valid_name_facts:
  assumes "isValidSecretName n"
  shows "n \<noteq> []" "ink_byte (hd n)" "ink_byte (last n)" "CHR ''}'' \<notin> set n" "CHR ''{'' \<notin> set n"
  using assms secret_name_byte_ink
  by (auto simp: isValidSecretName_def list_all_iff)

lemma parse_canonical:
  assumes "isValidSecretName n"
  shows "parseSecretRef (''{secret:'' @ n @ ''}'' @ post) 0 = (n, length n + 9)"
proof -
  note v = valid_name_facts [OF assms]
  have idx: "index_byte (''secret:'' @ n @ CHR ''}'' # post) (CHR ''}'') = Some (7 + length n)"
    using index_byte_append_notin [of "CHR ''}''" "''secret:'' @ n" post] v(4) by simp
  have "trim_space (''secret:'' @ n) = ''secret:'' @ n"
    by (rule trim_space_ink) (use v in \<open>auto simp: ink_byte_def\<close>)
  moreover have "trim_space ''secret'' = ''secret''"
    by (rule trim_space_ink) (auto simp: ink_byte_def)
  moreover have "trim_space n = n" by (rule trim_space_ink) (use v in auto)
  ultimately show ?thesis
    using idx assms by (simp add: parseSecretRef_def str_cut_def Let_def)
qed

lemma parse_shift:
  "parseSecretRef (p @ s) (length p + i) =
     (case parseSecretRef s i of (n, e) \<Rightarrow> if e = 0 then (n, 0) else (n, length p + e))"
  by (auto simp: parseSecretRef_def nth_append Let_def split: option.splits)

lemma refs_shift: "secret_refs_from (p @ s) (length p + i) = secret_refs_from s i"
proof (induction s i rule: secret_refs_from.induct)
  case (1 s i)
  obtain n e where p: "parseSecretRef s i = (n, e)" by (cases "parseSecretRef s i")
  with 1 show ?case
    by (auto simp: secret_refs_from.simps [of s i] secret_refs_from.simps [of "p @ s" "length p + i"]
        parse_shift nth_append add.assoc)
qed

lemma refs_skip_plain:
  "CHR ''{'' \<notin> set pre \<Longrightarrow> secret_refs_from (pre @ s) 0 = secret_refs_from s 0"
proof (induction pre)
  case (Cons c pre)
  then have "secret_refs_from (c # pre @ s) 0 = secret_refs_from ([c] @ pre @ s) (length [c] + 0)"
    by (subst secret_refs_from.simps) auto
  with Cons show ?case by (simp only: refs_shift) simp
qed simp

subsection \<open>Properties\<close>

text \<open>
  Interpolation replaces exactly the references that \<open>extractSecretRefs\<close> reports, each by what
  the resolver answers, and copies every other byte; if some references do not resolve, it returns
  the error of the last of them and no text.
\<close>

theorem interpolate_substitutes:
  "Interpolate (Some (\<lambda>st n. (f n, st))) s st =
     ((case rev (ref_errors f (extractSecretRefs s)) of
         [] \<Rightarrow> Inr (concat (map (piece_subst f) (pieces_from s 0)))
       | e # es \<Rightarrow> Inl e), st) \<and>
   concat (map piece_text (pieces_from s 0)) = s \<and>
   piece_refs (pieces_from s 0) = extractSecretRefs s"
  by (cases "ref_errors f (extractSecretRefs s)" rule: rev_cases)
    (simp_all add: Interpolate_def interp_pieces run_pieces_pure extractSecretRefs_def refs_pieces
      pieces_text)

text \<open>
  Once every secret a value refers to has been read successfully, interpolating the value never
  fails again, whatever its sources or the caller's context do, and the resolver stays that way.
\<close>

theorem interpolate_survives_outage:
  assumes "warm (extractSecretRefs s) r"
  shows "\<exists>v r'. Interpolate (Some (Resolve w canceled)) s r = (Inr v, r') \<and>
    warm (extractSecretRefs s) r'"
  by (rule warm_cache.interpolate_ok [OF assms]) simp

definition demo_resolver :: secret_resolver where
  "demo_resolver = \<lparr>sr_sources = [(''k'', \<lparr>ss_value = [], ss_env = [], ss_file = ''/f'', ss_command = []\<rparr>)],
     sr_last_good = [(''k'', ''v1'')]\<rparr>"

definition dead_world :: sec_world where
  "dead_world = \<lparr>sw_getenv = (\<lambda>_. []), sw_read_file = (\<lambda>_. None), sw_split = (\<lambda>_. None),
     sw_run = (\<lambda>_. None)\<rparr>"

lemma demo_refs: "extractSecretRefs ''{secret:k}'' = [''k'']"
proof -
  have "parseSecretRef ''{secret:k}'' 0 = (''k'', 10)"
    using parse_canonical [of "''k''" "[]"]
    by (simp add: isValidSecretName_def secret_name_byte_def less_eq_char_def)
  then show ?thesis
    by (simp add: extractSecretRefs_def secret_refs_from.simps)
qed

theorem interpolate_survives_outage_witness:
  "\<exists>v r'. Interpolate (Some (Resolve dead_world True)) ''{secret:k}'' demo_resolver = (Inr v, r') \<and>
     warm (extractSecretRefs ''{secret:k}'') r'"
proof -
  have "warm (extractSecretRefs ''{secret:k}'') demo_resolver"
    unfolding demo_refs by (simp add: warm_def demo_resolver_def)
  then show ?thesis by (rule interpolate_survives_outage)
qed

text \<open>
  A reference written without spaces is recognised wherever no brace precedes it: its name is
  the first one reported, and the scan goes on right after it.
\<close>

theorem secret_ref_recognised:
  assumes "isValidSecretName n" and "CHR ''{'' \<notin> set pre"
  shows "extractSecretRefs (pre @ ''{secret:'' @ n @ ''}'' @ post) = n # extractSecretRefs post"
proof -
  let ?t = "''{secret:'' @ n @ ''}''"
  have "extractSecretRefs (pre @ ''{secret:'' @ n @ ''}'' @ post) = secret_refs_from (?t @ post) 0"
    using refs_skip_plain [OF assms(2), of "?t @ post"] by (simp add: extractSecretRefs_def)
  also have "\<dots> = n # secret_refs_from (?t @ post) (length ?t + 0)"
    using parse_canonical [OF assms(1), of post]
    by (subst secret_refs_from.simps) (simp add: eval_nat_numeral)
  also have "\<dots> = n # extractSecretRefs post"
    by (simp only: refs_shift extractSecretRefs_def)
  finally show ?thesis .
qed

theorem secret_ref_recognised_witness:
  "extractSecretRefs (''Bearer '' @ ''{secret:'' @ ''tok'' @ ''}'' @ ''.'') = ''tok'' # extractSecretRefs ''.''"
  by (rule secret_ref_recognised)
    (simp_all add: isValidSecretName_def secret_name_byte_def less_eq_char_def)

end
