(* ===== verification/Gw_Config.thy ===== *)
theory Gw_Config
  imports Gw_Glob Gw_Secrets Gw_Redact
begin

text \<open>
  The configuration, \<open>internal/gateway/config.go\<close> and \<open>mcpauth/config.go\<close>: its records, the
  defaults, and \<open>Validate\<close>. An error is a value of \<open>config_error\<close>, one constructor per message.
  The TOML decoder is not modelled: a configuration is a value of the record \<open>config\<close>.

  \<open>time.ParseDuration\<close> is the argument \<open>pd\<close>, which gives nanoseconds or \<open>None\<close> for an error;
  \<open>compile\<close> is as in \<open>Gw_Redact\<close>. The maps of environment variables and headers are lists in the
  order in which a \<open>range\<close> visits them.
\<close>

subsection \<open>Records\<close>

record scope_config =
  sc_name :: string
  sc_match :: "string list"

record route_config =
  ro_host :: string
  ro_path :: string

record reconnect_config =
  rc_keepalive :: string
  rc_initial :: string
  rc_max :: string

record tools_config =
  tc_allow :: "string list"
  tc_deny :: "string list"
  tc_prefix :: string
  tc_desc_max :: int
  tc_scopes :: "scope_config list"
  tc_lazy :: "bool option"

record redact_config =
  rd_enabled :: bool
  rd_patterns :: "string list"
  rd_min_entropy :: real

record upstream_config =
  up_name :: string
  up_kind :: string
  up_command :: "string list"
  up_url :: string
  up_headers :: "(string, string) gomap"
  up_strip :: "string list"
  up_env :: "(string, string) gomap"
  up_tools :: tools_config
  up_route :: route_config
  up_reconnect :: "reconnect_config option"
  up_call_timeout :: string
  up_redact :: "redact_config option"

record server_config =
  sv_name :: string
  sv_instructions :: string
  sv_lazy_tools :: bool
  sv_drain_timeout :: string

record blob_s3_config =
  s3_endpoint :: string
  s3_bucket :: string
  s3_prefix :: string
  s3_region :: string

record blob_mount_config =
  mt_name :: string
  mt_dir :: string
  mt_prefix :: string

record blob_config =
  bl_addr :: string
  bl_base_url :: string
  bl_dir :: string
  bl_ttl :: string
  bl_s3 :: blob_s3_config
  bl_mounts :: "blob_mount_config list"

record oauth_config =
  oa_enabled :: bool
  oa_issuer :: string
  oa_resource :: string
  oa_scopes :: "string list"
  oa_client_id :: string
  oa_token_ttl :: string
  oa_redirect_uris :: "string list"

record auth_config =
  au_enabled :: bool
  au_header :: string
  au_value :: string
  au_oauth :: oauth_config

record config =
  cf_server :: server_config
  cf_upstreams :: "upstream_config list"
  cf_secrets :: "secret_config list"
  cf_auth :: auth_config
  cf_redact :: redact_config
  cf_blob :: blob_config

text \<open>
  The errors, grouped by the section they are about. \<open>UpstreamErr n e\<close> is a message that starts with
  \<open>upstream "n":\<close>; the error of an upstream that has no name carries its index.
\<close>

datatype reconnect_error = KeepAliveBad | InitialBackoffBad | MaxBackoffBad | BackoffOrder

datatype route_error = RouteHostURL | RouteHostPort | RoutePathSlash

datatype scope_error =
    ScopeNameRequired
  | ScopeNameColon string
  | ScopeDuplicated string
  | ScopeMatchRequired string
  | ScopePatternBad string string

datatype upstream_error =
    KindInvalid string
  | StdioNeedsCommand
  | KindNeedsURL string
  | ReconnectErr reconnect_error
  | CallTimeoutBad
  | RouteErr route_error
  | ScopeErr scope_error
  | RouteDuplicates string

datatype blob_error =
    MountsUnserved
  | TTLBad
  | TwoBackends
  | NeedsBucket
  | MountNameRequired nat
  | MountDuplicated string
  | MountDirRequired string
  | MountDirRelative string string
  | MountPrefixRelative string string

datatype auth_error =
    AuthHeaderRequired
  | AuthValueRequired
  | OAuthIssuerRequired
  | OAuthResourceRequired
  | OAuthRedirectsRequired
  | OAuthTokenTTLBad

datatype join_error =
    SecretUndefined string string
  | StripHeaderEmpty string
  | UpstreamRedactBad string string
  | AuthErrs "auth_error list"
  | AuthSecretUndefined string

datatype config_error =
    NoUpstream
  | DrainTimeoutBad
  | UpstreamNameRequired nat
  | UpstreamDuplicated string
  | UpstreamErr string upstream_error
  | BlobErr blob_error
  | SecretNameRequired nat
  | SecretDuplicated string
  | Joined "join_error list"
  | RedactBad string

definition wrap_err :: "('e \<Rightarrow> 'f) \<Rightarrow> 'e + 'a \<Rightarrow> 'f + 'a" where
  "wrap_err f r = map_sum f id r"

lemma wrap_err_simps [simp]:
  "wrap_err f (Inl e) = Inl (f e)"
  "wrap_err f (Inr x) = Inr x"
  "wrap_err f r = Inr y \<longleftrightarrow> r = Inr y"
  by (simp_all add: wrap_err_def) (cases r; simp)

subsection \<open>Defaults\<close>

definition tc_is_lazy :: "tools_config \<Rightarrow> bool" where
  "tc_is_lazy t = (case tc_lazy t of None \<Rightarrow> False | Some b \<Rightarrow> b)"

definition anyLazy :: "config \<Rightarrow> bool" where
  "anyLazy c = list_ex (\<lambda>u. tc_is_lazy (up_tools u)) (cf_upstreams c)"

definition default_lazy :: "bool \<Rightarrow> upstream_config \<Rightarrow> upstream_config" where
  "default_lazy b u =
     (if tc_lazy (up_tools u) = None then u\<lparr>up_tools := (up_tools u)\<lparr>tc_lazy := Some b\<rparr>\<rparr> else u)"

definition setDefaults :: "config \<Rightarrow> config" where
  "setDefaults c =
     (let c1 = (if sv_name (cf_server c) = []
                then c\<lparr>cf_server := (cf_server c)\<lparr>sv_name := ''mcpgateway''\<rparr>\<rparr> else c)
      in c1\<lparr>cf_upstreams := map (default_lazy (sv_lazy_tools (cf_server c1))) (cf_upstreams c1)\<rparr>)"

subsection \<open>Durations, routes, scopes, reconnect\<close>

definition parseOptionalDuration :: "(string \<Rightarrow> int option) \<Rightarrow> string \<Rightarrow> int option" where
  "parseOptionalDuration pd s = (if s = [] then Some 0 else pd s)"

definition validateReconnectConfig ::
  "(string \<Rightarrow> int option) \<Rightarrow> reconnect_config \<Rightarrow> reconnect_error + unit" where
  "validateReconnectConfig pd cfg =
     (case parseOptionalDuration pd (rc_keepalive cfg) of
        None \<Rightarrow> Inl KeepAliveBad
      | Some _ \<Rightarrow>
          (case parseOptionalDuration pd (rc_initial cfg) of
             None \<Rightarrow> Inl InitialBackoffBad
           | Some i \<Rightarrow>
               (case parseOptionalDuration pd (rc_max cfg) of
                  None \<Rightarrow> Inl MaxBackoffBad
                | Some m \<Rightarrow>
                    if rc_initial cfg \<noteq> [] \<and> rc_max cfg \<noteq> [] \<and> m < i then Inl BackoffOrder
                    else Inr ())))"

definition validateRouteConfig :: "route_config \<Rightarrow> route_error + unit" where
  "validateRouteConfig cfg =
     (if ro_host cfg = [] \<and> ro_path cfg = [] then Inr ()
      else if str_contains (ro_host cfg) ''://'' \<or> str_contains (ro_host cfg) ''/'' then Inl RouteHostURL
      else if str_contains (ro_host cfg) '':'' then Inl RouteHostPort
      else if ro_path cfg \<noteq> [] \<and> \<not> has_prefix (ro_path cfg) ''/'' then Inl RoutePathSlash
      else Inr ())"

fun validate_scopes :: "string list \<Rightarrow> scope_config list \<Rightarrow> scope_error + unit" where
  "validate_scopes seen [] = Inr ()"
| "validate_scopes seen (sc # scs) =
     (if sc_name sc = [] then Inl ScopeNameRequired
      else if str_contains (sc_name sc) '':'' then Inl (ScopeNameColon (sc_name sc))
      else if sc_name sc \<in> set seen then Inl (ScopeDuplicated (sc_name sc))
      else if sc_match sc = [] then Inl (ScopeMatchRequired (sc_name sc))
      else
        (case first_err (\<lambda>p. if path_match p [] = None
            then Inl (ScopePatternBad (sc_name sc) p) else Inr ()) (sc_match sc) of
           Inl e \<Rightarrow> Inl e
         | Inr _ \<Rightarrow> validate_scopes (sc_name sc # seen) scs))"

definition validateScopeConfigs :: "scope_config list \<Rightarrow> scope_error + unit" where
  "validateScopeConfigs scs = validate_scopes [] scs"

fun route_collisions ::
  "(route_config, string) gomap \<Rightarrow> upstream_config list \<Rightarrow> config_error + unit" where
  "route_collisions seen [] = Inr ()"
| "route_collisions seen (u # us) =
     (if ro_host (up_route u) = [] \<and> ro_path (up_route u) = [] then route_collisions seen us
      else
        (case map_of seen (up_route u) of
           Some prev \<Rightarrow> Inl (UpstreamErr (up_name u) (RouteDuplicates prev))
         | None \<Rightarrow> route_collisions (AList.update (up_route u) (up_name u) seen) us))"

definition validateRouteCollisions :: "upstream_config list \<Rightarrow> config_error + unit" where
  "validateRouteCollisions us = route_collisions [] us"

subsection \<open>The blob section\<close>

definition s3_enabled :: "blob_s3_config \<Rightarrow> bool" where
  "s3_enabled c = (s3_endpoint c \<noteq> [])"

definition blob_enabled :: "blob_config \<Rightarrow> bool" where
  "blob_enabled c = (bl_addr c \<noteq> [] \<or> s3_enabled (bl_s3 c))"

definition TTLDuration :: "(string \<Rightarrow> int option) \<Rightarrow> blob_config \<Rightarrow> int option" where
  "TTLDuration pd c = parseOptionalDuration pd (bl_ttl c)"

definition validateBackend :: "blob_config \<Rightarrow> blob_error + unit" where
  "validateBackend c =
     (if \<not> s3_enabled (bl_s3 c) then Inr ()
      else if bl_addr c \<noteq> [] \<or> bl_base_url c \<noteq> [] \<or> bl_dir c \<noteq> [] then Inl TwoBackends
      else if s3_bucket (bl_s3 c) = [] then Inl NeedsBucket
      else Inr ())"

definition mount_prefix :: "blob_mount_config \<Rightarrow> string" where
  "mount_prefix m = (if mt_prefix m \<noteq> [] then mt_prefix m else mt_dir m)"

text \<open>\<open>path.IsAbs\<close>, which \<open>filepath.IsAbs\<close> is on Unix.\<close>

definition path_is_abs :: "string \<Rightarrow> bool" where
  "path_is_abs p = has_prefix p ''/''"

fun validate_mounts :: "nat \<Rightarrow> string list \<Rightarrow> blob_mount_config list \<Rightarrow> blob_error + unit" where
  "validate_mounts i seen [] = Inr ()"
| "validate_mounts i seen (m # ms) =
     (if mt_name m = [] then Inl (MountNameRequired i)
      else if mt_name m \<in> set seen then Inl (MountDuplicated (mt_name m))
      else if mt_dir m = [] then Inl (MountDirRequired (mt_name m))
      else if \<not> path_is_abs (mt_dir m) then Inl (MountDirRelative (mt_name m) (mt_dir m))
      else if mt_prefix m \<noteq> [] \<and> \<not> path_is_abs (mt_prefix m)
        then Inl (MountPrefixRelative (mt_name m) (mt_prefix m))
      else validate_mounts (Suc i) (mt_name m # seen) ms)"

definition blob_validate :: "(string \<Rightarrow> int option) \<Rightarrow> blob_config \<Rightarrow> blob_error + unit" where
  "blob_validate pd c =
     (if \<not> blob_enabled c then
        (if bl_mounts c \<noteq> [] then Inl MountsUnserved else Inr ())
      else
        (case parseOptionalDuration pd (bl_ttl c) of
           None \<Rightarrow> Inl TTLBad
         | Some _ \<Rightarrow>
             (case validateBackend c of
                Inl e \<Rightarrow> Inl e
              | Inr _ \<Rightarrow> validate_mounts 0 [] (bl_mounts c))))"

subsection \<open>The auth section\<close>

definition oauth_validate :: "(string \<Rightarrow> int option) \<Rightarrow> oauth_config \<Rightarrow> auth_error list" where
  "oauth_validate pd c =
     (if \<not> oa_enabled c then []
      else (if oa_issuer c = [] then [OAuthIssuerRequired] else []) @
        (if oa_resource c = [] then [OAuthResourceRequired] else []) @
        (if oa_redirect_uris c = [] then [OAuthRedirectsRequired] else []) @
        (if parseOptionalDuration pd (oa_token_ttl c) = None then [OAuthTokenTTLBad] else []))"

text \<open>\<open>errors.Join\<close> of no error is nil.\<close>

definition errors_join :: "'e list \<Rightarrow> 'e list + unit" where
  "errors_join es = (if es = [] then Inr () else Inl es)"

definition auth_validate :: "(string \<Rightarrow> int option) \<Rightarrow> auth_config \<Rightarrow> auth_error list + unit" where
  "auth_validate pd c =
     (if \<not> au_enabled c then Inr ()
      else errors_join
        ((if au_header c = [] then [AuthHeaderRequired] else []) @
         (if au_value c = [] then [AuthValueRequired] else []) @
         oauth_validate pd (au_oauth c)))"

subsection \<open>Validate\<close>

text \<open>The checks of one upstream after its name.\<close>

definition validate_body :: "(string \<Rightarrow> int option) \<Rightarrow> upstream_config \<Rightarrow> upstream_error + unit" where
  "validate_body pd u =
     (if up_kind u \<notin> {''stdio'', ''http'', ''sse''} then Inl (KindInvalid (up_kind u))
      else if up_kind u = ''stdio'' \<and> up_command u = [] then Inl StdioNeedsCommand
      else if (up_kind u = ''http'' \<or> up_kind u = ''sse'') \<and> up_url u = [] then Inl (KindNeedsURL (up_kind u))
      else
        (case (case up_reconnect u of None \<Rightarrow> Inr () | Some rc \<Rightarrow> validateReconnectConfig pd rc) of
           Inl e \<Rightarrow> Inl (ReconnectErr e)
         | Inr _ \<Rightarrow>
             (if parseOptionalDuration pd (up_call_timeout u) = None then Inl CallTimeoutBad
              else
                (case validateRouteConfig (up_route u) of
                   Inl e \<Rightarrow> Inl (RouteErr e)
                 | Inr _ \<Rightarrow> wrap_err ScopeErr (validateScopeConfigs (tc_scopes (up_tools u)))))))"

fun validate_upstreams ::
  "(string \<Rightarrow> int option) \<Rightarrow> nat \<Rightarrow> string list \<Rightarrow> upstream_config list \<Rightarrow> config_error + unit" where
  "validate_upstreams pd i seen [] = Inr ()"
| "validate_upstreams pd i seen (u # us) =
     (if up_name u = [] then Inl (UpstreamNameRequired i)
      else if up_name u \<in> set seen then Inl (UpstreamDuplicated (up_name u))
      else
        (case validate_body pd u of
           Inl e \<Rightarrow> Inl (UpstreamErr (up_name u) e)
         | Inr _ \<Rightarrow> validate_upstreams pd (Suc i) (up_name u # seen) us))"

fun validate_secrets :: "nat \<Rightarrow> string list \<Rightarrow> secret_config list \<Rightarrow> config_error + string list" where
  "validate_secrets i seen [] = Inr seen"
| "validate_secrets i seen (s # ss) =
     (if se_name s = [] then Inl (SecretNameRequired i)
      else if se_name s \<in> set seen then Inl (SecretDuplicated (se_name s))
      else validate_secrets (Suc i) (se_name s # seen) ss)"

definition undefined_refs :: "string list \<Rightarrow> string \<Rightarrow> string list \<Rightarrow> join_error list" where
  "undefined_refs seen u vs =
     concat (map (\<lambda>v. map (SecretUndefined u) (filter (\<lambda>n. n \<notin> set seen) (extractSecretRefs v))) vs)"

definition upstream_join_errs ::
  "(string \<Rightarrow> (string \<Rightarrow> string) option) \<Rightarrow> string list \<Rightarrow> upstream_config \<Rightarrow> join_error list" where
  "upstream_join_errs compile seen u =
     undefined_refs seen (up_name u) (map snd (up_env u)) @
     undefined_refs seen (up_name u) (map snd (up_headers u)) @
     map (\<lambda>h. StripHeaderEmpty (up_name u)) (filter (\<lambda>h. h = []) (up_strip u)) @
     (case up_redact u of
        None \<Rightarrow> []
      | Some rd \<Rightarrow>
          (if rd_enabled rd \<and> rd_patterns rd \<noteq> [] then
             (case NewRedactor compile (rd_patterns rd) (rd_min_entropy rd) of
                Inl p \<Rightarrow> [UpstreamRedactBad (up_name u) p]
              | Inr _ \<Rightarrow> [])
           else []))"

definition join_errs ::
  "(string \<Rightarrow> int option) \<Rightarrow> (string \<Rightarrow> (string \<Rightarrow> string) option) \<Rightarrow> string list \<Rightarrow> config \<Rightarrow> join_error list" where
  "join_errs pd compile seen c =
     concat (map (upstream_join_errs compile seen) (cf_upstreams c)) @
     (case auth_validate pd (cf_auth c) of Inl e \<Rightarrow> [AuthErrs e] | Inr _ \<Rightarrow> []) @
     (if au_enabled (cf_auth c)
      then map AuthSecretUndefined (filter (\<lambda>n. n \<notin> set seen) (extractSecretRefs (au_value (cf_auth c))))
      else [])"

definition validate_redact ::
  "(string \<Rightarrow> (string \<Rightarrow> string) option) \<Rightarrow> redact_config \<Rightarrow> config_error + unit" where
  "validate_redact compile rd =
     (if rd_enabled rd \<and> rd_patterns rd \<noteq> [] then
        (case NewRedactor compile (rd_patterns rd) (rd_min_entropy rd) of
           Inl p \<Rightarrow> Inl (RedactBad p)
         | Inr _ \<Rightarrow> Inr ())
      else Inr ())"

definition Validate ::
  "(string \<Rightarrow> int option) \<Rightarrow> (string \<Rightarrow> (string \<Rightarrow> string) option) \<Rightarrow> config \<Rightarrow> config_error + unit" where
  "Validate pd compile c =
     (if cf_upstreams c = [] then Inl NoUpstream
      else if parseOptionalDuration pd (sv_drain_timeout (cf_server c)) = None then Inl DrainTimeoutBad
      else
        (case validate_upstreams pd 0 [] (cf_upstreams c) of
           Inl e \<Rightarrow> Inl e
         | Inr _ \<Rightarrow>
             (case validateRouteCollisions (cf_upstreams c) of
                Inl e \<Rightarrow> Inl e
              | Inr _ \<Rightarrow>
                  (case blob_validate pd (cf_blob c) of
                     Inl e \<Rightarrow> Inl (BlobErr e)
                   | Inr _ \<Rightarrow>
                       (case validate_secrets 0 [] (cf_secrets c) of
                          Inl e \<Rightarrow> Inl e
                        | Inr seen \<Rightarrow>
                            (case errors_join (join_errs pd compile seen c) of
                               Inl es \<Rightarrow> Inl (Joined es)
                             | Inr _ \<Rightarrow> validate_redact compile (cf_redact c)))))))"

text \<open>\<open>Decode\<close> after the TOML decoder.\<close>

definition Decode ::
  "(string \<Rightarrow> int option) \<Rightarrow> (string \<Rightarrow> (string \<Rightarrow> string) option) \<Rightarrow> config \<Rightarrow> config_error + config" where
  "Decode pd compile c =
     (let c1 = setDefaults c in
      case Validate pd compile c1 of Inl e \<Rightarrow> Inl e | Inr _ \<Rightarrow> Inr c1)"


subsection \<open>What a valid configuration is\<close>

definition dur_ok :: "(string \<Rightarrow> int option) \<Rightarrow> string \<Rightarrow> bool" where
  "dur_ok pd s \<longleftrightarrow> s = [] \<or> pd s \<noteq> None"

definition reconnect_ok :: "(string \<Rightarrow> int option) \<Rightarrow> reconnect_config \<Rightarrow> bool" where
  "reconnect_ok pd rc \<longleftrightarrow>
     dur_ok pd (rc_keepalive rc) \<and> dur_ok pd (rc_initial rc) \<and> dur_ok pd (rc_max rc) \<and>
     (rc_initial rc = [] \<or> rc_max rc = [] \<or> the (pd (rc_initial rc)) \<le> the (pd (rc_max rc)))"

definition route_ok :: "route_config \<Rightarrow> bool" where
  "route_ok r \<longleftrightarrow> CHR ''/'' \<notin> set (ro_host r) \<and> CHR '':'' \<notin> set (ro_host r) \<and>
     (ro_path r = [] \<or> hd (ro_path r) = CHR ''/'')"

text \<open>A pattern of a scope has a verdict on every name.\<close>

definition scope_ok :: "scope_config \<Rightarrow> bool" where
  "scope_ok sc \<longleftrightarrow> sc_name sc \<noteq> [] \<and> CHR '':'' \<notin> set (sc_name sc) \<and> sc_match sc \<noteq> [] \<and>
     (\<forall>p\<in>set (sc_match sc). \<forall>n. path_match p n \<noteq> None)"

definition scopes_ok :: "scope_config list \<Rightarrow> bool" where
  "scopes_ok scs \<longleftrightarrow> list_all scope_ok scs \<and> distinct (map sc_name scs)"

definition upstream_ok :: "(string \<Rightarrow> int option) \<Rightarrow> upstream_config \<Rightarrow> bool" where
  "upstream_ok pd u \<longleftrightarrow> up_name u \<noteq> [] \<and>
     (up_kind u = ''stdio'' \<and> up_command u \<noteq> [] \<or> up_kind u \<in> {''http'', ''sse''} \<and> up_url u \<noteq> []) \<and>
     (\<forall>rc. up_reconnect u = Some rc \<longrightarrow> reconnect_ok pd rc) \<and>
     dur_ok pd (up_call_timeout u) \<and> route_ok (up_route u) \<and> scopes_ok (tc_scopes (up_tools u))"

definition has_route :: "route_config \<Rightarrow> bool" where
  "has_route r \<longleftrightarrow> ro_host r \<noteq> [] \<or> ro_path r \<noteq> []"

definition mount_ok :: "blob_mount_config \<Rightarrow> bool" where
  "mount_ok m \<longleftrightarrow> mt_name m \<noteq> [] \<and> path_is_abs (mt_dir m) \<and> path_is_abs (mount_prefix m)"

definition blob_ok :: "(string \<Rightarrow> int option) \<Rightarrow> blob_config \<Rightarrow> bool" where
  "blob_ok pd c \<longleftrightarrow>
     (if blob_enabled c then
        dur_ok pd (bl_ttl c) \<and>
        (s3_enabled (bl_s3 c) \<longrightarrow>
           bl_addr c = [] \<and> bl_base_url c = [] \<and> bl_dir c = [] \<and> s3_bucket (bl_s3 c) \<noteq> []) \<and>
        list_all mount_ok (bl_mounts c) \<and> distinct (map mt_name (bl_mounts c))
      else bl_mounts c = [])"

definition redact_ok :: "(string \<Rightarrow> (string \<Rightarrow> string) option) \<Rightarrow> redact_config \<Rightarrow> bool" where
  "redact_ok compile rd \<longleftrightarrow> rd_enabled rd \<longrightarrow> (\<forall>p\<in>set (rd_patterns rd). compile p \<noteq> None)"

definition auth_ok :: "(string \<Rightarrow> int option) \<Rightarrow> string set \<Rightarrow> auth_config \<Rightarrow> bool" where
  "auth_ok pd known a \<longleftrightarrow> au_enabled a \<longrightarrow>
     au_header a \<noteq> [] \<and> au_value a \<noteq> [] \<and> set (extractSecretRefs (au_value a)) \<subseteq> known \<and>
     (oa_enabled (au_oauth a) \<longrightarrow> oa_issuer (au_oauth a) \<noteq> [] \<and> oa_resource (au_oauth a) \<noteq> [] \<and>
        oa_redirect_uris (au_oauth a) \<noteq> [] \<and> dur_ok pd (oa_token_ttl (au_oauth a)))"

text \<open>The values of an upstream in which secrets are interpolated.\<close>

definition secret_values :: "upstream_config \<Rightarrow> string list" where
  "secret_values u = map snd (up_env u) @ map snd (up_headers u)"

definition config_ok ::
  "(string \<Rightarrow> int option) \<Rightarrow> (string \<Rightarrow> (string \<Rightarrow> string) option) \<Rightarrow> config \<Rightarrow> bool" where
  "config_ok pd compile c \<longleftrightarrow>
     cf_upstreams c \<noteq> [] \<and> dur_ok pd (sv_drain_timeout (cf_server c)) \<and>
     list_all (upstream_ok pd) (cf_upstreams c) \<and> distinct (map up_name (cf_upstreams c)) \<and>
     distinct (filter has_route (map up_route (cf_upstreams c))) \<and> blob_ok pd (cf_blob c) \<and>
     [] \<notin> se_name ` set (cf_secrets c) \<and> distinct (map se_name (cf_secrets c)) \<and>
     (\<forall>u\<in>set (cf_upstreams c).
        (\<forall>v\<in>set (secret_values u). set (extractSecretRefs v) \<subseteq> se_name ` set (cf_secrets c)) \<and>
        [] \<notin> set (up_strip u) \<and> (\<forall>rd. up_redact u = Some rd \<longrightarrow> redact_ok compile rd)) \<and>
     auth_ok pd (se_name ` set (cf_secrets c)) (cf_auth c) \<and> redact_ok compile (cf_redact c)"

lemma str_contains_byte: "str_contains s [b] \<longleftrightarrow> b \<in> set s"
  by (induction s) (auto simp: has_prefix_def)

lemma str_contains_sub: "str_contains s t \<Longrightarrow> t \<noteq> [] \<Longrightarrow> set t \<subseteq> set s"
  by (induction s) (auto simp: has_prefix_iff Cons_eq_append_conv)

lemma has_prefix_byte: "has_prefix s [b] \<longleftrightarrow> s \<noteq> [] \<and> hd s = b"
  by (cases s) (auto simp: has_prefix_def)

lemma dur_iff: "parseOptionalDuration pd s = None \<longleftrightarrow> \<not> dur_ok pd s"
  by (simp add: parseOptionalDuration_def dur_ok_def)

lemma reconnect_iff: "validateReconnectConfig pd rc = Inr () \<longleftrightarrow> reconnect_ok pd rc"
  by (auto simp: validateReconnectConfig_def reconnect_ok_def parseOptionalDuration_def dur_ok_def
      split: option.splits if_splits)

lemma route_iff: "validateRouteConfig r = Inr () \<longleftrightarrow> route_ok r"
  using str_contains_sub [of "ro_host r" "''://''"]
  by (auto simp: validateRouteConfig_def route_ok_def str_contains_byte has_prefix_byte)

lemma pattern_iff: "path_match p [] = None \<longleftrightarrow> \<not> (\<forall>n. path_match p n \<noteq> None)"
  using path_match_error_independent by blast

lemma patterns_iff:
  "first_err (\<lambda>p. if path_match p [] = None then Inl (e p) else Inr ()) ps = Inr () \<longleftrightarrow>
     (\<forall>p\<in>set ps. \<forall>n. path_match p n \<noteq> None)"
  unfolding first_err_ok by (simp add: pattern_iff)

lemma scopes_iff:
  "validate_scopes seen scs = Inr () \<longleftrightarrow>
     list_all scope_ok scs \<and> distinct (map sc_name scs) \<and> set (map sc_name scs) \<inter> set seen = {}"
proof (induction seen scs rule: validate_scopes.induct)
  case (2 seen sc scs)
  have "validate_scopes seen (sc # scs) = Inr () \<longleftrightarrow>
      scope_ok sc \<and> sc_name sc \<notin> set seen \<and> validate_scopes (sc_name sc # seen) scs = Inr ()"
    by (auto simp only: validate_scopes.simps ok_simps patterns_iff scope_ok_def str_contains_byte)
  also have "\<dots> \<longleftrightarrow> scope_ok sc \<and> sc_name sc \<notin> set seen \<and> list_all scope_ok scs \<and>
      distinct (map sc_name scs) \<and> set (map sc_name scs) \<inter> set (sc_name sc # seen) = {}"
    using 2 by (auto simp: scope_ok_def [of sc] str_contains_byte patterns_iff)
  finally show ?case by auto
qed simp

lemma mounts_iff:
  "validate_mounts i seen ms = Inr () \<longleftrightarrow>
     list_all mount_ok ms \<and> distinct (map mt_name ms) \<and> set (map mt_name ms) \<inter> set seen = {}"
  by (induction i seen ms rule: validate_mounts.induct)
    (auto simp: mount_ok_def mount_prefix_def path_is_abs_def has_prefix_byte)

lemma blob_iff: "blob_validate pd c = Inr () \<longleftrightarrow> blob_ok pd c"
  using dur_iff [of pd "bl_ttl c"]
  by (auto simp: blob_validate_def blob_ok_def validateBackend_def mounts_iff split: option.splits)

lemma body_iff:
  "up_name u \<noteq> [] \<Longrightarrow> validate_body pd u = Inr () \<longleftrightarrow> upstream_ok pd u"
  by (cases "up_reconnect u")
    (auto simp: validate_body_def ok_simps upstream_ok_def reconnect_iff route_iff dur_iff scopes_iff
      validateScopeConfigs_def scopes_ok_def)

lemma upstreams_iff:
  "validate_upstreams pd i seen us = Inr () \<longleftrightarrow>
     list_all (upstream_ok pd) us \<and> distinct (map up_name us) \<and> set (map up_name us) \<inter> set seen = {}"
proof (induction pd i seen us rule: validate_upstreams.induct)
  case (2 pd i seen u us)
  have "validate_upstreams pd i seen (u # us) = Inr () \<longleftrightarrow>
      upstream_ok pd u \<and> up_name u \<notin> set seen \<and> validate_upstreams pd (Suc i) (up_name u # seen) us = Inr ()"
    using body_iff [of u pd] by (auto simp: ok_simps upstream_ok_def)
  with 2 show ?case by (auto simp: upstream_ok_def [of pd u] body_iff)
qed simp

lemma routes_iff:
  "route_collisions seen us = Inr () \<longleftrightarrow>
     distinct (filter has_route (map up_route us)) \<and>
     set (filter has_route (map up_route us)) \<inter> dom (map_of seen) = {}"
proof (induction seen us rule: route_collisions.induct)
  case (2 seen u us)
  let ?R = "filter has_route (map up_route us)"
  show ?case
  proof (cases "has_route (up_route u)")
    case False
    with 2(1) show ?thesis by (simp add: has_route_def)
  next
    case True
    then have ne: "\<not> (ro_host (up_route u) = [] \<and> ro_path (up_route u) = [])"
      by (simp add: has_route_def)
    show ?thesis
    proof (cases "map_of seen (up_route u)")
      case None
      have "route_collisions seen (u # us) = Inr () \<longleftrightarrow>
          distinct ?R \<and> set ?R \<inter> insert (up_route u) (dom (map_of seen)) = {}"
      proof -
        have "dom (map_of (AList.update (up_route u) (up_name u) seen)) =
            insert (up_route u) (dom (map_of seen))" by simp
        with 2(2) [OF ne None] show ?thesis
          by (simp only: route_collisions.simps ne if_False None option.case)
      qed
      with True None show ?thesis by auto
    next
      case (Some prev)
      with True ne show ?thesis by auto
    qed
  qed
qed simp

lemma secrets_iff:
  "validate_secrets i seen ss = Inr seen' \<longleftrightarrow>
     [] \<notin> se_name ` set ss \<and> distinct (map se_name ss) \<and> se_name ` set ss \<inter> set seen = {} \<and>
     seen' = rev (map se_name ss) @ seen"
  by (induction i seen ss rule: validate_secrets.induct) auto

lemma compile_all_iff: "(\<exists>res. compile_all compile ps = Inr res) \<longleftrightarrow> (\<forall>p\<in>set ps. compile p \<noteq> None)"
  by (induction ps) (auto split: option.splits sum.splits)

lemma redactor_iff:
  "(\<exists>r. NewRedactor compile ps me = Inr r) \<longleftrightarrow> (\<forall>p\<in>set ps. compile p \<noteq> None)"
  using compile_all_iff [of compile ps] by (auto simp: NewRedactor_def split: sum.splits)

lemma validate_redact_iff: "validate_redact compile rd = Inr () \<longleftrightarrow> redact_ok compile rd"
  using redactor_iff [of compile "rd_patterns rd" "rd_min_entropy rd"]
  by (cases "NewRedactor compile (rd_patterns rd) (rd_min_entropy rd)")
    (auto simp: validate_redact_def redact_ok_def)

lemma undefined_refs_Nil:
  "undefined_refs seen u vs = [] \<longleftrightarrow> (\<forall>v\<in>set vs. set (extractSecretRefs v) \<subseteq> set seen)"
  by (auto simp: undefined_refs_def filter_empty_conv)

lemma upstream_join_Nil:
  "upstream_join_errs compile seen u = [] \<longleftrightarrow>
     (\<forall>v\<in>set (secret_values u). set (extractSecretRefs v) \<subseteq> set seen) \<and> [] \<notin> set (up_strip u) \<and>
     (\<forall>rd. up_redact u = Some rd \<longrightarrow> redact_ok compile rd)"
proof -
  have red: "(case up_redact u of None \<Rightarrow> []
      | Some rd \<Rightarrow> if rd_enabled rd \<and> rd_patterns rd \<noteq> []
          then (case NewRedactor compile (rd_patterns rd) (rd_min_entropy rd) of
                  Inl p \<Rightarrow> [UpstreamRedactBad (up_name u) p] | Inr _ \<Rightarrow> [])
          else []) = [] \<longleftrightarrow> (\<forall>rd. up_redact u = Some rd \<longrightarrow> redact_ok compile rd)"
  proof (cases "up_redact u")
    case (Some rd)
    with redactor_iff [of compile "rd_patterns rd" "rd_min_entropy rd"] show ?thesis
      by (cases "NewRedactor compile (rd_patterns rd) (rd_min_entropy rd)") (auto simp: redact_ok_def)
  qed simp
  have strip: "filter (\<lambda>h. h = []) (up_strip u) = [] \<longleftrightarrow> [] \<notin> set (up_strip u)"
    by (auto simp: filter_empty_conv)
  show ?thesis
    unfolding upstream_join_errs_def append_is_Nil_conv map_is_Nil_conv red strip undefined_refs_Nil
      secret_values_def set_append by blast
qed

lemma oauth_Nil:
  "oauth_validate pd c = [] \<longleftrightarrow> (oa_enabled c \<longrightarrow> oa_issuer c \<noteq> [] \<and> oa_resource c \<noteq> [] \<and>
     oa_redirect_uris c \<noteq> [] \<and> dur_ok pd (oa_token_ttl c))"
  by (simp add: oauth_validate_def dur_iff)

lemma join_errs_Nil:
  "join_errs pd compile seen c = [] \<longleftrightarrow>
     (\<forall>u\<in>set (cf_upstreams c). upstream_join_errs compile seen u = []) \<and>
     auth_ok pd (set seen) (cf_auth c)"
proof -
  have "(case auth_validate pd (cf_auth c) of Inl e \<Rightarrow> [AuthErrs e] | Inr _ \<Rightarrow> []) = [] \<longleftrightarrow>
      (au_enabled (cf_auth c) \<longrightarrow> au_header (cf_auth c) \<noteq> [] \<and> au_value (cf_auth c) \<noteq> [] \<and>
        oauth_validate pd (au_oauth (cf_auth c)) = [])"
    by (simp add: auth_validate_def errors_join_def)
  moreover have "map AuthSecretUndefined (filter (\<lambda>n. n \<notin> set seen) (extractSecretRefs v)) = [] \<longleftrightarrow>
      set (extractSecretRefs v) \<subseteq> set seen" for v
    by (auto simp: filter_empty_conv)
  ultimately show ?thesis
    by (auto simp: join_errs_def auth_ok_def oauth_Nil)
qed

lemma Validate_iff: "Validate pd compile c = Inr () \<longleftrightarrow> config_ok pd compile c"
proof -
  have seen: "set (rev (map se_name ss)) = se_name ` set ss" for ss by simp
  have join: "errors_join es = Inr () \<longleftrightarrow> es = []" for es :: "join_error list"
    by (simp add: errors_join_def)
  show ?thesis
    unfolding Validate_def validateRouteCollisions_def ok_simps upstreams_iff routes_iff blob_iff
      secrets_iff join join_errs_Nil upstream_join_Nil validate_redact_iff dur_iff config_ok_def
    by (auto simp: seen)
qed

lemma setDefaults_idem: "setDefaults (setDefaults c) = setDefaults c"
  by (auto simp: setDefaults_def Let_def default_lazy_def)


lemma setDefaults_defaults:
  "sv_name (cf_server (setDefaults c)) \<noteq> []"
  "u \<in> set (cf_upstreams (setDefaults c)) \<Longrightarrow> tc_lazy (up_tools u) \<noteq> None"
  "map up_name (cf_upstreams (setDefaults c)) = map up_name (cf_upstreams c)"
  by (auto simp: setDefaults_def Let_def default_lazy_def comp_def)

subsection \<open>Properties\<close>

text \<open>
  C37. \<open>Decode\<close> accepts exactly the configurations that meet the declarative description
  \<open>config_ok\<close> once their defaults are set, and returns them with the defaults; setting the defaults
  again changes nothing, and leaves no lazy flag unresolved.
\<close>

theorem decode_correct:
  "Decode pd compile c = Inr c' \<longleftrightarrow>
     c' = setDefaults c \<and> config_ok pd compile c' \<and> setDefaults c' = c' \<and> sv_name (cf_server c') \<noteq> [] \<and>
     (\<forall>u\<in>set (cf_upstreams c'). tc_lazy (up_tools u) \<noteq> None)"
proof -
  have "Decode pd compile c = Inr c' \<longleftrightarrow> Validate pd compile (setDefaults c) = Inr () \<and> setDefaults c = c'"
    unfolding Decode_def Let_def by (auto split: sum.splits)
  then show ?thesis
    unfolding Validate_iff using setDefaults_idem setDefaults_defaults by blast
qed

definition demo_tools :: tools_config where
  "demo_tools = \<lparr>tc_allow = [], tc_deny = [], tc_prefix = ''gh_'', tc_desc_max = 0,
     tc_scopes = [\<lparr>sc_name = ''read'', sc_match = [''get_*'']\<rparr>], tc_lazy = None\<rparr>"

definition demo_upstream :: upstream_config where
  "demo_upstream = \<lparr>up_name = ''gh'', up_kind = ''http'', up_command = [], up_url = ''http://gh'',
     up_headers = [(''Authorization'', ''token'')], up_strip = [], up_env = [], up_tools = demo_tools,
     up_route = \<lparr>ro_host = [], ro_path = ''/gh''\<rparr>, up_reconnect = None, up_call_timeout = [],
     up_redact = None\<rparr>"

definition demo_config :: config where
  "demo_config = \<lparr>cf_server = \<lparr>sv_name = [], sv_instructions = [], sv_lazy_tools = True, sv_drain_timeout = []\<rparr>,
     cf_upstreams = [demo_upstream],
     cf_secrets = [\<lparr>se_name = ''tok'', se_value = ''v'', se_env = [], se_file = [], se_command = []\<rparr>],
     cf_auth = \<lparr>au_enabled = False, au_header = [], au_value = [], au_oauth =
       \<lparr>oa_enabled = False, oa_issuer = [], oa_resource = [], oa_scopes = [], oa_client_id = [],
        oa_token_ttl = [], oa_redirect_uris = []\<rparr>\<rparr>,
     cf_redact = \<lparr>rd_enabled = False, rd_patterns = [], rd_min_entropy = 0\<rparr>,
     cf_blob = \<lparr>bl_addr = [], bl_base_url = [], bl_dir = [], bl_ttl = [],
       bl_s3 = \<lparr>s3_endpoint = [], s3_bucket = [], s3_prefix = [], s3_region = []\<rparr>, bl_mounts = []\<rparr>\<rparr>"

lemma demo_scope_pattern: "path_match ''get_*'' n \<noteq> None"
  using path_match_prefix_star [of "''get_''" n] by (simp add: plain_char_def)

lemma demo_config_ok: "config_ok (\<lambda>_. None) (\<lambda>_. None) (setDefaults demo_config)"
proof -
  have "extractSecretRefs ''token'' = []"
    using refs_skip_plain [of "''token''" "[]"]
    by (simp add: extractSecretRefs_def secret_refs_from.simps [of "[]"])
  moreover have "scope_ok \<lparr>sc_name = ''read'', sc_match = [''get_*'']\<rparr>"
    using demo_scope_pattern by (simp add: scope_ok_def)
  ultimately show ?thesis
    by (simp add: config_ok_def setDefaults_def demo_config_def demo_upstream_def demo_tools_def
        default_lazy_def dur_ok_def upstream_ok_def route_ok_def scopes_ok_def has_route_def blob_ok_def
        blob_enabled_def s3_enabled_def auth_ok_def redact_ok_def secret_values_def)
qed

theorem decode_correct_witness:
  "Decode (\<lambda>_. None) (\<lambda>_. None) demo_config = Inr (setDefaults demo_config)"
  unfolding decode_correct
  using demo_config_ok setDefaults_idem setDefaults_defaults by blast

text \<open>
  In an accepted configuration every secret a header or a variable of an upstream refers to is
  known to the resolver that \<open>NewSecretResolver\<close> builds from it, and that resolver is built without
  error.
\<close>

theorem accepted_secrets_known:
  assumes "Decode pd compile c = Inr c'"
  shows "\<exists>r. NewSecretResolver (cf_secrets c') = Inr r \<and>
    (\<forall>u\<in>set (cf_upstreams c'). \<forall>v\<in>set (secret_values u). \<forall>n\<in>set (extractSecretRefs v).
       map_of (sr_sources r) n \<noteq> None)"
proof -
  have ok: "config_ok pd compile c'"
    using assms Validate_iff by (auto simp: Decode_def Let_def split: sum.splits)
  have "\<exists>m'. collect_sources m ss = Inr m' \<and> (\<forall>n\<in>se_name ` set ss \<union> dom (map_of m). map_of m' n \<noteq> None)"
    if "distinct (map se_name ss)" "se_name ` set ss \<inter> dom (map_of m) = {}" for m ss
    using that
  proof (induction ss arbitrary: m)
    case (Cons s ss)
    define M where "M = AList.update (se_name s) \<lparr>ss_value = se_value s, ss_env = se_env s,
      ss_file = se_file s, ss_command = se_command s\<rparr> m"
    have dom: "dom (map_of M) = insert (se_name s) (dom (map_of m))" by (simp add: M_def)
    have "se_name ` set ss \<inter> dom (map_of M) = {}" using Cons.prems unfolding dom by auto
    with Cons.IH [of M] Cons.prems(1) obtain m' where
      m': "collect_sources M ss = Inr m'" "\<forall>n\<in>se_name ` set ss \<union> dom (map_of M). map_of m' n \<noteq> None"
      unfolding list.map distinct.simps by blast
    have "map_of m (se_name s) = None" using Cons.prems(2) by auto
    then have "collect_sources m (s # ss) = Inr m'" using m'(1) by (simp add: M_def)
    with m'(2) show ?case unfolding dom by auto
  qed auto
  from this [of "cf_secrets c'" "[]"] ok obtain m' where
    "collect_sources [] (cf_secrets c') = Inr m'" "\<forall>n\<in>se_name ` set (cf_secrets c'). map_of m' n \<noteq> None"
    by (auto simp: config_ok_def)
  moreover have "n \<in> se_name ` set (cf_secrets c')" if "u \<in> set (cf_upstreams c')"
    "v \<in> set (secret_values u)" "n \<in> set (extractSecretRefs v)" for u v n
    using ok that unfolding config_ok_def by blast
  ultimately have "NewSecretResolver (cf_secrets c') = Inr \<lparr>sr_sources = m', sr_last_good = []\<rparr>"
    "\<forall>u\<in>set (cf_upstreams c'). \<forall>v\<in>set (secret_values u). \<forall>n\<in>set (extractSecretRefs v).
       map_of m' n \<noteq> None"
    unfolding NewSecretResolver_def by (simp, blast)
  then show ?thesis by auto
qed

theorem accepted_secrets_known_witness:
  "\<exists>r. NewSecretResolver (cf_secrets (setDefaults demo_config)) = Inr r \<and>
    (\<forall>u\<in>set (cf_upstreams (setDefaults demo_config)). \<forall>v\<in>set (secret_values u).
       \<forall>n\<in>set (extractSecretRefs v). map_of (sr_sources r) n \<noteq> None)"
proof (rule accepted_secrets_known)
  show "Decode (\<lambda>_. None) (\<lambda>_. None) demo_config = Inr (setDefaults demo_config)"
    using demo_config_ok unfolding Decode_def Let_def Validate_iff [symmetric] by simp
qed

end
