(* ===== verification/Gw_Features.thy ===== *)
theory Gw_Features
  imports Gw_Config Gw_Names
begin

text \<open>
  The features an upstream lists and the gateway re-exports, from \<open>internal/gateway/upstream.go\<close> and
  \<open>gateway.go\<close>: tools, prompts, resources and resource templates, their equality, the allow and deny
  lists, the trimmed descriptions, and the exported form of each feature.

  Of the SDK's structs the records hold the fields the gateway reads. A field of type \<open>any\<close> or a
  nested struct, which the code only copies and compares through \<open>json.Marshal\<close>, is its JSON text.
  A nil pointer is \<open>None\<close>.
\<close>

record tool =
  tl_name :: string
  tl_title :: string
  tl_desc :: string
  tl_input :: string
  tl_output :: string
  tl_annot :: string

record prompt =
  pr_name :: string
  pr_title :: string
  pr_desc :: string
  pr_args :: string
  pr_meta :: string

record resource =
  re_uri :: string
  re_name :: string
  re_title :: string
  re_desc :: string
  re_mime :: string
  re_size :: int
  re_annot :: string
  re_meta :: string

record res_template =
  rt_uri :: string
  rt_name :: string
  rt_title :: string
  rt_desc :: string
  rt_mime :: string
  rt_annot :: string
  rt_meta :: string

subsection \<open>Equality\<close>

definition toolEqual :: "tool option \<Rightarrow> tool option \<Rightarrow> bool" where
  "toolEqual a b =
     (case (a, b) of
        (Some a, Some b) \<Rightarrow>
          if tl_name a \<noteq> tl_name b \<or> tl_title a \<noteq> tl_title b \<or> tl_desc a \<noteq> tl_desc b then False
          else if tl_input a \<noteq> tl_input b then False
          else if tl_output a \<noteq> tl_output b then False
          else tl_annot a = tl_annot b
      | _ \<Rightarrow> a = None \<and> b = None)"

definition promptEqual :: "prompt option \<Rightarrow> prompt option \<Rightarrow> bool" where
  "promptEqual a b =
     (case (a, b) of
        (Some a, Some b) \<Rightarrow>
          if pr_name a \<noteq> pr_name b \<or> pr_title a \<noteq> pr_title b \<or> pr_desc a \<noteq> pr_desc b then False
          else if pr_args a \<noteq> pr_args b then False
          else pr_meta a = pr_meta b
      | _ \<Rightarrow> a = None \<and> b = None)"

definition resourceEqual :: "resource option \<Rightarrow> resource option \<Rightarrow> bool" where
  "resourceEqual a b =
     (case (a, b) of
        (Some a, Some b) \<Rightarrow>
          if re_uri a \<noteq> re_uri b \<or> re_name a \<noteq> re_name b \<or> re_title a \<noteq> re_title b \<or>
             re_desc a \<noteq> re_desc b \<or> re_mime a \<noteq> re_mime b \<or> re_size a \<noteq> re_size b then False
          else re_annot a = re_annot b
      | _ \<Rightarrow> a = None \<and> b = None)"

definition resourceTemplateEqual :: "res_template option \<Rightarrow> res_template option \<Rightarrow> bool" where
  "resourceTemplateEqual a b =
     (case (a, b) of
        (Some a, Some b) \<Rightarrow>
          if rt_uri a \<noteq> rt_uri b \<or> rt_name a \<noteq> rt_name b \<or> rt_title a \<noteq> rt_title b \<or>
             rt_desc a \<noteq> rt_desc b \<or> rt_mime a \<noteq> rt_mime b then False
          else rt_annot a = rt_annot b
      | _ \<Rightarrow> a = None \<and> b = None)"

lemma toolEqual_iff: "toolEqual a b \<longleftrightarrow> a = b"
  by (cases a; cases b) (auto simp: toolEqual_def)

lemma promptEqual_iff: "promptEqual a b \<longleftrightarrow> a = b"
  by (cases a; cases b) (auto simp: promptEqual_def)

lemma same_but_meta:
  "x\<lparr>re_meta := []\<rparr> = y\<lparr>re_meta := []\<rparr> \<longleftrightarrow>
     re_uri x = re_uri y \<and> re_name x = re_name y \<and> re_title x = re_title y \<and> re_desc x = re_desc y \<and>
     re_mime x = re_mime y \<and> re_size x = re_size y \<and> re_annot x = re_annot y"
  "v\<lparr>rt_meta := []\<rparr> = w\<lparr>rt_meta := []\<rparr> \<longleftrightarrow>
     rt_uri v = rt_uri w \<and> rt_name v = rt_name w \<and> rt_title v = rt_title w \<and> rt_desc v = rt_desc w \<and>
     rt_mime v = rt_mime w \<and> rt_annot v = rt_annot w"
  for x y :: resource and v w :: res_template
  by (cases x; cases y; simp) (cases v; cases w; simp)

text \<open>Resources and templates are equal up to their \<open>_meta\<close>, which the code does not compare.\<close>

lemma resourceEqual_iff:
  "resourceEqual a b \<longleftrightarrow> map_option (re_meta_update (\<lambda>_. [])) a = map_option (re_meta_update (\<lambda>_. [])) b"
  by (cases a; cases b) (auto simp: resourceEqual_def same_but_meta)

lemma resourceTemplateEqual_iff:
  "resourceTemplateEqual a b \<longleftrightarrow>
     map_option (rt_meta_update (\<lambda>_. [])) a = map_option (rt_meta_update (\<lambda>_. [])) b"
  by (cases a; cases b) (auto simp: resourceTemplateEqual_def same_but_meta)

subsection \<open>Allow and deny lists\<close>

fun any_match :: "string list \<Rightarrow> string \<Rightarrow> bool" where
  "any_match [] name = False"
| "any_match (p # ps) name = (if glob_ok p name then True else any_match ps name)"

definition allowed :: "tools_config \<Rightarrow> string \<Rightarrow> bool" where
  "allowed tc name =
     (if tc_allow tc \<noteq> [] \<and> \<not> any_match (tc_allow tc) name then False
      else \<not> any_match (tc_deny tc) name)"

lemma any_match_iff: "any_match ps name \<longleftrightarrow> (\<exists>p\<in>set ps. glob_ok p name)"
  by (induction ps) auto

subsection \<open>Descriptions\<close>

definition ellipsis :: string where
  "ellipsis = [CHR 0xE2, CHR 0x80, CHR 0xA6]"

text \<open>
  The loop of \<open>TrimDescription\<close>, which is entered with \<open>m < length s\<close>, so that the index stays inside
  the string.
\<close>

function trim_loop :: "string \<Rightarrow> nat \<Rightarrow> nat \<Rightarrow> nat" where
  "trim_loop s m i =
     (if i < m \<and> i < length s then
        (let size = snd (decode_rune (drop i s)) in
         if i + size > m then i else trim_loop s m (i + size))
      else i)"
  by pat_completeness auto
termination
  by (relation "measure (\<lambda>(s, m, i). m - i)") (auto intro: diff_less_mono2)

declare trim_loop.simps [simp del]

definition TrimDescription :: "string \<Rightarrow> int \<Rightarrow> string" where
  "TrimDescription s maxLen =
     (if maxLen \<le> 0 \<or> int (length s) \<le> maxLen then s
      else take (trim_loop s (nat maxLen) 0) s @ ellipsis)"

lemma decode_wide:
  assumes "\<not> byte_of c < (128 :: nat)" and "utf8_lead (byte_of c) = Some (sz, lo, hi)"
  shows "decode_rune (c # cs) = (rune_error, 1) \<or> snd (decode_rune (c # cs)) = sz"
proof -
  have "sz = 2 \<or> sz = 3 \<or> sz = 4" using utf8_lead_cases [OF assms(2)] by blast
  then show ?thesis
    using assms by (elim disjE) (simp_all add: decode_rune.simps Let_def)
qed

lemma decode_rune_take:
  assumes "snd (decode_rune s) \<le> m" and "s \<noteq> []"
  shows "decode_rune (take m s) = decode_rune s"
proof -
  obtain c cs where s: "s = c # cs" using assms(2) by (cases s) auto
  have "0 < m" using assms by (metis decode_rune_pos gr_zeroI le_zero_eq less_numeral_extra(3))
  then obtain k where m: "m = Suc k" by (cases m) auto
  show ?thesis
  proof (cases "byte_of c < (128 :: nat) \<or> utf8_lead (byte_of c) = None")
    case True
    then show ?thesis by (auto simp: s m decode_rune.simps Let_def)
  next
    case False
    then obtain sz lo hi where lead: "utf8_lead (byte_of c) = Some (sz, lo, hi)" by auto
    have sz: "2 \<le> sz" "sz \<le> 4" using utf8_lead_size [OF lead] by auto
    show ?thesis
    proof (cases "sz \<le> m")
      case True
      have nth: "take k cs ! 0 = cs ! 0" "2 < sz \<Longrightarrow> take k cs ! Suc 0 = cs ! Suc 0"
        "3 < sz \<Longrightarrow> take k cs ! 2 = cs ! 2"
        using True sz by (simp_all add: m)
      have len: "length (c # take k cs) < sz \<longleftrightarrow> length (c # cs) < sz"
        using True by (auto simp: m)
      have "sz = 2 \<or> sz = 3 \<or> sz = 4" using sz by linarith
      then show ?thesis
        using False unfolding s m take_Suc_Cons decode_rune.simps lead Let_def option.case prod.case len
        by (elim disjE) (simp_all add: nth)
    next
      case less: False
      then have "length (c # take k cs) < sz" by (simp add: m)
      then have "decode_rune (take m s) = (rune_error, 1)"
        using False lead by (simp add: s m decode_rune.simps Let_def)
      moreover have "decode_rune s = (rune_error, 1)"
        using decode_wide [of c sz lo hi cs] False lead less assms(1) s by auto
      ultimately show ?thesis by simp
    qed
  qed
qed

lemma trim_loop_spec:
  assumes "i \<le> m" and "m < length s"
  shows "i \<le> trim_loop s m i \<and> trim_loop s m i \<le> m \<and>
    m < trim_loop s m i + snd (decode_rune (drop (trim_loop s m i) s)) \<and>
    (\<exists>k. runes_of (drop i (take (trim_loop s m i) s)) = take k (runes_of (drop i s)))"
  using assms
proof (induction s m i rule: trim_loop.induct)
  case (1 s m i)
  define size where "size = snd (decode_rune (drop i s))"
  have ne: "drop i s \<noteq> []" using "1.prems" by simp
  then have pos: "0 < size" by (simp add: size_def)
  show ?case
  proof (cases "i < m \<and> i + size \<le> m")
    case False
    then have j: "trim_loop s m i = i"
      using "1.prems" by (auto simp: trim_loop.simps [of s m i] size_def Let_def)
    have "runes_of (drop i (take i s)) = take 0 (runes_of (drop i s))" by (simp add: runes_of.simps)
    with False "1.prems" pos show ?thesis unfolding j by (auto simp flip: size_def)
  next
    case True
    define j where "j = trim_loop s m (i + size)"
    have eq: "trim_loop s m i = j"
      using True "1.prems" by (simp add: trim_loop.simps [of s m i] j_def size_def Let_def)
    have IH: "i + size \<le> j" "j \<le> m" "m < j + snd (decode_rune (drop j s))"
      "\<exists>k. runes_of (drop (i + size) (take j s)) = take k (runes_of (drop (i + size) s))"
      using "1.IH" [of size] True "1.prems" by (auto simp: j_def size_def)
    have "decode_rune (take (j - i) (drop i s)) = decode_rune (drop i s)"
      using IH(1) ne by (intro decode_rune_take) (simp_all add: size_def)
    then have "decode_rune (drop i (take j s)) = decode_rune (drop i s)" by (simp only: drop_take)
    moreover have "drop i (take j s) \<noteq> []" using IH(1,2) pos "1.prems" by simp
    ultimately have "runes_of (drop i (take j s)) =
        fst (decode_rune (drop i s)) # runes_of (drop (i + size) (take j s))"
      by (subst runes_of.simps) (simp add: size_def add.commute)
    moreover have "runes_of (drop i s) = fst (decode_rune (drop i s)) # runes_of (drop (i + size) s)"
      using ne by (subst runes_of.simps) (simp add: size_def add.commute)
    ultimately have "\<exists>k. runes_of (drop i (take j s)) = take k (runes_of (drop i s))"
      using IH(4) by (metis take_Suc_Cons)
    with IH eq show ?thesis by simp
  qed
qed

subsection \<open>Exported features\<close>

text \<open>The feature as the aggregate server offers it; the route server of one upstream uses no prefix.\<close>

definition export_tool :: "string \<Rightarrow> int \<Rightarrow> tool \<Rightarrow> tool" where
  "export_tool pfx dmax t = \<lparr>tl_name = NamespaceName pfx (tl_name t), tl_title = tl_title t,
     tl_desc = TrimDescription (tl_desc t) dmax, tl_input = tl_input t, tl_output = tl_output t,
     tl_annot = tl_annot t\<rparr>"

definition export_prompt :: "string \<Rightarrow> int \<Rightarrow> prompt \<Rightarrow> prompt" where
  "export_prompt pfx dmax p = \<lparr>pr_name = NamespaceName pfx (pr_name p), pr_title = pr_title p,
     pr_desc = TrimDescription (pr_desc p) dmax, pr_args = pr_args p, pr_meta = pr_meta p\<rparr>"

definition export_resource :: "int \<Rightarrow> resource \<Rightarrow> resource" where
  "export_resource dmax r = \<lparr>re_uri = re_uri r, re_name = re_name r, re_title = re_title r,
     re_desc = TrimDescription (re_desc r) dmax, re_mime = re_mime r, re_size = re_size r,
     re_annot = re_annot r, re_meta = re_meta r\<rparr>"

definition export_template :: "int \<Rightarrow> res_template \<Rightarrow> res_template" where
  "export_template dmax t = \<lparr>rt_uri = rt_uri t, rt_name = rt_name t, rt_title = rt_title t,
     rt_desc = TrimDescription (rt_desc t) dmax, rt_mime = rt_mime t, rt_annot = rt_annot t,
     rt_meta = rt_meta t\<rparr>"

fun build_tools_loop :: "tools_config \<Rightarrow> tool list \<Rightarrow> tool list \<Rightarrow> tool list" where
  "build_tools_loop tc out [] = out"
| "build_tools_loop tc out (t # ts) =
     (if \<not> allowed tc (tl_name t) then build_tools_loop tc out ts
      else build_tools_loop tc (out @ [export_tool (tc_prefix tc) (tc_desc_max tc) t]) ts)"

definition BuildTools :: "tools_config \<Rightarrow> tool list \<Rightarrow> tool list" where
  "BuildTools tc tools = build_tools_loop tc [] tools"

lemma BuildTools_eq:
  "BuildTools tc ts = map (export_tool (tc_prefix tc) (tc_desc_max tc)) (filter (\<lambda>t. allowed tc (tl_name t)) ts)"
proof -
  have "build_tools_loop tc out ts =
      out @ map (export_tool (tc_prefix tc) (tc_desc_max tc)) (filter (\<lambda>t. allowed tc (tl_name t)) ts)" for out
    by (induction ts arbitrary: out) auto
  then show ?thesis by (simp add: BuildTools_def)
qed

subsection \<open>Properties\<close>

text \<open>
  A tool is exported exactly when some pattern of a non-empty allow list matches its own name and
  no pattern of the deny list does, and then under its prefixed name; deny wins over allow.
\<close>

theorem build_tools_filter:
  "(\<exists>t'\<in>set (BuildTools tc ts). tl_name t' = n) \<longleftrightarrow>
     (\<exists>t\<in>set ts. n = tc_prefix tc @ tl_name t \<and>
        (tc_allow tc = [] \<or> (\<exists>p\<in>set (tc_allow tc). path_match p (tl_name t) = Some True)) \<and>
        \<not> (\<exists>p\<in>set (tc_deny tc). path_match p (tl_name t) = Some True))"
  by (auto simp: BuildTools_eq export_tool_def allowed_def any_match_iff glob_ok_def)

text \<open>
  A description longer than a positive bound is cut at a rune boundary: what is kept are the first
  runes of the description, no longer than the bound, and one rune more would exceed it; the result
  is the kept text and an ellipsis. Any other description is unchanged.
\<close>

theorem trim_description_runes:
  assumes "0 < maxLen" and "maxLen < int (length s)"
  shows "\<exists>i k. TrimDescription s maxLen = take i s @ [CHR 0xE2, CHR 0x80, CHR 0xA6] \<and> int i \<le> maxLen \<and>
     runes_of (take i s) = take k (runes_of s) \<and>
     maxLen < int (i + snd (decode_rune (drop i s)))"
proof -
  define i where "i = trim_loop s (nat maxLen) 0"
  have *: "i \<le> nat maxLen" "nat maxLen < i + snd (decode_rune (drop i s))"
    "\<exists>k. runes_of (take i s) = take k (runes_of s)"
    using trim_loop_spec [of 0 "nat maxLen" s] assms by (simp_all add: i_def)
  have "int i \<le> maxLen" using *(1) assms(1) by linarith
  moreover have "maxLen < int (i + snd (decode_rune (drop i s)))" using *(2) assms(1) by linarith
  moreover have "TrimDescription s maxLen = take i s @ [CHR 0xE2, CHR 0x80, CHR 0xA6]"
    using assms by (simp add: TrimDescription_def i_def ellipsis_def)
  ultimately show ?thesis using *(3) by blast
qed

theorem trim_description_runes_witness:
  "\<exists>i k. TrimDescription [CHR ''a'', CHR 0xC3, CHR 0xA9, CHR ''b''] 2 =
       take i [CHR ''a'', CHR 0xC3, CHR 0xA9, CHR ''b''] @ [CHR 0xE2, CHR 0x80, CHR 0xA6] \<and> int i \<le> 2 \<and>
     runes_of (take i [CHR ''a'', CHR 0xC3, CHR 0xA9, CHR ''b'']) =
       take k (runes_of [CHR ''a'', CHR 0xC3, CHR 0xA9, CHR ''b'']) \<and>
     2 < int (i + snd (decode_rune (drop i [CHR ''a'', CHR 0xC3, CHR 0xA9, CHR ''b''])))"
  by (rule trim_description_runes) simp_all

end
