(* ===== verification/Gw_Registry.thy ===== *)
theory Gw_Registry
  imports Gw_Features
begin

text \<open>
  The feature registries of the gateway, \<open>internal/gateway/feature_registry.go\<close> and the four
  \<open>registerUpstream\<close> functions of \<open>gateway.go\<close>: which upstream owns which exported name, what was
  registered under it, and the calls to the MCP server that keep the server in step.

  The server is the SDK's. A registration records the calls it makes on it, in order: \<open>SrvRemove\<close> for
  \<open>RemoveTools\<close> and its siblings, \<open>SrvAdd\<close> for \<open>AddTool\<close> and its siblings. \<open>serve\<close> states the SDK's
  documented effect of such calls: adding a name again replaces it, removing an unknown name does
  nothing. A handler is what the closure forwards to: \<open>HCall up raw\<close> calls the tool \<open>raw\<close> of the
  upstream, \<open>HPrompt\<close> gets its prompt, \<open>HRead\<close> reads the resource the request names, and
  \<open>HRedacted\<close> wraps a handler in the redaction middleware. The telemetry wrapper, which forwards the
  call and its result unchanged, is left out.

  Every \<open>range\<close> over a map takes its order from an argument.
\<close>

subsection \<open>featureRegistry\<close>

record 'p registry =
  fr_owner :: "(string, string) gomap"
  fr_names :: "(string, string list) gomap"
  fr_payload :: "(string, 'p) gomap"

definition newFeatureRegistry :: "'p registry" where
  "newFeatureRegistry = \<lparr>fr_owner = [], fr_names = [], fr_payload = []\<rparr>"

definition ensureUpstream :: "string \<Rightarrow> 'p registry \<Rightarrow> 'p registry" where
  "ensureUpstream up r =
     (if map_of (fr_names r) up = None then r\<lparr>fr_names := AList.update up [] (fr_names r)\<rparr> else r)"

text \<open>
  \<open>diff\<close>: the names to remove, the names to add or change, the collisions. \<open>rn\<close> orders the range over
  the names of the upstream, \<open>rp\<close> the range over the new payloads.
\<close>

definition raw_name :: "(string, string) gomap \<Rightarrow> string \<Rightarrow> string" where
  "raw_name raw name = (case map_of raw name of Some n \<Rightarrow> n | None \<Rightarrow> name)"

definition diff_step ::
  "('p option \<Rightarrow> 'p option \<Rightarrow> bool) \<Rightarrow> 'p registry \<Rightarrow> string \<Rightarrow> (string, 'p) gomap \<Rightarrow> (string, string) gomap
     \<Rightarrow> string \<Rightarrow> string list \<times> collision list \<Rightarrow> string list \<times> collision list" where
  "diff_step eq r up newp raw name acc =
     (case map_of (fr_owner r) name of
        Some owner \<Rightarrow>
          (if owner \<noteq> up then
             (fst acc, snd acc @ [\<lparr>col_upstream = owner, col_tool = raw_name raw name, col_result = name\<rparr>])
           else if \<not> eq (map_of (fr_payload r) name) (map_of newp name)
             then (fst acc @ [name], snd acc) else acc)
      | None \<Rightarrow> (fst acc @ [name], snd acc))"

definition diff ::
  "('p option \<Rightarrow> 'p option \<Rightarrow> bool) \<Rightarrow> (string list \<Rightarrow> string list) \<Rightarrow> (string list \<Rightarrow> string list)
     \<Rightarrow> 'p registry \<Rightarrow> string \<Rightarrow> (string, 'p) gomap \<Rightarrow> (string, string) gomap
     \<Rightarrow> (string list \<times> string list \<times> collision list) \<times> 'p registry" where
  "diff eq rn rp r up newp raw =
     (let r1 = ensureUpstream up r;
          toRemove = filter (\<lambda>name. map_of newp name = None) (rn (set_get (fr_names r1) up));
          (chg, colls) = fold (diff_step eq r1 up newp raw) (rp (map fst newp)) ([], [])
      in ((toRemove, chg, colls), r1))"

definition apply_remove :: "string \<Rightarrow> string \<Rightarrow> 'p registry \<Rightarrow> 'p registry" where
  "apply_remove up name r =
     r\<lparr>fr_owner := AList.delete name (fr_owner r), fr_payload := AList.delete name (fr_payload r),
       fr_names := AList.update up (removeAll name (set_get (fr_names r) up)) (fr_names r)\<rparr>"

definition apply_put :: "string \<Rightarrow> string \<times> 'p \<Rightarrow> 'p registry \<Rightarrow> 'p registry" where
  "apply_put up np r =
     r\<lparr>fr_owner := AList.update (fst np) up (fr_owner r),
       fr_payload := AList.update (fst np) (snd np) (fr_payload r)\<rparr>"

definition apply_changes ::
  "string \<Rightarrow> string list \<Rightarrow> (string \<times> 'p) list \<Rightarrow> string list \<Rightarrow> 'p registry \<Rightarrow> 'p registry" where
  "apply_changes up toRemove puts newSet r =
     (let r1 = fold (apply_remove up) toRemove (ensureUpstream up r);
          r2 = fold (apply_put up) puts r1
      in r2\<lparr>fr_names := AList.update up
           (filter (\<lambda>n. map_of (fr_owner r2) n = Some up) newSet) (fr_names r2)\<rparr>)"

subsection \<open>Calls on the server\<close>

datatype handler =
    HCall string string
  | HPrompt string string
  | HRead string
  | HRedacted handler

datatype 'p srv_call =
    SrvRemove string
  | SrvAdd string 'p handler

text \<open>The served table: what the SDK answers to a list, and whom it calls.\<close>

fun serve :: "'p srv_call \<Rightarrow> (string \<rightharpoonup> 'p \<times> handler) \<Rightarrow> (string \<rightharpoonup> 'p \<times> handler)" where
  "serve (SrvRemove n) m = m(n := None)"
| "serve (SrvAdd n p h) m = m(n \<mapsto> (p, h))"

definition serve_all :: "'p srv_call list \<Rightarrow> (string \<rightharpoonup> 'p \<times> handler) \<Rightarrow> (string \<rightharpoonup> 'p \<times> handler)" where
  "serve_all cs m = fold serve cs m"

subsection \<open>Prompts, resources and templates\<close>

record 'p sync_out =
  so_added :: "string list"
  so_removed :: "string list"
  so_collisions :: "collision list"
  so_calls :: "'p srv_call list"
  so_reg :: "'p registry"

text \<open>
  What the three functions do once they have built the maps of new payloads and raw names: \<open>mk\<close> is the
  handler for a raw name.
\<close>

definition sync_feature ::
  "('p option \<Rightarrow> 'p option \<Rightarrow> bool) \<Rightarrow> (string list \<Rightarrow> string list) \<Rightarrow> (string list \<Rightarrow> string list)
     \<Rightarrow> string \<Rightarrow> (string \<Rightarrow> handler) \<Rightarrow> (string, 'p) gomap \<Rightarrow> (string, string) gomap \<Rightarrow> 'p registry
     \<Rightarrow> 'p sync_out" where
  "sync_feature eq rn rp up mk newp raw r =
     (let ((toRemove, chg, colls), r1) = diff eq rn rp (ensureUpstream up r) up newp raw;
          calls = map SrvRemove toRemove @
            map (\<lambda>n. SrvAdd n (the (map_of newp n)) (mk (raw_name raw n))) chg;
          added = filter (\<lambda>n. map_of (fr_owner r1) n = None) chg;
          r2 = apply_changes up toRemove (map (\<lambda>n. (n, the (map_of newp n))) chg) (map fst newp) r1
      in \<lparr>so_added = added, so_removed = toRemove, so_collisions = colls, so_calls = calls, so_reg = r2\<rparr>)"

text \<open>The maps keyed by the exported name; a later item of the same name replaces an earlier one.\<close>

definition new_payloads :: "('a \<Rightarrow> string) \<Rightarrow> ('a \<Rightarrow> 'p) \<Rightarrow> 'a list \<Rightarrow> (string, 'p) gomap" where
  "new_payloads key final items = fold (\<lambda>it. AList.update (key it) (final it)) items []"

definition registerUpstreamPrompts ::
  "(string list \<Rightarrow> string list) \<Rightarrow> (string list \<Rightarrow> string list) \<Rightarrow> upstream_config \<Rightarrow> prompt list
     \<Rightarrow> prompt registry \<Rightarrow> prompt sync_out" where
  "registerUpstreamPrompts rn rp u prompts r =
     (let pfx = tc_prefix (up_tools u);
          final = export_prompt pfx (tc_desc_max (up_tools u));
          key = (\<lambda>p. NamespaceName pfx (pr_name p))
      in sync_feature promptEqual rn rp (up_name u) (HPrompt (up_name u))
           (new_payloads key final prompts) (new_payloads key pr_name prompts) r)"

definition registerUpstreamResources ::
  "(string list \<Rightarrow> string list) \<Rightarrow> (string list \<Rightarrow> string list) \<Rightarrow> upstream_config \<Rightarrow> resource list
     \<Rightarrow> resource registry \<Rightarrow> resource sync_out" where
  "registerUpstreamResources rn rp u rs r =
     sync_feature resourceEqual rn rp (up_name u) (\<lambda>_. HRead (up_name u))
       (new_payloads re_uri (export_resource (tc_desc_max (up_tools u))) rs) [] r"

definition registerUpstreamResourceTemplates ::
  "(string list \<Rightarrow> string list) \<Rightarrow> (string list \<Rightarrow> string list) \<Rightarrow> upstream_config \<Rightarrow> res_template list
     \<Rightarrow> res_template registry \<Rightarrow> res_template sync_out" where
  "registerUpstreamResourceTemplates rn rp u ts r =
     sync_feature resourceTemplateEqual rn rp (up_name u) (\<lambda>_. HRead (up_name u))
       (new_payloads rt_uri (export_template (tc_desc_max (up_tools u))) ts) [] r"

subsection \<open>Tools\<close>

text \<open>
  \<open>registerUpstreamTools\<close> is written out in the code rather than using \<open>diff\<close> and \<open>apply\<close>. \<open>reserved\<close>
  is \<open>reservedTool\<close>, \<open>redact\<close> tells whether the upstream has a redactor.
\<close>

definition tool_items :: "(string \<Rightarrow> bool) \<Rightarrow> upstream_config \<Rightarrow> tool list \<Rightarrow> tool list" where
  "tool_items reserved u tools =
     filter (\<lambda>t. allowed (up_tools u) (tl_name t) \<and>
       \<not> reserved (NamespaceName (tc_prefix (up_tools u)) (tl_name t))) tools"

definition tool_handler_of :: "bool \<Rightarrow> string \<Rightarrow> string \<Rightarrow> handler" where
  "tool_handler_of redact up raw = (if redact then HRedacted (HCall up raw) else HCall up raw)"

definition tool_remove_step :: "string \<Rightarrow> string \<Rightarrow> tool sync_out \<Rightarrow> tool sync_out" where
  "tool_remove_step up name o' =
     o'\<lparr>so_calls := so_calls o' @ [SrvRemove name], so_removed := so_removed o' @ [name],
        so_reg := apply_remove up name (so_reg o')\<rparr>"

definition tool_add_step ::
  "bool \<Rightarrow> string \<Rightarrow> (string, tool) gomap \<Rightarrow> (string, string) gomap \<Rightarrow> string \<Rightarrow> tool sync_out \<Rightarrow> tool sync_out" where
  "tool_add_step redact up newp raw name o' =
     (let r = so_reg o';
          owner = map_of (fr_owner r) name;
          final = map_of newp name;
          changed = \<not> toolEqual (map_of (fr_payload r) name) final
      in if owner \<noteq> None \<and> owner \<noteq> Some up then
           o'\<lparr>so_collisions := so_collisions o' @
             [\<lparr>col_upstream = the owner, col_tool = str_get raw name, col_result = name\<rparr>]\<rparr>
         else
           (let o1 = (if owner = None \<or> changed then
                  o'\<lparr>so_calls := so_calls o' @
                       [SrvAdd name (the final) (tool_handler_of redact up (str_get raw name))],
                     so_reg := apply_put up (name, the final) r,
                     so_added := (if owner = None then so_added o' @ [name] else so_added o')\<rparr>
                else o');
                r1 = so_reg o1
            in o1\<lparr>so_reg := r1\<lparr>fr_names := AList.update up
                 (List.insert name (set_get (fr_names r1) up)) (fr_names r1)\<rparr>\<rparr>))"

definition registerUpstreamTools ::
  "(string list \<Rightarrow> string list) \<Rightarrow> (string list \<Rightarrow> string list) \<Rightarrow> (string \<Rightarrow> bool) \<Rightarrow> bool \<Rightarrow> upstream_config
     \<Rightarrow> tool list \<Rightarrow> tool registry \<Rightarrow> tool sync_out" where
  "registerUpstreamTools rn rp reserved redact u tools r =
     (let up = up_name u;
          pfx = tc_prefix (up_tools u);
          items = tool_items reserved u tools;
          key = (\<lambda>t. NamespaceName pfx (tl_name t));
          newp = new_payloads key (export_tool pfx (tc_desc_max (up_tools u))) items;
          raw = new_payloads key tl_name items;
          r0 = ensureUpstream up r;
          o0 = \<lparr>so_added = [], so_removed = [], so_collisions = [], so_calls = [], so_reg = r0\<rparr>;
          o1 = fold (tool_remove_step up)
            (filter (\<lambda>n. map_of newp n = None) (rn (set_get (fr_names r0) up))) o0;
          o2 = fold (tool_add_step redact up newp raw) (rp (map fst newp)) o1;
          r2 = so_reg o2
      in o2\<lparr>so_reg := r2\<lparr>fr_names := AList.update up
           (filter (\<lambda>n. map_of (fr_owner r2) n = Some up) (map fst newp)) (fr_names r2)\<rparr>\<rparr>)"

subsection \<open>The fold of diff\<close>

definition is_new ::
  "('p option \<Rightarrow> 'p option \<Rightarrow> bool) \<Rightarrow> 'p registry \<Rightarrow> string \<Rightarrow> (string, 'p) gomap \<Rightarrow> string \<Rightarrow> bool" where
  "is_new eq r up newp n \<longleftrightarrow> map_of (fr_owner r) n = None \<or>
     map_of (fr_owner r) n = Some up \<and> \<not> eq (map_of (fr_payload r) n) (map_of newp n)"

definition is_taken :: "'p registry \<Rightarrow> string \<Rightarrow> string \<Rightarrow> bool" where
  "is_taken r up n \<longleftrightarrow> map_of (fr_owner r) n \<noteq> None \<and> map_of (fr_owner r) n \<noteq> Some up"

definition collision_at :: "'p registry \<Rightarrow> (string, string) gomap \<Rightarrow> string \<Rightarrow> collision" where
  "collision_at r raw n =
     \<lparr>col_upstream = the (map_of (fr_owner r) n), col_tool = raw_name raw n, col_result = n\<rparr>"

lemma diff_step_eq:
  "diff_step eq r up newp raw n (a, b) =
     (a @ (if is_new eq r up newp n then [n] else []),
      b @ (if is_taken r up n then [collision_at r raw n] else []))"
  by (cases "map_of (fr_owner r) n")
    (auto simp: diff_step_def is_new_def is_taken_def collision_at_def)

lemma diff_fold:
  "fold (diff_step eq r up newp raw) ks (a, b) =
     (a @ filter (is_new eq r up newp) ks, b @ map (collision_at r raw) (filter (is_taken r up) ks))"
  by (induction ks arbitrary: a b) (simp_all add: diff_step_eq)

lemma ensure_simps [simp]:
  "fr_owner (ensureUpstream up r) = fr_owner r"
  "fr_payload (ensureUpstream up r) = fr_payload r"
  "ensureUpstream up (ensureUpstream up r) = ensureUpstream up r"
  "set_get (fr_names (ensureUpstream up r)) v = set_get (fr_names r) v"
  by (auto simp: ensureUpstream_def set_get_def)

lemma ensure_idle: "map_of (fr_names r) up \<noteq> None \<Longrightarrow> ensureUpstream up r = r"
  by (auto simp: ensureUpstream_def)

lemma fold_remove_owner [simp]:
  "fr_owner (fold (apply_remove up) ns r) = fold AList.delete ns (fr_owner r)"
  "fr_payload (fold (apply_remove up) ns r) = fold AList.delete ns (fr_payload r)"
  by (induction ns arbitrary: r) (simp_all add: apply_remove_def)

lemma fold_put_simps [simp]:
  "fr_owner (fold (apply_put up) puts r) = fold (\<lambda>n. AList.update n up) (map fst puts) (fr_owner r)"
  "fr_payload (fold (apply_put up) puts r) = fold (\<lambda>(n, p). AList.update n p) puts (fr_payload r)"
  "fr_names (fold (apply_put up) puts r) = fr_names r"
  by (induction puts arbitrary: r) (simp_all add: apply_put_def case_prod_beta)

lemma map_of_puts:
  "map_of (fold (\<lambda>(n, p). AList.update n p) (map (\<lambda>n. (n, f n)) ns) m) n =
     (if n \<in> set ns then Some (f n) else map_of m n)"
  by (induction ns arbitrary: m) auto

text \<open>What an update leaves of an earlier one at the same key.\<close>

lemma update_twice [simp]: "AList.update k v (AList.update k w m) = AList.update k v m"
  by (induction m) auto

lemma fold_remove_names:
  "AList.update up v (fr_names (fold (apply_remove up) ns r)) = AList.update up v (fr_names r)"
  by (induction ns arbitrary: r) (simp_all add: apply_remove_def)

lemma set_get_fold_remove:
  "w \<noteq> up \<Longrightarrow> set_get (fr_names (fold (apply_remove up) ns r)) w = set_get (fr_names r) w"
  by (induction ns arbitrary: r) (simp_all add: apply_remove_def)

subsection \<open>What a synchronisation does\<close>

definition removed_of ::
  "(string list \<Rightarrow> string list) \<Rightarrow> 'p registry \<Rightarrow> string \<Rightarrow> (string, 'p) gomap \<Rightarrow> string list" where
  "removed_of rn r up newp = filter (\<lambda>n. map_of newp n = None) (rn (set_get (fr_names r) up))"

definition changed_of ::
  "('p option \<Rightarrow> 'p option \<Rightarrow> bool) \<Rightarrow> (string list \<Rightarrow> string list) \<Rightarrow> 'p registry \<Rightarrow> string
     \<Rightarrow> (string, 'p) gomap \<Rightarrow> string list" where
  "changed_of eq rp r up newp = filter (is_new eq r up newp) (rp (map fst newp))"

lemma ensure_is [simp]:
  "is_new eq (ensureUpstream up r) = is_new eq r"
  "is_taken (ensureUpstream up r) = is_taken r"
  "collision_at (ensureUpstream up r) = collision_at r"
  by (intro ext; simp add: is_new_def is_taken_def collision_at_def)+

lemma sync_feature_out:
  "sync_feature eq rn rp up mk newp raw r =
     (let rem = removed_of rn r up newp; chg = changed_of eq rp r up newp in
      \<lparr>so_added = filter (\<lambda>n. map_of (fr_owner r) n = None) chg, so_removed = rem,
       so_collisions = map (collision_at r raw) (filter (is_taken r up) (rp (map fst newp))),
       so_calls = map SrvRemove rem @ map (\<lambda>n. SrvAdd n (the (map_of newp n)) (mk (raw_name raw n))) chg,
       so_reg = apply_changes up rem (map (\<lambda>n. (n, the (map_of newp n))) chg) (map fst newp)
         (ensureUpstream up r)\<rparr>)"
  by (simp add: sync_feature_def diff_def diff_fold removed_of_def changed_of_def Let_def)

text \<open>
  The invariant of a registry: an upstream's set of names is exactly what it owns, and a payload is
  kept for exactly the owned names.
\<close>

definition reg_ok :: "'p registry \<Rightarrow> bool" where
  "reg_ok r \<longleftrightarrow> (\<forall>n up. map_of (fr_owner r) n = Some up \<longleftrightarrow> n \<in> set (set_get (fr_names r) up)) \<and>
     dom (map_of (fr_payload r)) = dom (map_of (fr_owner r))"

lemma reg_ok_new: "reg_ok newFeatureRegistry"
  by (simp add: reg_ok_def newFeatureRegistry_def)

lemma reg_ok_names: "reg_ok r \<Longrightarrow> n \<in> set (set_get (fr_names r) up) \<longleftrightarrow> map_of (fr_owner r) n = Some up"
  by (simp add: reg_ok_def)

lemma reg_ok_payload: "reg_ok r \<Longrightarrow> map_of (fr_payload r) n = None \<longleftrightarrow> map_of (fr_owner r) n = None"
proof -
  assume "reg_ok r"
  then have "n \<in> dom (map_of (fr_payload r)) \<longleftrightarrow> n \<in> dom (map_of (fr_owner r))"
    unfolding reg_ok_def by blast
  then show ?thesis by (simp only: domIff not_not) blast
qed

lemma in_removed_of:
  "reg_ok r \<Longrightarrow> range_order rn \<Longrightarrow>
     n \<in> set (removed_of rn r up newp) \<longleftrightarrow> map_of (fr_owner r) n = Some up \<and> map_of newp n = None"
  by (auto simp: removed_of_def reg_ok_names)

lemma in_changed_of:
  "range_order rp \<Longrightarrow> n \<in> set (changed_of eq rp r up newp) \<longleftrightarrow>
     map_of newp n \<noteq> None \<and> is_new eq r up newp n"
  by (auto simp: changed_of_def map_of_eq_None_iff)

lemma map_of_update_all:
  "map_of (fold (\<lambda>n. AList.update n up) ns m) n = (if n \<in> set ns then Some up else map_of m n)"
  by (rule map_of_fold_update_fst)

text \<open>The owner and the payload of a name after a synchronisation.\<close>

definition owner_after :: "'p registry \<Rightarrow> string \<Rightarrow> (string, 'p) gomap \<Rightarrow> string \<Rightarrow> string option" where
  "owner_after r up newp n =
     (if is_taken r up n then map_of (fr_owner r) n
      else if map_of newp n \<noteq> None then Some up else None)"

lemma sync_owner:
  assumes "reg_ok r" "range_order rn" "range_order rp"
  shows "map_of (fr_owner (so_reg (sync_feature eq rn rp up mk newp raw r))) n = owner_after r up newp n"
  using assms
  by (auto simp: sync_feature_out Let_def apply_changes_def comp_def map_of_update_all in_removed_of
      in_changed_of owner_after_def is_new_def is_taken_def)

lemma sync_payload:
  assumes "reg_ok r" "range_order rn" "range_order rp"
  shows "map_of (fr_payload (so_reg (sync_feature eq rn rp up mk newp raw r))) n =
    (if is_taken r up n then map_of (fr_payload r) n
     else if map_of newp n = None then None
     else if is_new eq r up newp n then map_of newp n else map_of (fr_payload r) n)"
proof -
  have "map_of (fr_owner r) n = None \<Longrightarrow> map_of (fr_payload r) n = None"
    using reg_ok_payload [OF assms(1)] by blast
  then show ?thesis
    using assms
    by (auto simp: sync_feature_out Let_def apply_changes_def map_of_puts in_removed_of
        in_changed_of is_new_def is_taken_def)
qed

lemma sync_names:
  assumes "reg_ok r" "range_order rn" "range_order rp"
  shows "n \<in> set (set_get (fr_names (so_reg (sync_feature eq rn rp up mk newp raw r))) v) \<longleftrightarrow>
    owner_after r up newp n = Some v"
proof (cases "v = up")
  case True
  have "map_of (fold (\<lambda>n. AList.update n up) (changed_of eq rp r up newp)
      (fold AList.delete (removed_of rn r up newp) (fr_owner r))) n = owner_after r up newp n"
    using sync_owner [OF assms, of eq up mk newp raw n]
    by (simp add: sync_feature_out Let_def apply_changes_def comp_def)
  with True show ?thesis
    by (auto simp: sync_feature_out Let_def apply_changes_def comp_def owner_after_def is_taken_def
        map_of_eq_None_iff split: if_splits)
next
  case False
  with assms show ?thesis
    by (auto simp: sync_feature_out Let_def apply_changes_def set_get_fold_remove owner_after_def
        is_taken_def reg_ok_names split: if_splits)
qed

lemma sync_reg_ok:
  assumes "reg_ok r" "range_order rn" "range_order rp"
  shows "reg_ok (so_reg (sync_feature eq rn rp up mk newp raw r))"
proof -
  have pay: "map_of (fr_payload r) n = None \<longleftrightarrow> map_of (fr_owner r) n = None" for n
    using reg_ok_payload [OF assms(1)] by blast
  show ?thesis
    unfolding reg_ok_def
  proof (intro conjI allI set_eqI)
    fix n
    show "n \<in> dom (map_of (fr_payload (so_reg (sync_feature eq rn rp up mk newp raw r)))) \<longleftrightarrow>
        n \<in> dom (map_of (fr_owner (so_reg (sync_feature eq rn rp up mk newp raw r))))"
      using pay [of n]
      by (auto simp: dom_def sync_owner [OF assms] sync_payload [OF assms] owner_after_def is_taken_def
          is_new_def)
  qed (simp only: sync_owner [OF assms] sync_names [OF assms])
qed

subsection \<open>The tools are synchronised the same way\<close>

lemma distinct_keys_new: "distinct (map fst (new_payloads key final items))"
proof -
  have "distinct (map fst m) \<Longrightarrow> distinct (map fst (fold (\<lambda>it. AList.update (key it) (final it)) items m))" for m
    by (induction items arbitrary: m) auto
  then show ?thesis by (simp add: new_payloads_def)
qed

lemma keys_new: "set (map fst (new_payloads key final items)) = key ` set items"
proof -
  have "set (map fst (fold (\<lambda>it. AList.update (key it) (final it)) items m)) = key ` set items \<union> set (map fst m)"
    for m :: "(string, 'a) gomap"
    by (induction items arbitrary: m) (auto simp: dom_update keys_dom)
  from this [of "[]"] show ?thesis by (simp add: new_payloads_def)
qed

lemma tool_remove_fold:
  "fold (tool_remove_step up) ns o' =
     o'\<lparr>so_calls := so_calls o' @ map SrvRemove ns, so_removed := so_removed o' @ ns,
        so_reg := fold (apply_remove up) ns (so_reg o')\<rparr>"
  by (induction ns arbitrary: o') (simp_all add: tool_remove_step_def)

text \<open>
  The loop over the new tools does for each name what \<open>diff\<close> and \<open>apply\<close> do, as long as the names
  still to come have not been touched.
\<close>

lemma tool_add_fold:
  assumes "distinct ks" and "\<forall>k\<in>set ks. map_of raw k \<noteq> None"
    and "\<forall>k\<in>set ks. map_of (fr_owner (so_reg o')) k = map_of (fr_owner r) k \<and>
      map_of (fr_payload (so_reg o')) k = map_of (fr_payload r) k"
  shows "\<exists>nm. fold (tool_add_step redact up newp raw) ks o' =
    (let chg = filter (is_new toolEqual r up newp) ks in
     o'\<lparr>so_added := so_added o' @ filter (\<lambda>n. map_of (fr_owner r) n = None) chg,
        so_collisions := so_collisions o' @ map (collision_at r raw) (filter (is_taken r up) ks),
        so_calls := so_calls o' @
          map (\<lambda>n. SrvAdd n (the (map_of newp n)) (tool_handler_of redact up (raw_name raw n))) chg,
        so_reg := (fold (apply_put up) (map (\<lambda>n. (n, the (map_of newp n))) chg) (so_reg o'))
          \<lparr>fr_names := nm\<rparr>\<rparr>) \<and>
    (\<forall>v. AList.update up v nm = AList.update up v (fr_names (so_reg o')))"
  using assms
proof (induction ks arbitrary: o')
  case Nil
  show ?case by (intro exI [of _ "fr_names (so_reg o')"]) simp
next
  case (Cons k ks)
  let ?o1 = "tool_add_step redact up newp raw k o'"
  have own: "map_of (fr_owner (so_reg o')) k = map_of (fr_owner r) k"
    and pay: "map_of (fr_payload (so_reg o')) k = map_of (fr_payload r) k"
    and raw: "str_get raw k = raw_name raw k"
    using Cons.prems by (auto simp: str_get_def raw_name_def)
  consider (taken) "is_taken r up k" | (new) "is_new toolEqual r up newp k" "\<not> is_taken r up k"
    | (same) "\<not> is_new toolEqual r up newp k" "\<not> is_taken r up k" by blast
  then obtain nm1 where step: "?o1 =
      o'\<lparr>so_added := so_added o' @ (if is_new toolEqual r up newp k \<and> map_of (fr_owner r) k = None then [k] else []),
        so_collisions := so_collisions o' @ (if is_taken r up k then [collision_at r raw k] else []),
        so_calls := so_calls o' @ (if is_new toolEqual r up newp k then
          [SrvAdd k (the (map_of newp k)) (tool_handler_of redact up (raw_name raw k))] else []),
        so_reg := (if is_new toolEqual r up newp k then apply_put up (k, the (map_of newp k)) (so_reg o')
          else so_reg o')\<lparr>fr_names := nm1\<rparr>\<rparr>"
    and nm1: "\<forall>v. AList.update up v nm1 = AList.update up v (fr_names (so_reg o'))"
  proof cases
    case taken
    then have "\<not> is_new toolEqual r up newp k" by (auto simp: is_new_def is_taken_def)
    with taken show ?thesis
      by (intro that [of "fr_names (so_reg o')"])
        (auto simp: tool_add_step_def Let_def own pay is_taken_def collision_at_def str_get_def raw_name_def
          raw [unfolded str_get_def raw_name_def])
  next
    case new
    then show ?thesis
      by (intro that [of "AList.update up (List.insert k (set_get (fr_names (so_reg o')) up)) (fr_names (so_reg o'))"])
        (auto simp: tool_add_step_def Let_def own pay raw is_taken_def is_new_def apply_put_def)
  next
    case same
    then show ?thesis
      by (intro that [of "AList.update up (List.insert k (set_get (fr_names (so_reg o')) up)) (fr_names (so_reg o'))"])
        (auto simp: tool_add_step_def Let_def own pay raw is_taken_def is_new_def)
  qed
  have keep: "\<forall>j\<in>set ks. map_of (fr_owner (so_reg ?o1)) j = map_of (fr_owner r) j \<and>
      map_of (fr_payload (so_reg ?o1)) j = map_of (fr_payload r) j"
    using Cons.prems unfolding step by (auto simp: apply_put_def)
  from Cons.IH [OF _ _ keep] Cons.prems obtain nm where
    fold: "fold (tool_add_step redact up newp raw) ks ?o1 =
      (let chg = filter (is_new toolEqual r up newp) ks in
       ?o1\<lparr>so_added := so_added ?o1 @ filter (\<lambda>n. map_of (fr_owner r) n = None) chg,
        so_collisions := so_collisions ?o1 @ map (collision_at r raw) (filter (is_taken r up) ks),
        so_calls := so_calls ?o1 @
          map (\<lambda>n. SrvAdd n (the (map_of newp n)) (tool_handler_of redact up (raw_name raw n))) chg,
        so_reg := (fold (apply_put up) (map (\<lambda>n. (n, the (map_of newp n))) chg) (so_reg ?o1))
          \<lparr>fr_names := nm\<rparr>\<rparr>)"
    and nm: "\<forall>v. AList.update up v nm = AList.update up v (fr_names (so_reg ?o1))" by auto
  have put: "fold (apply_put up) puts (x\<lparr>fr_names := a\<rparr>)\<lparr>fr_names := b\<rparr> = fold (apply_put up) puts x\<lparr>fr_names := b\<rparr>"
    for puts and x :: "tool registry" and a b
    by (induction puts arbitrary: x) (simp_all add: apply_put_def)
  show ?case
    using nm nm1 unfolding fold.simps comp_def fold
    by (intro exI [of _ nm]) (auto simp: step Let_def put)
qed

definition tool_payloads :: "(string \<Rightarrow> bool) \<Rightarrow> upstream_config \<Rightarrow> tool list \<Rightarrow> (string, tool) gomap" where
  "tool_payloads reserved u tools =
     new_payloads (\<lambda>t. tc_prefix (up_tools u) @ tl_name t)
       (export_tool (tc_prefix (up_tools u)) (tc_desc_max (up_tools u))) (tool_items reserved u tools)"

definition tool_raws :: "(string \<Rightarrow> bool) \<Rightarrow> upstream_config \<Rightarrow> tool list \<Rightarrow> (string, string) gomap" where
  "tool_raws reserved u tools =
     new_payloads (\<lambda>t. tc_prefix (up_tools u) @ tl_name t) tl_name (tool_items reserved u tools)"

lemma tools_generic:
  assumes "range_order rn" "range_order rp"
  shows "registerUpstreamTools rn rp reserved redact u tools r =
    sync_feature toolEqual rn rp (up_name u) (tool_handler_of redact (up_name u))
      (tool_payloads reserved u tools) (tool_raws reserved u tools) r"
proof -
  define up where "up = up_name u"
  define newp where "newp = tool_payloads reserved u tools"
  define raw where "raw = tool_raws reserved u tools"
  define r0 where "r0 = ensureUpstream up r"
  define rem where "rem = removed_of rn r up newp"
  define o1 where "o1 = \<lparr>so_added = [], so_removed = rem, so_collisions = [], so_calls = map SrvRemove rem,
    so_reg = fold (apply_remove up) rem r0\<rparr>"
  define ks where "ks = rp (map fst newp)"
  have ks: "distinct ks" "set ks = set (map fst newp)"
    using assms(2) by (auto simp: ks_def newp_def tool_payloads_def distinct_keys_new)
  have "set (map fst newp) = set (map fst raw)"
    unfolding newp_def raw_def tool_payloads_def tool_raws_def keys_new ..
  then have raws: "\<forall>k\<in>set ks. map_of raw k \<noteq> None"
    using ks(2) by (auto simp: map_of_eq_None_iff)
  have "\<forall>k\<in>set ks. k \<notin> set rem"
    using ks(2) by (auto simp: rem_def removed_of_def map_of_eq_None_iff)
  then have same: "\<forall>k\<in>set ks. map_of (fr_owner (so_reg o1)) k = map_of (fr_owner r) k \<and>
      map_of (fr_payload (so_reg o1)) k = map_of (fr_payload r) k"
    by (simp add: o1_def r0_def)
  from tool_add_fold [OF ks(1) raws same] obtain nm where
    add: "fold (tool_add_step redact up newp raw) ks o1 =
      (let chg = filter (is_new toolEqual r up newp) ks in
       o1\<lparr>so_added := so_added o1 @ filter (\<lambda>n. map_of (fr_owner r) n = None) chg,
        so_collisions := so_collisions o1 @ map (collision_at r raw) (filter (is_taken r up) ks),
        so_calls := so_calls o1 @
          map (\<lambda>n. SrvAdd n (the (map_of newp n)) (tool_handler_of redact up (raw_name raw n))) chg,
        so_reg := (fold (apply_put up) (map (\<lambda>n. (n, the (map_of newp n))) chg) (so_reg o1))
          \<lparr>fr_names := nm\<rparr>\<rparr>)"
    and nm: "\<forall>v. AList.update up v nm = AList.update up v (fr_names (so_reg o1))" by blast
  have "registerUpstreamTools rn rp reserved redact u tools r =
      (let o2 = fold (tool_add_step redact up newp raw) ks o1; r2 = so_reg o2
       in o2\<lparr>so_reg := r2\<lparr>fr_names := AList.update up
            (filter (\<lambda>n. map_of (fr_owner r2) n = Some up) (map fst newp)) (fr_names r2)\<rparr>\<rparr>)"
    by (simp add: registerUpstreamTools_def Let_def tool_remove_fold o1_def up_def newp_def raw_def
        tool_payloads_def tool_raws_def ks_def r0_def rem_def removed_of_def)
  also have "\<dots> = sync_feature toolEqual rn rp up (tool_handler_of redact up) newp raw r"
    unfolding add Let_def
    by (simp add: sync_feature_out Let_def changed_of_def nm o1_def r0_def apply_changes_def
        flip: rem_def ks_def)
  finally show ?thesis by (simp add: up_def newp_def raw_def)
qed

subsection \<open>The served table\<close>

lemma serve_all_simps [simp]:
  "serve_all [] m = m"
  "serve_all (c # cs) m = serve_all cs (serve c m)"
  "serve_all (cs @ ds) m = serve_all ds (serve_all cs m)"
  by (simp_all add: serve_all_def)

lemma serve_removes:
  "serve_all (map SrvRemove ns) m n = (if n \<in> set ns then None else m n)"
  by (induction ns arbitrary: m) auto

lemma serve_adds:
  "serve_all (map (\<lambda>n. SrvAdd n (p n) (h n)) ns) m n = (if n \<in> set ns then Some (p n, h n) else m n)"
  by (induction ns arbitrary: m) auto

lemma serve_sync:
  assumes "reg_ok r" "range_order rn" "range_order rp"
  shows "serve_all (so_calls (sync_feature eq rn rp up mk newp raw r)) m n =
    (if map_of newp n \<noteq> None \<and> is_new eq r up newp n
     then Some (the (map_of newp n), mk (raw_name raw n))
     else if map_of (fr_owner r) n = Some up \<and> map_of newp n = None then None else m n)"
  using assms
  by (auto simp: sync_feature_out Let_def serve_removes serve_adds in_removed_of in_changed_of)

text \<open>
  The server serves exactly the owned names, each with its registered payload and a handler \<open>P\<close>
  accepts for its owner and name.
\<close>

definition serves ::
  "(string \<Rightarrow> string \<Rightarrow> handler \<Rightarrow> bool) \<Rightarrow> 'p registry \<Rightarrow> (string \<rightharpoonup> 'p \<times> handler) \<Rightarrow> bool" where
  "serves P r m \<longleftrightarrow> (\<forall>n. case map_of (fr_owner r) n of
      None \<Rightarrow> m n = None
    | Some up \<Rightarrow> \<exists>h. m n = Some (the (map_of (fr_payload r) n), h) \<and> P up n h)"

lemma serves_sync:
  assumes "reg_ok r" "range_order rn" "range_order rp" "serves P r m"
    and mk: "\<And>n. map_of newp n \<noteq> None \<Longrightarrow> P up n (mk (raw_name raw n))"
  shows "serves P (so_reg (sync_feature eq rn rp up mk newp raw r))
    (serve_all (so_calls (sync_feature eq rn rp up mk newp raw r)) m)"
  unfolding serves_def
proof
  fix n
  note eqs = sync_owner [OF assms(1-3), of eq up mk newp raw n]
    sync_payload [OF assms(1-3), of eq up mk newp raw n] serve_sync [OF assms(1-3), of eq up mk newp raw m n]
  have old: "case map_of (fr_owner r) n of None \<Rightarrow> m n = None
      | Some v \<Rightarrow> \<exists>h. m n = Some (the (map_of (fr_payload r) n), h) \<and> P v n h"
    using assms(4) by (simp add: serves_def)
  show "case map_of (fr_owner (so_reg (sync_feature eq rn rp up mk newp raw r))) n of
      None \<Rightarrow> serve_all (so_calls (sync_feature eq rn rp up mk newp raw r)) m n = None
    | Some v \<Rightarrow> \<exists>h. serve_all (so_calls (sync_feature eq rn rp up mk newp raw r)) m n =
        Some (the (map_of (fr_payload (so_reg (sync_feature eq rn rp up mk newp raw r))) n), h) \<and> P v n h"
    unfolding eqs owner_after_def
    using old mk [of n] by (auto simp: is_taken_def is_new_def split: option.splits if_splits)
qed

subsection \<open>The interface: a table of owned names\<close>

text \<open>
  What the gateway relies on when it synchronises upstreams into a registry, whatever the kind of the
  feature. A range order is a pair: the order over the names of the upstream and over the new ones.
\<close>

type_synonym ranges = "(string list \<Rightarrow> string list) \<times> (string list \<Rightarrow> string list)"

definition good_ranges :: "ranges \<Rightarrow> bool" where
  "good_ranges rg \<longleftrightarrow> range_order (fst rg) \<and> range_order (snd rg)"

locale owner_table =
  fixes sync :: "ranges \<Rightarrow> upstream_config \<Rightarrow> 'i list \<Rightarrow> 'r \<Rightarrow> 'r"
    and owner :: "'r \<Rightarrow> string \<Rightarrow> string option"
    and inv :: "'r \<Rightarrow> bool"
    and exports :: "upstream_config \<Rightarrow> 'i list \<Rightarrow> string set"
  assumes sync_inv: "good_ranges rg \<Longrightarrow> inv r \<Longrightarrow> inv (sync rg u items r)"
    and sync_owner: "good_ranges rg \<Longrightarrow> inv r \<Longrightarrow>
      owner (sync rg u items r) n =
        (if owner r n \<noteq> None \<and> owner r n \<noteq> Some (up_name u) then owner r n
         else if n \<in> exports u items then Some (up_name u) else None)"
    and exports_none: "exports u [] = {}"
begin

lemma detach_owner:
  "good_ranges rg \<Longrightarrow> inv r \<Longrightarrow>
     owner (sync rg u [] r) n = (if owner r n = Some (up_name u) then None else owner r n)"
  by (simp add: sync_owner exports_none)

lemma sync_twice:
  "good_ranges rg \<Longrightarrow> good_ranges rg' \<Longrightarrow> inv r \<Longrightarrow>
     owner (sync rg' u items (sync rg u items r)) = owner (sync rg u items r)"
  by (intro ext) (simp add: sync_owner sync_inv)

text \<open>Detaching an upstream before its replacement is attached hands its names over.\<close>

lemma hand_over:
  assumes "good_ranges rg" "good_ranges rg'" "inv r" "owner r n = Some (up_name u)"
    "n \<in> exports u' items"
  shows "owner (sync rg' u' items (sync rg u [] r)) n = Some (up_name u')"
  using assms by (simp add: sync_owner sync_inv exports_none)

lemma hand_over_late:
  assumes "good_ranges rg" "good_ranges rg'" "inv r" "owner r n = Some (up_name u)"
    "up_name u \<noteq> up_name u'"
  shows "owner (sync rg u [] (sync rg' u' items r)) n = None"
  using assms by (simp add: sync_owner sync_inv exports_none)

fun run :: "(ranges \<times> upstream_config \<times> 'i list) list \<Rightarrow> 'r \<Rightarrow> 'r" where
  "run [] r = r"
| "run ((rg, u, items) # steps) r = run steps (sync rg u items r)"

fun first_exporter :: "(ranges \<times> upstream_config \<times> 'i list) list \<Rightarrow> string \<Rightarrow> string option" where
  "first_exporter [] n = None"
| "first_exporter ((rg, u, items) # steps) n =
     (if n \<in> exports u items then Some (up_name u) else first_exporter steps n)"

text \<open>Upstreams synchronised one after the other: the first to export a name owns it.\<close>

lemma run_owner:
  assumes "\<forall>(rg, u, items)\<in>set steps. good_ranges rg" "inv r"
    "distinct (map (\<lambda>(rg, u, items). up_name u) steps)"
    "\<forall>(rg, u, items)\<in>set steps. owner r n \<noteq> Some (up_name u)"
  shows "inv (run steps r) \<and>
    owner (run steps r) n = (if owner r n \<noteq> None then owner r n else first_exporter steps n)"
  using assms
proof (induction steps r rule: run.induct)
  case (2 rg u items steps r)
  have ok: "good_ranges rg" "inv (sync rg u items r)" using 2 by (auto intro: sync_inv)
  have own: "owner (sync rg u items r) n =
      (if owner r n \<noteq> None then owner r n else if n \<in> exports u items then Some (up_name u) else None)"
    using sync_owner [OF ok(1) "2.prems"(2), of u items n] "2.prems"(4) by auto
  have "owner (sync rg u items r) n \<noteq> Some (up_name u')" if "(rg', u', items') \<in> set steps" for rg' u' items'
  proof -
    have "owner r n \<noteq> Some (up_name u')" using "2.prems"(4) that by auto
    moreover have "up_name u \<noteq> up_name u'" using "2.prems"(3) that by force
    ultimately show ?thesis by (simp add: own)
  qed
  then have free: "\<forall>(rg, u', items)\<in>set steps. owner (sync rg0 u0 items0 r) n \<noteq> Some (up_name u')"
    if "sync rg0 u0 items0 = sync rg u items" for rg0 u0 items0 using that by auto
  have "inv (run steps (sync rg u items r)) \<and> owner (run steps (sync rg u items r)) n =
      (if owner (sync rg u items r) n \<noteq> None then owner (sync rg u items r) n else first_exporter steps n)"
    using "2.IH" [OF _ ok(2) _ free [OF refl]] "2.prems"(1,3) by auto
  then show ?case by (simp add: own)
qed simp

end

subsection \<open>The four registries provide it\<close>

definition tool_exports :: "(string \<Rightarrow> bool) \<Rightarrow> upstream_config \<Rightarrow> tool list \<Rightarrow> string set" where
  "tool_exports reserved u ts = (\<lambda>t. tc_prefix (up_tools u) @ tl_name t) ` set (tool_items reserved u ts)"

definition prompt_exports :: "upstream_config \<Rightarrow> prompt list \<Rightarrow> string set" where
  "prompt_exports u ps = (\<lambda>p. tc_prefix (up_tools u) @ pr_name p) ` set ps"

lemma new_payloads_dom: "map_of (new_payloads key final items) n \<noteq> None \<longleftrightarrow> n \<in> key ` set items"
  unfolding keys_new [symmetric, of key items final] by (auto simp: map_of_eq_None_iff)

lemma tool_payloads_dom: "map_of (tool_payloads reserved u ts) n \<noteq> None \<longleftrightarrow> n \<in> tool_exports reserved u ts"
  unfolding tool_payloads_def new_payloads_dom tool_exports_def ..

definition sync_tools ::
  "(string \<Rightarrow> bool) \<Rightarrow> (upstream_config \<Rightarrow> bool) \<Rightarrow> ranges \<Rightarrow> upstream_config \<Rightarrow> tool list
     \<Rightarrow> tool registry \<Rightarrow> tool registry" where
  "sync_tools reserved redact rg u ts r =
     so_reg (registerUpstreamTools (fst rg) (snd rg) reserved (redact u) u ts r)"

interpretation tools: owner_table "sync_tools reserved redact" "\<lambda>r. map_of (fr_owner r)" reg_ok
  "tool_exports reserved"
  for reserved redact
proof unfold_locales
  fix rg :: ranges and r :: "tool registry" and u n and ts :: "tool list"
  assume *: "good_ranges rg" "reg_ok r"
  then show "reg_ok (sync_tools reserved redact rg u ts r)"
    by (simp add: sync_tools_def tools_generic sync_reg_ok good_ranges_def)
  show "map_of (fr_owner (sync_tools reserved redact rg u ts r)) n =
      (if map_of (fr_owner r) n \<noteq> None \<and> map_of (fr_owner r) n \<noteq> Some (up_name u) then map_of (fr_owner r) n
       else if n \<in> tool_exports reserved u ts then Some (up_name u) else None)"
    using * by (simp add: sync_tools_def tools_generic sync_owner good_ranges_def owner_after_def is_taken_def
        flip: tool_payloads_dom)
qed (simp add: tool_exports_def tool_items_def)

interpretation prompts: owner_table
  "\<lambda>rg u ps r. so_reg (registerUpstreamPrompts (fst rg) (snd rg) u ps r)" "\<lambda>r. map_of (fr_owner r)" reg_ok
  prompt_exports
proof unfold_locales
  fix rg :: ranges and r :: "prompt registry" and u n and ps :: "prompt list"
  assume *: "good_ranges rg" "reg_ok r"
  then show "reg_ok (so_reg (registerUpstreamPrompts (fst rg) (snd rg) u ps r))"
    by (simp add: registerUpstreamPrompts_def Let_def sync_reg_ok good_ranges_def)
  show "map_of (fr_owner (so_reg (registerUpstreamPrompts (fst rg) (snd rg) u ps r))) n =
      (if map_of (fr_owner r) n \<noteq> None \<and> map_of (fr_owner r) n \<noteq> Some (up_name u) then map_of (fr_owner r) n
       else if n \<in> prompt_exports u ps then Some (up_name u) else None)"
    using * by (simp add: registerUpstreamPrompts_def Let_def sync_owner good_ranges_def owner_after_def is_taken_def
        new_payloads_dom [unfolded not_None_eq] prompt_exports_def)
qed (simp add: prompt_exports_def)

interpretation resources: owner_table
  "\<lambda>rg u rs r. so_reg (registerUpstreamResources (fst rg) (snd rg) u rs r)" "\<lambda>r. map_of (fr_owner r)" reg_ok
  "\<lambda>u rs. re_uri ` set rs"
  by unfold_locales
    (simp_all add: registerUpstreamResources_def sync_reg_ok good_ranges_def sync_owner owner_after_def
      is_taken_def new_payloads_dom [unfolded not_None_eq])

interpretation templates: owner_table
  "\<lambda>rg u ts r. so_reg (registerUpstreamResourceTemplates (fst rg) (snd rg) u ts r)"
  "\<lambda>r. map_of (fr_owner r)" reg_ok "\<lambda>u ts. rt_uri ` set ts"
  by unfold_locales
    (simp_all add: registerUpstreamResourceTemplates_def sync_reg_ok good_ranges_def sync_owner owner_after_def
      is_taken_def new_payloads_dom [unfolded not_None_eq])

subsection \<open>Payloads\<close>

lemma new_payloads_last:
  "map_of (new_payloads key final items) n = map_option final (last_item key items n)"
proof -
  have "map_of (fold (\<lambda>it. AList.update (key it) (final it)) items m) n =
      (case last_item key items n of None \<Rightarrow> map_of m n | Some it \<Rightarrow> Some (final it))" for m
    by (induction items arbitrary: m rule: rev_induct) (auto simp: last_item_def)
  from this [of "[]"] show ?thesis by (simp add: new_payloads_def split: option.splits)
qed

definition tool_target :: "(string \<Rightarrow> string) \<Rightarrow> string \<Rightarrow> string \<Rightarrow> handler \<Rightarrow> bool" where
  "tool_target pfx up n h \<longleftrightarrow> (\<exists>raw red. h = tool_handler_of red up raw \<and> n = pfx up @ raw)"

lemma tool_raws_target:
  assumes "map_of (tool_payloads reserved u ts) n \<noteq> None"
  shows "n = tc_prefix (up_tools u) @ raw_name (tool_raws reserved u ts) n"
proof -
  let ?key = "\<lambda>t. tc_prefix (up_tools u) @ tl_name t"
  from assms obtain t where t: "last_item ?key (tool_items reserved u ts) n = Some t"
    by (auto simp: tool_payloads_def new_payloads_last)
  then have "?key t = n" using last_item_SomeD by fastforce
  with t show ?thesis by (simp add: raw_name_def tool_raws_def new_payloads_last)
qed

subsection \<open>Properties\<close>

text \<open>
  C40. \<open>registerUpstreamTools\<close>, which repeats the algorithm of \<open>featureRegistry\<close> by hand, gives exactly
  what \<open>diff\<close> and \<open>apply\<close> would: the same registry, the same calls on the server in the same order,
  the same names added and removed, the same collisions.
\<close>

theorem register_tools_equivalent:
  assumes "range_order rn" and "range_order rp"
  shows "registerUpstreamTools rn rp reserved redact u tools r =
    sync_feature toolEqual rn rp (up_name u) (tool_handler_of redact (up_name u))
      (tool_payloads reserved u tools) (tool_raws reserved u tools) r"
  by (rule tools_generic [OF assms])

definition demo_tool :: "string \<Rightarrow> tool" where
  "demo_tool n = \<lparr>tl_name = n, tl_title = [], tl_desc = ''d'', tl_input = ''{}'', tl_output = [], tl_annot = []\<rparr>"

theorem register_tools_equivalent_witness:
  "registerUpstreamTools (\<lambda>ns. ns) rev (\<lambda>_. False) True demo_upstream [demo_tool ''get_issue''] newFeatureRegistry =
    sync_feature toolEqual (\<lambda>ns. ns) rev (up_name demo_upstream) (tool_handler_of True (up_name demo_upstream))
      (tool_payloads (\<lambda>_. False) demo_upstream [demo_tool ''get_issue''])
      (tool_raws (\<lambda>_. False) demo_upstream [demo_tool ''get_issue'']) newFeatureRegistry"
  by (rule register_tools_equivalent) simp_all

text \<open>
  A synchronisation of an upstream's tools keeps the registry consistent and the server in step with
  it: the server serves exactly the owned names, each forwarded to its owner under the name the owner
  knows the tool by. The upstream afterwards owns exactly the names it exports and nobody else owned,
  each with the definition of the last tool listed under it; no other upstream's name changes hands.
\<close>

theorem register_tools_effect:
  assumes "range_order rn" and "range_order rp" and "reg_ok r" and "serves (tool_target pfx) r m"
    and "pfx (up_name u) = tc_prefix (up_tools u)"
    and "out = registerUpstreamTools rn rp reserved redact u tools r"
  shows "reg_ok (so_reg out) \<and> serves (tool_target pfx) (so_reg out) (serve_all (so_calls out) m) \<and>
    (\<forall>n. map_of (fr_owner (so_reg out)) n =
       (if map_of (fr_owner r) n \<noteq> None \<and> map_of (fr_owner r) n \<noteq> Some (up_name u) then map_of (fr_owner r) n
        else if n \<in> tool_exports reserved u tools then Some (up_name u) else None)) \<and>
    (\<forall>n. map_of (fr_owner (so_reg out)) n = Some (up_name u) \<longrightarrow>
       map_of (fr_payload (so_reg out)) n =
         map_option (export_tool (tc_prefix (up_tools u)) (tc_desc_max (up_tools u)))
           (last_item (\<lambda>t. tc_prefix (up_tools u) @ tl_name t) (tool_items reserved u tools) n)) \<and>
    set (so_collisions out) =
      (\<lambda>n. \<lparr>col_upstream = the (map_of (fr_owner r) n),
            col_tool = drop (length (tc_prefix (up_tools u))) n, col_result = n\<rparr>) `
      {n \<in> tool_exports reserved u tools.
         map_of (fr_owner r) n \<noteq> None \<and> map_of (fr_owner r) n \<noteq> Some (up_name u)}"
proof (intro conjI)
  let ?newp = "tool_payloads reserved u tools" and ?raw = "tool_raws reserved u tools"
  have out: "out = sync_feature toolEqual rn rp (up_name u) (tool_handler_of redact (up_name u)) ?newp ?raw r"
    unfolding assms(6) by (rule tools_generic [OF assms(1,2)])
  note dom = tool_payloads_dom [of reserved u tools, symmetric]
  show "reg_ok (so_reg out)" unfolding out by (rule sync_reg_ok [OF assms(3,1,2)])
  show "serves (tool_target pfx) (so_reg out) (serve_all (so_calls out) m)"
    unfolding out
  proof (rule serves_sync [OF assms(3,1,2,4)])
    fix n assume "map_of ?newp n \<noteq> None"
    then show "tool_target pfx (up_name u) n (tool_handler_of redact (up_name u) (raw_name ?raw n))"
      unfolding tool_target_def assms(5) using tool_raws_target by blast
  qed
  show own: "\<forall>n. map_of (fr_owner (so_reg out)) n =
       (if map_of (fr_owner r) n \<noteq> None \<and> map_of (fr_owner r) n \<noteq> Some (up_name u) then map_of (fr_owner r) n
        else if n \<in> tool_exports reserved u tools then Some (up_name u) else None)"
    unfolding out dom by (simp add: sync_owner [OF assms(3,1,2)] owner_after_def is_taken_def)
  show "\<forall>n. map_of (fr_owner (so_reg out)) n = Some (up_name u) \<longrightarrow>
       map_of (fr_payload (so_reg out)) n =
         map_option (export_tool (tc_prefix (up_tools u)) (tc_desc_max (up_tools u)))
           (last_item (\<lambda>t. tc_prefix (up_tools u) @ tl_name t) (tool_items reserved u tools) n)"
  proof (intro allI impI)
    fix n assume n: "map_of (fr_owner (so_reg out)) n = Some (up_name u)"
    then have free: "\<not> is_taken r (up_name u) n" "map_of ?newp n \<noteq> None"
      using own tool_payloads_dom [of reserved u tools n] by (auto simp: is_taken_def split: if_splits)
    then have "map_of (fr_payload (so_reg out)) n = map_of ?newp n"
      unfolding out sync_payload [OF assms(3,1,2)] by (auto simp: is_new_def toolEqual_iff is_taken_def)
    then show "map_of (fr_payload (so_reg out)) n =
         map_option (export_tool (tc_prefix (up_tools u)) (tc_desc_max (up_tools u)))
           (last_item (\<lambda>t. tc_prefix (up_tools u) @ tl_name t) (tool_items reserved u tools) n)"
      by (simp add: tool_payloads_def new_payloads_last)
  qed
  have "set (so_collisions out) = collision_at r ?raw ` {n. map_of ?newp n \<noteq> None \<and> is_taken r (up_name u) n}"
    using assms(2) by (auto simp: out sync_feature_out Let_def map_of_eq_None_iff)
  also have "\<dots> = (\<lambda>n. \<lparr>col_upstream = the (map_of (fr_owner r) n),
            col_tool = drop (length (tc_prefix (up_tools u))) n, col_result = n\<rparr>) `
        {n. map_of ?newp n \<noteq> None \<and> is_taken r (up_name u) n}"
  proof (rule image_cong [OF refl])
    fix n assume "n \<in> {n. map_of ?newp n \<noteq> None \<and> is_taken r (up_name u) n}"
    then have "n = tc_prefix (up_tools u) @ raw_name ?raw n" by (blast intro: tool_raws_target)
    then have "raw_name ?raw n = drop (length (tc_prefix (up_tools u))) n" by (metis append_eq_conv_conj)
    then show "collision_at r ?raw n = \<lparr>col_upstream = the (map_of (fr_owner r) n),
            col_tool = drop (length (tc_prefix (up_tools u))) n, col_result = n\<rparr>"
      by (simp add: collision_at_def)
  qed
  finally show "set (so_collisions out) =
      (\<lambda>n. \<lparr>col_upstream = the (map_of (fr_owner r) n),
            col_tool = drop (length (tc_prefix (up_tools u))) n, col_result = n\<rparr>) `
      {n \<in> tool_exports reserved u tools.
         map_of (fr_owner r) n \<noteq> None \<and> map_of (fr_owner r) n \<noteq> Some (up_name u)}"
    unfolding dom is_taken_def .
qed

theorem register_tools_effect_witness:
  "\<exists>out. out = registerUpstreamTools (\<lambda>ns. ns) rev (\<lambda>_. False) True demo_upstream
        [demo_tool ''get_issue''] newFeatureRegistry \<and>
     reg_ok (so_reg out) \<and> serves (tool_target (\<lambda>_. ''gh_'')) (so_reg out) (serve_all (so_calls out) (\<lambda>_. None))"
proof -
  have 1: "serves (tool_target (\<lambda>_. ''gh_'')) (newFeatureRegistry :: tool registry) (\<lambda>_. None)"
    by (simp add: serves_def newFeatureRegistry_def)
  have 2: "''gh_'' = tc_prefix (up_tools demo_upstream)" by (simp add: demo_upstream_def demo_tools_def)
  from register_tools_effect [OF range_order_id range_order_rev reg_ok_new 1 2 refl]
  show ?thesis by blast
qed

text \<open>
  Upstreams synchronised one after the other into an empty registry: the first that exports a name
  owns it, a name no upstream exports is owned by none. This is what \<open>Build\<close> leaves behind when it
  accepted names that several upstreams export.
\<close>

theorem build_first_exporter_owns:
  assumes "\<forall>(rg, u, ts)\<in>set steps. good_ranges rg"
    and "distinct (map (\<lambda>(rg, u, ts). up_name u) steps)"
  shows "map_of (fr_owner (fold (\<lambda>(rg, u, ts). sync_tools reserved redact rg u ts) steps newFeatureRegistry)) n =
    (case find (\<lambda>(rg, u, ts). n \<in> tool_exports reserved u ts) steps of
       None \<Rightarrow> None | Some (rg, u, ts) \<Rightarrow> Some (up_name u))"
proof -
  have run: "tools.run reserved redact steps r = fold (\<lambda>(rg, u, ts). sync_tools reserved redact rg u ts) steps r"
    for r by (induction steps arbitrary: r) auto
  have first: "tools.first_exporter reserved steps n =
      (case find (\<lambda>(rg, u, ts). n \<in> tool_exports reserved u ts) steps of
         None \<Rightarrow> None | Some (rg, u, ts) \<Rightarrow> Some (up_name u))"
    by (induction steps) auto
  have "\<forall>(rg, u, ts)\<in>set steps. map_of (fr_owner newFeatureRegistry) n \<noteq> Some (up_name u)"
    by (simp add: newFeatureRegistry_def case_prod_beta)
  from tools.run_owner [OF assms(1) reg_ok_new assms(2) this, of reserved redact]
  show ?thesis by (simp add: run first) (simp add: newFeatureRegistry_def)
qed

definition demo_builds :: "(ranges \<times> upstream_config \<times> tool list) list" where
  "demo_builds = [((rev, rev), demo_upstream, [demo_tool ''a'']),
     ((rev, rev), demo_upstream\<lparr>up_name := ''two''\<rparr>, [demo_tool ''a''])]"

theorem build_first_exporter_owns_witness:
  "map_of (fr_owner (fold (\<lambda>(rg, u, ts). sync_tools (\<lambda>_. False) (\<lambda>_. False) rg u ts) demo_builds
      newFeatureRegistry)) ''gh_a'' =
    (case find (\<lambda>(rg, u, ts). ''gh_a'' \<in> tool_exports (\<lambda>_. False) u ts) demo_builds of
       None \<Rightarrow> None | Some (rg, u, ts) \<Rightarrow> Some (up_name u))"
proof (rule build_first_exporter_owns)
  show "\<forall>(rg, u, ts)\<in>set demo_builds. good_ranges rg"
    by (simp add: demo_builds_def good_ranges_def)
  show "distinct (map (\<lambda>(rg, u, ts). up_name u) demo_builds)"
    by (simp add: demo_builds_def demo_upstream_def)
qed

text \<open>
  Detaching an upstream before a replacement of another name is attached hands over the names both
  export; attaching the replacement first loses them, because they are still taken when it comes and
  are freed without an owner afterwards.
\<close>

theorem detach_before_attach:
  assumes "good_ranges rg" and "good_ranges rg'" and "reg_ok r" and "up_name u \<noteq> up_name u'"
    and "map_of (fr_owner r) n = Some (up_name u)" and "n \<in> tool_exports reserved u' ts"
  shows "map_of (fr_owner (sync_tools reserved redact rg' u' ts (sync_tools reserved redact rg u [] r))) n =
      Some (up_name u') \<and>
    map_of (fr_owner (sync_tools reserved redact rg u [] (sync_tools reserved redact rg' u' ts r))) n = None"
  using tools.hand_over [OF assms(1,2,3,5,6)] tools.hand_over_late [OF assms(1,2,3,5,4)] by blast

theorem detach_before_attach_witness:
  "map_of (fr_owner (sync_tools (\<lambda>_. False) (\<lambda>_. False) (rev, rev) (demo_upstream\<lparr>up_name := ''two''\<rparr>)
        [demo_tool ''a''] (sync_tools (\<lambda>_. False) (\<lambda>_. False) (rev, rev) demo_upstream []
          \<lparr>fr_owner = [(''gh_a'', ''gh'')], fr_names = [(''gh'', [''gh_a''])],
           fr_payload = [(''gh_a'', demo_tool ''gh_a'')]\<rparr>))) ''gh_a'' =
      Some (up_name (demo_upstream\<lparr>up_name := ''two''\<rparr>)) \<and>
    map_of (fr_owner (sync_tools (\<lambda>_. False) (\<lambda>_. False) (rev, rev) demo_upstream []
        (sync_tools (\<lambda>_. False) (\<lambda>_. False) (rev, rev) (demo_upstream\<lparr>up_name := ''two''\<rparr>) [demo_tool ''a'']
          \<lparr>fr_owner = [(''gh_a'', ''gh'')], fr_names = [(''gh'', [''gh_a''])],
           fr_payload = [(''gh_a'', demo_tool ''gh_a'')]\<rparr>))) ''gh_a'' = None"
  by (rule detach_before_attach)
    (auto simp: good_ranges_def reg_ok_def set_get_def demo_upstream_def demo_tools_def demo_tool_def
      tool_exports_def tool_items_def allowed_def split: if_splits)

end
