(* ===== verification/Gw_Scope.thy ===== *)
theory Gw_Scope
  imports Gw_Registry
begin

text \<open>
  Who may call which tool: the scope middleware of \<open>internal/gateway/scope.go\<close>, the scopes
  \<open>auth.go\<close> derives from the configured upstreams, the names \<open>discovery.go\<close> reserves for the gateway,
  and the request meta \<open>meta.go\<close> hands on.

  What the code reads of the gateway is a \<open>gw_view\<close>: the tool registry, the upstreams in their order,
  and the two switches. A middleware runs in a state \<open>'s\<close> its next handler may change; \<open>gv\<close> reads the
  view off the state at the moment the code does. A request carries its method, the name of the tool
  when it is a \<open>CallToolRequest\<close>, and the granted scopes when it came with a \<open>TokenInfo\<close>.
\<close>

subsection \<open>Scopes\<close>

definition upstreamScope :: "string \<Rightarrow> string" where
  "upstreamScope up = ''mcp:'' @ up"

definition upstreamSubScope :: "string \<Rightarrow> string \<Rightarrow> string" where
  "upstreamSubScope up name = ''mcp:'' @ up @ '':'' @ name"

fun derivedUpstreamScopes :: "upstream_config list \<Rightarrow> string list" where
  "derivedUpstreamScopes [] = []"
| "derivedUpstreamScopes (u # us) =
     upstreamScope (up_name u) # map (\<lambda>sc. upstreamSubScope (up_name u) (sc_name sc)) (tc_scopes (up_tools u))
     @ derivedUpstreamScopes us"

fun sub_scope_allows :: "string list \<Rightarrow> string \<Rightarrow> scope_config list \<Rightarrow> string \<Rightarrow> bool" where
  "sub_scope_allows granted up [] raw = False"
| "sub_scope_allows granted up (sc # scs) raw =
     (if upstreamSubScope up (sc_name sc) \<notin> set granted then sub_scope_allows granted up scs raw
      else if any_match (sc_match sc) raw then True
      else sub_scope_allows granted up scs raw)"

definition scopeAllowsTool :: "string list \<Rightarrow> string \<Rightarrow> scope_config list \<Rightarrow> string \<Rightarrow> bool" where
  "scopeAllowsTool granted up scs raw =
     (if upstreamScope up \<in> set granted then True else sub_scope_allows granted up scs raw)"

lemma sub_scope_allows_iff:
  "sub_scope_allows granted up scs raw \<longleftrightarrow>
     (\<exists>sc\<in>set scs. upstreamSubScope up (sc_name sc) \<in> set granted \<and> (\<exists>p\<in>set (sc_match sc). glob_ok p raw))"
  by (induction scs) (auto simp: any_match_iff)

lemma scopeAllowsTool_iff:
  "scopeAllowsTool granted up scs raw \<longleftrightarrow>
     ''mcp:'' @ up \<in> set granted \<or>
     (\<exists>sc\<in>set scs. ''mcp:'' @ up @ '':'' @ sc_name sc \<in> set granted \<and>
        (\<exists>p\<in>set (sc_match sc). glob_ok p raw))"
  by (simp add: scopeAllowsTool_def sub_scope_allows_iff upstreamScope_def upstreamSubScope_def)

subsection \<open>The gateway as the middlewares see it\<close>

record gw_view =
  gv_registry :: "tool registry"
  gv_upstreams :: "upstream_config list"
  gv_discovery :: bool
  gv_blob :: bool

definition upstreamByName :: "upstream_config list \<Rightarrow> string \<Rightarrow> upstream_config option" where
  "upstreamByName us name = find (\<lambda>u. up_name u = name) us"

definition reservedTool :: "gw_view \<Rightarrow> string \<Rightarrow> bool" where
  "reservedTool g name =
     (if name = ''search_tools'' \<or> name = ''describe_tools'' then gv_discovery g
      else if name = ''blob_share'' then gv_blob g
      else False)"

definition isOwnTool :: "gw_view \<Rightarrow> upstream_config option \<Rightarrow> string \<Rightarrow> bool" where
  "isOwnTool g forUp name \<longleftrightarrow> forUp = None \<and> reservedTool g name"

definition resolveToolOwner ::
  "gw_view \<Rightarrow> upstream_config option \<Rightarrow> string \<Rightarrow> upstream_config option \<times> string" where
  "resolveToolOwner g forUp final =
     (case forUp of
        Some u \<Rightarrow> (Some u, final)
      | None \<Rightarrow>
          (case map_of (fr_owner (gv_registry g)) final of
             None \<Rightarrow> (None, [])
           | Some up \<Rightarrow>
               (case upstreamByName (gv_upstreams g) up of
                  None \<Rightarrow> (None, [])
                | Some u \<Rightarrow> (Some u, trim_prefix final (tc_prefix (up_tools u))))))"

subsection \<open>The middlewares\<close>

record mcp_req =
  rq_method :: string
  rq_call :: "string option"
  rq_token :: "string list option"

datatype 'r mcp_result = ListTools "tool list" | OtherResult 'r

datatype 'e mcp_err = NotPermitted string | DownstreamErr 'e

type_synonym ('r, 'e, 's) method_handler =
  "mcp_req \<Rightarrow> 's \<Rightarrow> ('r mcp_result option \<times> 'e mcp_err option) \<times> 's"

text \<open>The filter on a \<open>tools/list\<close> result; \<open>del g\<close> tells the tools the code deletes.\<close>

definition filter_list ::
  "('s \<Rightarrow> gw_view) \<Rightarrow> (gw_view \<Rightarrow> tool \<Rightarrow> bool) \<Rightarrow> ('r, 'e, 's) method_handler \<Rightarrow> ('r, 'e, 's) method_handler" where
  "filter_list gv del next req s =
     (let ((res, err), s') = next req s in
      if err \<noteq> None then ((res, err), s')
      else
        (case res of
           Some (ListTools ts) \<Rightarrow> ((Some (ListTools (filter (\<lambda>t. \<not> del (gv s') t) ts)), None), s')
         | _ \<Rightarrow> ((res, None), s')))"

definition token_allows :: "gw_view \<Rightarrow> upstream_config option \<Rightarrow> string list \<Rightarrow> string \<Rightarrow> bool" where
  "token_allows g forUp granted name =
     (case resolveToolOwner g forUp name of
        (None, _) \<Rightarrow> False
      | (Some u, raw) \<Rightarrow> scopeAllowsTool granted (up_name u) (tc_scopes (up_tools u)) raw)"

definition scopeMiddleware ::
  "('s \<Rightarrow> gw_view) \<Rightarrow> upstream_config option \<Rightarrow> ('r, 'e, 's) method_handler \<Rightarrow> ('r, 'e, 's) method_handler" where
  "scopeMiddleware gv forUp next req s =
     (case rq_token req of
        None \<Rightarrow> next req s
      | Some granted \<Rightarrow>
          (if rq_method req = ''tools/call'' then
             (case rq_call req of
                None \<Rightarrow> next req s
              | Some name \<Rightarrow>
                  (if isOwnTool (gv s) forUp name then next req s
                   else if \<not> token_allows (gv s) forUp granted name
                     then ((None, Some (NotPermitted name)), s)
                   else next req s))
           else if rq_method req = ''tools/list'' then
             filter_list gv (\<lambda>g t. \<not> isOwnTool g forUp (tl_name t) \<and> \<not> token_allows g forUp granted (tl_name t))
               next req s
           else next req s))"

definition lazyMiddleware ::
  "('s \<Rightarrow> gw_view) \<Rightarrow> ('r, 'e, 's) method_handler \<Rightarrow> ('r, 'e, 's) method_handler" where
  "lazyMiddleware gv next req s =
     (if rq_method req \<noteq> ''tools/list'' then next req s
      else filter_list gv
        (\<lambda>g t. case fst (resolveToolOwner g None (tl_name t)) of
                 None \<Rightarrow> False
               | Some u \<Rightarrow> tc_is_lazy (up_tools u)) next req s)"

subsection \<open>proxyMeta\<close>

definition metaKeyProtocolVersion :: string where
  "metaKeyProtocolVersion = ''io.modelcontextprotocol/protocolVersion''"

definition proxyMeta :: "(string, 'v) gomap \<Rightarrow> (string, 'v) gomap" where
  "proxyMeta m =
     (if map_of m metaKeyProtocolVersion = None then m
      else AList.delete metaKeyProtocolVersion (AList.clearjunk m))"

subsection \<open>Facts on owners and grants\<close>

lemma upstreamByName_Some:
  "upstreamByName us n = Some u \<Longrightarrow> u \<in> set us \<and> up_name u = n"
  by (auto simp: upstreamByName_def find_Some_iff in_set_conv_nth)

lemma upstreamByName_distinct:
  "distinct (map up_name us) \<Longrightarrow> u \<in> set us \<Longrightarrow> upstreamByName us (up_name u) = Some u"
  by (induction us) (auto simp: upstreamByName_def)

text \<open>The tool a served handler forwards to, under the middleware it may be wrapped in.\<close>

fun forwards_to :: "handler \<Rightarrow> (string \<times> string) option" where
  "forwards_to (HCall up raw) = Some (up, raw)"
| "forwards_to (HRedacted h) = forwards_to h"
| "forwards_to h = None"

lemma tool_target_forwards:
  "tool_target pfx up n h \<Longrightarrow> \<exists>raw. forwards_to h = Some (up, raw) \<and> n = pfx up @ raw"
  by (auto simp: tool_target_def tool_handler_of_def)

definition prefix_of :: "upstream_config list \<Rightarrow> string \<Rightarrow> string" where
  "prefix_of us up = (case upstreamByName us up of None \<Rightarrow> [] | Some u \<Rightarrow> tc_prefix (up_tools u))"

lemma resolve_served:
  assumes "serves (tool_target (prefix_of (gv_upstreams g))) (gv_registry g) m"
    and "m n = Some (p, h)" and "resolveToolOwner g None n = (Some u, raw)"
  shows "forwards_to h = Some (up_name u, raw)"
proof -
  obtain up where up: "map_of (fr_owner (gv_registry g)) n = Some up"
      "upstreamByName (gv_upstreams g) up = Some u" "raw = trim_prefix n (tc_prefix (up_tools u))"
    using assms(3) by (auto simp: resolveToolOwner_def split: option.splits)
  have "case map_of (fr_owner (gv_registry g)) n of None \<Rightarrow> m n = None
      | Some v \<Rightarrow> \<exists>h. m n = Some (the (map_of (fr_payload (gv_registry g)) n), h) \<and>
          tool_target (prefix_of (gv_upstreams g)) v n h"
    using assms(1) unfolding serves_def by blast
  then have "tool_target (prefix_of (gv_upstreams g)) up n h"
    using up(1) assms(2) by auto
  from tool_target_forwards [OF this] show ?thesis
    using upstreamByName_Some [OF up(2)] up by (auto simp: prefix_of_def)
qed

text \<open>Without a colon in the names, the scopes of two upstreams never meet.\<close>

lemma colon_split:
  assumes "CHR '':'' \<notin> set a" and "CHR '':'' \<notin> set b"
  shows "(a = b) = (''mcp:'' @ a = ''mcp:'' @ b)"
    and "a @ '':'' @ x = b @ '':'' @ y \<longleftrightarrow> a = b \<and> x = y"
    and "a @ '':'' @ x \<noteq> b" and "a \<noteq> b @ '':'' @ y"
proof -
  show "(a = b) = (''mcp:'' @ a = ''mcp:'' @ b)" by simp
  have "index_byte (a @ CHR '':'' # x) CHR '':'' = Some (length a)"
    "index_byte (b @ CHR '':'' # y) CHR '':'' = Some (length b)"
    using assms by (simp_all add: index_byte_append_notin)
  then show "a @ '':'' @ x = b @ '':'' @ y \<longleftrightarrow> a = b \<and> x = y" by auto
  show "a @ '':'' @ x \<noteq> b" "a \<noteq> b @ '':'' @ y" using assms by auto
qed

text \<open>With a colon they do: the narrow scope of one upstream is the full scope of another.\<close>

lemma sub_scope_is_base: "upstreamSubScope up name = upstreamScope (up @ '':'' @ name)"
  by (simp add: upstreamScope_def upstreamSubScope_def)

lemma in_derivedUpstreamScopes:
  "s \<in> set (derivedUpstreamScopes us) \<longleftrightarrow>
     (\<exists>u\<in>set us. s = ''mcp:'' @ up_name u \<or> (\<exists>sc\<in>set (tc_scopes (up_tools u)). s = ''mcp:'' @ up_name u @ '':'' @ sc_name sc))"
  by (induction us) (auto simp: upstreamScope_def upstreamSubScope_def)

subsection \<open>Properties\<close>

text \<open>
  C9. With an OAuth token, a tool call goes through exactly when the tool is the gateway's own, or its
  owner's full scope is granted, or some granted sub-scope of the owner has a pattern matching the name
  the owner knows the tool by. A refused call never reaches the next handler and changes nothing.
\<close>

theorem scope_call_gate:
  assumes "rq_token req = Some granted" and "rq_method req = ''tools/call''" and "rq_call req = Some name"
  shows "scopeMiddleware gv forUp next req s =
    (if isOwnTool (gv s) forUp name \<or>
        (\<exists>u raw. resolveToolOwner (gv s) forUp name = (Some u, raw) \<and>
           (''mcp:'' @ up_name u \<in> set granted \<or>
            (\<exists>sc\<in>set (tc_scopes (up_tools u)). ''mcp:'' @ up_name u @ '':'' @ sc_name sc \<in> set granted \<and>
               (\<exists>p\<in>set (sc_match sc). path_match p raw = Some True))))
     then next req s else ((None, Some (NotPermitted name)), s))"
proof -
  have "token_allows (gv s) forUp granted name \<longleftrightarrow>
      (\<exists>u raw. resolveToolOwner (gv s) forUp name = (Some u, raw) \<and>
         scopeAllowsTool granted (up_name u) (tc_scopes (up_tools u)) raw)"
    by (auto simp: token_allows_def split: prod.splits option.splits)
  then show ?thesis using assms by (simp add: scopeMiddleware_def scopeAllowsTool_iff glob_ok_def)
qed

definition demo_view :: gw_view where
  "demo_view = \<lparr>gv_registry = \<lparr>fr_owner = [(''gh_get_issue'', ''gh''), (''gh_close'', ''gh'')],
       fr_names = [(''gh'', [''gh_get_issue'', ''gh_close''])],
       fr_payload = [(''gh_get_issue'', demo_tool ''gh_get_issue''), (''gh_close'', demo_tool ''gh_close'')]\<rparr>,
     gv_upstreams = [demo_upstream], gv_discovery = True, gv_blob = False\<rparr>"

definition demo_req :: "string \<Rightarrow> mcp_req" where
  "demo_req name = \<lparr>rq_method = ''tools/call'', rq_call = Some name, rq_token = Some [''mcp:gh:read'']\<rparr>"

definition demo_next :: "(unit, unit, unit) method_handler" where
  "demo_next req s = ((Some (OtherResult ()), None), s)"

theorem scope_call_gate_witness:
  "scopeMiddleware (\<lambda>_. demo_view) None demo_next (demo_req ''gh_close'') () =
    (if isOwnTool demo_view None ''gh_close'' \<or>
        (\<exists>u raw. resolveToolOwner demo_view None ''gh_close'' = (Some u, raw) \<and>
           (''mcp:'' @ up_name u \<in> set [''mcp:gh:read''] \<or>
            (\<exists>sc\<in>set (tc_scopes (up_tools u)). ''mcp:'' @ up_name u @ '':'' @ sc_name sc \<in> set [''mcp:gh:read''] \<and>
               (\<exists>p\<in>set (sc_match sc). path_match p raw = Some True))))
     then demo_next (demo_req ''gh_close'') () else ((None, Some (NotPermitted ''gh_close'')), ()))"
  by (rule scope_call_gate) (simp_all add: demo_req_def)

text \<open>
  What a token sees is what it can call: of the tools the next handler lists, exactly those whose
  call the middleware lets through are left, in the order they had.
\<close>

theorem scoped_list_is_callable:
  assumes "rq_token req = Some granted" and "rq_method req = ''tools/list''"
    and "next req s = ((Some (ListTools ts), None), s')"
  shows "scopeMiddleware gv forUp next req s =
    ((Some (ListTools (filter (\<lambda>t. \<forall>next'. scopeMiddleware gv forUp (next' :: ('r, 'e, 's) method_handler)
         \<lparr>rq_method = ''tools/call'', rq_call = Some (tl_name t), rq_token = Some granted\<rparr> s' =
         next' \<lparr>rq_method = ''tools/call'', rq_call = Some (tl_name t), rq_token = Some granted\<rparr> s') ts)),
      None), s')"
proof -
  have call: "(\<forall>next'. scopeMiddleware gv forUp (next' :: ('r, 'e, 's) method_handler)
         \<lparr>rq_method = ''tools/call'', rq_call = Some n, rq_token = Some granted\<rparr> s' =
         next' \<lparr>rq_method = ''tools/call'', rq_call = Some n, rq_token = Some granted\<rparr> s') \<longleftrightarrow>
      isOwnTool (gv s') forUp n \<or> token_allows (gv s') forUp granted n" (is "?all \<longleftrightarrow> ?ok") for n
  proof
    assume ?all
    from this [rule_format, of "\<lambda>req s. ((None, None), s)"] show ?ok
      by (auto simp: scopeMiddleware_def split: if_splits)
  next
    assume ?ok
    then show ?all by (auto simp: scopeMiddleware_def)
  qed
  show ?thesis using assms unfolding call by (simp add: scopeMiddleware_def filter_list_def)
qed

theorem scoped_list_is_callable_witness:
  "scopeMiddleware (\<lambda>_. demo_view) None (\<lambda>req s. ((Some (ListTools [demo_tool ''gh_get_issue'', demo_tool ''gh_close'']), None), s))
      \<lparr>rq_method = ''tools/list'', rq_call = None, rq_token = Some [''mcp:gh:read'']\<rparr> () =
    ((Some (ListTools (filter (\<lambda>t. \<forall>next'. scopeMiddleware (\<lambda>_. demo_view) None (next' :: (unit, unit, unit) method_handler)
         \<lparr>rq_method = ''tools/call'', rq_call = Some (tl_name t), rq_token = Some [''mcp:gh:read'']\<rparr> () =
         next' \<lparr>rq_method = ''tools/call'', rq_call = Some (tl_name t), rq_token = Some [''mcp:gh:read'']\<rparr> ())
         [demo_tool ''gh_get_issue'', demo_tool ''gh_close''])), None), ())"
  by (rule scoped_list_is_callable) simp_all

text \<open>
  The name the scope patterns are matched against is the name the served handler calls the owner
  with: whatever table of tools the registry keeps in step with, a permitted call is forwarded to the
  upstream whose scopes were consulted, under the name they were matched against.
\<close>

lemma scope_checks_forwarded_tool:
  assumes "serves (tool_target (prefix_of (gv_upstreams g))) (gv_registry g) m"
    and "m n = Some (p, h)" and "token_allows g None granted n"
  shows "\<exists>u raw. u \<in> set (gv_upstreams g) \<and> forwards_to h = Some (up_name u, raw) \<and>
    scopeAllowsTool granted (up_name u) (tc_scopes (up_tools u)) raw"
proof -
  obtain u raw where u: "resolveToolOwner g None n = (Some u, raw)"
      "scopeAllowsTool granted (up_name u) (tc_scopes (up_tools u)) raw"
    using assms(3) by (auto simp: token_allows_def split: prod.splits option.splits)
  have "u \<in> set (gv_upstreams g)"
    using u(1) upstreamByName_Some by (fastforce simp: resolveToolOwner_def split: option.splits)
  then show ?thesis using resolve_served [OF assms(1,2) u(1)] u(2) by blast
qed

lemma demo_view_serves:
  "serves (tool_target (prefix_of (gv_upstreams demo_view))) (gv_registry demo_view)
     [''gh_get_issue'' \<mapsto> (demo_tool ''gh_get_issue'', HRedacted (HCall ''gh'' ''get_issue'')),
      ''gh_close'' \<mapsto> (demo_tool ''gh_close'', HRedacted (HCall ''gh'' ''close''))]"
  by (auto simp: serves_def demo_view_def tool_target_def tool_handler_of_def prefix_of_def upstreamByName_def
      demo_upstream_def demo_tools_def)

lemma demo_get_allowed: "glob_ok ''get_*'' ''get_issue''"
  by code_simp

text \<open>
  Scopes of one upstream open no other, as long as no upstream name holds a colon: a token granted
  only scopes derived from other upstreams calls no tool of this one.
\<close>

theorem scope_isolation:
  assumes "\<forall>v\<in>insert u (set us). CHR '':'' \<notin> set (up_name v)"
    and "up_name u \<notin> up_name ` set us" and "set granted \<subseteq> set (derivedUpstreamScopes us)"
  shows "\<not> scopeAllowsTool granted (up_name u) (tc_scopes (up_tools u)) raw"
proof -
  have other: "CHR '':'' \<notin> set (up_name v)" "up_name v \<noteq> up_name u" if "v \<in> set us" for v
    using assms(1) that apply simp
    using assms(2) that image_eqI [of "up_name u" up_name v] by metis
  have mine: "CHR '':'' \<notin> set (up_name u)" using assms(1) by simp
  have "''mcp:'' @ up_name u \<notin> set (derivedUpstreamScopes us)"
    "''mcp:'' @ up_name u @ '':'' @ x \<notin> set (derivedUpstreamScopes us)" for x
    unfolding in_derivedUpstreamScopes
    using colon_split(2-4) [OF mine other(1)] by (auto simp del: append_Cons dest: other(2) [symmetric])
  then show ?thesis using assms(3) by (auto simp: scopeAllowsTool_iff)
qed

theorem scope_isolation_witness:
  "\<not> scopeAllowsTool [''mcp:two''] (up_name demo_upstream) (tc_scopes (up_tools demo_upstream)) ''close''"
  by (rule scope_isolation [of _ "[demo_upstream\<lparr>up_name := ''two''\<rparr>]"])
    (simp_all add: demo_upstream_def upstreamScope_def)

end
