(* ===== verification/Gw_Discovery.thy ===== *)
theory Gw_Discovery
  imports Gw_Scope "HOL-Library.Product_Lexorder"
begin

text \<open>
  The gateway's own search and describe tools, \<open>internal/gateway/discovery.go\<close>.

  A request reads the gateway more than once without holding a lock across the reads. \<open>g\<close> is the view
  behind \<open>visibleTools\<close>, \<open>g'\<close> the one the second \<open>resolveToolOwner\<close> of a search sees; a reload may come
  between them. The result \<open>None\<close> of a search is the nil dereference of the upstream. A map is copied
  by \<open>AList.clearjunk\<close>, which keeps one entry per key. \<open>uni\<close> lowers a string that is not ASCII.
\<close>

subsection \<open>strings.Fields\<close>

text \<open>The fields of a string, \<open>cur\<close> the one being read, reversed.\<close>

function fields_from :: "string \<Rightarrow> string \<Rightarrow> string list" where
  "fields_from cur [] = (if cur = [] then [] else [rev cur])"
| "fields_from cur (c # cs) =
     (case lead_enc space_encs (c # cs) of
        None \<Rightarrow> fields_from (c # cur) cs
      | Some e \<Rightarrow> (if cur = [] then [] else [rev cur]) @ fields_from [] (drop (length e) (c # cs)))"
  by pat_completeness auto
termination
  by (relation "measure (\<lambda>(cur, s). length s)") (auto dest: lead_enc_shorter simp del: drop_Cons')

definition str_fields :: "string \<Rightarrow> string list" where
  "str_fields s = fields_from [] s"

lemma fields_nonempty: "f \<in> set (fields_from cur s) \<Longrightarrow> f \<noteq> []"
  by (induction cur s rule: fields_from.induct) (auto split: option.splits if_splits)

subsection \<open>What a request may see\<close>

definition visibleTools :: "gw_view \<Rightarrow> string list option \<Rightarrow> (string, tool) gomap" where
  "visibleTools g token =
     filter (\<lambda>(name, t).
       (case resolveToolOwner g None name of
          (None, _) \<Rightarrow> False
        | (Some u, raw) \<Rightarrow>
            (case token of
               None \<Rightarrow> True
             | Some granted \<Rightarrow> scopeAllowsTool granted (up_name u) (tc_scopes (up_tools u)) raw)))
       (AList.clearjunk (fr_payload (gv_registry g)))"

subsection \<open>Search\<close>

fun score_terms :: "string \<Rightarrow> string \<Rightarrow> string list \<Rightarrow> int \<Rightarrow> int option" where
  "score_terms lname ldesc [] score = Some score"
| "score_terms lname ldesc (term # terms) score =
     (if str_contains lname term then score_terms lname ldesc terms score
      else if str_contains ldesc term then score_terms lname ldesc terms 2
      else None)"

definition searchScore :: "(string \<Rightarrow> string) \<Rightarrow> string list \<Rightarrow> string \<Rightarrow> string \<Rightarrow> int option" where
  "searchScore uni terms name desc =
     (if terms = [] then Some 1
      else
        (case score_terms (to_lower uni name) (to_lower uni desc) terms 1 of
           None \<Rightarrow> None
         | Some score \<Rightarrow>
             (if length terms = 1 \<and> to_lower uni name = hd terms then Some 0 else Some score)))"

record tool_match =
  tm_name :: string
  tm_upstream :: string
  tm_desc :: string
  tm_hidden :: bool

record search_output =
  st_tools :: "tool_match list"
  st_total :: nat
  st_truncated :: bool

definition search_limit :: "int \<Rightarrow> int" where
  "search_limit limit = (if limit \<le> 0 then 20 else if limit > 200 then 200 else limit)"

definition search_match :: "gw_view \<Rightarrow> string \<Rightarrow> tool \<Rightarrow> tool_match option" where
  "search_match g' name t =
     (case fst (resolveToolOwner g' None name) of
        None \<Rightarrow> None
      | Some u \<Rightarrow> Some \<lparr>tm_name = name, tm_upstream = up_name u, tm_desc = TrimDescription (tl_desc t) 200,
          tm_hidden = tc_is_lazy (up_tools u)\<rparr>)"

fun search_collect ::
  "(string \<Rightarrow> string) \<Rightarrow> gw_view \<Rightarrow> string list \<Rightarrow> (string, tool) gomap \<Rightarrow> string list
     \<Rightarrow> (int \<times> tool_match) list option" where
  "search_collect uni g' terms vis [] = Some []"
| "search_collect uni g' terms vis (name # names) =
     (let t = the (map_of vis name) in
      case searchScore uni terms name (tl_desc t) of
        None \<Rightarrow> search_collect uni g' terms vis names
      | Some score \<Rightarrow>
          (case search_match g' name t of
             None \<Rightarrow> None
           | Some m \<Rightarrow> map_option (\<lambda>ms. (score, m) # ms) (search_collect uni g' terms vis names)))"

definition match_key :: "int \<times> tool_match \<Rightarrow> int \<times> string" where
  "match_key sm = (fst sm, tm_name (snd sm))"

definition handleSearchTools ::
  "(string \<Rightarrow> string) \<Rightarrow> (string list \<Rightarrow> string list) \<Rightarrow> gw_view \<Rightarrow> gw_view \<Rightarrow> string list option \<Rightarrow> string
     \<Rightarrow> int \<Rightarrow> search_output option" where
  "handleSearchTools uni rng g g' token query limit =
     (let vis = visibleTools g token; terms = str_fields (to_lower uni query) in
      case search_collect uni g' terms vis (rng (map fst vis)) of
        None \<Rightarrow> None
      | Some ms \<Rightarrow>
          (let ms' = sort_key match_key ms; lim = search_limit limit in
           Some \<lparr>st_tools = map snd (if lim < int (length ms') then take (nat lim) ms' else ms'),
             st_total = length ms, st_truncated = (lim < int (length ms'))\<rparr>))"

subsection \<open>Describe\<close>

text \<open>\<open>marshal\<close> is \<open>json.Marshal\<close> on the struct of the tools found and the names that were not.\<close>

datatype 'e describe_error = NamesRequired | MarshalFailed 'e

fun describe_loop :: "(string, tool) gomap \<Rightarrow> string list \<Rightarrow> tool list \<Rightarrow> string list \<Rightarrow> tool list \<times> string list" where
  "describe_loop vis [] ts missing = (ts, missing)"
| "describe_loop vis (n # ns) ts missing =
     (case map_of vis n of
        None \<Rightarrow> describe_loop vis ns ts (missing @ [n])
      | Some t \<Rightarrow> describe_loop vis ns (ts @ [t]) missing)"

definition handleDescribeTools ::
  "(tool list \<times> string list \<Rightarrow> 'e + string) \<Rightarrow> gw_view \<Rightarrow> string list option \<Rightarrow> string list
     \<Rightarrow> 'e describe_error + content list" where
  "handleDescribeTools marshal g token names =
     (if names = [] then Inl NamesRequired
      else
        (case marshal (describe_loop (visibleTools g token) names [] []) of
           Inl e \<Rightarrow> Inl (MarshalFailed e)
         | Inr text \<Rightarrow> Inr [TextContent text]))"

subsection \<open>Facts\<close>

lemma distinct_visibleTools: "distinct (map fst (visibleTools g token))"
  by (simp add: visibleTools_def distinct_map_filter)

lemma map_of_filter_clearjunk:
  "map_of (filter P (AList.clearjunk m)) k = Some v \<longleftrightarrow> map_of m k = Some v \<and> P (k, v)"
proof -
  have "distinct (map fst (filter P (AList.clearjunk m)))" by (simp add: distinct_map_filter)
  then have "map_of (filter P (AList.clearjunk m)) k = Some v \<longleftrightarrow> (k, v) \<in> set (AList.clearjunk m) \<and> P (k, v)"
    by simp
  also have "(k, v) \<in> set (AList.clearjunk m) \<longleftrightarrow> map_of (AList.clearjunk m) k = Some v"
    using distinct_clearjunk [of m] by simp
  finally show ?thesis by (simp add: map_of_clearjunk)
qed

lemma visibleTools_scoped:
  "map_of (visibleTools g (Some granted)) n = Some t \<longleftrightarrow>
     map_of (fr_payload (gv_registry g)) n = Some t \<and> token_allows g None granted n"
  unfolding visibleTools_def map_of_filter_clearjunk
  by (simp add: token_allows_def split: prod.split option.split)

lemma visibleTools_resolved:
  "map_of (visibleTools g token) n = Some t \<Longrightarrow> fst (resolveToolOwner g None n) \<noteq> None"
  unfolding visibleTools_def map_of_filter_clearjunk by (auto split: prod.splits option.splits)

text \<open>The names a search matches, in the order of the range, and what it reports of each.\<close>

definition hit :: "(string \<Rightarrow> string) \<Rightarrow> string list \<Rightarrow> (string, tool) gomap \<Rightarrow> string \<Rightarrow> int option" where
  "hit uni terms vis n =
     (case map_of vis n of None \<Rightarrow> None | Some t \<Rightarrow> searchScore uni terms n (tl_desc t))"

definition searched :: "(string \<Rightarrow> string) \<Rightarrow> gw_view \<Rightarrow> string list option \<Rightarrow> string \<Rightarrow> string \<Rightarrow> int option" where
  "searched uni g token query n = hit uni (str_fields (to_lower uni query)) (visibleTools g token) n"

definition report :: "gw_view \<Rightarrow> (string, tool) gomap \<Rightarrow> string \<Rightarrow> tool_match" where
  "report g vis n = the (search_match g n (the (map_of vis n)))"

lemma search_match_visible:
  "map_of (visibleTools g token) n = Some t \<Longrightarrow> search_match g n t \<noteq> None"
  using visibleTools_resolved [of g token n t] by (auto simp: search_match_def)

lemma tm_name_report:
  "map_of (visibleTools g token) n = Some t \<Longrightarrow> tm_name (report g (visibleTools g token) n) = n"
  using visibleTools_resolved [of g token n t] by (auto simp: report_def search_match_def)

lemma search_collect_same_view:
  assumes "set names \<subseteq> dom (map_of (visibleTools g token))"
  shows "search_collect uni g terms (visibleTools g token) names =
    Some (map (\<lambda>n. (the (hit uni terms (visibleTools g token) n), report g (visibleTools g token) n))
      (filter (\<lambda>n. hit uni terms (visibleTools g token) n \<noteq> None) names))"
  using assms
proof (induction names)
  case (Cons n names)
  then obtain t where t: "map_of (visibleTools g token) n = Some t" by auto
  then obtain m where m: "search_match g n t = Some m" using search_match_visible by fastforce
  show ?case
    using Cons t m by (cases "searchScore uni terms n (tl_desc t)") (simp_all add: hit_def report_def Let_def)
qed simp

lemma sorted_strict:
  fixes f :: "'a \<Rightarrow> 'k::linorder"
  assumes "sorted (map f xs)" and "distinct (map f xs)"
  shows "sorted_wrt (\<lambda>a b. f a < f b) xs"
  using assms by (induction xs) (auto simp: less_le)

subsection \<open>Properties\<close>

text \<open>
  A search answers with the visible tools all of whose terms occur in the name or the description,
  each once, ordered by score and then name whatever the order of the map, cut at the limit; the total
  counts every match. While the gateway does not change under it, it never dereferences nil.
\<close>

theorem search_tools_correct:
  assumes "range_order rng"
  shows "\<exists>L. set L = {n. searched uni g token query n \<noteq> None} \<and>
    sorted_wrt (\<lambda>a b. (the (searched uni g token query a), a) < (the (searched uni g token query b), b)) L \<and>
    handleSearchTools uni rng g g token query limit =
      Some \<lparr>st_tools = map (report g (visibleTools g token)) (take (nat (search_limit limit)) L),
        st_total = length L, st_truncated = (nat (search_limit limit) < length L)\<rparr>"
proof -
  define vis terms cap where "vis = visibleTools g token" and "terms = str_fields (to_lower uni query)"
    and "cap = nat (search_limit limit)"
  have srch: "searched uni g token query = hit uni terms vis"
    by (simp add: searched_def vis_def terms_def fun_eq_iff)
  define ns where "ns = rng (map fst vis)"
  define H where "H = filter (\<lambda>n. hit uni terms vis n \<noteq> None) ns"
  define key where "key n = (the (hit uni terms vis n), n)" for n
  define L where "L = sort_key key H"
  have ns: "set ns = dom (map_of vis)" "distinct ns"
    using assms distinct_visibleTools by (simp_all add: ns_def keys_dom [symmetric] vis_def)
  have coll: "search_collect uni g terms vis ns = Some (map (\<lambda>n. (the (hit uni terms vis n), report g vis n)) H)"
    using search_collect_same_view [of ns g token uni terms] ns(1) by (simp add: vis_def H_def)
  have name: "tm_name (report g vis n) = n" if "n \<in> set H" for n
    using that ns(1) tm_name_report [of g token n] by (auto simp: H_def vis_def)
  have sort: "sort_key match_key (map (\<lambda>n. (the (hit uni terms vis n), report g vis n)) H) =
      map (\<lambda>n. (the (hit uni terms vis n), report g vis n)) L"
  proof -
    have "map match_key (map (\<lambda>n. (the (hit uni terms vis n), report g vis n)) H) = map key H"
      using name by (auto simp: match_key_def key_def)
    moreover have "insort_key match_key (the (hit uni terms vis n), report g vis n)
         (map (\<lambda>n. (the (hit uni terms vis n), report g vis n)) K) =
        map (\<lambda>n. (the (hit uni terms vis n), report g vis n)) (insort_key key n K)"
      if "n \<in> set H" "set K \<subseteq> set H" for n K
      using that by (induction K) (auto simp: match_key_def key_def name)
    then have "sort_key match_key (map (\<lambda>n. (the (hit uni terms vis n), report g vis n)) K) =
        map (\<lambda>n. (the (hit uni terms vis n), report g vis n)) (sort_key key K)" if "set K \<subseteq> set H" for K
      using that by (induction K) auto
    ultimately show ?thesis by (simp add: L_def)
  qed
  have "sorted_wrt (\<lambda>a b. key a < key b) L"
  proof (rule sorted_strict)
    show "sorted (map key L)" by (simp add: L_def)
    have "distinct L" using ns(2) by (simp add: L_def H_def)
    then show "distinct (map key L)" by (simp add: distinct_map inj_on_def key_def)
  qed
  moreover have "set L = {n. hit uni terms vis n \<noteq> None}"
    using ns(1) by (auto simp: L_def H_def hit_def split: option.splits)
  moreover have "0 \<le> search_limit limit" by (simp add: search_limit_def)
  then have "handleSearchTools uni rng g g token query limit =
      Some \<lparr>st_tools = map (report g vis) (take cap L), st_total = length L, st_truncated = (cap < length L)\<rparr>"
    using coll by (simp add: handleSearchTools_def Let_def vis_def [symmetric] terms_def [symmetric]
        ns_def [symmetric] sort cap_def nat_less_iff take_map o_def L_def [symmetric] not_less)
      (auto simp: L_def H_def nat_le_iff)
  ultimately show ?thesis unfolding key_def srch vis_def cap_def by blast
qed

theorem search_tools_correct_witness:
  "\<exists>L. set L = {n. searched (\<lambda>s. s) demo_view (Some [''mcp:gh:read'']) ''issue'' n \<noteq> None} \<and>
    sorted_wrt (\<lambda>a b. (the (searched (\<lambda>s. s) demo_view (Some [''mcp:gh:read'']) ''issue'' a), a) <
      (the (searched (\<lambda>s. s) demo_view (Some [''mcp:gh:read'']) ''issue'' b), b)) L \<and>
    handleSearchTools (\<lambda>s. s) rev demo_view demo_view (Some [''mcp:gh:read'']) ''issue'' 0 =
      Some \<lparr>st_tools = map (report demo_view (visibleTools demo_view (Some [''mcp:gh:read''])))
          (take (nat (search_limit 0)) L),
        st_total = length L, st_truncated = (nat (search_limit 0) < length L)\<rparr>"
  by (rule search_tools_correct) simp

text \<open>
  A reload that drops the upstream between the two resolutions makes the search dereference nil.
\<close>

lemma search_may_panic:
  "handleSearchTools (\<lambda>s. s) (\<lambda>ns. ns) demo_view (demo_view\<lparr>gv_upstreams := []\<rparr>) None [] 0 = None"
proof -
  have "visibleTools demo_view None = fr_payload (gv_registry demo_view)"
    by (simp add: visibleTools_def demo_view_def resolveToolOwner_def upstreamByName_def demo_upstream_def)
  moreover have "searchScore (\<lambda>s. s) (str_fields (to_lower (\<lambda>s. s) [])) n d = Some 1" for n d
    by (simp add: searchScore_def str_fields_def to_lower_def is_ascii_def)
  ultimately show ?thesis
    by (simp add: handleSearchTools_def demo_view_def search_match_def resolveToolOwner_def upstreamByName_def)
qed

text \<open>The gateway without one of its tools.\<close>

definition forget_tool :: "string \<Rightarrow> gw_view \<Rightarrow> gw_view" where
  "forget_tool n g = g\<lparr>gv_registry := (gv_registry g)
     \<lparr>fr_owner := AList.delete n (fr_owner (gv_registry g)),
      fr_payload := AList.delete n (fr_payload (gv_registry g))\<rparr>\<rparr>"

lemma resolve_forget: "k \<noteq> n \<Longrightarrow> resolveToolOwner (forget_tool n g) None k = resolveToolOwner g None k"
  by (auto simp: resolveToolOwner_def forget_tool_def split: option.split)

lemma visible_forget:
  assumes "\<not> token_allows g None granted n"
  shows "visibleTools (forget_tool n g) (Some granted) = visibleTools g (Some granted)"
proof -
  define P where "P g = (\<lambda>(name, t :: tool). token_allows g None granted name)" for g
  have vis: "visibleTools g (Some granted) = filter (P g) (AList.clearjunk (fr_payload (gv_registry g)))" for g
    unfolding visibleTools_def P_def token_allows_def by (rule filter_cong) (auto split: option.splits prod.splits)
  have "P (forget_tool n g) kv = P g kv" if "fst kv \<noteq> n" for kv
    using that by (cases kv) (simp add: P_def token_allows_def resolve_forget)
  moreover have "\<not> P g (n, t)" for t using assms by (simp add: P_def)
  ultimately have "filter (P (forget_tool n g)) (AList.delete n m) = filter (P g) m" for m
    by (induction m) auto
  then show ?thesis unfolding vis by (simp add: forget_tool_def clearjunk_delete)
qed

lemma report_forget:
  assumes "\<not> token_allows g None granted n"
    and "map_of (visibleTools g (Some granted)) k \<noteq> None"
  shows "search_match (forget_tool n g) k t = search_match g k t"
proof -
  have "k \<noteq> n" using assms visibleTools_scoped [of g granted k] by auto
  then show ?thesis by (simp add: search_match_def resolve_forget)
qed

lemma search_collect_forget:
  assumes "\<not> token_allows g None granted n"
    and "set names \<subseteq> dom (map_of (visibleTools g (Some granted)))"
  shows "search_collect uni (forget_tool n g) terms (visibleTools g (Some granted)) names =
    search_collect uni g terms (visibleTools g (Some granted)) names"
  using assms(2) report_forget [OF assms(1)]
  by (induction names) (auto simp: Let_def split: option.splits)

text \<open>
  The catalog does not confirm the existence of a tool the token does not reach: searching and
  describing answer exactly as a gateway without that tool would, whatever is asked.
\<close>

theorem catalog_hides_forbidden:
  assumes "range_order rng" and "\<not> token_allows g None granted n"
  shows "handleSearchTools uni rng g g (Some granted) query limit =
      handleSearchTools uni rng (forget_tool n g) (forget_tool n g) (Some granted) query limit \<and>
    handleDescribeTools marshal g (Some granted) names =
      handleDescribeTools marshal (forget_tool n g) (Some granted) names"
proof -
  have "set (rng (map fst (visibleTools g (Some granted)))) \<subseteq> dom (map_of (visibleTools g (Some granted)))"
    using assms(1) by (simp add: keys_dom [symmetric])
  from search_collect_forget [OF assms(2) this]
  show ?thesis
    by (simp add: handleSearchTools_def handleDescribeTools_def visible_forget [OF assms(2)] Let_def)
qed

lemma demo_close_forbidden: "\<not> token_allows demo_view None [''mcp:gh:read''] ''gh_close''"
proof -
  have "\<not> glob_ok ''get_*'' ''close''" by code_simp
  then show ?thesis
    by (simp add: token_allows_def resolveToolOwner_def demo_view_def upstreamByName_def demo_upstream_def
        demo_tools_def scopeAllowsTool_iff trim_prefix_def has_prefix_def)
qed

theorem catalog_hides_forbidden_witness:
  "handleSearchTools (\<lambda>s. s) rev demo_view demo_view (Some [''mcp:gh:read'']) [] 5 =
      handleSearchTools (\<lambda>s. s) rev (forget_tool ''gh_close'' demo_view) (forget_tool ''gh_close'' demo_view)
        (Some [''mcp:gh:read'']) [] 5 \<and>
    handleDescribeTools (\<lambda>_. Inr ''{}'' :: unit + string) demo_view (Some [''mcp:gh:read'']) [''gh_close''] =
      handleDescribeTools (\<lambda>_. Inr ''{}'') (forget_tool ''gh_close'' demo_view) (Some [''mcp:gh:read''])
        [''gh_close'']"
  by (rule catalog_hides_forbidden) (simp_all add: demo_close_forbidden)

lemma describe_loop_eq:
  "describe_loop vis names ts missing =
     (ts @ map (\<lambda>n. the (map_of vis n)) (filter (\<lambda>n. map_of vis n \<noteq> None) names),
      missing @ filter (\<lambda>n. map_of vis n = None) names)"
  by (induction vis names ts missing rule: describe_loop.induct) (auto split: option.splits)

text \<open>
  Hiding is only hiding: the lazy filter drops from a listing exactly the tools whose search report
  is marked hidden, a hidden tool is still described with its full definition, and calling it is not
  filtered at all.
\<close>

theorem lazy_hidden_still_reachable:
  assumes "rq_method req = ''tools/list''" and "next req s = ((Some (ListTools ts), None), s')"
    and "map_of (visibleTools (gv s') token) (tl_name t) = Some t" and "t \<in> set ts"
    and "rq_method call = ''tools/call''"
  shows "\<exists>ts'. lazyMiddleware gv next req s = ((Some (ListTools ts'), None), s') \<and>
    (tm_hidden (report (gv s') (visibleTools (gv s') token) (tl_name t)) \<longleftrightarrow> t \<notin> set ts') \<and>
    handleDescribeTools marshal (gv s') token [tl_name t] =
      map_sum MarshalFailed (\<lambda>text. [TextContent text]) (marshal ([t], [])) \<and>
    lazyMiddleware gv next' call s'' = next' call s''"
proof -
  obtain u where u: "fst (resolveToolOwner (gv s') None (tl_name t)) = Some u"
    using visibleTools_resolved [OF assms(3)] by auto
  have "tm_hidden (report (gv s') (visibleTools (gv s') token) (tl_name t)) \<longleftrightarrow> tc_is_lazy (up_tools u)"
    by (simp add: report_def assms(3) search_match_def u)
  moreover have "handleDescribeTools marshal (gv s') token [tl_name t] =
      map_sum MarshalFailed (\<lambda>text. [TextContent text]) (marshal ([t], []))"
    by (simp add: handleDescribeTools_def describe_loop_eq assms(3) split: sum.splits)
  ultimately show ?thesis
    using assms u by (simp add: lazyMiddleware_def filter_list_def)
qed

theorem lazy_hidden_still_reachable_witness:
  "\<exists>ts'. lazyMiddleware (\<lambda>_. demo_view) (\<lambda>req s. ((Some (ListTools [demo_tool ''gh_close'']), None :: unit mcp_err option), s))
      \<lparr>rq_method = ''tools/list'', rq_call = None, rq_token = None\<rparr> () = ((Some (ListTools ts'), None), ()) \<and>
    (tm_hidden (report demo_view (visibleTools demo_view None) (tl_name (demo_tool ''gh_close''))) \<longleftrightarrow>
       demo_tool ''gh_close'' \<notin> set ts') \<and>
    handleDescribeTools (\<lambda>_. Inr ''{}'' :: unit + string) demo_view None [tl_name (demo_tool ''gh_close'')] =
      map_sum MarshalFailed (\<lambda>text. [TextContent text]) ((\<lambda>_. Inr ''{}'') ([demo_tool ''gh_close''], [])) \<and>
    lazyMiddleware (\<lambda>_. demo_view) demo_next (demo_req ''gh_close'') () = demo_next (demo_req ''gh_close'') ()"
proof (rule lazy_hidden_still_reachable)
  show "map_of (visibleTools demo_view None) (tl_name (demo_tool ''gh_close'')) = Some (demo_tool ''gh_close'')"
    unfolding visibleTools_def map_of_filter_clearjunk
    by (simp add: demo_view_def resolveToolOwner_def upstreamByName_def demo_upstream_def demo_tool_def)
  show "demo_tool ''gh_close'' \<in> set [demo_tool ''gh_close'']" by (rule list.set_intros)
qed (simp_all add: demo_req_def)

end
