(* ===== verification/Gw_Path.thy ===== *)
theory Gw_Path
  imports Gw_Strings
begin

text \<open>
  Slash-separated paths: \<open>path.Clean\<close> and \<open>fs.ValidPath\<close> of Go, on the elements between the slashes.
\<close>

subsection \<open>strings.Split at a slash\<close>

fun split_slash :: "string \<Rightarrow> string list" where
  "split_slash [] = [[]]"
| "split_slash (c # cs) =
     (if c = CHR ''/'' then [] # split_slash cs
      else (c # hd (split_slash cs)) # tl (split_slash cs))"

definition join_slash :: "string list \<Rightarrow> string" where
  "join_slash = str_join ''/''"

lemma split_slash_nonempty [simp]: "split_slash s \<noteq> []"
  by (cases s) auto

lemma split_slash_append: "split_slash (a @ CHR ''/'' # b) = split_slash a @ split_slash b"
proof (induction a)
  case (Cons c a)
  have "hd (split_slash a @ ys) = hd (split_slash a)" "tl (split_slash a @ ys) = tl (split_slash a) @ ys" for ys
    by (simp_all add: hd_append tl_append2)
  with Cons show ?case by auto
qed simp

lemma split_slash_plain: "CHR ''/'' \<notin> set s \<Longrightarrow> split_slash s = [s]"
  by (induction s) auto

lemma split_slash_elems: "e \<in> set (split_slash s) \<Longrightarrow> CHR ''/'' \<notin> set e"
proof (induction s arbitrary: e)
  case (Cons c s)
  have "hd (split_slash s) \<in> set (split_slash s)" "set (tl (split_slash s)) \<subseteq> set (split_slash s)"
    by (simp_all add: list.set_sel(2) subsetI)
  with Cons show ?case by (auto split: if_splits)
qed simp

lemma join_slash_simps [simp]:
  "join_slash [] = []" "join_slash [x] = x" "ys \<noteq> [] \<Longrightarrow> join_slash (x # ys) = x @ CHR ''/'' # join_slash ys"
  by (simp_all add: join_slash_def) (cases ys; simp)

lemma split_join_slash:
  "es \<noteq> [] \<Longrightarrow> \<forall>e\<in>set es. CHR ''/'' \<notin> set e \<Longrightarrow> split_slash (join_slash es) = es"
proof (induction es)
  case (Cons e es)
  then show ?case by (cases "es = []") (simp_all add: split_slash_append split_slash_plain)
qed simp

subsection \<open>path.Clean\<close>

text \<open>The elements kept so far are in reverse order.\<close>

fun clean_elems :: "bool \<Rightarrow> string list \<Rightarrow> string list \<Rightarrow> string list" where
  "clean_elems rooted out [] = rev out"
| "clean_elems rooted out (e # es) =
     (if e = [] \<or> e = ''.'' then clean_elems rooted out es
      else if e = ''..'' then
        (if out \<noteq> [] \<and> hd out \<noteq> ''..'' then clean_elems rooted (tl out) es
         else if rooted then clean_elems rooted out es
         else clean_elems rooted (e # out) es)
      else clean_elems rooted (e # out) es)"

definition path_clean :: "string \<Rightarrow> string" where
  "path_clean p =
     (if p = [] then ''.''
      else
        (let rooted = hd p = CHR ''/''; es = clean_elems rooted [] (split_slash p) in
         if rooted then CHR ''/'' # join_slash es
         else if es = [] then ''.'' else join_slash es))"

subsection \<open>fs.ValidPath\<close>

definition plain_elem :: "string \<Rightarrow> bool" where
  "plain_elem e \<longleftrightarrow> e \<noteq> [] \<and> e \<noteq> ''.'' \<and> e \<noteq> ''..''"

definition valid_path :: "string \<Rightarrow> bool" where
  "valid_path p \<longleftrightarrow> p = ''.'' \<or> list_all plain_elem (split_slash p)"

subsection \<open>A cleaned absolute path stays below the root\<close>

text \<open>What holds of the elements kept so far and of every element that may be kept holds of the result.\<close>

lemma clean_elems_all:
  assumes "\<forall>e\<in>set out. Q e"
    and "\<forall>e\<in>set es. e \<noteq> [] \<and> e \<noteq> ''.'' \<and> (e = ''..'' \<longrightarrow> \<not> rooted) \<longrightarrow> Q e"
  shows "\<forall>e\<in>set (clean_elems rooted out es). Q e"
  using assms
proof (induction es arbitrary: out)
  case (Cons e es)
  have rest: "\<forall>e\<in>set es. e \<noteq> [] \<and> e \<noteq> ''.'' \<and> (e = ''..'' \<longrightarrow> \<not> rooted) \<longrightarrow> Q e"
    using Cons.prems(2) by simp
  have tl: "out \<noteq> [] \<Longrightarrow> \<forall>e\<in>set (tl out). Q e"
    using Cons.prems(1) list.set_sel(2) by metis
  have keep: "\<forall>x\<in>set (e # out). Q x" if "e \<noteq> []" "e \<noteq> ''.''" "e = ''..'' \<longrightarrow> \<not> rooted"
    using that Cons.prems by simp
  show ?case
    using Cons.IH [OF Cons.prems(1) rest] Cons.IH [OF tl rest] Cons.IH [OF keep rest]
    by (simp del: set_simps)
qed simp

lemma clean_elems_no_slash:
  "e \<in> set (clean_elems rooted [] (split_slash p)) \<Longrightarrow> CHR ''/'' \<notin> set e"
  using clean_elems_all [of "[]" "\<lambda>e. CHR ''/'' \<notin> set e" "split_slash p" rooted] split_slash_elems by auto

lemma clean_elems_rooted:
  "e \<in> set (clean_elems True [] es) \<Longrightarrow> plain_elem e"
  using clean_elems_all [of "[]" plain_elem es True] by (simp add: plain_elem_def)

lemma clean_elems_nonempty:
  "e \<in> set (clean_elems rooted [] es) \<Longrightarrow> e \<noteq> []"
  using clean_elems_all [of "[]" "\<lambda>e. e \<noteq> []" es rooted] by simp

lemma join_slash_hd:
  assumes "es \<noteq> []" and "hd es \<noteq> []"
  shows "join_slash es \<noteq> [] \<and> hd (join_slash es) = hd (hd es)"
  using assms by (cases es; cases "tl es = []") auto

lemma path_clean_abs_iff: "p \<noteq> [] \<Longrightarrow> hd (path_clean p) = CHR ''/'' \<longleftrightarrow> hd p = CHR ''/''"
proof -
  assume p: "p \<noteq> []"
  define es where "es = clean_elems False [] (split_slash p)"
  have "hd (join_slash es) \<noteq> CHR ''/''" if "es \<noteq> []"
  proof -
    have "hd es \<noteq> []" "CHR ''/'' \<notin> set (hd es)"
      using that clean_elems_nonempty clean_elems_no_slash unfolding es_def by (meson hd_in_set)+
    then show ?thesis using join_slash_hd [OF that] by (metis hd_in_set)
  qed
  then show ?thesis using p by (simp add: path_clean_def Let_def es_def)
qed

text \<open>Below the root of a cleaned absolute path, no element is empty, a dot or two dots.\<close>

lemma clean_absolute:
  assumes "path_clean p = CHR ''/'' # r"
  shows "r = [] \<or> list_all plain_elem (split_slash r)"
proof -
  have "p \<noteq> []" using assms by (auto simp: path_clean_def)
  then have p: "p \<noteq> []" "hd p = CHR ''/''" using assms path_clean_abs_iff [of p] by simp_all
  define es where "es = clean_elems True [] (split_slash p)"
  have "r = join_slash es" using assms p by (simp add: path_clean_def es_def Let_def)
  moreover have "\<forall>e\<in>set es. plain_elem e \<and> CHR ''/'' \<notin> set e"
    using clean_elems_rooted clean_elems_no_slash unfolding es_def by blast
  ultimately show ?thesis by (cases "es = []") (simp_all add: split_join_slash list_all_iff)
qed

end
