(* ===== verification/Gw_Blob.thy ===== *)
theory Gw_Blob
  imports Gw_Config Gw_Path
begin

text \<open>
  The \<open>blob_share\<close> tool of the gateway, \<open>internal/gateway/blob.go\<close>: the table of mounts built from the
  configuration, the match of a reported path against it, and the answer.

  The store is an argument: \<open>attach dir rel name\<close> is \<open>Attach\<close> on the file system \<open>blob.Dir(dir)\<close>. The
  path separator is the slash, so \<open>filepath.ToSlash\<close> is the identity. \<open>fmt\<close> is the RFC 3339 format of a
  time.
\<close>

record blob_mount =
  bm_name :: string
  bm_prefix :: string
  bm_dir :: string

definition new_blob_mount :: "blob_mount_config \<Rightarrow> blob_mount" where
  "new_blob_mount c = \<lparr>bm_name = mt_name c, bm_prefix = trim_suffix (mount_prefix c) ''/'', bm_dir = mt_dir c\<rparr>"

text \<open>\<open>sort.SliceStable\<close>, longest prefix first.\<close>

definition newBlobMounts :: "blob_mount_config list \<Rightarrow> blob_mount list" where
  "newBlobMounts cfgs = sort_key (\<lambda>m. - int (length (bm_prefix m))) (map new_blob_mount cfgs)"

fun match_mounts :: "blob_mount list \<Rightarrow> string \<Rightarrow> (blob_mount \<times> string) option" where
  "match_mounts [] p = None"
| "match_mounts (m # ms) p =
     (if p = bm_prefix m then match_mounts ms p
      else
        (case cut_prefix p (bm_prefix m @ ''/'') of
           Some rel \<Rightarrow> Some (m, rel)
         | None \<Rightarrow> match_mounts ms p))"

definition matchBlobMount :: "blob_mount list \<Rightarrow> string \<Rightarrow> (blob_mount \<times> string) option" where
  "matchBlobMount mounts p = match_mounts mounts (path_clean p)"

definition describeMounts :: "blob_mount list \<Rightarrow> string" where
  "describeMounts mounts =
     (if mounts = [] then ''none are configured''
      else str_join '', '' (sort (map (\<lambda>m. bm_name m @ '' at '' @ bm_prefix m) mounts)))"

definition blobInstructions :: string where
  "blobInstructions = ''When a tool returns a path on the server'' @ [CHR 0x27] @ ''s filesystem, that path is not '' @
     ''reachable from where you run: call blob_share with it to get a temporary URL you can fetch.''"

definition withBlobInstructions :: "string \<Rightarrow> string" where
  "withBlobInstructions instructions =
     (if instructions = [] then blobInstructions
      else instructions @ [CHR 0x0A, CHR 0x0A] @ blobInstructions)"

definition blobShareDescription :: "blob_mount list \<Rightarrow> string" where
  "blobShareDescription mounts =
     (let desc = ''Turn a host path another tool reported into a temporary URL you can fetch with curl. '' @
        ''Use it when a tool writes a file and returns its path: the path is on the server'' @ [CHR 0x27] @
        ''s filesystem, which you may not share, while the URL works from anywhere you can reach this gateway. ''
      in if mounts = [] then
           desc @ ''No shared directories are configured, so no path can be served right now.''
         else desc @ ''Only paths inside these shared directories can be served: '' @ describeMounts mounts @ ''.'')"

record 't blob_info =
  bi_id :: string
  bi_url :: string
  bi_name :: string
  bi_mime :: string
  bi_size :: int
  bi_expires :: 't

record blob_share_output =
  bs_blob :: string
  bs_url :: string
  bs_mount :: string
  bs_name :: string
  bs_size :: int
  bs_expires_at :: string

record resource_link =
  rl_uri :: string
  rl_name :: string
  rl_mime :: string
  rl_size :: int

datatype 'e share_error =
    PathRequired
  | NoBlobStore
  | NotInMounts string string
  | ShareFailed string string 'e

definition handleBlobShare ::
  "('t \<Rightarrow> string) \<Rightarrow> (string \<Rightarrow> string \<Rightarrow> string \<Rightarrow> 'e + 't blob_info) option \<Rightarrow> blob_mount list
     \<Rightarrow> string \<Rightarrow> string \<Rightarrow> 'e share_error + resource_link \<times> blob_share_output" where
  "handleBlobShare fmt store mounts path name =
     (if path = [] then Inl PathRequired
      else
        (case store of
           None \<Rightarrow> Inl NoBlobStore
         | Some attach \<Rightarrow>
             (case matchBlobMount mounts path of
                None \<Rightarrow> Inl (NotInMounts path (describeMounts mounts))
              | Some (m, rel) \<Rightarrow>
                  (case attach (bm_dir m) rel name of
                     Inl e \<Rightarrow> Inl (ShareFailed path (bm_name m) e)
                   | Inr b \<Rightarrow> Inr
                       (\<lparr>rl_uri = bi_url b, rl_name = bi_name b, rl_mime = bi_mime b, rl_size = bi_size b\<rparr>,
                        \<lparr>bs_blob = bi_id b, bs_url = bi_url b, bs_mount = bm_name m, bs_name = bi_name b,
                         bs_size = bi_size b, bs_expires_at = fmt (bi_expires b)\<rparr>)))))"

subsection \<open>Which mount answers\<close>

definition mount_holds :: "blob_mount \<Rightarrow> string \<Rightarrow> bool" where
  "mount_holds m p \<longleftrightarrow> p \<noteq> bm_prefix m \<and> has_prefix p (bm_prefix m @ ''/'')"

lemma match_mounts_find:
  "match_mounts ms p =
     map_option (\<lambda>m. (m, drop (Suc (length (bm_prefix m))) p)) (find (\<lambda>m. mount_holds m p) ms)"
  by (induction ms) (auto simp: mount_holds_def cut_prefix_def)

lemma find_sorted_longest:
  assumes "sorted (map f ms)" and "find P ms = Some m" and "m' \<in> set ms" and "P m'"
  shows "f m \<le> f m'"
  using assms
proof (induction ms)
  case (Cons a ms)
  then show ?case by (cases "P a") auto
qed simp

lemma newBlobMounts_set: "set (newBlobMounts cfgs) = new_blob_mount ` set cfgs"
  by (simp add: newBlobMounts_def)

lemma newBlobMounts_longest:
  assumes "find P (newBlobMounts cfgs) = Some m" and "m' \<in> set (newBlobMounts cfgs)" and "P m'"
  shows "length (bm_prefix m') \<le> length (bm_prefix m)"
proof -
  have "sorted (map (\<lambda>m. - int (length (bm_prefix m))) (newBlobMounts cfgs))"
    by (simp add: newBlobMounts_def)
  from find_sorted_longest [OF this assms] show ?thesis by simp
qed

lemma find_in_set: "find P xs = Some x \<Longrightarrow> x \<in> set xs \<and> P x"
  by (auto simp: find_Some_iff in_set_conv_nth)

lemma matchBlobMount_iff:
  "matchBlobMount ms p = Some (m, rel) \<longleftrightarrow>
     find (\<lambda>m. mount_holds m (path_clean p)) ms = Some m \<and> rel = drop (Suc (length (bm_prefix m))) (path_clean p)"
  by (auto simp: matchBlobMount_def match_mounts_find)

lemma mount_holds_split:
  "mount_holds m p \<Longrightarrow> p = bm_prefix m @ CHR ''/'' # drop (Suc (length (bm_prefix m))) p"
  unfolding mount_holds_def has_prefix_def
  by (metis append_take_drop_id append.assoc append_Cons append_Nil length_append_singleton)

lemma trim_suffix_slash:
  "has_prefix s ''/'' \<Longrightarrow> trim_suffix s ''/'' = [] \<or> hd (trim_suffix s ''/'') = CHR ''/''"
  by (cases s; cases "tl s = []") (auto simp: has_prefix_def trim_suffix_def hd_append take_Cons' split: if_splits)

lemma validate_mounts_ok:
  "validate_mounts i seen ms = Inr () \<Longrightarrow> \<forall>m\<in>set ms. path_is_abs (mt_dir m) \<and> has_prefix (mount_prefix m) ''/''"
  by (induction i seen ms rule: validate_mounts.induct)
    (auto simp: path_is_abs_def mount_prefix_def split: if_splits)

lemma blob_validate_mounts:
  "blob_validate pd c = Inr () \<Longrightarrow> \<forall>m\<in>set (bl_mounts c). path_is_abs (mt_dir m) \<and> has_prefix (mount_prefix m) ''/''"
  unfolding blob_validate_def
  by (auto simp: ok_simps dest!: validate_mounts_ok split: if_splits)

text \<open>The part of a cleaned path below an absolute prefix has only plain elements.\<close>

lemma below_prefix_plain:
  assumes "path_clean p = pre @ CHR ''/'' # rel" and "pre = [] \<or> hd pre = CHR ''/''"
    and "pre @ CHR ''/'' # rel \<noteq> ''/''"
  shows "list_all plain_elem (split_slash rel)"
proof (cases pre)
  case Nil
  with assms clean_absolute [of p rel] show ?thesis by auto
next
  case (Cons c pre')
  with assms(2) have "pre = CHR ''/'' # pre'" by simp
  then have "path_clean p = CHR ''/'' # (pre' @ CHR ''/'' # rel)" using assms(1) by simp
  from clean_absolute [OF this] show ?thesis by (simp add: split_slash_append)
qed

lemma match_rel_valid:
  assumes "matchBlobMount ms p = Some (m, rel)"
    and "bm_prefix m = [] \<or> hd (bm_prefix m) = CHR ''/''"
  shows "path_clean p = bm_prefix m @ CHR ''/'' # rel \<and>
    (path_clean p = ''/'' \<or> list_all plain_elem (split_slash rel))"
proof -
  have "mount_holds m (path_clean p)"
    using assms(1) find_in_set unfolding matchBlobMount_iff by fastforce
  from mount_holds_split [OF this] have *: "path_clean p = bm_prefix m @ CHR ''/'' # rel"
    using assms(1) unfolding matchBlobMount_iff by simp
  show ?thesis using below_prefix_plain [OF * assms(2)] * by auto
qed

subsection \<open>A prefix that is not clean\<close>

text \<open>
  One trailing slash of a prefix is dropped and nothing else is cleaned, so a mount whose prefix has an
  empty element, which the configuration accepts, holds no path at all.
\<close>

lemma unclean_prefix_holds_nothing:
  assumes "split_slash (bm_prefix m) = e # es" and "e = []" and "[] \<in> set es"
  shows "\<not> mount_holds m (path_clean p)"
proof
  assume "mount_holds m (path_clean p)"
  from mount_holds_split [OF this] obtain rel where *: "path_clean p = bm_prefix m @ CHR ''/'' # rel" by blast
  have "hd (bm_prefix m) = CHR ''/'' \<and> bm_prefix m \<noteq> []"
    using assms by (cases "bm_prefix m") (auto split: if_splits)
  then obtain q where q: "bm_prefix m = CHR ''/'' # q" by (cases "bm_prefix m") auto
  then have "path_clean p = CHR ''/'' # (q @ CHR ''/'' # rel)" using * by simp
  from clean_absolute [OF this] have "list_all plain_elem (split_slash q)"
    by (simp add: split_slash_append)
  moreover have "es = split_slash q" using assms(1) q by simp
  ultimately show False using assms(3) by (auto simp: list_all_iff plain_elem_def)
qed

lemma double_slash_mount:
  "\<not> mount_holds (new_blob_mount \<lparr>mt_name = ''data'', mt_dir = ''/data//'', mt_prefix = []\<rparr>) (path_clean p)"
  by (rule unclean_prefix_holds_nothing [of _ "[]" "[''data'', []]"])
    (simp_all add: new_blob_mount_def mount_prefix_def trim_suffix_def)

subsection \<open>Properties\<close>

text \<open>
  C39. With an accepted configuration, whatever path a caller reports, the store is only asked for a file
  below the directory of a configured mount, by a relative path without empty, dot or dot-dot elements;
  the one exception is the root directory itself, asked of a mount at the root.
\<close>

theorem blob_share_confined:
  assumes "blob_validate pd c = Inr ()"
    and "handleBlobShare fmt (Some attach) (newBlobMounts (bl_mounts c)) path name = Inr (link, out)"
  shows "\<exists>mc rel b. mc \<in> set (bl_mounts c) \<and> path_is_abs (mt_dir mc) \<and>
    attach (mt_dir mc) rel name = Inr b \<and> bs_mount out = mt_name mc \<and> bs_url out = bi_url b \<and>
    path_clean path = trim_suffix (mount_prefix mc) ''/'' @ ''/'' @ rel \<and>
    (path_clean path = ''/'' \<or> list_all plain_elem (split_slash rel))"
proof -
  obtain m rel b where m: "matchBlobMount (newBlobMounts (bl_mounts c)) path = Some (m, rel)"
      "attach (bm_dir m) rel name = Inr b" "bs_mount out = bm_name m" "bs_url out = bi_url b"
    using assms(2) by (auto simp: handleBlobShare_def split: if_splits option.splits sum.splits)
  have "m \<in> set (newBlobMounts (bl_mounts c))"
    using m(1) find_in_set unfolding matchBlobMount_iff by fastforce
  then obtain mc where mc: "mc \<in> set (bl_mounts c)" "m = new_blob_mount mc"
    by (auto simp: newBlobMounts_set)
  have abs: "path_is_abs (mt_dir mc)" "has_prefix (mount_prefix mc) ''/''"
    using blob_validate_mounts [OF assms(1)] mc(1) by auto
  have "bm_prefix m = [] \<or> hd (bm_prefix m) = CHR ''/''"
    using trim_suffix_slash [OF abs(2)] by (simp add: mc(2) new_blob_mount_def)
  from match_rel_valid [OF m(1) this]
  have "path_clean path = trim_suffix (mount_prefix mc) ''/'' @ ''/'' @ rel"
    "path_clean path = ''/'' \<or> list_all plain_elem (split_slash rel)"
    by (auto simp: mc(2) new_blob_mount_def)
  moreover have "attach (mt_dir mc) rel name = Inr b" "bs_mount out = mt_name mc"
    using m(2,3) by (simp_all add: mc(2) new_blob_mount_def)
  ultimately show ?thesis using mc(1) abs(1) m(4) by blast
qed

definition demo_blob :: blob_config where
  "demo_blob = \<lparr>bl_addr = '':8080'', bl_base_url = [], bl_dir = [], bl_ttl = [],
     bl_s3 = \<lparr>s3_endpoint = [], s3_bucket = [], s3_prefix = [], s3_region = []\<rparr>,
     bl_mounts = [\<lparr>mt_name = ''out'', mt_dir = ''/var/out'', mt_prefix = []\<rparr>]\<rparr>"

definition demo_attach :: "string \<Rightarrow> string \<Rightarrow> string \<Rightarrow> unit + unit blob_info" where
  "demo_attach dir rel name =
     Inr \<lparr>bi_id = ''1'', bi_url = ''http://b/1'', bi_name = rel, bi_mime = [], bi_size = 0, bi_expires = ()\<rparr>"

theorem blob_share_confined_witness:
  "\<exists>mc rel b. mc \<in> set (bl_mounts demo_blob) \<and> path_is_abs (mt_dir mc) \<and>
    demo_attach (mt_dir mc) rel [] = Inr b \<and>
    bs_mount \<lparr>bs_blob = ''1'', bs_url = ''http://b/1'', bs_mount = ''out'', bs_name = ''a.png'', bs_size = 0,
      bs_expires_at = []\<rparr> = mt_name mc \<and>
    bs_url \<lparr>bs_blob = ''1'', bs_url = ''http://b/1'', bs_mount = ''out'', bs_name = ''a.png'', bs_size = 0,
      bs_expires_at = []\<rparr> = bi_url b \<and>
    path_clean ''/var/x/../out/a.png'' = trim_suffix (mount_prefix mc) ''/'' @ ''/'' @ rel \<and>
    (path_clean ''/var/x/../out/a.png'' = ''/'' \<or> list_all plain_elem (split_slash rel))"
proof (rule blob_share_confined)
  show "blob_validate (\<lambda>_. None) demo_blob = Inr ()"
    by (simp add: demo_blob_def blob_validate_def blob_enabled_def parseOptionalDuration_def validateBackend_def
        s3_enabled_def path_is_abs_def has_prefix_def)
  show "handleBlobShare (\<lambda>_. []) (Some demo_attach) (newBlobMounts (bl_mounts demo_blob)) ''/var/x/../out/a.png'' [] =
      Inr (\<lparr>rl_uri = ''http://b/1'', rl_name = ''a.png'', rl_mime = [], rl_size = 0\<rparr>,
        \<lparr>bs_blob = ''1'', bs_url = ''http://b/1'', bs_mount = ''out'', bs_name = ''a.png'', bs_size = 0,
         bs_expires_at = []\<rparr>)"
    by (simp add: handleBlobShare_def newBlobMounts_def demo_blob_def new_blob_mount_def mount_prefix_def
        matchBlobMount_def path_clean_def trim_suffix_def cut_prefix_def has_prefix_def demo_attach_def Let_def)
qed

text \<open>
  The most specific mount answers: a path is matched exactly when some configured mount holds it, and
  then by one whose prefix is longest among those that hold it.
\<close>

theorem blob_match_longest:
  "case matchBlobMount (newBlobMounts cfgs) p of
     None \<Rightarrow> \<not> (\<exists>mc\<in>set cfgs. mount_holds (new_blob_mount mc) (path_clean p))
   | Some (m, rel) \<Rightarrow> m \<in> new_blob_mount ` set cfgs \<and> path_clean p = bm_prefix m @ ''/'' @ rel \<and>
       \<not> (\<exists>mc\<in>set cfgs. mount_holds (new_blob_mount mc) (path_clean p) \<and>
             length (bm_prefix m) < length (bm_prefix (new_blob_mount mc)))"
proof (cases "matchBlobMount (newBlobMounts cfgs) p")
  case None
  then have "find (\<lambda>m. mount_holds m (path_clean p)) (newBlobMounts cfgs) = None"
    by (simp add: matchBlobMount_def match_mounts_find)
  then show ?thesis using None by (simp add: find_None_iff newBlobMounts_set)
next
  case (Some mr)
  then obtain m rel where mr: "mr = (m, rel)" "find (\<lambda>m. mount_holds m (path_clean p)) (newBlobMounts cfgs) = Some m"
      "rel = drop (Suc (length (bm_prefix m))) (path_clean p)"
    by (cases mr) (simp add: matchBlobMount_iff)
  have in_set: "m \<in> set (newBlobMounts cfgs)" "mount_holds m (path_clean p)"
    using find_in_set [OF mr(2)] by simp_all
  have "\<not> length (bm_prefix m) < length (bm_prefix (new_blob_mount mc))"
    if "mc \<in> set cfgs" "mount_holds (new_blob_mount mc) (path_clean p)" for mc
    using newBlobMounts_longest [OF mr(2), of "new_blob_mount mc"] that by (simp add: newBlobMounts_set)
  then show ?thesis
    using Some mr in_set mount_holds_split [OF in_set(2)] by (auto simp: newBlobMounts_set)
qed

end
