(* ===== verification/Gw_Upstream.thy ===== *)
theory Gw_Upstream
  imports Gw_Registry "HOL-Library.Multiset"
begin

text \<open>
  One upstream, \<open>internal/gateway/upstream.go\<close> and \<open>drain.go\<close>: its options, the claims calls take on
  its session, and the life of the session from connecting to closing.

  The first part gives the code's critical sections as functions on \<open>up_state\<close>, the fields guarded by
  the mutex. The second part runs them in the goroutines of the code as a step relation. A session,
  a transport cleanup and a channel are numbers. Durations are nanoseconds.
\<close>

subsection \<open>Options\<close>

record up_options =
  op_connect_timeout :: int
  op_keepalive :: int
  op_reconnect_initial :: int
  op_reconnect_max :: int
  op_drain_timeout :: int
  op_call_timeout :: int
  op_redactor :: "redactor option"

definition second :: int where
  "second = 1000000000"

definition defaultDrainTimeout :: int where
  "defaultDrainTimeout = 5 * second"

definition defaultConnectTimeout :: int where
  "defaultConnectTimeout = 10 * second"

definition dflt :: "int \<Rightarrow> int \<Rightarrow> int" where
  "dflt d x = (if x = 0 then d else x)"

definition options_setDefaults :: "up_options \<Rightarrow> up_options" where
  "options_setDefaults o' = o'
     \<lparr>op_connect_timeout := dflt (10 * second) (op_connect_timeout o'),
      op_keepalive := dflt (30 * second) (op_keepalive o'),
      op_reconnect_initial := dflt second (op_reconnect_initial o'),
      op_reconnect_max := dflt (30 * second) (op_reconnect_max o'),
      op_drain_timeout := dflt defaultDrainTimeout (op_drain_timeout o')\<rparr>"

definition applyReconnectConfig ::
  "(string \<Rightarrow> int option) \<Rightarrow> reconnect_config \<Rightarrow> up_options \<Rightarrow> reconnect_error + up_options" where
  "applyReconnectConfig pd cfg o' =
     (case (if rc_keepalive cfg = [] then Some (op_keepalive o') else pd (rc_keepalive cfg)) of
        None \<Rightarrow> Inl KeepAliveBad
      | Some k \<Rightarrow>
          (case (if rc_initial cfg = [] then Some (op_reconnect_initial o') else pd (rc_initial cfg)) of
             None \<Rightarrow> Inl InitialBackoffBad
           | Some i \<Rightarrow>
               (case (if rc_max cfg = [] then Some (op_reconnect_max o') else pd (rc_max cfg)) of
                  None \<Rightarrow> Inl MaxBackoffBad
                | Some m \<Rightarrow> Inr (o'\<lparr>op_keepalive := k, op_reconnect_initial := i, op_reconnect_max := m\<rparr>))))"

text \<open>The immutable part of an \<open>Upstream\<close>.\<close>

record upstream =
  us_cfg :: upstream_config
  us_connect_timeout :: int
  us_keepalive :: int
  us_reconnect_initial :: int
  us_reconnect_max :: int
  us_drain_timeout :: int
  us_call_timeout :: int
  us_redactor :: "redactor option"

definition NewUpstream :: "upstream_config \<Rightarrow> up_options \<Rightarrow> upstream" where
  "NewUpstream cfg opts =
     (let o' = options_setDefaults opts in
      \<lparr>us_cfg = cfg, us_connect_timeout = op_connect_timeout o', us_keepalive = max (op_keepalive o') 0,
       us_reconnect_initial = op_reconnect_initial o', us_reconnect_max = op_reconnect_max o',
       us_drain_timeout = op_drain_timeout o', us_call_timeout = op_call_timeout o',
       us_redactor = op_redactor o'\<rparr>)"

definition hasRoute :: "upstream \<Rightarrow> bool" where
  "hasRoute u \<longleftrightarrow> ro_host (up_route (us_cfg u)) \<noteq> [] \<or> ro_path (up_route (us_cfg u)) \<noteq> []"

text \<open>The bounds on a request: \<open>None\<close> is no bound.\<close>

definition withCallTimeout :: "upstream \<Rightarrow> int option" where
  "withCallTimeout u = (if us_call_timeout u \<le> 0 then None else Some (us_call_timeout u))"

definition withListTimeout :: "upstream \<Rightarrow> int option" where
  "withListTimeout u =
     (if us_call_timeout u > 0 then Some (us_call_timeout u)
      else Some (if us_connect_timeout u \<le> 0 then defaultConnectTimeout else us_connect_timeout u))"

subsection \<open>Critical sections\<close>

record up_state =
  us_session :: "nat option"
  us_cleanup :: "nat option"
  us_closed :: bool
  us_inflight :: int
  us_drained :: "nat option"
  us_supervised :: bool
  us_chans :: nat
  us_closed_chans :: "nat set"

definition new_up_state :: up_state where
  "new_up_state = \<lparr>us_session = None, us_cleanup = None, us_closed = False, us_inflight = 0, us_drained = None,
     us_supervised = False, us_chans = 0, us_closed_chans = {}\<rparr>"

datatype 'e up_error = UpstreamClosed | NotConnected | RequestErr 'e

definition enter :: "up_state \<Rightarrow> ('e up_error + nat) \<times> up_state" where
  "enter s =
     (if us_closed s then (Inl UpstreamClosed, s)
      else
        (case us_session s of
           None \<Rightarrow> (Inl NotConnected, s)
         | Some x \<Rightarrow> (Inr x, s\<lparr>us_inflight := us_inflight s + 1\<rparr>)))"

definition leave :: "up_state \<Rightarrow> up_state" where
  "leave s =
     (let s1 = s\<lparr>us_inflight := us_inflight s - 1\<rparr> in
      case us_drained s1 of
        Some ch \<Rightarrow>
          (if us_inflight s1 = 0
           then s1\<lparr>us_closed_chans := insert ch (us_closed_chans s1), us_drained := None\<rparr> else s1)
      | None \<Rightarrow> s1)"

text \<open>\<open>drain\<close> up to its wait: \<open>None\<close> when it returns at once, else the channel it waits on.\<close>

definition drain :: "int \<Rightarrow> up_state \<Rightarrow> nat option \<times> up_state" where
  "drain timeout s =
     (if timeout < 0 then (None, s)
      else if us_inflight s = 0 then (None, s)
      else
        (case us_drained s of
           Some ch \<Rightarrow> (Some ch, s)
         | None \<Rightarrow> (Some (us_chans s), s\<lparr>us_drained := Some (us_chans s), us_chans := us_chans s + 1\<rparr>)))"

text \<open>The checks of \<open>connectOnce\<close> before it dials: \<open>Inr True\<close> when it is already connected.\<close>

definition connect_check :: "up_state \<Rightarrow> 'e up_error + bool" where
  "connect_check s = (if us_closed s then Inl UpstreamClosed else Inr (us_session s \<noteq> None))"

text \<open>Its end: the session is installed unless the upstream was closed meanwhile.\<close>

definition connect_install :: "nat \<Rightarrow> nat option \<Rightarrow> up_state \<Rightarrow> ('e up_error + unit) \<times> up_state" where
  "connect_install x cl s =
     (if us_closed s then (Inl UpstreamClosed, s)
      else (Inr (), s\<lparr>us_cleanup := cl, us_session := Some x\<rparr>))"

definition startSupervisor :: "int \<Rightarrow> up_state \<Rightarrow> bool \<times> up_state" where
  "startSupervisor reconnect_initial s =
     (if us_closed s \<or> us_supervised s \<or> reconnect_initial < 0 then (False, s)
      else (True, s\<lparr>us_supervised := True\<rparr>))"

text \<open>The fields \<open>closeSessionResources\<close> takes.\<close>

definition take_resources :: "up_state \<Rightarrow> (nat option \<times> nat option) \<times> up_state" where
  "take_resources s = ((us_session s, us_cleanup s), s\<lparr>us_session := None, us_cleanup := None\<rparr>)"

text \<open>The start of \<open>Close\<close>: whether this call is the one that closes.\<close>

definition close_begin :: "up_state \<Rightarrow> bool \<times> up_state" where
  "close_begin s = (if us_closed s then (False, s) else (True, s\<lparr>us_closed := True\<rparr>))"

subsection \<open>Requests\<close>

text \<open>
  A request claims the session, runs on it within the bound, and releases it whatever the outcome.
  The session's methods are arguments; \<open>run\<close> may let other goroutines change the state.
\<close>

definition with_session ::
  "(nat \<Rightarrow> up_state \<Rightarrow> ('e + 'a) \<times> up_state) \<Rightarrow> up_state \<Rightarrow> ('e up_error + 'a) \<times> up_state" where
  "with_session run s =
     (case enter s of
        (Inl e, s1) \<Rightarrow> (Inl e, s1)
      | (Inr sess, s1) \<Rightarrow>
          (let (res, s2) = run sess s1 in (map_sum RequestErr id res, leave s2)))"

fun collectSeq :: "('e + 'a) list \<Rightarrow> 'e + 'a list" where
  "collectSeq [] = Inr []"
| "collectSeq (Inl e # xs) = Inl e"
| "collectSeq (Inr x # xs) = map_sum id ((#) x) (collectSeq xs)"

definition CallTool ::
  "upstream \<Rightarrow> (nat \<Rightarrow> int option \<Rightarrow> 'p \<Rightarrow> up_state \<Rightarrow> ('e + 'r) \<times> up_state) \<Rightarrow> 'p \<Rightarrow> up_state
     \<Rightarrow> ('e up_error + 'r) \<times> up_state" where
  "CallTool u call params s = with_session (\<lambda>sess. call sess (withCallTimeout u) params) s"

definition GetPrompt ::
  "upstream \<Rightarrow> (nat \<Rightarrow> int option \<Rightarrow> 'p \<Rightarrow> up_state \<Rightarrow> ('e + 'r) \<times> up_state) \<Rightarrow> 'p \<Rightarrow> up_state
     \<Rightarrow> ('e up_error + 'r) \<times> up_state" where
  "GetPrompt u get params s = with_session (\<lambda>sess. get sess (withCallTimeout u) params) s"

definition ReadResource ::
  "upstream \<Rightarrow> (nat \<Rightarrow> int option \<Rightarrow> 'p \<Rightarrow> up_state \<Rightarrow> ('e + 'r) \<times> up_state) \<Rightarrow> 'p \<Rightarrow> up_state
     \<Rightarrow> ('e up_error + 'r) \<times> up_state" where
  "ReadResource u rd params s = with_session (\<lambda>sess. rd sess (withCallTimeout u) params) s"

definition ListTools ::
  "upstream \<Rightarrow> (nat \<Rightarrow> int option \<Rightarrow> up_state \<Rightarrow> ('e + 'a) list \<times> up_state) \<Rightarrow> up_state
     \<Rightarrow> ('e up_error + 'a list) \<times> up_state" where
  "ListTools u seq s = with_session (\<lambda>sess s. map_prod collectSeq id (seq sess (withListTimeout u) s)) s"

text \<open>\<open>ListPrompts\<close>, \<open>ListResources\<close>, \<open>ListResourceTemplates\<close>: \<open>declares\<close> is the capability check.\<close>

definition list_declared ::
  "upstream \<Rightarrow> (nat \<Rightarrow> bool) \<Rightarrow> (nat \<Rightarrow> int option \<Rightarrow> up_state \<Rightarrow> ('e + 'a) list \<times> up_state) \<Rightarrow> up_state
     \<Rightarrow> ('e up_error + 'a list) \<times> up_state" where
  "list_declared u declares seq s =
     with_session (\<lambda>sess s. if \<not> declares sess then (Inr [], s)
       else map_prod collectSeq id (seq sess (withListTimeout u) s)) s"

subsection \<open>The goroutines\<close>

text \<open>
  The connector is whoever runs \<open>connectOnce\<close>: first the caller of \<open>Connect\<close>, then the supervisor it
  starts, never both. Its transport and session, once built, are its own until it installs them.
\<close>

datatype conn_pc =
    CIdle
  | CDial
  | CBuilt "nat option"
  | CDialed nat "nat option"
  | CRefused nat "nat option"
  | CFailed "nat option"
  | CStopped

text \<open>The goroutine in \<open>Close\<close>; the flag is what its drain reported.\<close>

datatype close_pc =
    KIdle
  | KClosing
  | KWait nat
  | KDrained bool
  | KCancelled bool
  | KTorn bool
  | KDone bool

text \<open>
  \<open>sy_calls\<close> are the sessions of the calls in flight, \<open>sy_tears\<close> the runs of \<open>closeSessionResources\<close> that
  have taken the fields and not closed the session yet, \<open>sy_cleans\<close> the cleanups they have left to run.
  \<open>sy_sessions\<close> and \<open>sy_transports\<close> are the sessions not closed yet and the transports not cleaned up
  yet. \<open>sy_cancel\<close>: the supervisor's context is done, \<open>sy_parent\<close>: because its parent was cancelled.
\<close>

record up_sys =
  sy_up :: up_state
  sy_calls :: "nat multiset"
  sy_conn :: conn_pc
  sy_tears :: "(nat option \<times> nat option) multiset"
  sy_cleans :: "nat multiset"
  sy_closer :: close_pc
  sy_cancel :: bool
  sy_parent :: bool
  sy_sessions :: "nat set"
  sy_transports :: "nat set"
  sy_fresh :: nat

definition init_sys :: up_sys where
  "init_sys = \<lparr>sy_up = new_up_state, sy_calls = {#}, sy_conn = CIdle, sy_tears = {#}, sy_cleans = {#},
     sy_closer = KIdle, sy_cancel = False, sy_parent = False, sy_sessions = {}, sy_transports = {}, sy_fresh = 0\<rparr>"

inductive up_step :: "int \<Rightarrow> up_sys \<Rightarrow> up_sys \<Rightarrow> bool" for timeout :: int where
  st_enter: "enter (sy_up y) = (Inr x :: unit up_error + nat, s') \<Longrightarrow>
    up_step timeout y (y\<lparr>sy_up := s', sy_calls := add_mset x (sy_calls y)\<rparr>)"
| st_leave: "x \<in># sy_calls y \<Longrightarrow>
    up_step timeout y (y\<lparr>sy_up := leave (sy_up y), sy_calls := sy_calls y - {#x#}\<rparr>)"
| st_check: "sy_conn y = CIdle \<Longrightarrow> connect_check (sy_up y) = (Inr False :: unit up_error + bool) \<Longrightarrow>
    up_step timeout y (y\<lparr>sy_conn := CDial\<rparr>)"
| st_build_fail: "sy_conn y = CDial \<Longrightarrow> up_step timeout y (y\<lparr>sy_conn := CIdle\<rparr>)"
| st_built: "sy_conn y = CDial \<Longrightarrow> cl \<in> {None, Some (sy_fresh y)} \<Longrightarrow>
    up_step timeout y (y\<lparr>sy_conn := CBuilt cl, sy_transports := sy_transports y \<union> set_option cl,
      sy_fresh := sy_fresh y + 1\<rparr>)"
| st_connect_fail: "sy_conn y = CBuilt cl \<Longrightarrow> up_step timeout y (y\<lparr>sy_conn := CFailed cl\<rparr>)"
| st_connected: "sy_conn y = CBuilt cl \<Longrightarrow>
    up_step timeout y (y\<lparr>sy_conn := CDialed (sy_fresh y) cl, sy_sessions := insert (sy_fresh y) (sy_sessions y),
      sy_fresh := sy_fresh y + 1\<rparr>)"
| st_install: "sy_conn y = CDialed x cl \<Longrightarrow> connect_install x cl (sy_up y) = (Inr () :: unit up_error + unit, s') \<Longrightarrow>
    up_step timeout y (y\<lparr>sy_up := s', sy_conn := CIdle\<rparr>)"
| st_refuse: "sy_conn y = CDialed x cl \<Longrightarrow> connect_install x cl (sy_up y) = (Inl e :: unit up_error + unit, s') \<Longrightarrow>
    up_step timeout y (y\<lparr>sy_conn := CRefused x cl\<rparr>)"
| st_refuse_close: "sy_conn y = CRefused x cl \<Longrightarrow>
    up_step timeout y (y\<lparr>sy_conn := CFailed cl, sy_sessions := sy_sessions y - {x}\<rparr>)"
| st_failed: "sy_conn y = CFailed cl \<Longrightarrow>
    up_step timeout y (y\<lparr>sy_conn := CIdle, sy_transports := sy_transports y - set_option cl\<rparr>)"
| st_supervise: "sy_conn y = CIdle \<Longrightarrow> startSupervisor initial (sy_up y) = (True, s') \<Longrightarrow>
    up_step timeout y (y\<lparr>sy_up := s'\<rparr>)"
| st_parent_cancel: "up_step timeout y (y\<lparr>sy_cancel := True, sy_parent := True\<rparr>)"
| st_supervisor_stop: "sy_conn y = CIdle \<Longrightarrow> us_supervised (sy_up y) \<Longrightarrow> sy_cancel y \<Longrightarrow>
    up_step timeout y (y\<lparr>sy_conn := CStopped, sy_sessions := sy_sessions y - set_option watched\<rparr>)"
| st_take: "take_resources (sy_up y) = (r, s') \<Longrightarrow>
    up_step timeout y (y\<lparr>sy_up := s', sy_tears := add_mset r (sy_tears y)\<rparr>)"
| st_tear: "(ses, cl) \<in># sy_tears y \<Longrightarrow>
    up_step timeout y (y\<lparr>sy_tears := sy_tears y - {#(ses, cl)#}, sy_sessions := sy_sessions y - set_option ses,
      sy_cleans := sy_cleans y + mset_set (set_option cl)\<rparr>)"
| st_clean: "c \<in># sy_cleans y \<Longrightarrow>
    up_step timeout y (y\<lparr>sy_cleans := sy_cleans y - {#c#}, sy_transports := sy_transports y - {c}\<rparr>)"
| st_close: "sy_closer y = KIdle \<Longrightarrow> close_begin (sy_up y) = (True, s') \<Longrightarrow>
    up_step timeout y (y\<lparr>sy_up := s', sy_closer := KClosing\<rparr>)"
| st_drain_now: "sy_closer y = KClosing \<Longrightarrow> drain timeout (sy_up y) = (None, s') \<Longrightarrow>
    up_step timeout y (y\<lparr>sy_up := s', sy_closer := KDrained True\<rparr>)"
| st_drain_wait: "sy_closer y = KClosing \<Longrightarrow> drain timeout (sy_up y) = (Some ch, s') \<Longrightarrow>
    up_step timeout y (y\<lparr>sy_up := s', sy_closer := KWait ch\<rparr>)"
| st_woken: "sy_closer y = KWait ch \<Longrightarrow> ch \<in> us_closed_chans (sy_up y) \<Longrightarrow>
    up_step timeout y (y\<lparr>sy_closer := KDrained True\<rparr>)"
| st_timeout: "sy_closer y = KWait ch \<Longrightarrow> up_step timeout y (y\<lparr>sy_closer := KDrained False\<rparr>)"
| st_cancel: "sy_closer y = KDrained ok \<Longrightarrow>
    up_step timeout y (y\<lparr>sy_closer := KCancelled ok, sy_cancel := (sy_cancel y \<or> us_supervised (sy_up y))\<rparr>)"
| st_close_take: "sy_closer y = KCancelled ok \<Longrightarrow> take_resources (sy_up y) = (r, s') \<Longrightarrow>
    up_step timeout y (y\<lparr>sy_up := s', sy_tears := add_mset r (sy_tears y), sy_closer := KTorn ok\<rparr>)"
| st_close_done: "sy_closer y = KTorn ok \<Longrightarrow> up_step timeout y (y\<lparr>sy_closer := KDone ok\<rparr>)"

inductive up_reach :: "int \<Rightarrow> up_sys \<Rightarrow> bool" for timeout :: int where
  reach_init: "up_reach timeout init_sys"
| reach_step: "up_reach timeout y \<Longrightarrow> up_step timeout y y' \<Longrightarrow> up_reach timeout y'"

subsection \<open>Invariants\<close>

text \<open>What each critical section does, as rewrite rules.\<close>

named_theorems section_simps

lemma enter_Inr [section_simps]:
  "enter s = (Inr x, s') \<longleftrightarrow>
     \<not> us_closed s \<and> us_session s = Some x \<and> s' = s\<lparr>us_inflight := us_inflight s + 1\<rparr>"
  by (auto simp: enter_def split: option.splits)

lemma connect_check_Inr [section_simps]:
  "connect_check s = Inr False \<longleftrightarrow> \<not> us_closed s \<and> us_session s = None"
  by (simp add: connect_check_def)

lemma connect_install_eq [section_simps]:
  "connect_install x cl s = (Inr (), s') \<longleftrightarrow> \<not> us_closed s \<and> s' = s\<lparr>us_cleanup := cl, us_session := Some x\<rparr>"
  "connect_install x cl s = (Inl e, s') \<longleftrightarrow> us_closed s \<and> e = UpstreamClosed \<and> s' = s"
  by (auto simp: connect_install_def)

lemma startSupervisor_True [section_simps]:
  "startSupervisor i s = (True, s') \<longleftrightarrow>
     \<not> us_closed s \<and> \<not> us_supervised s \<and> 0 \<le> i \<and> s' = s\<lparr>us_supervised := True\<rparr>"
  by (auto simp: startSupervisor_def)

lemma take_resources_eq [section_simps]:
  "take_resources s = (r, s') \<longleftrightarrow>
     r = (us_session s, us_cleanup s) \<and> s' = s\<lparr>us_session := None, us_cleanup := None\<rparr>"
  by (auto simp: take_resources_def)

lemma close_begin_True [section_simps]:
  "close_begin s = (True, s') \<longleftrightarrow> \<not> us_closed s \<and> s' = s\<lparr>us_closed := True\<rparr>"
  by (auto simp: close_begin_def)

lemma drain_None [section_simps]:
  "drain t s = (None, s') \<longleftrightarrow> (t < 0 \<or> us_inflight s = 0) \<and> s' = s"
  by (auto simp: drain_def split: option.splits)

lemma drain_Some [section_simps]:
  "drain t s = (Some ch, s') \<longleftrightarrow> 0 \<le> t \<and> us_inflight s \<noteq> 0 \<and>
     (us_drained s = Some ch \<and> s' = s \<or>
      us_drained s = None \<and> ch = us_chans s \<and> s' = s\<lparr>us_drained := Some ch, us_chans := ch + 1\<rparr>)"
  by (auto simp: drain_def split: option.splits)

lemma leave_fields [section_simps]:
  "us_session (leave s) = us_session s" "us_cleanup (leave s) = us_cleanup s" "us_closed (leave s) = us_closed s"
  "us_inflight (leave s) = us_inflight s - 1" "us_supervised (leave s) = us_supervised s"
  "us_chans (leave s) = us_chans s"
  "us_drained (leave s) = (if us_inflight s = 1 then None else us_drained s)"
  "us_closed_chans (leave s) =
     (if us_inflight s = 1 then set_option (us_drained s) \<union> us_closed_chans s else us_closed_chans s)"
  by (cases "us_drained s"; auto simp: leave_def Let_def)+

text \<open>Every call in flight is counted, and a channel a drain waits on is open while one is.\<close>

definition inv_calls :: "up_sys \<Rightarrow> bool" where
  "inv_calls y \<longleftrightarrow> us_inflight (sy_up y) = int (size (sy_calls y)) \<and>
     (\<forall>ch. us_drained (sy_up y) = Some ch \<longrightarrow>
        us_inflight (sy_up y) > 0 \<and> ch < us_chans (sy_up y) \<and> ch \<notin> us_closed_chans (sy_up y)) \<and>
     (\<forall>ch\<in>us_closed_chans (sy_up y). ch < us_chans (sy_up y))"

text \<open>The state of the goroutine in \<open>Close\<close>.\<close>

fun closer_ok :: "int \<Rightarrow> close_pc \<Rightarrow> up_state \<Rightarrow> bool" where
  "closer_ok t KIdle s = (\<not> us_closed s)"
| "closer_ok t KClosing s = us_closed s"
| "closer_ok t (KWait ch) s =
     (us_closed s \<and> (us_drained s = Some ch \<or> ch \<in> us_closed_chans s \<and> us_inflight s = 0))"
| "closer_ok t (KDrained ok) s = (us_closed s \<and> (ok \<and> 0 \<le> t \<longrightarrow> us_inflight s = 0))"
| "closer_ok t (KCancelled ok) s = (us_closed s \<and> (ok \<and> 0 \<le> t \<longrightarrow> us_inflight s = 0))"
| "closer_ok t (KTorn ok) s =
     (us_closed s \<and> us_session s = None \<and> us_cleanup s = None \<and> (ok \<and> 0 \<le> t \<longrightarrow> us_inflight s = 0))"
| "closer_ok t (KDone ok) s =
     (us_closed s \<and> us_session s = None \<and> us_cleanup s = None \<and> (ok \<and> 0 \<le> t \<longrightarrow> us_inflight s = 0))"

text \<open>Whoever holds a session or a transport that is not closed yet.\<close>

fun conn_session :: "conn_pc \<Rightarrow> nat set" where
  "conn_session (CDialed x cl) = {x}"
| "conn_session (CRefused x cl) = {x}"
| "conn_session c = {}"

fun conn_cleanup :: "conn_pc \<Rightarrow> nat set" where
  "conn_cleanup (CBuilt cl) = set_option cl"
| "conn_cleanup (CDialed x cl) = set_option cl"
| "conn_cleanup (CRefused x cl) = set_option cl"
| "conn_cleanup (CFailed cl) = set_option cl"
| "conn_cleanup c = {}"

definition held_sessions :: "up_sys \<Rightarrow> nat set" where
  "held_sessions y = set_option (us_session (sy_up y)) \<union> conn_session (sy_conn y) \<union>
     (\<Union>r\<in>set_mset (sy_tears y). set_option (fst r))"

definition held_transports :: "up_sys \<Rightarrow> nat set" where
  "held_transports y = set_option (us_cleanup (sy_up y)) \<union> conn_cleanup (sy_conn y) \<union>
     (\<Union>r\<in>set_mset (sy_tears y). set_option (snd r)) \<union> set_mset (sy_cleans y)"

fun dialing :: "conn_pc \<Rightarrow> bool" where
  "dialing CDial = True"
| "dialing (CBuilt cl) = True"
| "dialing (CDialed x cl) = True"
| "dialing c = False"

definition inv_fields :: "up_sys \<Rightarrow> bool" where
  "inv_fields y \<longleftrightarrow> (us_session (sy_up y) = None \<longrightarrow> us_cleanup (sy_up y) = None) \<and>
     (dialing (sy_conn y) \<longrightarrow> us_session (sy_up y) = None)"

definition inv_held :: "up_sys \<Rightarrow> bool" where
  "inv_held y \<longleftrightarrow> sy_sessions y \<subseteq> held_sessions y \<and> sy_transports y \<subseteq> held_transports y"

lemma inv_calls_step: "up_step t y y' \<Longrightarrow> inv_calls y \<Longrightarrow> inv_calls y'"
  by (induction rule: up_step.induct)
    (auto simp: inv_calls_def section_simps nonempty_has_size less_Suc_eq dest!: multi_member_split split: if_splits)

lemma closer_ok_step:
  "up_step t y y' \<Longrightarrow> inv_calls y \<Longrightarrow> closer_ok t (sy_closer y) (sy_up y) \<Longrightarrow> closer_ok t (sy_closer y') (sy_up y')"
proof (induction rule: up_step.induct)
  case (st_leave x y)
  then have "us_inflight (sy_up y) \<noteq> 0" by (auto simp: inv_calls_def dest!: multi_member_split)
  with st_leave show ?case by (cases "sy_closer y") (auto simp: section_simps inv_calls_def)
next
  case (st_enter y x s')
  then show ?case by (cases "sy_closer y") (auto simp: section_simps)
next
  case (st_install y x cl s')
  then show ?case by (cases "sy_closer y") (auto simp: section_simps)
next
  case (st_supervise y i s')
  then show ?case by (cases "sy_closer y") (auto simp: section_simps)
next
  case (st_take y r s')
  then show ?case by (cases "sy_closer y") (auto simp: section_simps)
qed (auto simp: section_simps inv_calls_def)

lemma inv_fields_step: "up_step t y y' \<Longrightarrow> inv_fields y \<Longrightarrow> inv_fields y'"
  by (induction rule: up_step.induct) (auto simp: inv_fields_def section_simps)

lemma inv_held_step:
  assumes "up_step t y y'" and "inv_fields y" and "inv_held y"
  shows "inv_held y'"
  using assms
proof (induction rule: up_step.induct)
  case (st_install y x cl s')
  then show ?case
    by (auto simp: inv_held_def inv_fields_def held_sessions_def held_transports_def section_simps)
next
  case (st_tear ses cl y)
  then obtain M where "sy_tears y = add_mset (ses, cl) M" by (auto dest!: multi_member_split)
  with st_tear show ?case
    by (cases cl) (auto simp: inv_held_def held_sessions_def held_transports_def)
next
  case (st_clean c y)
  then obtain M where "sy_cleans y = add_mset c M" by (auto dest!: multi_member_split)
  with st_clean show ?case by (auto simp: inv_held_def held_sessions_def held_transports_def)
qed (auto simp: inv_held_def held_sessions_def held_transports_def section_simps)

lemma reach_inv:
  "up_reach t y \<Longrightarrow> inv_calls y \<and> closer_ok t (sy_closer y) (sy_up y) \<and> inv_fields y \<and> inv_held y"
proof (induction rule: up_reach.induct)
  case reach_init
  then show ?case
    by (simp add: inv_calls_def inv_fields_def inv_held_def init_sys_def new_up_state_def held_sessions_def held_transports_def)
next
  case (reach_step y y')
  then show ?case using inv_calls_step closer_ok_step inv_fields_step inv_held_step by blast
qed

subsection \<open>A run\<close>

text \<open>An upstream that is connected, supervised, and has one call in flight on its session.\<close>

definition busy_up :: up_state where
  "busy_up = \<lparr>us_session = Some 1, us_cleanup = Some 0, us_closed = False, us_inflight = 1, us_drained = None,
     us_supervised = True, us_chans = 0, us_closed_chans = {}\<rparr>"

definition busy_sys :: up_sys where
  "busy_sys = \<lparr>sy_up = busy_up, sy_calls = {#1#}, sy_conn = CIdle, sy_tears = {#}, sy_cleans = {#},
     sy_closer = KIdle, sy_cancel = False, sy_parent = False, sy_sessions = {1}, sy_transports = {0}, sy_fresh = 2\<rparr>"

lemma busy_reachable: "up_reach t busy_sys"
proof -
  have "up_reach t (init_sys\<lparr>sy_conn := CDial\<rparr>)"
    by (rule reach_step [OF reach_init st_check]) (simp_all add: init_sys_def new_up_state_def section_simps)
  then have "up_reach t (init_sys\<lparr>sy_conn := CBuilt (Some 0), sy_transports := {0}, sy_fresh := 1\<rparr>)"
    by (rule reach_step) (use st_built [of "init_sys\<lparr>sy_conn := CDial\<rparr>" "Some 0" t] in \<open>simp add: init_sys_def\<close>)
  then have "up_reach t (init_sys\<lparr>sy_conn := CDialed 1 (Some 0), sy_sessions := {1}, sy_transports := {0}, sy_fresh := 2\<rparr>)"
    by (rule reach_step)
      (use st_connected [of "init_sys\<lparr>sy_conn := CBuilt (Some 0), sy_transports := {0}, sy_fresh := 1\<rparr>" "Some 0" t]
        in \<open>simp add: init_sys_def numeral_2_eq_2\<close>)
  then have "up_reach t (init_sys\<lparr>sy_up := new_up_state\<lparr>us_session := Some 1, us_cleanup := Some 0\<rparr>,
      sy_sessions := {1}, sy_transports := {0}, sy_fresh := 2\<rparr>)"
    by (rule reach_step)
      (use st_install [of "init_sys\<lparr>sy_conn := CDialed 1 (Some 0), sy_sessions := {1}, sy_transports := {0}, sy_fresh := 2\<rparr>"
          1 "Some 0" "new_up_state\<lparr>us_session := Some 1, us_cleanup := Some 0\<rparr>" t]
        in \<open>simp add: init_sys_def new_up_state_def section_simps\<close>)
  then have "up_reach t (init_sys\<lparr>sy_up := new_up_state\<lparr>us_session := Some 1, us_cleanup := Some 0, us_supervised := True\<rparr>,
      sy_sessions := {1}, sy_transports := {0}, sy_fresh := 2\<rparr>)"
    by (rule reach_step)
      (use st_supervise [of "init_sys\<lparr>sy_up := new_up_state\<lparr>us_session := Some 1, us_cleanup := Some 0\<rparr>,
            sy_sessions := {1}, sy_transports := {0}, sy_fresh := 2\<rparr>" second
          "new_up_state\<lparr>us_session := Some 1, us_cleanup := Some 0, us_supervised := True\<rparr>" t]
        in \<open>simp add: init_sys_def new_up_state_def section_simps second_def\<close>)
  then show ?thesis
    by (rule reach_step)
      (use st_enter [of "init_sys\<lparr>sy_up := new_up_state\<lparr>us_session := Some 1, us_cleanup := Some 0, us_supervised := True\<rparr>,
            sy_sessions := {1}, sy_transports := {0}, sy_fresh := 2\<rparr>" 1 busy_up t]
        in \<open>simp add: init_sys_def new_up_state_def section_simps busy_sys_def busy_up_def\<close>)
qed

text \<open>Closing it: the drain waits on a channel, the call leaves, the drain is woken, all is torn down.\<close>

definition waiting_sys :: up_sys where
  "waiting_sys = busy_sys\<lparr>sy_up := busy_up\<lparr>us_closed := True, us_drained := Some 0, us_chans := 1\<rparr>, sy_closer := KWait 0\<rparr>"

definition left_sys :: up_sys where
  "left_sys = busy_sys\<lparr>sy_up := busy_up\<lparr>us_closed := True, us_inflight := 0, us_chans := 1, us_closed_chans := {0}\<rparr>,
     sy_calls := {#}, sy_closer := KWait 0\<rparr>"

lemma waiting_reachable: "0 \<le> t \<Longrightarrow> up_reach t waiting_sys"
proof -
  assume t: "0 \<le> t"
  have "up_reach t (busy_sys\<lparr>sy_up := busy_up\<lparr>us_closed := True\<rparr>, sy_closer := KClosing\<rparr>)"
    by (rule reach_step [OF busy_reachable st_close]) (simp_all add: busy_sys_def busy_up_def section_simps)
  then show ?thesis
    by (rule reach_step)
      (use st_drain_wait [of "busy_sys\<lparr>sy_up := busy_up\<lparr>us_closed := True\<rparr>, sy_closer := KClosing\<rparr>" t 0
          "busy_up\<lparr>us_closed := True, us_drained := Some 0, us_chans := 1\<rparr>"] t
        in \<open>simp add: waiting_sys_def busy_sys_def busy_up_def section_simps\<close>)
qed

lemma left_reachable: "0 \<le> t \<Longrightarrow> up_reach t left_sys"
  by (rule reach_step [OF waiting_reachable])
    (use st_leave [of 1 waiting_sys t] in
      \<open>simp_all add: left_sys_def waiting_sys_def busy_sys_def busy_up_def leave_def Let_def\<close>)

lemma drained_reachable: "0 \<le> t \<Longrightarrow> up_reach t (left_sys\<lparr>sy_closer := KDrained True\<rparr>)"
  by (rule reach_step [OF left_reachable st_woken])
    (simp_all add: left_sys_def busy_sys_def busy_up_def)

lemma done_reachable:
  assumes "0 \<le> t"
  shows "up_reach t (left_sys\<lparr>sy_up := (sy_up left_sys)\<lparr>us_session := None, us_cleanup := None\<rparr>,
    sy_conn := CStopped, sy_cancel := True, sy_closer := KDone True, sy_sessions := {}, sy_transports := {}\<rparr>)"
proof -
  have "up_reach t (left_sys\<lparr>sy_cancel := True, sy_closer := KCancelled True\<rparr>)"
    using reach_step [OF drained_reachable [OF assms] st_cancel]
    by (simp add: left_sys_def busy_sys_def busy_up_def)
  then have "up_reach t (left_sys\<lparr>sy_conn := CStopped, sy_cancel := True, sy_closer := KCancelled True\<rparr>)"
    using reach_step [OF _ st_supervisor_stop [of "left_sys\<lparr>sy_cancel := True, sy_closer := KCancelled True\<rparr>" t None]]
    by (simp add: left_sys_def busy_sys_def busy_up_def)
  then have "up_reach t (left_sys\<lparr>sy_up := (sy_up left_sys)\<lparr>us_session := None, us_cleanup := None\<rparr>,
      sy_tears := {#(Some 1, Some 0)#}, sy_conn := CStopped, sy_cancel := True, sy_closer := KTorn True\<rparr>)"
    using reach_step [OF _ st_close_take [of "left_sys\<lparr>sy_conn := CStopped, sy_cancel := True, sy_closer := KCancelled True\<rparr>"
        True "(Some 1, Some 0)" "(sy_up left_sys)\<lparr>us_session := None, us_cleanup := None\<rparr>" t]]
    by (simp add: left_sys_def busy_sys_def busy_up_def section_simps)
  then have "up_reach t (left_sys\<lparr>sy_up := (sy_up left_sys)\<lparr>us_session := None, us_cleanup := None\<rparr>,
      sy_cleans := {#0#}, sy_conn := CStopped, sy_cancel := True, sy_closer := KTorn True, sy_sessions := {}\<rparr>)"
    using reach_step [OF _ st_tear [of "Some 1" "Some 0" "left_sys\<lparr>sy_up := (sy_up left_sys)\<lparr>us_session := None, us_cleanup := None\<rparr>,
      sy_tears := {#(Some 1, Some 0)#}, sy_conn := CStopped, sy_cancel := True, sy_closer := KTorn True\<rparr>" t]]
    by (simp add: left_sys_def busy_sys_def busy_up_def)
  then have "up_reach t (left_sys\<lparr>sy_up := (sy_up left_sys)\<lparr>us_session := None, us_cleanup := None\<rparr>,
      sy_conn := CStopped, sy_cancel := True, sy_closer := KTorn True, sy_sessions := {}, sy_transports := {}\<rparr>)"
    using reach_step [OF _ st_clean [of 0 "left_sys\<lparr>sy_up := (sy_up left_sys)\<lparr>us_session := None, us_cleanup := None\<rparr>,
      sy_cleans := {#0#}, sy_conn := CStopped, sy_cancel := True, sy_closer := KTorn True, sy_sessions := {}\<rparr>" t]]
    by (simp add: left_sys_def busy_sys_def busy_up_def)
  from reach_step [OF this st_close_done] show ?thesis by (simp add: left_sys_def busy_sys_def busy_up_def)
qed

text \<open>
  The supervisor runs on a context derived from the one \<open>Connect\<close> was given. When that is cancelled, as
  the gateway's is on shutdown, the session is closed under the calls in flight before \<open>Close\<close> starts to
  drain them.
\<close>

lemma shutdown_closes_busy_session:
  "\<exists>y. up_reach t y \<and> sy_closer y = KIdle \<and> sy_calls y = {#1#} \<and> sy_sessions y = {}"
proof -
  have "up_reach t (busy_sys\<lparr>sy_cancel := True, sy_parent := True\<rparr>)"
    by (rule reach_step [OF busy_reachable st_parent_cancel])
  then have "up_reach t (busy_sys\<lparr>sy_cancel := True, sy_parent := True, sy_conn := CStopped, sy_sessions := {}\<rparr>)"
    using reach_step [OF _ st_supervisor_stop [of "busy_sys\<lparr>sy_cancel := True, sy_parent := True\<rparr>" t "Some 1"]]
    by (simp add: busy_sys_def busy_up_def)
  then show ?thesis by (intro exI conjI) (assumption, simp_all add: busy_sys_def)
qed

subsection \<open>Properties\<close>

text \<open>
  C36. The count of calls in flight is exact in every reachable state, and a closing upstream that waits
  for them misses no wake-up: once the last one has left, the channel it waits on is closed.
\<close>

theorem inflight_exact_no_lost_wakeup:
  assumes "up_reach t y"
  shows "us_inflight (sy_up y) = int (size (sy_calls y)) \<and>
    (sy_closer y = KWait ch \<and> sy_calls y = {#} \<longrightarrow> ch \<in> us_closed_chans (sy_up y))"
  using reach_inv [OF assms] by (auto simp: inv_calls_def)

theorem inflight_exact_no_lost_wakeup_witness:
  "us_inflight (sy_up left_sys) = int (size (sy_calls left_sys)) \<and>
    0 \<in> us_closed_chans (sy_up left_sys)"
  using inflight_exact_no_lost_wakeup [OF left_reachable [of 5], of 0]
  by (simp add: left_sys_def busy_sys_def)



text \<open>
  C22. A closed upstream leaks nothing: once \<open>Close\<close> is done, the connector rests and no teardown is under
  way, every session that was ever opened has been closed and every transport cleaned up, also when the
  close raced a reconnect.
\<close>

theorem close_leaks_nothing:
  assumes "up_reach t y" and "sy_closer y = KDone ok" and "sy_conn y \<in> {CIdle, CStopped}"
    and "sy_tears y = {#}" and "sy_cleans y = {#}"
  shows "sy_sessions y = {} \<and> sy_transports y = {}"
  using reach_inv [OF assms(1)] assms(2-5)
  by (auto simp: inv_held_def held_sessions_def held_transports_def)

theorem close_leaks_nothing_witness:
  "\<exists>y. up_reach 5 y \<and> sy_closer y = KDone True \<and> sy_sessions y = {} \<and> sy_transports y = {}"
proof -
  let ?y = "left_sys\<lparr>sy_up := (sy_up left_sys)\<lparr>us_session := None, us_cleanup := None\<rparr>,
    sy_conn := CStopped, sy_cancel := True, sy_closer := KDone True, sy_sessions := {}, sy_transports := {}\<rparr>"
  have "up_reach 5 ?y" by (rule done_reachable) simp
  moreover have "sy_sessions ?y = {} \<and> sy_transports ?y = {}"
    by (rule close_leaks_nothing [OF done_reachable [of 5]]) (simp_all add: left_sys_def busy_sys_def)
  ultimately show ?thesis by (intro exI [of _ ?y]) simp
qed

lemma close_from_drained:
  assumes "sy_closer y = KDrained ok"
  shows "\<exists>y'. (up_step t)\<^sup>*\<^sup>* y y' \<and> sy_closer y' = KDone ok \<and> sy_calls y' = sy_calls y"
proof -
  let ?y1 = "y\<lparr>sy_closer := KCancelled ok, sy_cancel := (sy_cancel y \<or> us_supervised (sy_up y))\<rparr>"
  obtain r s where take: "take_resources (sy_up ?y1) = (r, s)" by (cases "take_resources (sy_up ?y1)")
  let ?y2 = "?y1\<lparr>sy_up := s, sy_tears := add_mset r (sy_tears ?y1), sy_closer := KTorn ok\<rparr>"
  have "up_step t y ?y1" by (rule st_cancel [OF assms])
  moreover have "up_step t ?y1 ?y2" by (rule st_close_take [OF _ take]) simp
  moreover have "up_step t ?y2 (?y2\<lparr>sy_closer := KDone ok\<rparr>)" by (rule st_close_done) simp
  ultimately have "(up_step t)\<^sup>*\<^sup>* y (?y2\<lparr>sy_closer := KDone ok\<rparr>)"
    by (meson rtranclp.rtrancl_into_rtrancl rtranclp.rtrancl_refl)
  then show ?thesis by (intro exI [of _ "?y2\<lparr>sy_closer := KDone ok\<rparr>"]) simp
qed

text \<open>
  \<open>Close\<close> is not held hostage: from every state in which it has begun it can finish by its own steps,
  without a call having to end.
\<close>

theorem close_can_finish:
  assumes "sy_closer y \<noteq> KIdle"
  shows "\<exists>y' ok. (up_step t)\<^sup>*\<^sup>* y y' \<and> sy_closer y' = KDone ok \<and> sy_calls y' = sy_calls y"
proof -
  have wait: "\<exists>y' ok. (up_step t)\<^sup>*\<^sup>* z y' \<and> sy_closer y' = KDone ok \<and> sy_calls y' = sy_calls z"
    if "sy_closer z = KWait ch" for z ch
  proof -
    have step: "up_step t z (z\<lparr>sy_closer := KDrained False\<rparr>)" using that by (rule st_timeout)
    obtain y' where "(up_step t)\<^sup>*\<^sup>* (z\<lparr>sy_closer := KDrained False\<rparr>) y'" "sy_closer y' = KDone False" "sy_calls y' = sy_calls z"
      using close_from_drained [of "z\<lparr>sy_closer := KDrained False\<rparr>" False t] by auto
    with step show ?thesis by (meson converse_rtranclp_into_rtranclp)
  qed
  show ?thesis
  proof (cases "sy_closer y")
    case KClosing
    obtain res s where d: "drain t (sy_up y) = (res, s)" by (cases "drain t (sy_up y)")
    show ?thesis
    proof (cases res)
      case None
      have step: "up_step t y (y\<lparr>sy_up := s, sy_closer := KDrained True\<rparr>)"
        using KClosing d None by (simp add: st_drain_now)
      obtain y' where "(up_step t)\<^sup>*\<^sup>* (y\<lparr>sy_up := s, sy_closer := KDrained True\<rparr>) y'" "sy_closer y' = KDone True"
          "sy_calls y' = sy_calls y"
        using close_from_drained [of "y\<lparr>sy_up := s, sy_closer := KDrained True\<rparr>" True t] by auto
      with step show ?thesis by (meson converse_rtranclp_into_rtranclp)
    next
      case (Some ch)
      have step: "up_step t y (y\<lparr>sy_up := s, sy_closer := KWait ch\<rparr>)"
        using KClosing d Some by (simp add: st_drain_wait)
      obtain y' ok where "(up_step t)\<^sup>*\<^sup>* (y\<lparr>sy_up := s, sy_closer := KWait ch\<rparr>) y'" "sy_closer y' = KDone ok"
          "sy_calls y' = sy_calls y"
        using wait [of "y\<lparr>sy_up := s, sy_closer := KWait ch\<rparr>" ch] by auto
      with step show ?thesis by (meson converse_rtranclp_into_rtranclp)
    qed
  next
    case (KWait ch)
    then show ?thesis by (rule wait)
  next
    case (KDrained ok)
    then show ?thesis using close_from_drained by blast
  next
    case (KCancelled ok)
    obtain r s where take: "take_resources (sy_up y) = (r, s)" by (cases "take_resources (sy_up y)")
    have "up_step t y (y\<lparr>sy_up := s, sy_tears := add_mset r (sy_tears y), sy_closer := KTorn ok\<rparr>)" (is "up_step t y ?z")
      by (rule st_close_take [OF KCancelled take])
    moreover have "up_step t ?z (?z\<lparr>sy_closer := KDone ok\<rparr>)" by (rule st_close_done) simp
    ultimately have "(up_step t)\<^sup>*\<^sup>* y (?z\<lparr>sy_closer := KDone ok\<rparr>)"
      by (meson rtranclp.rtrancl_into_rtrancl rtranclp.rtrancl_refl)
    then show ?thesis by (intro exI) auto
  next
    case (KTorn ok)
    then have "up_step t y (y\<lparr>sy_closer := KDone ok\<rparr>)" by (rule st_close_done)
    then show ?thesis by (intro exI [of _ "y\<lparr>sy_closer := KDone ok\<rparr>"]) auto
  qed (use assms in auto)
qed

theorem close_can_finish_witness:
  "\<exists>y' ok. (up_step 5)\<^sup>*\<^sup>* waiting_sys y' \<and> sy_closer y' = KDone ok \<and> sy_calls y' = sy_calls waiting_sys"
  by (rule close_can_finish) (simp add: waiting_sys_def)

end
