(* ===== verification/Gw_Gateway.thy ===== *)
theory Gw_Gateway
  imports Gw_Upstream Gw_Scope Gw_Blob Gw_Router
begin

text \<open>
  The gateway itself, \<open>internal/gateway/gateway.go\<close>, and the parts of \<open>reload.go\<close> that attach and detach
  an upstream: its state, how it is built, what it does when an upstream changes its lists or comes
  back, and which server answers a request.

  An upstream object is a number, its identity, with its immutable part. What it answers is an argument
  \<open>ans\<close>: whether it connects, and its four listings, \<open>None\<close> for an error. The calls made on upstreams are
  kept in \<open>gw_calls\<close>. The orders of the ranges over the registry's maps are an argument \<open>rg\<close>. The SDK's
  server is the table of what it serves; the gateway's own tools are not in that table.
\<close>

subsection \<open>Servers\<close>

type_synonym 'p served = "string \<Rightarrow> ('p \<times> handler) option"

record mcp_server =
  ms_name :: string
  ms_instructions :: string
  ms_scope :: "upstream_config option"
  ms_tools :: "tool served"
  ms_prompts :: "prompt served"
  ms_resources :: "resource served"
  ms_templates :: "res_template served"

definition new_server :: "string \<Rightarrow> string \<Rightarrow> upstream_config option \<Rightarrow> mcp_server" where
  "new_server name instructions forUp = \<lparr>ms_name = name, ms_instructions = instructions, ms_scope = forUp,
     ms_tools = Map.empty, ms_prompts = Map.empty, ms_resources = Map.empty, ms_templates = Map.empty\<rparr>"

record routed_server =
  ro_upstream :: string
  ro_rhost :: string
  ro_rpath :: string
  ro_server :: mcp_server

record listing =
  li_tools :: "tool list"
  li_prompts :: "prompt list"
  li_resources :: "resource list"
  li_templates :: "res_template list"

record up_answer =
  an_connect :: bool
  an_tools :: "tool list option"
  an_prompts :: "prompt list option"
  an_resources :: "resource list option"
  an_templates :: "res_template list option"

datatype up_call = UConnect nat | UDrop nat | UClose nat

type_synonym up_instance = "nat \<times> upstream"

record gateway =
  gw_cfg :: config
  gw_resolver :: secret_resolver
  gw_upstreams :: "up_instance list"
  gw_server :: mcp_server
  gw_routes :: "routed_server list"
  gw_router :: "mcp_server router"
  gw_tools :: "tool registry"
  gw_prompts :: "prompt registry"
  gw_resources :: "resource registry"
  gw_templates :: "res_template registry"
  gw_discovery :: bool
  gw_built :: bool
  gw_blob_store :: bool
  gw_mounts :: "blob_mount list"
  gw_blob_desc :: "string option"
  gw_redactor :: "redactor option"
  gw_calls :: "up_call list"
  gw_next :: nat

abbreviation iname :: "up_instance \<Rightarrow> string" where
  "iname iu \<equiv> up_name (us_cfg (snd iu))"

definition upstream_by_name :: "gateway \<Rightarrow> string \<Rightarrow> up_instance option" where
  "upstream_by_name g name = find (\<lambda>iu. iname iu = name) (gw_upstreams g)"

definition gateway_view :: "gateway \<Rightarrow> gw_view" where
  "gateway_view g = \<lparr>gv_registry = gw_tools g, gv_upstreams = map (\<lambda>iu. us_cfg (snd iu)) (gw_upstreams g),
     gv_discovery = gw_discovery g, gv_blob = gw_blob_store g\<rparr>"

subsection \<open>Construction\<close>

datatype new_error =
    NewSecretErr secret_error
  | NewRedactErr string
  | NewDrainTimeout
  | NewCallTimeout string
  | NewUpRedact string string
  | NewReconnect string reconnect_error

text \<open>\<open>newUpstream\<close>: the options from the configuration, the redactor the upstream uses, its reconnect section.\<close>

definition newUpstream ::
  "(string \<Rightarrow> int option) \<Rightarrow> (string \<Rightarrow> (string \<Rightarrow> string) option) \<Rightarrow> upstream_config \<Rightarrow> config
     \<Rightarrow> redactor option \<Rightarrow> new_error + upstream" where
  "newUpstream pd compile uc cfg globalRedactor =
     (case parseOptionalDuration pd (sv_drain_timeout (cf_server cfg)) of
        None \<Rightarrow> Inl NewDrainTimeout
      | Some drainTimeout \<Rightarrow>
          (case parseOptionalDuration pd (up_call_timeout uc) of
             None \<Rightarrow> Inl (NewCallTimeout (up_name uc))
           | Some callTimeout \<Rightarrow>
               (case (case up_redact uc of
                        None \<Rightarrow> Inr globalRedactor
                      | Some rd \<Rightarrow>
                          (if rd_enabled rd then
                             map_sum (NewUpRedact (up_name uc)) Some
                               (NewRedactor compile (rd_patterns rd) (rd_min_entropy rd))
                           else Inr None)) of
                  Inl e \<Rightarrow> Inl e
                | Inr redactor \<Rightarrow>
                    (let uopts = \<lparr>op_connect_timeout = 0, op_keepalive = 0, op_reconnect_initial = 0,
                       op_reconnect_max = 0, op_drain_timeout = drainTimeout, op_call_timeout = callTimeout,
                       op_redactor = redactor\<rparr>
                     in case (case up_reconnect uc of
                                None \<Rightarrow> Inr uopts
                              | Some rc \<Rightarrow> map_sum (NewReconnect (up_name uc)) id (applyReconnectConfig pd rc uopts)) of
                          Inl e \<Rightarrow> Inl e
                        | Inr o' \<Rightarrow> Inr (NewUpstream uc o')))))"

text \<open>A list of upstreams is built in order and numbered from \<open>i\<close>; the first error stops it.\<close>

fun new_upstreams ::
  "(string \<Rightarrow> int option) \<Rightarrow> (string \<Rightarrow> (string \<Rightarrow> string) option) \<Rightarrow> config \<Rightarrow> redactor option \<Rightarrow> nat
     \<Rightarrow> upstream_config list \<Rightarrow> new_error + up_instance list" where
  "new_upstreams pd compile cfg rd i [] = Inr []"
| "new_upstreams pd compile cfg rd i (uc # ucs) =
     (case newUpstream pd compile uc cfg rd of
        Inl e \<Rightarrow> Inl e
      | Inr u \<Rightarrow>
          (case new_upstreams pd compile cfg rd (Suc i) ucs of
             Inl e \<Rightarrow> Inl e
           | Inr us \<Rightarrow> Inr ((i, u) # us)))"

definition global_redactor ::
  "(string \<Rightarrow> (string \<Rightarrow> string) option) \<Rightarrow> config \<Rightarrow> new_error + redactor option" where
  "global_redactor compile cfg =
     (if rd_enabled (cf_redact cfg) then
        map_sum NewRedactErr Some (NewRedactor compile (rd_patterns (cf_redact cfg)) (rd_min_entropy (cf_redact cfg)))
      else Inr None)"

definition New ::
  "(string \<Rightarrow> int option) \<Rightarrow> (string \<Rightarrow> (string \<Rightarrow> string) option) \<Rightarrow> bool \<Rightarrow> config \<Rightarrow> new_error + gateway" where
  "New pd compile blob_store cfg0 =
     (let cfg = setDefaults cfg0 in
      case NewSecretResolver (cf_secrets cfg) of
        Inl e \<Rightarrow> Inl (NewSecretErr e)
      | Inr res \<Rightarrow>
          (case global_redactor compile cfg of
             Inl e \<Rightarrow> Inl e
           | Inr rd \<Rightarrow>
               (case new_upstreams pd compile cfg rd 0 (cf_upstreams cfg) of
                  Inl e \<Rightarrow> Inl e
                | Inr us \<Rightarrow>
                    (let reg = fold (\<lambda>uc. ensureUpstream (up_name uc)) (cf_upstreams cfg) newFeatureRegistry;
                         instr = sv_instructions (cf_server cfg);
                         mounts = newBlobMounts (bl_mounts (cf_blob cfg))
                     in Inr \<lparr>gw_cfg = cfg, gw_resolver = res, gw_upstreams = us,
                          gw_server = new_server (sv_name (cf_server cfg))
                            (if blob_store then withBlobInstructions instr else instr) None,
                          gw_routes = [], gw_router = new_router, gw_tools = reg,
                          gw_prompts = newFeatureRegistry, gw_resources = newFeatureRegistry,
                          gw_templates = newFeatureRegistry, gw_discovery = anyLazy cfg, gw_built = False,
                          gw_blob_store = blob_store, gw_mounts = mounts,
                          gw_blob_desc = (if blob_store then Some (blobShareDescription mounts) else None),
                          gw_redactor = rd, gw_calls = [], gw_next = length us\<rparr>))))"

subsection \<open>Registering what an upstream lists\<close>

datatype feature_kind = FTool | FPrompt | FResource | FTemplate

type_synonym range_orders = "feature_kind \<Rightarrow> string \<Rightarrow> ranges"

definition reg_tools :: "range_orders \<Rightarrow> upstream \<Rightarrow> tool list \<Rightarrow> gateway \<Rightarrow> gateway" where
  "reg_tools rg u ts g =
     (let uc = us_cfg u; r = rg FTool (up_name uc);
          out = registerUpstreamTools (fst r) (snd r) (reservedTool (gateway_view g)) (us_redactor u \<noteq> None) uc ts
            (gw_tools g)
      in g\<lparr>gw_tools := so_reg out,
           gw_server := (gw_server g)\<lparr>ms_tools := serve_all (so_calls out) (ms_tools (gw_server g))\<rparr>\<rparr>)"

definition reg_prompts :: "range_orders \<Rightarrow> upstream \<Rightarrow> prompt list \<Rightarrow> gateway \<Rightarrow> gateway" where
  "reg_prompts rg u ps g =
     (let uc = us_cfg u; r = rg FPrompt (up_name uc);
          out = registerUpstreamPrompts (fst r) (snd r) uc ps (gw_prompts g)
      in g\<lparr>gw_prompts := so_reg out,
           gw_server := (gw_server g)\<lparr>ms_prompts := serve_all (so_calls out) (ms_prompts (gw_server g))\<rparr>\<rparr>)"

definition reg_resources :: "range_orders \<Rightarrow> upstream \<Rightarrow> resource list \<Rightarrow> gateway \<Rightarrow> gateway" where
  "reg_resources rg u rs g =
     (let uc = us_cfg u; r = rg FResource (up_name uc);
          out = registerUpstreamResources (fst r) (snd r) uc rs (gw_resources g)
      in g\<lparr>gw_resources := so_reg out,
           gw_server := (gw_server g)\<lparr>ms_resources := serve_all (so_calls out) (ms_resources (gw_server g))\<rparr>\<rparr>)"

definition reg_templates :: "range_orders \<Rightarrow> upstream \<Rightarrow> res_template list \<Rightarrow> gateway \<Rightarrow> gateway" where
  "reg_templates rg u ts g =
     (let uc = us_cfg u; r = rg FTemplate (up_name uc);
          out = registerUpstreamResourceTemplates (fst r) (snd r) uc ts (gw_templates g)
      in g\<lparr>gw_templates := so_reg out,
           gw_server := (gw_server g)\<lparr>ms_templates := serve_all (so_calls out) (ms_templates (gw_server g))\<rparr>\<rparr>)"

definition reg_all :: "range_orders \<Rightarrow> upstream \<Rightarrow> listing \<Rightarrow> gateway \<Rightarrow> gateway" where
  "reg_all rg u l g =
     reg_templates rg u (li_templates l) (reg_resources rg u (li_resources l)
       (reg_prompts rg u (li_prompts l) (reg_tools rg u (li_tools l) g)))"

subsection \<open>Routes\<close>

definition serve_list :: "('a \<Rightarrow> string) \<Rightarrow> ('a \<Rightarrow> 'p) \<Rightarrow> ('a \<Rightarrow> handler) \<Rightarrow> 'a list \<Rightarrow> 'p served" where
  "serve_list key final h items = serve_all (map (\<lambda>x. SrvAdd (key x) (final x) (h x)) items) Map.empty"

definition newUpstreamRouteServer :: "config \<Rightarrow> upstream \<Rightarrow> listing \<Rightarrow> mcp_server" where
  "newUpstreamRouteServer cfg u l =
     (let uc = us_cfg u; up = up_name uc; dmax = tc_desc_max (up_tools uc) in
      (new_server up (sv_instructions (cf_server cfg)) (Some uc))
        \<lparr>ms_tools := serve_list tl_name (export_tool [] dmax)
           (\<lambda>t. tool_handler_of (us_redactor u \<noteq> None) up (tl_name t))
           (filter (\<lambda>t. allowed (up_tools uc) (tl_name t)) (li_tools l)),
         ms_prompts := serve_list pr_name (export_prompt [] dmax) (\<lambda>p. HPrompt up (pr_name p)) (li_prompts l),
         ms_resources := serve_list re_uri (export_resource dmax) (\<lambda>_. HRead up) (li_resources l),
         ms_templates := serve_list rt_uri (export_template dmax) (\<lambda>_. HRead up) (li_templates l)\<rparr>)"

definition rebuild_router :: "(string \<Rightarrow> string) \<Rightarrow> routed_server list \<Rightarrow> mcp_server router" where
  "rebuild_router uni rs = fold (\<lambda>r rt. router_add uni rt (ro_rhost r) (ro_rpath r) (ro_server r)) rs new_router"

fun update_route :: "string \<Rightarrow> mcp_server \<Rightarrow> routed_server list \<Rightarrow> routed_server list option" where
  "update_route up server [] = None"
| "update_route up server (r # rs) =
     (if ro_upstream r = up then Some (r\<lparr>ro_server := server\<rparr> # rs)
      else map_option ((#) r) (update_route up server rs))"

definition setRouteServer :: "(string \<Rightarrow> string) \<Rightarrow> upstream \<Rightarrow> mcp_server \<Rightarrow> gateway \<Rightarrow> gateway" where
  "setRouteServer uni u server g =
     (let uc = us_cfg u;
          rs = (case update_route (up_name uc) server (gw_routes g) of
                  Some rs \<Rightarrow> rs
                | None \<Rightarrow> gw_routes g @ [\<lparr>ro_upstream = up_name uc, ro_rhost = ro_host (up_route uc),
                    ro_rpath = ro_path (up_route uc), ro_server = server\<rparr>])
      in g\<lparr>gw_routes := rs, gw_router := rebuild_router uni rs\<rparr>)"

definition removeRoute :: "(string \<Rightarrow> string) \<Rightarrow> string \<Rightarrow> gateway \<Rightarrow> gateway" where
  "removeRoute uni up g =
     (let rs = filter (\<lambda>r. ro_upstream r \<noteq> up) (gw_routes g) in
      if length rs = length (gw_routes g) then g\<lparr>gw_routes := rs\<rparr>
      else g\<lparr>gw_routes := rs, gw_router := rebuild_router uni rs\<rparr>)"

text \<open>\<open>refreshRouteServer\<close>: what is known already is not listed again. The error says which list failed.\<close>

record route_refresh =
  rf_tools :: "tool list option"
  rf_prompts :: "prompt list option"
  rf_resources :: "resource list option"
  rf_templates :: "res_template list option"

definition no_refresh :: route_refresh where
  "no_refresh = \<lparr>rf_tools = None, rf_prompts = None, rf_resources = None, rf_templates = None\<rparr>"

definition or_ask :: "'a option \<Rightarrow> 'a option \<Rightarrow> 'a option" where
  "or_ask known asked = (case known of Some x \<Rightarrow> Some x | None \<Rightarrow> asked)"

definition refreshRouteServer ::
  "(string \<Rightarrow> string) \<Rightarrow> up_answer \<Rightarrow> upstream \<Rightarrow> route_refresh \<Rightarrow> gateway \<Rightarrow> feature_kind option \<times> gateway" where
  "refreshRouteServer uni an u known g =
     (if \<not> hasRoute u then (None, g)
      else
        (case or_ask (rf_tools known) (an_tools an) of
           None \<Rightarrow> (Some FTool, g)
         | Some ts \<Rightarrow>
             (case or_ask (rf_prompts known) (an_prompts an) of
                None \<Rightarrow> (Some FPrompt, g)
              | Some ps \<Rightarrow>
                  (case or_ask (rf_resources known) (an_resources an) of
                     None \<Rightarrow> (Some FResource, g)
                   | Some rs \<Rightarrow>
                       (case or_ask (rf_templates known) (an_templates an) of
                          None \<Rightarrow> (Some FTemplate, g)
                        | Some tps \<Rightarrow>
                            (None, setRouteServer uni u (newUpstreamRouteServer (gw_cfg g) u
                               \<lparr>li_tools = ts, li_prompts = ps, li_resources = rs, li_templates = tps\<rparr>) g))))))"

subsection \<open>Notifications\<close>

text \<open>
  The handlers return the list that failed, and ignore the error of the route refresh. A reconnect goes
  on after a failed list; \<open>ans'\<close> answers what its route refresh asks again.
\<close>

definition onToolListChanged ::
  "(string \<Rightarrow> string) \<Rightarrow> range_orders \<Rightarrow> (nat \<Rightarrow> up_answer) \<Rightarrow> string \<Rightarrow> gateway \<Rightarrow> feature_kind option \<times> gateway" where
  "onToolListChanged uni rg ans name g =
     (case upstream_by_name g name of
        None \<Rightarrow> (None, g)
      | Some (i, u) \<Rightarrow>
          (case an_tools (ans i) of
             None \<Rightarrow> (Some FTool, g)
           | Some ts \<Rightarrow>
               (None, snd (refreshRouteServer uni (ans i) u (no_refresh\<lparr>rf_tools := Some ts\<rparr>) (reg_tools rg u ts g)))))"

definition onPromptListChanged ::
  "(string \<Rightarrow> string) \<Rightarrow> range_orders \<Rightarrow> (nat \<Rightarrow> up_answer) \<Rightarrow> string \<Rightarrow> gateway \<Rightarrow> feature_kind option \<times> gateway" where
  "onPromptListChanged uni rg ans name g =
     (case upstream_by_name g name of
        None \<Rightarrow> (None, g)
      | Some (i, u) \<Rightarrow>
          (case an_prompts (ans i) of
             None \<Rightarrow> (Some FPrompt, g)
           | Some ps \<Rightarrow>
               (None, snd (refreshRouteServer uni (ans i) u (no_refresh\<lparr>rf_prompts := Some ps\<rparr>)
                  (reg_prompts rg u ps g)))))"

definition onResourceListChanged ::
  "(string \<Rightarrow> string) \<Rightarrow> range_orders \<Rightarrow> (nat \<Rightarrow> up_answer) \<Rightarrow> string \<Rightarrow> gateway \<Rightarrow> feature_kind option \<times> gateway" where
  "onResourceListChanged uni rg ans name g =
     (case upstream_by_name g name of
        None \<Rightarrow> (None, g)
      | Some (i, u) \<Rightarrow>
          (case an_resources (ans i) of
             None \<Rightarrow> (Some FResource, g)
           | Some rs \<Rightarrow>
               (case an_templates (ans i) of
                  None \<Rightarrow> (Some FTemplate, g)
                | Some ts \<Rightarrow>
                    (None, snd (refreshRouteServer uni (ans i) u
                       (no_refresh\<lparr>rf_resources := Some rs, rf_templates := Some ts\<rparr>)
                       (reg_templates rg u ts (reg_resources rg u rs g)))))))"

definition when_listed :: "'a option \<Rightarrow> ('a \<Rightarrow> gateway \<Rightarrow> gateway) \<Rightarrow> gateway \<Rightarrow> gateway" where
  "when_listed l f g = (case l of None \<Rightarrow> g | Some x \<Rightarrow> f x g)"

definition onUpstreamReconnect ::
  "(string \<Rightarrow> string) \<Rightarrow> range_orders \<Rightarrow> (nat \<Rightarrow> up_answer) \<Rightarrow> (nat \<Rightarrow> up_answer) \<Rightarrow> string \<Rightarrow> gateway \<Rightarrow> gateway" where
  "onUpstreamReconnect uni rg ans ans' name g =
     (case upstream_by_name g name of
        None \<Rightarrow> g
      | Some (i, u) \<Rightarrow>
          (let an = ans i;
               g1 = when_listed (an_tools an) (reg_tools rg u) g;
               g2 = when_listed (an_prompts an) (reg_prompts rg u) g1;
               g3 = when_listed (an_resources an) (reg_resources rg u) g2;
               g4 = when_listed (an_templates an) (reg_templates rg u) g3
           in snd (refreshRouteServer uni (ans' i) u
                \<lparr>rf_tools = an_tools an, rf_prompts = an_prompts an, rf_resources = an_resources an,
                 rf_templates = an_templates an\<rparr> g4)))"

subsection \<open>Attaching and detaching\<close>

definition answer_listing :: "up_answer \<Rightarrow> listing option" where
  "answer_listing an =
     (case an_tools an of
        None \<Rightarrow> None
      | Some ts \<Rightarrow>
          (case an_prompts an of
             None \<Rightarrow> None
           | Some ps \<Rightarrow>
               (case an_resources an of
                  None \<Rightarrow> None
                | Some rs \<Rightarrow>
                    (case an_templates an of
                       None \<Rightarrow> None
                     | Some tps \<Rightarrow>
                         Some \<lparr>li_tools = ts, li_prompts = ps, li_resources = rs, li_templates = tps\<rparr>))))"

definition register_listed :: "(string \<Rightarrow> string) \<Rightarrow> range_orders \<Rightarrow> upstream \<Rightarrow> listing \<Rightarrow> gateway \<Rightarrow> gateway" where
  "register_listed uni rg u l g =
     (let g1 = reg_all rg u l g in
      if hasRoute u then setRouteServer uni u (newUpstreamRouteServer (gw_cfg g1) u l) g1 else g1)"

definition syncUpstream ::
  "(string \<Rightarrow> string) \<Rightarrow> range_orders \<Rightarrow> up_answer \<Rightarrow> upstream \<Rightarrow> gateway \<Rightarrow> gateway" where
  "syncUpstream uni rg an u g =
     (case answer_listing an of None \<Rightarrow> g | Some l \<Rightarrow> register_listed uni rg u l g)"

definition attachUpstream ::
  "(string \<Rightarrow> string) \<Rightarrow> range_orders \<Rightarrow> (nat \<Rightarrow> up_answer) \<Rightarrow> up_instance \<Rightarrow> gateway \<Rightarrow> gateway" where
  "attachUpstream uni rg ans iu g =
     (let g1 = g\<lparr>gw_upstreams := gw_upstreams g @ [iu], gw_calls := gw_calls g @ [UConnect (fst iu)]\<rparr> in
      if \<not> an_connect (ans (fst iu)) then g1
      else syncUpstream uni rg (ans (fst iu)) (snd iu) g1)"

definition drop_names :: "string \<Rightarrow> 'p registry \<Rightarrow> 'p registry" where
  "drop_names up r = r\<lparr>fr_names := AList.delete up (fr_names r)\<rparr>"

definition detachUpstream ::
  "(string \<Rightarrow> string) \<Rightarrow> range_orders \<Rightarrow> up_instance \<Rightarrow> gateway \<Rightarrow> gateway" where
  "detachUpstream uni rg iu g =
     (let up = iname iu;
          g1 = reg_all rg (snd iu) \<lparr>li_tools = [], li_prompts = [], li_resources = [], li_templates = []\<rparr> g;
          g2 = g1\<lparr>gw_tools := drop_names up (gw_tools g1), gw_prompts := drop_names up (gw_prompts g1),
                 gw_resources := drop_names up (gw_resources g1), gw_templates := drop_names up (gw_templates g1)\<rparr>;
          g3 = removeRoute uni up g2
      in g3\<lparr>gw_upstreams := filter (\<lambda>x. fst x \<noteq> fst iu) (gw_upstreams g3)\<rparr>)"

text \<open>The closes run at the same time; the order in which they are recorded means nothing.\<close>

definition closeUpstreams :: "up_instance list \<Rightarrow> gateway \<Rightarrow> gateway" where
  "closeUpstreams us g = g\<lparr>gw_calls := gw_calls g @ map (\<lambda>iu. UClose (fst iu)) us\<rparr>"

definition Close :: "gateway \<Rightarrow> gateway" where
  "Close g = (closeUpstreams (gw_upstreams g) g)
     \<lparr>gw_tools := newFeatureRegistry, gw_prompts := newFeatureRegistry, gw_resources := newFeatureRegistry,
      gw_templates := newFeatureRegistry\<rparr>"

subsection \<open>Build\<close>

fun build_list :: "(nat \<Rightarrow> up_answer) \<Rightarrow> up_instance list \<Rightarrow> (up_instance \<times> listing) list \<times> up_call list" where
  "build_list ans [] = ([], [])"
| "build_list ans (iu # us) =
     (let (ls, cs) = build_list ans us; an = ans (fst iu) in
      if \<not> an_connect an then (ls, UConnect (fst iu) # cs)
      else
        (case answer_listing an of
           None \<Rightarrow> (ls, UConnect (fst iu) # UDrop (fst iu) # cs)
         | Some l \<Rightarrow> ((iu, l) # ls, UConnect (fst iu) # cs)))"

definition add_all ::
  "('a \<Rightarrow> 'a \<Rightarrow> bool) \<Rightarrow> string \<Rightarrow> (listing \<Rightarrow> 'a list) \<Rightarrow> ('a \<Rightarrow> string) \<Rightarrow> (upstream_config \<Rightarrow> ('a \<Rightarrow> bool) option)
     \<Rightarrow> (up_instance \<times> listing) list \<Rightarrow> 'a collision_set" where
  "add_all eq kind items key keep ls =
     fold (\<lambda>(iu, l) cs. cs_add cs (iname iu) (items l) key (keep (us_cfg (snd iu)))) ls (newCollisionSet kind eq)"

definition build_prefixes :: "(up_instance \<times> listing) list \<Rightarrow> (string, string) gomap" where
  "build_prefixes ls = fold (\<lambda>(iu, l). AList.update (iname iu) (tc_prefix (up_tools (us_cfg (snd iu))))) ls []"

text \<open>The four checks in their order; the first that fails is the error.\<close>

definition build_check :: "(up_instance \<times> listing) list \<Rightarrow> collisions_error option" where
  "build_check ls =
     (let pfxs = build_prefixes ls in
      case cs_check (add_all (\<lambda>a b. toolEqual (Some a) (Some b)) ''tool'' li_tools tl_name
          (\<lambda>uc. Some (\<lambda>t. allowed (up_tools uc) (tl_name t))) ls) pfxs of
        Some e \<Rightarrow> Some e
      | None \<Rightarrow>
          (case cs_check (add_all (\<lambda>a b. promptEqual (Some a) (Some b)) ''prompt'' li_prompts pr_name
              (\<lambda>_. None) ls) pfxs of
             Some e \<Rightarrow> Some e
           | None \<Rightarrow>
               (case cs_check (add_all (\<lambda>a b. resourceEqual (Some a) (Some b)) ''resource'' li_resources re_uri
                   (\<lambda>_. None) ls) [] of
                  Some e \<Rightarrow> Some e
                | None \<Rightarrow>
                    cs_check (add_all (\<lambda>a b. resourceTemplateEqual (Some a) (Some b)) ''resource template''
                      li_templates rt_uri (\<lambda>_. None) ls) [])))"

definition Build ::
  "(string \<Rightarrow> string) \<Rightarrow> range_orders \<Rightarrow> (nat \<Rightarrow> up_answer) \<Rightarrow> gateway \<Rightarrow> (collisions_error + unit) \<times> gateway" where
  "Build uni rg ans g =
     (let (ls, cs) = build_list ans (gw_upstreams g);
          g1 = g\<lparr>gw_calls := gw_calls g @ cs\<rparr>
      in case build_check ls of
           Some e \<Rightarrow> (Inl e, Close g1)
         | None \<Rightarrow>
             (Inr (), (fold (\<lambda>(iu, l). register_listed uni rg (snd iu) l) ls g1)\<lparr>gw_built := True\<rparr>))"

definition Ready :: "gateway \<Rightarrow> bool" where
  "Ready g \<longleftrightarrow> gw_built g"

subsection \<open>ServerForRequest\<close>

text \<open>\<open>net.SplitHostPort\<close>, \<open>None\<close> for its errors.\<close>

definition last_index :: "string \<Rightarrow> char \<Rightarrow> nat option" where
  "last_index s b = map_option (\<lambda>i. length s - Suc i) (index_byte (rev s) b)"

definition split_host_port :: "string \<Rightarrow> (string \<times> string) option" where
  "split_host_port hp =
     (case last_index hp CHR '':'' of
        None \<Rightarrow> None
      | Some i \<Rightarrow>
          (let port = drop (Suc i) hp in
           if hp ! 0 = CHR ''['' then
             (case index_byte hp CHR '']'' of
                None \<Rightarrow> None
              | Some e \<Rightarrow>
                  (if Suc e \<noteq> i then None
                   else if CHR ''['' \<in> set (drop 1 hp) \<or> CHR '']'' \<in> set (drop (Suc e) hp) then None
                   else Some (take (e - 1) (drop 1 hp), port)))
           else if CHR '':'' \<in> set (take i hp) then None
           else if CHR ''['' \<in> set hp \<or> CHR '']'' \<in> set hp then None
           else Some (take i hp, port)))"

definition request_host :: "string \<Rightarrow> string" where
  "request_host host = (case split_host_port host of Some (h, _) \<Rightarrow> h | None \<Rightarrow> host)"

definition ServerForRequest :: "(string \<Rightarrow> string) \<Rightarrow> gateway \<Rightarrow> (string \<times> string) option \<Rightarrow> mcp_server" where
  "ServerForRequest uni g req =
     (case req of
        None \<Rightarrow> gw_server g
      | Some (host, path) \<Rightarrow>
          (case router_lookup uni (gw_router g) (request_host host) path of
             Some best \<Rightarrow> best
           | None \<Rightarrow> gw_server g))"

subsection \<open>The invariant of the gateway\<close>

definition prompt_target :: "(string \<Rightarrow> string) \<Rightarrow> string \<Rightarrow> string \<Rightarrow> handler \<Rightarrow> bool" where
  "prompt_target pfx up n h \<longleftrightarrow> (\<exists>raw. h = HPrompt up raw \<and> n = pfx up @ raw)"

definition read_target :: "string \<Rightarrow> string \<Rightarrow> handler \<Rightarrow> bool" where
  "read_target up n h \<longleftrightarrow> h = HRead up"

text \<open>One kind of feature: registry and served table agree, and every owner is one of \<open>names\<close>.\<close>

definition feature_ok ::
  "(string \<Rightarrow> string \<Rightarrow> handler \<Rightarrow> bool) \<Rightarrow> string set \<Rightarrow> 'p registry \<Rightarrow> 'p served \<Rightarrow> bool" where
  "feature_ok P names r m \<longleftrightarrow> reg_ok r \<and> serves P r m \<and> (\<forall>n up. map_of (fr_owner r) n = Some up \<longrightarrow> up \<in> names)"

definition names_of :: "gateway \<Rightarrow> string set" where
  "names_of g = iname ` set (gw_upstreams g)"

definition prefixes_of :: "gateway \<Rightarrow> string \<Rightarrow> string" where
  "prefixes_of g = prefix_of (map (\<lambda>iu. us_cfg (snd iu)) (gw_upstreams g))"

definition features_ok :: "(string \<Rightarrow> string) \<Rightarrow> string set \<Rightarrow> gateway \<Rightarrow> bool" where
  "features_ok pfx names g \<longleftrightarrow>
     feature_ok (tool_target pfx) names (gw_tools g) (ms_tools (gw_server g)) \<and>
     feature_ok (prompt_target pfx) names (gw_prompts g) (ms_prompts (gw_server g)) \<and>
     feature_ok read_target names (gw_resources g) (ms_resources (gw_server g)) \<and>
     feature_ok read_target names (gw_templates g) (ms_templates (gw_server g))"

definition route_for :: "upstream \<Rightarrow> routed_server \<Rightarrow> bool" where
  "route_for u r \<longleftrightarrow> ro_upstream r = up_name (us_cfg u) \<and> ro_rhost r = ro_host (up_route (us_cfg u)) \<and>
     ro_rpath r = ro_path (up_route (us_cfg u)) \<and> hasRoute u \<and> ms_scope (ro_server r) = Some (us_cfg u)"

definition routes_ok :: "(string \<Rightarrow> string) \<Rightarrow> gateway \<Rightarrow> bool" where
  "routes_ok uni g \<longleftrightarrow> gw_router g = rebuild_router uni (gw_routes g) \<and>
     distinct (map ro_upstream (gw_routes g)) \<and>
     (\<forall>r\<in>set (gw_routes g). \<exists>iu\<in>set (gw_upstreams g). route_for (snd iu) r)"

definition gw_ok :: "(string \<Rightarrow> string) \<Rightarrow> gateway \<Rightarrow> bool" where
  "gw_ok uni g \<longleftrightarrow> distinct (map iname (gw_upstreams g)) \<and> distinct (map fst (gw_upstreams g)) \<and>
     (\<forall>iu\<in>set (gw_upstreams g). fst iu < gw_next g) \<and>
     features_ok (prefixes_of g) (names_of g) g \<and> routes_ok uni g \<and> ms_scope (gw_server g) = None"

definition good_orders :: "range_orders \<Rightarrow> bool" where
  "good_orders rg \<longleftrightarrow> (\<forall>k up. good_ranges (rg k up))"

subsection \<open>Preservation\<close>

lemma feature_ok_new: "feature_ok P names newFeatureRegistry Map.empty"
  using reg_ok_new by (simp add: feature_ok_def serves_def) (simp add: newFeatureRegistry_def)

lemma feature_ok_mono:
  assumes "feature_ok P names r m" and "names \<subseteq> names'" and "\<And>up n h. up \<in> names \<Longrightarrow> P up n h \<Longrightarrow> P' up n h"
  shows "feature_ok P' names' r m"
proof -
  have "serves P' r m"
    unfolding serves_def
  proof
    fix n
    have "case map_of (fr_owner r) n of None \<Rightarrow> m n = None
        | Some up \<Rightarrow> \<exists>h. m n = Some (the (map_of (fr_payload r) n), h) \<and> P up n h"
      using assms(1) by (simp add: feature_ok_def serves_def)
    moreover have "map_of (fr_owner r) n = Some up \<Longrightarrow> up \<in> names" for up
      using assms(1) by (simp add: feature_ok_def)
    ultimately show "case map_of (fr_owner r) n of None \<Rightarrow> m n = None
        | Some up \<Rightarrow> \<exists>h. m n = Some (the (map_of (fr_payload r) n), h) \<and> P' up n h"
      using assms(3) by (auto split: option.splits)
  qed
  then show ?thesis using assms(1,2) by (auto simp: feature_ok_def)
qed

lemma feature_ok_sync:
  assumes "feature_ok P names r m" and "up \<in> names" and "good_ranges rg"
    and "\<And>n. map_of newp n \<noteq> None \<Longrightarrow> P up n (mk (raw_name raw n))"
    and out_def: "out = sync_feature eq (fst rg) (snd rg) up mk newp raw r"
  shows "feature_ok P names (so_reg out) (serve_all (so_calls out) m)"
proof -
  have r: "reg_ok r" "range_order (fst rg)" "range_order (snd rg)" "serves P r m"
    using assms(1,3) by (auto simp: feature_ok_def good_ranges_def)
  have "map_of (fr_owner (so_reg out)) n = Some v \<Longrightarrow> v \<in> names" for n v
    using assms(1,2) unfolding out_def sync_owner [OF r(1-3)]
    by (auto simp: owner_after_def feature_ok_def is_taken_def split: if_splits option.splits)
  moreover have "serves P (so_reg out) (serve_all (so_calls out) m)"
    unfolding out_def by (rule serves_sync [OF r assms(4)])
  moreover have "reg_ok (so_reg out)" unfolding out_def by (rule sync_reg_ok [OF r(1-3)])
  ultimately show ?thesis by (simp add: feature_ok_def)
qed

lemma drop_names_fields [simp]:
  "fr_owner (drop_names up r) = fr_owner r" "fr_payload (drop_names up r) = fr_payload r"
  "set_get (fr_names (drop_names up r)) v = (if v = up then [] else set_get (fr_names r) v)"
  by (simp_all add: drop_names_def)

lemma serves_drop_names [simp]: "serves P (drop_names up r) m = serves P r m"
  by (simp add: serves_def cong: option.case_cong)

text \<open>Synchronised with nothing, an upstream owns nothing.\<close>

lemma feature_ok_detach:
  assumes "feature_ok P names r m" and "up \<in> names" and "good_ranges rg"
    and out_def: "out = sync_feature eq (fst rg) (snd rg) up mk [] raw r"
  shows "feature_ok P (names - {up}) (drop_names up (so_reg out)) (serve_all (so_calls out) m)"
proof -
  have ok: "feature_ok P names (so_reg out) (serve_all (so_calls out) m)"
    unfolding out_def by (rule feature_ok_sync [OF assms(1-3) _ refl]) simp
  have r: "reg_ok r" "range_order (fst rg)" "range_order (snd rg)"
    using assms(1,3) by (auto simp: feature_ok_def good_ranges_def)
  have free: "map_of (fr_owner (so_reg out)) n \<noteq> Some up" for n
    unfolding out_def sync_owner [OF r] by (simp add: owner_after_def is_taken_def split: option.splits)
  have "reg_ok (drop_names up (so_reg out))"
    using ok free by (auto simp: feature_ok_def reg_ok_def)
  then show ?thesis using ok free by (auto simp: feature_ok_def)
qed

text \<open>What registering features leaves alone.\<close>

definition same_frame :: "gateway \<Rightarrow> gateway \<Rightarrow> bool" where
  "same_frame g g' \<longleftrightarrow> gw_upstreams g' = gw_upstreams g \<and> gw_routes g' = gw_routes g \<and>
     gw_router g' = gw_router g \<and> gw_cfg g' = gw_cfg g \<and> gw_next g' = gw_next g \<and>
     ms_scope (gw_server g') = ms_scope (gw_server g) \<and> gw_calls g' = gw_calls g \<and> gw_resolver g' = gw_resolver g"

lemma same_frame_reg:
  "same_frame g (reg_tools rg u ts g)" "same_frame g (reg_prompts rg u ps g)"
  "same_frame g (reg_resources rg u rs g)" "same_frame g (reg_templates rg u tps g)"
  by (simp_all add: same_frame_def reg_tools_def reg_prompts_def reg_resources_def reg_templates_def Let_def)

lemma same_frame_trans: "same_frame g g' \<Longrightarrow> same_frame g' g'' \<Longrightarrow> same_frame g g''"
  by (simp add: same_frame_def)

lemma same_frame_refl [simp]: "same_frame g g"
  by (simp add: same_frame_def)

lemma same_frame_all: "same_frame g (reg_all rg u l g)"
  unfolding reg_all_def by (meson same_frame_reg same_frame_trans)

lemma prompt_raws_target:
  assumes "map_of (new_payloads (\<lambda>p. NamespaceName pfx (pr_name p)) final ps) n \<noteq> None"
  shows "n = pfx @ raw_name (new_payloads (\<lambda>p. NamespaceName pfx (pr_name p)) pr_name ps) n"
proof -
  let ?key = "\<lambda>p. NamespaceName pfx (pr_name p)"
  from assms obtain p where p: "last_item ?key ps n = Some p" by (auto simp: new_payloads_last)
  then have "?key p = n" using last_item_SomeD by fastforce
  with p show ?thesis by (simp add: raw_name_def new_payloads_last NamespaceName_def)
qed

lemma features_ok_reg_tools:
  assumes "features_ok pfx names g" and "up_name (us_cfg u) \<in> names" and "good_orders rg"
    and "pfx (up_name (us_cfg u)) = tc_prefix (up_tools (us_cfg u))"
  shows "features_ok pfx names (reg_tools rg u ts g)"
proof -
  let ?r = "rg FTool (up_name (us_cfg u))" and ?res = "reservedTool (gateway_view g)"
  have rg: "good_ranges ?r" using assms(3) by (simp add: good_orders_def)
  then have ro: "range_order (fst ?r)" "range_order (snd ?r)" by (simp_all add: good_ranges_def)
  have "feature_ok (tool_target pfx) names (gw_tools g) (ms_tools (gw_server g))"
    using assms(1) by (simp add: features_ok_def)
  from feature_ok_sync [OF this assms(2) rg _ refl, of "tool_payloads ?res (us_cfg u) ts"
      "tool_handler_of (us_redactor u \<noteq> None) (up_name (us_cfg u))" "tool_raws ?res (us_cfg u) ts" toolEqual]
  have "feature_ok (tool_target pfx) names (gw_tools (reg_tools rg u ts g)) (ms_tools (gw_server (reg_tools rg u ts g)))"
    using tool_raws_target assms(4)
    by (fastforce simp: reg_tools_def Let_def tools_generic [OF ro] tool_target_def)
  then show ?thesis using assms(1) by (simp add: features_ok_def reg_tools_def Let_def)
qed

lemma features_ok_reg_prompts:
  assumes "features_ok pfx names g" and "up_name (us_cfg u) \<in> names" and "good_orders rg"
    and "pfx (up_name (us_cfg u)) = tc_prefix (up_tools (us_cfg u))"
  shows "features_ok pfx names (reg_prompts rg u ps g)"
proof -
  let ?pfx = "tc_prefix (up_tools (us_cfg u))"
  let ?key = "\<lambda>p. NamespaceName ?pfx (pr_name p)"
  have rg: "good_ranges (rg FPrompt (up_name (us_cfg u)))" using assms(3) by (simp add: good_orders_def)
  have "feature_ok (prompt_target pfx) names (gw_prompts g) (ms_prompts (gw_server g))"
    using assms(1) by (simp add: features_ok_def)
  from feature_ok_sync [OF this assms(2) rg _ refl,
      of "new_payloads ?key (export_prompt ?pfx (tc_desc_max (up_tools (us_cfg u)))) ps"
        "HPrompt (up_name (us_cfg u))" "new_payloads ?key pr_name ps" promptEqual]
  have "feature_ok (prompt_target pfx) names (gw_prompts (reg_prompts rg u ps g))
      (ms_prompts (gw_server (reg_prompts rg u ps g)))"
    using prompt_raws_target assms(4)
    by (fastforce simp: reg_prompts_def Let_def registerUpstreamPrompts_def prompt_target_def)
  then show ?thesis using assms(1) by (simp add: features_ok_def reg_prompts_def Let_def)
qed

lemma features_ok_reg_resources:
  assumes "features_ok pfx names g" and "up_name (us_cfg u) \<in> names" and "good_orders rg"
  shows "features_ok pfx names (reg_resources rg u rs g)"
proof -
  have rg: "good_ranges (rg FResource (up_name (us_cfg u)))" using assms(3) by (simp add: good_orders_def)
  have "feature_ok read_target names (gw_resources g) (ms_resources (gw_server g))"
    using assms(1) by (simp add: features_ok_def)
  from feature_ok_sync [OF this assms(2) rg _ refl,
      of "new_payloads re_uri (export_resource (tc_desc_max (up_tools (us_cfg u)))) rs"
        "\<lambda>_. HRead (up_name (us_cfg u))" "[]" resourceEqual]
  show ?thesis
    using assms(1)
    by (simp add: features_ok_def reg_resources_def Let_def registerUpstreamResources_def read_target_def)
qed

lemma features_ok_reg_templates:
  assumes "features_ok pfx names g" and "up_name (us_cfg u) \<in> names" and "good_orders rg"
  shows "features_ok pfx names (reg_templates rg u ts g)"
proof -
  have rg: "good_ranges (rg FTemplate (up_name (us_cfg u)))" using assms(3) by (simp add: good_orders_def)
  have "feature_ok read_target names (gw_templates g) (ms_templates (gw_server g))"
    using assms(1) by (simp add: features_ok_def)
  from feature_ok_sync [OF this assms(2) rg _ refl,
      of "new_payloads rt_uri (export_template (tc_desc_max (up_tools (us_cfg u)))) ts"
        "\<lambda>_. HRead (up_name (us_cfg u))" "[]" resourceTemplateEqual]
  show ?thesis
    using assms(1)
    by (simp add: features_ok_def reg_templates_def Let_def registerUpstreamResourceTemplates_def read_target_def)
qed

lemmas features_ok_reg = features_ok_reg_tools features_ok_reg_prompts features_ok_reg_resources
  features_ok_reg_templates

lemma features_ok_reg_all:
  assumes "features_ok pfx names g" and "up_name (us_cfg u) \<in> names" and "good_orders rg"
    and "pfx (up_name (us_cfg u)) = tc_prefix (up_tools (us_cfg u))"
  shows "features_ok pfx names (reg_all rg u l g)"
  unfolding reg_all_def using assms by (intro features_ok_reg) auto

lemma same_frame_ok:
  assumes "gw_ok uni g" and "same_frame g g'" and "features_ok (prefixes_of g) (names_of g) g'"
  shows "gw_ok uni g'"
  using assms by (simp add: gw_ok_def same_frame_def prefixes_of_def names_of_def routes_ok_def)

lemma gw_ok_prefix:
  assumes "gw_ok uni g" and "iu \<in> set (gw_upstreams g)"
  shows "prefixes_of g (iname iu) = tc_prefix (up_tools (us_cfg (snd iu)))" and "iname iu \<in> names_of g"
proof -
  have "distinct (map up_name (map (\<lambda>iu. us_cfg (snd iu)) (gw_upstreams g)))"
    using assms(1) by (simp add: gw_ok_def comp_def)
  from upstreamByName_distinct [OF this, of "us_cfg (snd iu)"]
  show "prefixes_of g (iname iu) = tc_prefix (up_tools (us_cfg (snd iu)))"
    using assms(2) by (simp add: prefixes_of_def prefix_of_def)
  show "iname iu \<in> names_of g" using assms(2) by (simp add: names_of_def)
qed

lemma gw_ok_reg:
  assumes "gw_ok uni g" and "iu \<in> set (gw_upstreams g)" and "good_orders rg"
  shows "gw_ok uni (reg_tools rg (snd iu) ts g)" "gw_ok uni (reg_prompts rg (snd iu) ps g)"
    "gw_ok uni (reg_resources rg (snd iu) rs g)" "gw_ok uni (reg_templates rg (snd iu) tps g)"
    "gw_ok uni (reg_all rg (snd iu) l g)"
proof -
  note pre = gw_ok_prefix [OF assms(1,2)]
  have f: "features_ok (prefixes_of g) (names_of g) g" using assms(1) by (simp add: gw_ok_def)
  show "gw_ok uni (reg_tools rg (snd iu) ts g)" "gw_ok uni (reg_prompts rg (snd iu) ps g)"
    "gw_ok uni (reg_resources rg (snd iu) rs g)" "gw_ok uni (reg_templates rg (snd iu) tps g)"
    by (rule same_frame_ok [OF assms(1) same_frame_reg(1) features_ok_reg(1) [OF f pre(2) assms(3) pre(1)]]
        same_frame_ok [OF assms(1) same_frame_reg(2) features_ok_reg(2) [OF f pre(2) assms(3) pre(1)]]
        same_frame_ok [OF assms(1) same_frame_reg(3) features_ok_reg(3) [OF f pre(2) assms(3)]]
        same_frame_ok [OF assms(1) same_frame_reg(4) features_ok_reg(4) [OF f pre(2) assms(3)]])+
  show "gw_ok uni (reg_all rg (snd iu) l g)"
    by (rule same_frame_ok [OF assms(1) same_frame_all features_ok_reg_all [OF f pre(2) assms(3) pre(1)]])
qed

text \<open>Routes.\<close>

lemma update_route_None: "update_route up s rs = None \<longleftrightarrow> up \<notin> ro_upstream ` set rs"
  by (induction rs) auto

lemma update_route_Some:
  "update_route up s rs = Some rs' \<Longrightarrow> map ro_upstream rs' = map ro_upstream rs \<and>
     (\<forall>r'\<in>set rs'. r' \<in> set rs \<or> (\<exists>r\<in>set rs. ro_upstream r = up \<and> r' = r\<lparr>ro_server := s\<rparr>))"
proof (induction rs arbitrary: rs')
  case (Cons a rs)
  show ?case
  proof (cases "ro_upstream a = up")
    case False
    then obtain z where "update_route up s rs = Some z" "rs' = a # z" using Cons.prems by auto
    then show ?thesis using Cons.IH [of z] by (simp; blast)
  qed (use Cons.prems in auto)
qed simp

lemma distinct_names_inj:
  "distinct (map iname us) \<Longrightarrow> a \<in> set us \<Longrightarrow> b \<in> set us \<Longrightarrow> iname a = iname b \<Longrightarrow> a = b"
  by (simp add: distinct_map inj_on_def)

lemma gw_ok_setRoute:
  assumes "gw_ok uni g" and "iu \<in> set (gw_upstreams g)" and "hasRoute (snd iu)"
    and "ms_scope server = Some (us_cfg (snd iu))"
  shows "gw_ok uni (setRouteServer uni (snd iu) server g)"
proof -
  define up where "up = iname iu"
  define rs where "rs = (case update_route up server (gw_routes g) of
      Some rs \<Rightarrow> rs
    | None \<Rightarrow> gw_routes g @ [\<lparr>ro_upstream = up, ro_rhost = ro_host (up_route (us_cfg (snd iu))),
        ro_rpath = ro_path (up_route (us_cfg (snd iu))), ro_server = server\<rparr>])"
  have g: "distinct (map iname (gw_upstreams g))" "distinct (map ro_upstream (gw_routes g))"
      "\<forall>r\<in>set (gw_routes g). \<exists>iu\<in>set (gw_upstreams g). route_for (snd iu) r"
    using assms(1) by (auto simp: gw_ok_def routes_ok_def)
  have new: "distinct (map ro_upstream rs) \<and> (\<forall>r\<in>set rs. \<exists>iu\<in>set (gw_upstreams g). route_for (snd iu) r)"
  proof (cases "update_route up server (gw_routes g)")
    case None
    then have "up \<notin> ro_upstream ` set (gw_routes g)" using update_route_None by blast
    then have "distinct (map ro_upstream rs)" using None g(2) by (simp add: rs_def)
    moreover have "route_for (snd iu) \<lparr>ro_upstream = up, ro_rhost = ro_host (up_route (us_cfg (snd iu))),
        ro_rpath = ro_path (up_route (us_cfg (snd iu))), ro_server = server\<rparr>"
      using assms(3,4) by (simp add: route_for_def up_def)
    ultimately show ?thesis using None g(3) assms(2) by (auto simp: rs_def)
  next
    case (Some rs')
    note upd = update_route_Some [OF Some]
    have "\<exists>iu\<in>set (gw_upstreams g). route_for (snd iu) r'" if "r' \<in> set rs'" for r'
    proof (cases "r' \<in> set (gw_routes g)")
      note upd' = upd [THEN conjunct2, THEN bspec, OF that]
      case False
      then obtain r where r: "r \<in> set (gw_routes g)" "ro_upstream r = up" "r' = r\<lparr>ro_server := server\<rparr>"
        using upd' by blast
      then obtain iv where iv: "iv \<in> set (gw_upstreams g)" "route_for (snd iv) r" using g(3) by blast
      have "iname iv = iname iu" using iv(2) r(2) by (simp add: route_for_def up_def)
      from distinct_names_inj [OF g(1) iv(1) assms(2) this] have "iv = iu" .
      then have "route_for (snd iu) r" using iv(2) by simp
      then have "route_for (snd iu) r'" unfolding r(3) using assms(4) by (simp add: route_for_def)
      then show ?thesis using assms(2) by blast
    qed (use g(3) in blast)
    then show ?thesis using Some upd g(2) by (simp add: rs_def)
  qed
  have "setRouteServer uni (snd iu) server g = g\<lparr>gw_routes := rs, gw_router := rebuild_router uni rs\<rparr>"
    unfolding setRouteServer_def Let_def rs_def up_def ..
  then show ?thesis
    using assms(1) new by (simp add: gw_ok_def routes_ok_def features_ok_def prefixes_of_def names_of_def)
qed

lemma newUpstreamRouteServer_scope [simp]: "ms_scope (newUpstreamRouteServer cfg u l) = Some (us_cfg u)"
  by (simp add: newUpstreamRouteServer_def new_server_def Let_def)

lemma gw_ok_refresh:
  assumes "gw_ok uni g" and "iu \<in> set (gw_upstreams g)"
  shows "gw_ok uni (snd (refreshRouteServer uni an (snd iu) known g))"
proof (cases "hasRoute (snd iu)")
  case True
  have "gw_ok uni (setRouteServer uni (snd iu) (newUpstreamRouteServer (gw_cfg g) (snd iu) l) g)" for l
    by (rule gw_ok_setRoute [OF assms True]) simp
  then show ?thesis using assms(1) by (auto simp: refreshRouteServer_def split: option.split)
qed (use assms in \<open>simp add: refreshRouteServer_def\<close>)

lemma reg_upstreams [simp]:
  "gw_upstreams (reg_tools rg u ts g) = gw_upstreams g" "gw_upstreams (reg_prompts rg u ps g) = gw_upstreams g"
  "gw_upstreams (reg_resources rg u rs g) = gw_upstreams g" "gw_upstreams (reg_templates rg u tps g) = gw_upstreams g"
  "gw_upstreams (reg_all rg u l g) = gw_upstreams g"
  using same_frame_reg same_frame_all by (simp_all add: same_frame_def)

lemma when_listed_ok:
  assumes "gw_ok uni g" and "\<And>x. gw_ok uni (f x g)"
  shows "gw_ok uni (when_listed l f g)"
  using assms by (simp add: when_listed_def split: option.split)

lemma when_listed_upstreams:
  "(\<And>x. gw_upstreams (f x g) = gw_upstreams g) \<Longrightarrow> gw_upstreams (when_listed l f g) = gw_upstreams g"
  by (simp add: when_listed_def split: option.split)

lemma upstream_by_name_Some:
  "upstream_by_name g name = Some iu \<Longrightarrow> iu \<in> set (gw_upstreams g) \<and> iname iu = name"
  unfolding upstream_by_name_def by (drule find_in_set) simp

lemma gw_ok_notifications:
  assumes "gw_ok uni g" and "good_orders rg"
  shows "gw_ok uni (snd (onToolListChanged uni rg ans name g))"
    "gw_ok uni (snd (onPromptListChanged uni rg ans name g))"
    "gw_ok uni (snd (onResourceListChanged uni rg ans name g))"
    "gw_ok uni (onUpstreamReconnect uni rg ans ans' name g)"
proof -
  have *: "gw_ok uni (snd (refreshRouteServer uni an u known (reg_tools rg u ts g)))"
    "gw_ok uni (snd (refreshRouteServer uni an u known (reg_prompts rg u ps g)))"
    "gw_ok uni (snd (refreshRouteServer uni an u known (reg_templates rg u tps (reg_resources rg u rs g))))"
    "gw_ok uni (snd (refreshRouteServer uni an u known (when_listed l4 (reg_templates rg u)
      (when_listed l3 (reg_resources rg u) (when_listed l2 (reg_prompts rg u) (when_listed l1 (reg_tools rg u) g))))))"
    if "upstream_by_name g name = Some (i, u)" for i u an known ts ps rs tps l1 l2 l3 l4
  proof -
    have iu: "(i, u) \<in> set (gw_upstreams g)" using upstream_by_name_Some [OF that] by simp
    note reg = gw_ok_reg [OF _ _ assms(2), where iu = "(i, u)", simplified]
    note refresh = gw_ok_refresh [where iu = "(i, u)", simplified]
    show "gw_ok uni (snd (refreshRouteServer uni an u known (reg_tools rg u ts g)))"
      "gw_ok uni (snd (refreshRouteServer uni an u known (reg_prompts rg u ps g)))"
      "gw_ok uni (snd (refreshRouteServer uni an u known (reg_templates rg u tps (reg_resources rg u rs g))))"
      using assms(1) iu by (auto intro!: refresh reg)
    show "gw_ok uni (snd (refreshRouteServer uni an u known (when_listed l4 (reg_templates rg u)
      (when_listed l3 (reg_resources rg u) (when_listed l2 (reg_prompts rg u) (when_listed l1 (reg_tools rg u) g))))))"
      using assms(1) iu by (intro refresh when_listed_ok reg) (simp_all add: when_listed_upstreams)
  qed
  show "gw_ok uni (snd (onToolListChanged uni rg ans name g))"
    using * assms(1) by (auto simp: onToolListChanged_def split: option.split)
  show "gw_ok uni (snd (onPromptListChanged uni rg ans name g))"
    using * assms(1) by (auto simp: onPromptListChanged_def split: option.split)
  show "gw_ok uni (snd (onResourceListChanged uni rg ans name g))"
    using * assms(1) by (auto simp: onResourceListChanged_def split: option.split)
  show "gw_ok uni (onUpstreamReconnect uni rg ans ans' name g)"
    using * assms(1) by (auto simp: onUpstreamReconnect_def Let_def split: option.split)
qed

lemma setRouteServer_upstreams [simp]: "gw_upstreams (setRouteServer uni u s g) = gw_upstreams g"
  by (simp add: setRouteServer_def Let_def)

lemma gw_ok_register_listed:
  assumes "gw_ok uni g" and "iu \<in> set (gw_upstreams g)" and "good_orders rg"
  shows "gw_ok uni (register_listed uni rg (snd iu) l g)"
proof -
  have "gw_ok uni (reg_all rg (snd iu) l g)" by (rule gw_ok_reg [OF assms])
  then show ?thesis
    using assms(2) by (simp add: register_listed_def Let_def gw_ok_setRoute)
qed

lemma register_listed_upstreams [simp]: "gw_upstreams (register_listed uni rg u l g) = gw_upstreams g"
  by (simp add: register_listed_def Let_def)

text \<open>Attaching: the prefixes of the other upstreams stay, a new name has none yet.\<close>

lemma prefix_of_append:
  "prefix_of (cs @ [c]) up =
     (if up \<in> up_name ` set cs then prefix_of cs up
      else if up = up_name c then tc_prefix (up_tools c) else [])"
  by (induction cs) (auto simp: prefix_of_def upstreamByName_def)

lemma features_ok_mono:
  assumes "features_ok pfx names g" and "names \<subseteq> names'" and "\<And>up. up \<in> names \<Longrightarrow> pfx' up = pfx up"
  shows "features_ok pfx' names' g"
proof -
  have t: "up \<in> names \<Longrightarrow> tool_target pfx up n h \<Longrightarrow> tool_target pfx' up n h"
    and p: "up \<in> names \<Longrightarrow> prompt_target pfx up n h \<Longrightarrow> prompt_target pfx' up n h" for up n h
    using assms(3) by (auto simp: tool_target_def prompt_target_def)
  have f: "feature_ok (tool_target pfx) names (gw_tools g) (ms_tools (gw_server g))"
     "feature_ok (prompt_target pfx) names (gw_prompts g) (ms_prompts (gw_server g))"
     "feature_ok read_target names (gw_resources g) (ms_resources (gw_server g))"
     "feature_ok read_target names (gw_templates g) (ms_templates (gw_server g))"
    using assms(1) by (simp_all only: features_ok_def)
  show ?thesis
    unfolding features_ok_def
    using feature_ok_mono [OF f(1) assms(2) t] feature_ok_mono [OF f(2) assms(2) p]
      feature_ok_mono [OF f(3) assms(2)] feature_ok_mono [OF f(4) assms(2)] by simp
qed

lemma features_ok_added:
  "features_ok pfx names (g\<lparr>gw_upstreams := us, gw_calls := cs\<rparr>) = features_ok pfx names g"
  by (simp add: features_ok_def)

lemma gw_ok_add:
  assumes "gw_ok uni g" and "iname iu \<notin> names_of g" and "fst iu \<notin> fst ` set (gw_upstreams g)" and "fst iu < gw_next g"
  shows "gw_ok uni (g\<lparr>gw_upstreams := gw_upstreams g @ [iu], gw_calls := cs\<rparr>)"
proof -
  let ?g = "g\<lparr>gw_upstreams := gw_upstreams g @ [iu], gw_calls := cs\<rparr>"
  have "prefixes_of ?g up = prefixes_of g up" if "up \<in> names_of g" for up
    using that by (auto simp: prefixes_of_def prefix_of_append names_of_def image_image)
  moreover have "features_ok (prefixes_of g) (names_of g) g" "names_of g \<subseteq> names_of ?g"
    using assms(1) by (auto simp: gw_ok_def names_of_def)
  ultimately have "features_ok (prefixes_of ?g) (names_of ?g) g"
    by (rule features_ok_mono [rotated 2]) 
  then have "features_ok (prefixes_of ?g) (names_of ?g) ?g" by (simp only: features_ok_added)
  moreover have "routes_ok uni ?g" using assms(1) by (auto simp: gw_ok_def routes_ok_def)
  ultimately show ?thesis using assms unfolding gw_ok_def by (auto simp: names_of_def)
qed

lemma attach_upstreams [simp]: "gw_upstreams (attachUpstream uni rg ans iu g) = gw_upstreams g @ [iu]"
  by (simp add: attachUpstream_def syncUpstream_def Let_def split: option.split)

lemma gw_ok_attach:
  assumes "gw_ok uni g" and "good_orders rg"
    and "iname iu \<notin> names_of g" and "fst iu \<notin> fst ` set (gw_upstreams g)" and "fst iu < gw_next g"
  shows "gw_ok uni (attachUpstream uni rg ans iu g)"
proof -
  note add = gw_ok_add [OF assms(1,3-5), of "gw_calls g @ [UConnect (fst iu)]"]
  have "gw_ok uni (register_listed uni rg (snd iu) l
      (g\<lparr>gw_upstreams := gw_upstreams g @ [iu], gw_calls := gw_calls g @ [UConnect (fst iu)]\<rparr>))" for l
    by (rule gw_ok_register_listed [OF add _ assms(2)]) simp
  then show ?thesis
    using add by (auto simp: attachUpstream_def syncUpstream_def Let_def split: option.split)
qed

text \<open>Detaching: what the upstream owned is gone, and its route with it.\<close>

lemma no_tools [simp]: "tool_payloads reserved u [] = []" "new_payloads key final [] = []" "tool_raws reserved u [] = []"
  by (simp_all add: tool_payloads_def tool_raws_def new_payloads_def tool_items_def)

lemma features_ok_detach:
  assumes "features_ok pfx names g" and "up_name (us_cfg u) \<in> names" and "good_orders rg"
  defines "up \<equiv> up_name (us_cfg u)"
  defines "g1 \<equiv> reg_all rg u \<lparr>li_tools = [], li_prompts = [], li_resources = [], li_templates = []\<rparr> g"
  shows "features_ok pfx (names - {up}) (g1\<lparr>gw_tools := drop_names up (gw_tools g1),
    gw_prompts := drop_names up (gw_prompts g1), gw_resources := drop_names up (gw_resources g1),
    gw_templates := drop_names up (gw_templates g1)\<rparr>)"
proof -
  have rg: "good_ranges (rg k up)" for k using assms(3) by (simp add: good_orders_def)
  then have ro: "range_order (fst (rg k up))" "range_order (snd (rg k up))" for k by (simp_all add: good_ranges_def)
  have up: "up \<in> names" using assms(2) by (simp add: up_def)
  have f: "feature_ok (tool_target pfx) names (gw_tools g) (ms_tools (gw_server g))"
     "feature_ok (prompt_target pfx) names (gw_prompts g) (ms_prompts (gw_server g))"
     "feature_ok read_target names (gw_resources g) (ms_resources (gw_server g))"
     "feature_ok read_target names (gw_templates g) (ms_templates (gw_server g))"
    using assms(1) by (simp_all add: features_ok_def)
  note d = feature_ok_detach [OF f(1) up rg refl] feature_ok_detach [OF f(2) up rg refl]
    feature_ok_detach [OF f(3) up rg refl] feature_ok_detach [OF f(4) up rg refl]
  show ?thesis
    unfolding features_ok_def g1_def
    by (intro conjI)
      (use d in \<open>simp_all add: reg_all_def reg_tools_def reg_prompts_def reg_resources_def reg_templates_def Let_def
        tools_generic [OF ro] registerUpstreamPrompts_def registerUpstreamResources_def
        registerUpstreamResourceTemplates_def flip: up_def\<close>)
qed

lemma removeRoute_eq:
  assumes "routes_ok uni g" and rs_def: "rs = filter (\<lambda>r. ro_upstream r \<noteq> up) (gw_routes g)"
  shows "removeRoute uni up g = g\<lparr>gw_routes := rs, gw_router := rebuild_router uni rs\<rparr>"
proof (cases "length rs = length (gw_routes g)")
  case True
  then have "rs = gw_routes g" unfolding rs_def by (metis length_filter_less less_irrefl filter_True)
  moreover have "gw_router g = rebuild_router uni (gw_routes g)" using assms(1) by (simp add: routes_ok_def)
  ultimately show ?thesis
    unfolding removeRoute_def Let_def rs_def [symmetric] by simp
next
  case False
  then show ?thesis unfolding removeRoute_def Let_def rs_def [symmetric] by simp
qed

lemma prefix_of_filter:
  "prefix_of (map f (filter P xs)) up = prefix_of (map f xs) up" if "\<And>x. x \<in> set xs \<Longrightarrow> up_name (f x) = up \<Longrightarrow> P x"
  using that by (induction xs) (auto simp: prefix_of_def upstreamByName_def)

lemma detach_upstreams:
  "gw_upstreams (detachUpstream uni rg iu g) = filter (\<lambda>x. fst x \<noteq> fst iu) (gw_upstreams g)"
  by (simp add: detachUpstream_def removeRoute_def Let_def)

lemma gw_ok_detach:
  assumes "gw_ok uni g" and "iu \<in> set (gw_upstreams g)" and "good_orders rg"
  shows "gw_ok uni (detachUpstream uni rg iu g)"
proof -
  define up where "up = iname iu"
  define us where "us = filter (\<lambda>x. fst x \<noteq> fst iu) (gw_upstreams g)"
  define rs where "rs = filter (\<lambda>r. ro_upstream r \<noteq> up) (gw_routes g)"
  define g1 where "g1 = reg_all rg (snd iu) \<lparr>li_tools = [], li_prompts = [], li_resources = [], li_templates = []\<rparr> g"
  define g2 where "g2 = g1\<lparr>gw_tools := drop_names up (gw_tools g1), gw_prompts := drop_names up (gw_prompts g1),
      gw_resources := drop_names up (gw_resources g1), gw_templates := drop_names up (gw_templates g1)\<rparr>"
  have g: "distinct (map iname (gw_upstreams g))" "distinct (map fst (gw_upstreams g))" "routes_ok uni g"
      "features_ok (prefixes_of g) (names_of g) g"
    using assms(1) by (simp_all add: gw_ok_def)
  have frame: "same_frame g g1" unfolding g1_def by (rule same_frame_all)
  have same: "gw_upstreams g2 = gw_upstreams g" "gw_routes g2 = gw_routes g" "gw_router g2 = gw_router g"
      "gw_next g2 = gw_next g" "ms_scope (gw_server g2) = ms_scope (gw_server g)"
    using frame by (simp_all add: g2_def same_frame_def)
  have eq: "detachUpstream uni rg iu g = g2\<lparr>gw_routes := rs, gw_router := rebuild_router uni rs, gw_upstreams := us\<rparr>"
  proof -
    have "routes_ok uni g2" using g(3) by (simp add: routes_ok_def same)
    from removeRoute_eq [OF this refl, of up]
    show ?thesis by (simp add: detachUpstream_def Let_def same us_def rs_def flip: g1_def up_def g2_def)
  qed
  have others: "x \<in> set us \<longleftrightarrow> x \<in> set (gw_upstreams g) \<and> iname x \<noteq> up" for x
  proof
    assume "x \<in> set us"
    then have x: "x \<in> set (gw_upstreams g)" "fst x \<noteq> fst iu" by (simp_all add: us_def)
    then have "iname x \<noteq> up" using distinct_names_inj [OF g(1) x(1) assms(2)] by (auto simp: up_def)
    with x show "x \<in> set (gw_upstreams g) \<and> iname x \<noteq> up" by blast
  next
    assume x: "x \<in> set (gw_upstreams g) \<and> iname x \<noteq> up"
    have "inj_on fst (set (gw_upstreams g))" using g(2) by (simp add: distinct_map)
    then have "fst x \<noteq> fst iu" using x assms(2) unfolding inj_on_def up_def by auto
    then show "x \<in> set us" using x by (simp add: us_def)
  qed
  have "features_ok (prefixes_of g) (names_of g - {up}) g2"
    unfolding g2_def g1_def up_def
    by (rule features_ok_detach [OF g(4) gw_ok_prefix(2) [OF assms(1,2)] assms(3)])
  moreover have "prefix_of (map (\<lambda>iu. us_cfg (snd iu)) us) v = prefixes_of g v" if "v \<in> names_of g - {up}" for v
    unfolding us_def prefixes_of_def
  proof (rule prefix_of_filter)
    fix x
    assume "x \<in> set (gw_upstreams g)" "iname x = v"
    with that show "fst x \<noteq> fst iu" using others [of x] by (auto simp: us_def)
  qed
  moreover have "iname ` set us = names_of g - {up}" using others by (auto simp: names_of_def)
  ultimately have "features_ok (prefix_of (map (\<lambda>iu. us_cfg (snd iu)) us)) (iname ` set us) g2"
    using features_ok_mono [of "prefixes_of g" "names_of g - {up}" g2] by simp
  moreover have "distinct (map ro_upstream rs)"
    using g(3) by (simp add: rs_def routes_ok_def distinct_map_filter)
  moreover have "\<forall>r\<in>set rs. \<exists>iu\<in>set us. route_for (snd iu) r"
  proof
    fix r
    assume r: "r \<in> set rs"
    then obtain iv where "iv \<in> set (gw_upstreams g)" "route_for (snd iv) r"
      using g(3) by (auto simp: rs_def routes_ok_def)
    moreover have "iname iv \<noteq> up" using r calculation(2) by (auto simp: rs_def route_for_def)
    ultimately show "\<exists>iu\<in>set us. route_for (snd iu) r" using others by blast
  qed
  moreover have "distinct (map iname us)" "distinct (map fst us)" "\<forall>iu\<in>set us. fst iu < gw_next g"
    using assms(1) by (auto simp: us_def gw_ok_def distinct_map_filter)
  moreover have "ms_scope (gw_server g) = None" using assms(1) by (simp add: gw_ok_def)
  ultimately show ?thesis
    unfolding eq gw_ok_def by (simp add: same prefixes_of_def names_of_def routes_ok_def features_ok_def)
qed

subsection \<open>Construction and Build establish it\<close>

lemma new_upstreams_nth:
  "new_upstreams pd compile cfg rd i ucs = Inr us \<Longrightarrow>
     map fst us = [i..<i + length ucs] \<and>
     list_all2 (\<lambda>uc iu. newUpstream pd compile uc cfg rd = Inr (snd iu)) ucs us"
proof (induction ucs arbitrary: i us)
  case (Cons uc ucs)
  then obtain u us' where "newUpstream pd compile uc cfg rd = Inr u"
      "new_upstreams pd compile cfg rd (Suc i) ucs = Inr us'" "us = (i, u) # us'"
    by (auto split: sum.splits)
  with Cons.IH [of "Suc i" us'] show ?case by (simp add: upt_rec)
qed simp

lemma newUpstream_cfg: "newUpstream pd compile uc cfg rd = Inr u \<Longrightarrow> us_cfg u = uc"
  by (auto simp: newUpstream_def NewUpstream_def Let_def split: option.splits sum.splits)

lemma new_upstreams_names:
  assumes "new_upstreams pd compile cfg rd i ucs = Inr us"
  shows "map (\<lambda>iu. us_cfg (snd iu)) us = ucs" and "map fst us = [i..<i + length ucs]"
proof -
  note * = new_upstreams_nth [OF assms]
  have "list_all2 (\<lambda>uc iu. us_cfg (snd iu) = uc) ucs us"
    by (rule list_all2_mono [OF conjunct2 [OF *]]) (rule newUpstream_cfg)
  then show "map (\<lambda>iu. us_cfg (snd iu)) us = ucs"
    by (induction rule: list_all2_induct) auto
  show "map fst us = [i..<i + length ucs]" using * by blast
qed

lemma feature_ok_ensured:
  "feature_ok P names (fold (\<lambda>uc. ensureUpstream (up_name uc)) ucs newFeatureRegistry) Map.empty"
proof -
  have "feature_ok P names r Map.empty \<Longrightarrow>
      feature_ok P names (fold (\<lambda>uc. ensureUpstream (up_name uc)) ucs r) Map.empty" for r
  proof (induction ucs arbitrary: r)
    case (Cons uc ucs)
    have "feature_ok P names (ensureUpstream (up_name uc) r) Map.empty"
      using Cons.prems by (simp add: feature_ok_def reg_ok_def serves_def cong: option.case_cong)
    from Cons.IH [OF this] show ?case by simp
  qed simp
  then show ?thesis using feature_ok_new by blast
qed

lemma gw_ok_New:
  assumes "New pd compile bs cfg = Inr g" and "distinct (map up_name (cf_upstreams (setDefaults cfg)))"
  shows "gw_ok uni g"
proof -
  obtain us res rd where us: "new_upstreams pd compile (setDefaults cfg) rd 0 (cf_upstreams (setDefaults cfg)) = Inr us"
    and g: "gw_upstreams g = us" "gw_routes g = []" "gw_router g = new_router" "gw_next g = length us"
      "ms_scope (gw_server g) = None"
      "gw_tools g = fold (\<lambda>uc. ensureUpstream (up_name uc)) (cf_upstreams (setDefaults cfg)) newFeatureRegistry"
      "gw_prompts g = newFeatureRegistry" "gw_resources g = newFeatureRegistry" "gw_templates g = newFeatureRegistry"
      "ms_tools (gw_server g) = Map.empty" "ms_prompts (gw_server g) = Map.empty"
      "ms_resources (gw_server g) = Map.empty" "ms_templates (gw_server g) = Map.empty"
    using assms(1) by (auto simp: New_def Let_def new_server_def split: sum.splits)
  note names = new_upstreams_names [OF us]
  have len: "length (cf_upstreams (setDefaults cfg)) = length us" using arg_cong [OF names(1), of length] by simp
  have "map up_name (map (\<lambda>iu. us_cfg (snd iu)) us) = map iname us" by simp
  then have "distinct (map iname us)" using assms(2) unfolding names(1) by simp
  moreover have "distinct (map fst us)" "\<forall>iu\<in>set us. fst iu < length us"
  proof -
    show "distinct (map fst us)" unfolding names(2) by simp
    have "set (map fst us) = {0..<length us}" unfolding names(2) len by simp
    then show "\<forall>iu\<in>set us. fst iu < length us" by force
  qed
  ultimately show ?thesis
    by (simp add: gw_ok_def g features_ok_def feature_ok_new feature_ok_ensured routes_ok_def rebuild_router_def)
qed

lemma build_list_subset: "\<forall>il\<in>set (fst (build_list ans us)). fst il \<in> set us"
  by (induction us) (auto simp: Let_def split_def split: option.splits)

lemma gw_ok_fields:
  "gw_ok uni (g\<lparr>gw_calls := cs\<rparr>) = gw_ok uni g" "gw_ok uni (g\<lparr>gw_built := b\<rparr>) = gw_ok uni g"
  by (simp_all add: gw_ok_def features_ok_def routes_ok_def prefixes_of_def names_of_def)

lemma gw_ok_register_all:
  assumes "gw_ok uni g" and "fst ` set ls \<subseteq> set (gw_upstreams g)" and "good_orders rg"
  shows "gw_ok uni (fold (\<lambda>(iu, l). register_listed uni rg (snd iu) l) ls g)"
  using assms
proof (induction ls arbitrary: g)
  case (Cons il ls)
  obtain iu l where il: "il = (iu, l)" by (cases il)
  have "gw_ok uni (register_listed uni rg (snd iu) l g)"
    using Cons.prems by (intro gw_ok_register_listed) (auto simp: il)
  from Cons.IH [OF this] show ?case using Cons.prems by (simp add: il)
qed simp

lemma gw_ok_Build:
  assumes "gw_ok uni g" and "good_orders rg" and "Build uni rg ans g = (Inr (), g')"
  shows "gw_ok uni g'"
proof -
  obtain ls cs where b: "build_list ans (gw_upstreams g) = (ls, cs)" by (cases "build_list ans (gw_upstreams g)")
  then have g': "g' = (fold (\<lambda>(iu, l). register_listed uni rg (snd iu) l) ls (g\<lparr>gw_calls := gw_calls g @ cs\<rparr>))
      \<lparr>gw_built := True\<rparr>"
    using assms(3) by (auto simp: Build_def Let_def split: option.splits)
  have "fst ` set ls \<subseteq> set (gw_upstreams g)" using build_list_subset [of ans "gw_upstreams g"] b by auto
  then show ?thesis
    unfolding g' gw_ok_fields using assms(1,2) by (intro gw_ok_register_all) (simp_all add: gw_ok_fields)
qed

end
