(* ===== verification/Gw_Reload.thy ===== *)
theory Gw_Reload
  imports Gw_Gateway
begin

text \<open>
  Reloading a running gateway, \<open>internal/gateway/reload.go\<close>: the diff of two configurations, the order in which
  the new one is applied, and what holds in every state a gateway reaches by building, notifications,
  reconnects and reloads.

  \<open>reflect.DeepEqual\<close> tells a nil slice or map from an empty one; the lists of the model do not. The
  argument \<open>nd\<close> says when two values that are equal here differ in that, so that the code restarts
  for it; every statement holds for any \<open>nd\<close>.
\<close>

subsection \<open>Deep equality\<close>

definition gomap_eq :: "('k, 'v) gomap \<Rightarrow> ('k, 'v) gomap \<Rightarrow> bool" where
  "gomap_eq m m' \<longleftrightarrow> list_all (\<lambda>k. map_of m k = map_of m' k) (map fst m @ map fst m')"

lemma gomap_eq_iff: "gomap_eq m m' \<longleftrightarrow> map_of m = map_of m'"
proof
  assume "gomap_eq m m'"
  then have "map_of m k = map_of m' k" if "k \<in> set (map fst m) \<or> k \<in> set (map fst m')" for k
    using that by (auto simp: gomap_eq_def list_all_iff)
  moreover have "map_of m k = None \<and> map_of m' k = None" if "\<not> (k \<in> set (map fst m) \<or> k \<in> set (map fst m'))" for k
    using that by (simp add: map_of_eq_None_iff)
  ultimately show "map_of m = map_of m'" by (metis ext)
qed (simp add: gomap_eq_def list_all_iff)

record nil_diff =
  nd_upstream :: "upstream_config \<Rightarrow> upstream_config \<Rightarrow> bool"
  nd_redact :: "redact_config \<Rightarrow> redact_config \<Rightarrow> bool"
  nd_auth :: "auth_config \<Rightarrow> auth_config \<Rightarrow> bool"

definition upstream_deep_equal :: "nil_diff \<Rightarrow> upstream_config \<Rightarrow> upstream_config \<Rightarrow> bool" where
  "upstream_deep_equal nd a b \<longleftrightarrow>
     a\<lparr>up_headers := [], up_env := []\<rparr> = b\<lparr>up_headers := [], up_env := []\<rparr> \<and>
     gomap_eq (up_headers a) (up_headers b) \<and> gomap_eq (up_env a) (up_env b) \<and> \<not> nd_upstream nd a b"

text \<open>Equality of the content, whatever \<open>nd\<close> says.\<close>

definition same_section :: "upstream_config \<Rightarrow> upstream_config \<Rightarrow> bool" where
  "same_section a b \<longleftrightarrow>
     a\<lparr>up_headers := [], up_env := []\<rparr> = b\<lparr>up_headers := [], up_env := []\<rparr> \<and>
     map_of (up_headers a) = map_of (up_headers b) \<and> map_of (up_env a) = map_of (up_env b)"

subsection \<open>The plan\<close>

definition secretsByName :: "secret_config list \<Rightarrow> (string, secret_config) gomap" where
  "secretsByName ss = fold (\<lambda>s. AList.update (se_name s) s) ss []"

text \<open>Reading an absent key of a map of structs gives the zero struct.\<close>

definition sec_get :: "(string, secret_config) gomap \<Rightarrow> string \<Rightarrow> secret_config" where
  "sec_get m n = (case map_of m n of
     Some s \<Rightarrow> s
   | None \<Rightarrow> \<lparr>se_name = [], se_value = [], se_env = [], se_file = [], se_command = []\<rparr>)"

definition secretRefsChanged ::
  "upstream_config \<Rightarrow> (string, secret_config) gomap \<Rightarrow> (string, secret_config) gomap \<Rightarrow> bool" where
  "secretRefsChanged uc oldSecrets newSecrets =
     list_ex (\<lambda>v. list_ex (\<lambda>n. sec_get oldSecrets n \<noteq> sec_get newSecrets n) (extractSecretRefs v))
       (map snd (up_env uc) @ map snd (up_headers uc))"

datatype verdict = VAdd | VRestart | VUnchanged

definition plan_verdict ::
  "nil_diff \<Rightarrow> (string, upstream_config) gomap \<Rightarrow> (string, secret_config) gomap \<Rightarrow> (string, secret_config) gomap
     \<Rightarrow> bool \<Rightarrow> upstream_config \<Rightarrow> verdict" where
  "plan_verdict nd oldByName oldSecrets newSecrets globalRedactChanged uc =
     (case map_of oldByName (up_name uc) of
        None \<Rightarrow> VAdd
      | Some prev \<Rightarrow>
          (if \<not> upstream_deep_equal nd prev uc \<or> (up_redact uc = None \<and> globalRedactChanged) \<or>
              secretRefsChanged uc oldSecrets newSecrets
           then VRestart else VUnchanged))"

record upstream_plan =
  pl_add :: "upstream_config list"
  pl_restart :: "upstream_config list"
  pl_remove :: "upstream_config list"
  pl_unchanged :: "string list"

definition planUpstreams :: "nil_diff \<Rightarrow> config \<Rightarrow> config \<Rightarrow> upstream_plan" where
  "planUpstreams nd oldCfg newCfg =
     (let oldByName = fold (\<lambda>uc. AList.update (up_name uc) uc) (cf_upstreams oldCfg) [];
          redactChanged = (cf_redact oldCfg \<noteq> cf_redact newCfg \<or> nd_redact nd (cf_redact oldCfg) (cf_redact newCfg));
          v = plan_verdict nd oldByName (secretsByName (cf_secrets oldCfg)) (secretsByName (cf_secrets newCfg)) redactChanged;
          seen = map up_name (cf_upstreams newCfg)
      in \<lparr>pl_add = filter (\<lambda>uc. v uc = VAdd) (cf_upstreams newCfg),
          pl_restart = filter (\<lambda>uc. v uc = VRestart) (cf_upstreams newCfg),
          pl_remove = filter (\<lambda>uc. up_name uc \<notin> set seen) (cf_upstreams oldCfg),
          pl_unchanged = map up_name (filter (\<lambda>uc. v uc = VUnchanged) (cf_upstreams newCfg))\<rparr>)"

definition blobStoreChanged :: "blob_config \<Rightarrow> blob_config \<Rightarrow> bool" where
  "blobStoreChanged a b \<longleftrightarrow> a\<lparr>bl_mounts := []\<rparr> \<noteq> b\<lparr>bl_mounts := []\<rparr>"

definition restartRequired :: "nil_diff \<Rightarrow> config \<Rightarrow> config \<Rightarrow> string list" where
  "restartRequired nd oldCfg newCfg =
     (if cf_server oldCfg \<noteq> cf_server newCfg then [''server''] else []) @
     (if cf_auth oldCfg \<noteq> cf_auth newCfg \<or> nd_auth nd (cf_auth oldCfg) (cf_auth newCfg) then [''auth''] else []) @
     (if anyLazy oldCfg \<noteq> anyLazy newCfg then [''tools.lazy''] else []) @
     (if blobStoreChanged (cf_blob oldCfg) (cf_blob newCfg) then [''blob''] else [])"

subsection \<open>Reload\<close>

record reload_result =
  rr_added :: "string list"
  rr_removed :: "string list"
  rr_restarted :: "string list"
  rr_unchanged :: "string list"
  rr_restart_required :: "string list"

definition no_result :: reload_result where
  "no_result = \<lparr>rr_added = [], rr_removed = [], rr_restarted = [], rr_unchanged = [], rr_restart_required = []\<rparr>"

datatype reload_error =
    NilConfig
  | InvalidConfig config_error
  | ReloadSecrets secret_error
  | ReloadNew new_error

text \<open>Every upstream to go is looked up by name and detached; those found are to be closed.\<close>

fun detach_all ::
  "(string \<Rightarrow> string) \<Rightarrow> range_orders \<Rightarrow> upstream_config list \<Rightarrow> gateway \<Rightarrow> up_instance list \<times> gateway" where
  "detach_all uni rg [] g = ([], g)"
| "detach_all uni rg (uc # ucs) g =
     (case upstream_by_name g (up_name uc) of
        None \<Rightarrow> detach_all uni rg ucs g
      | Some iu \<Rightarrow> (let (ds, g') = detach_all uni rg ucs (detachUpstream uni rg iu g) in (iu # ds, g')))"

text \<open>The mount list is re-advertised when the names or the prefixes differ.\<close>

definition swap_mounts :: "blob_mount list \<Rightarrow> blob_mount list \<Rightarrow> gateway \<Rightarrow> gateway" where
  "swap_mounts oldMounts mounts g =
     (if gw_blob_store g \<and> map (\<lambda>m. (bm_name m, bm_prefix m)) oldMounts \<noteq> map (\<lambda>m. (bm_name m, bm_prefix m)) mounts
      then g\<lparr>gw_blob_desc := Some (blobShareDescription mounts)\<rparr> else g)"

definition apply_plan ::
  "(string \<Rightarrow> string) \<Rightarrow> range_orders \<Rightarrow> (nat \<Rightarrow> up_answer) \<Rightarrow> config \<Rightarrow> secret_resolver \<Rightarrow> upstream_plan
     \<Rightarrow> up_instance list \<Rightarrow> gateway \<Rightarrow> gateway" where
  "apply_plan uni rg ans cfg res plan fresh g =
     (let mounts = newBlobMounts (bl_mounts (cf_blob cfg));
          g1 = g\<lparr>gw_cfg := cfg, gw_resolver := res, gw_mounts := mounts, gw_next := gw_next g + length fresh\<rparr>;
          g2 = swap_mounts (gw_mounts g) mounts g1;
          (detached, g3) = detach_all uni rg (pl_remove plan @ pl_restart plan) g2
      in fold (attachUpstream uni rg ans) fresh (closeUpstreams detached g3))"

definition Reload ::
  "(string \<Rightarrow> string) \<Rightarrow> (string \<Rightarrow> int option) \<Rightarrow> (string \<Rightarrow> (string \<Rightarrow> string) option) \<Rightarrow> nil_diff \<Rightarrow> range_orders
     \<Rightarrow> (nat \<Rightarrow> up_answer) \<Rightarrow> config option \<Rightarrow> gateway \<Rightarrow> reload_result \<times> reload_error option \<times> gateway" where
  "Reload uni pd compile nd rg ans cfg0 g =
     (case cfg0 of
        None \<Rightarrow> (no_result, Some NilConfig, g)
      | Some c \<Rightarrow>
          (let cfg = setDefaults c in
           case Validate pd compile cfg of
             Inl e \<Rightarrow> (no_result, Some (InvalidConfig e), g)
           | Inr _ \<Rightarrow>
               (case NewSecretResolver (cf_secrets cfg) of
                  Inl e \<Rightarrow> (no_result, Some (ReloadSecrets e), g)
                | Inr res \<Rightarrow>
                    (case global_redactor compile cfg of
                       Inl e \<Rightarrow> (no_result, Some (ReloadNew e), g)
                     | Inr rd \<Rightarrow>
                         (let plan = planUpstreams nd (gw_cfg g) cfg;
                              r1 = no_result\<lparr>rr_restart_required := restartRequired nd (gw_cfg g) cfg,
                                rr_unchanged := pl_unchanged plan\<rparr>
                          in case new_upstreams pd compile cfg rd (gw_next g) (pl_add plan @ pl_restart plan) of
                               Inl e \<Rightarrow> (r1, Some (ReloadNew e), g)
                             | Inr fresh \<Rightarrow>
                                 (r1\<lparr>rr_added := map up_name (pl_add plan), rr_removed := map up_name (pl_remove plan),
                                    rr_restarted := map up_name (pl_restart plan)\<rparr>, None,
                                  apply_plan uni rg ans cfg res plan fresh g))))))"

text \<open>\<open>UpstreamStatus\<close>: how many of the upstreams hold a session, and how many do not.\<close>

definition UpstreamStatus :: "(nat \<Rightarrow> bool) \<Rightarrow> gateway \<Rightarrow> nat \<times> nat" where
  "UpstreamStatus holds g =
     (length (filter (\<lambda>iu. holds (fst iu)) (gw_upstreams g)),
      length (filter (\<lambda>iu. \<not> holds (fst iu)) (gw_upstreams g)))"

subsection \<open>What attaching and detaching leave alone\<close>

definition same_config :: "gateway \<Rightarrow> gateway \<Rightarrow> bool" where
  "same_config g g' \<longleftrightarrow> gw_cfg g' = gw_cfg g \<and> gw_resolver g' = gw_resolver g \<and> gw_next g' = gw_next g \<and>
     gw_mounts g' = gw_mounts g \<and> gw_blob_desc g' = gw_blob_desc g \<and> gw_blob_store g' = gw_blob_store g \<and>
     gw_built g' = gw_built g \<and> gw_discovery g' = gw_discovery g"

lemma same_config_refl [simp]: "same_config g g"
  by (simp add: same_config_def)

lemma same_config_trans: "same_config g g' \<Longrightarrow> same_config g' g'' \<Longrightarrow> same_config g g''"
  by (simp add: same_config_def)

lemma same_config_reg_all: "same_config g (reg_all rg u l g)"
  by (simp add: same_config_def reg_all_def reg_tools_def reg_prompts_def reg_resources_def reg_templates_def Let_def)

lemma reg_all_calls [simp]: "gw_calls (reg_all rg u l g) = gw_calls g"
  using same_frame_all by (simp add: same_frame_def)

lemma setRoute_frame [simp]: "same_config g (setRouteServer uni u s g)" "gw_calls (setRouteServer uni u s g) = gw_calls g"
  by (simp_all add: same_config_def setRouteServer_def Let_def)

lemma removeRoute_frame [simp]: "same_config g (removeRoute uni up g)" "gw_calls (removeRoute uni up g) = gw_calls g"
  by (simp_all add: same_config_def removeRoute_def Let_def)

lemma register_listed_frame [simp]:
  "same_config g (register_listed uni rg u l g)" "gw_calls (register_listed uni rg u l g) = gw_calls g"
  unfolding register_listed_def Let_def
  using same_config_reg_all same_config_trans [OF same_config_reg_all setRoute_frame(1)] by auto

lemma attach_frame [simp]:
  "same_config g (attachUpstream uni rg ans iu g)"
  "gw_calls (attachUpstream uni rg ans iu g) = gw_calls g @ [UConnect (fst iu)]"
proof -
  let ?g = "g\<lparr>gw_upstreams := gw_upstreams g @ [iu], gw_calls := gw_calls g @ [UConnect (fst iu)]\<rparr>"
  have "same_config g ?g" by (simp add: same_config_def)
  then show "same_config g (attachUpstream uni rg ans iu g)"
    by (auto simp: attachUpstream_def syncUpstream_def Let_def split: option.split
        intro: same_config_trans [OF _ register_listed_frame(1)])
  show "gw_calls (attachUpstream uni rg ans iu g) = gw_calls g @ [UConnect (fst iu)]"
    by (simp add: attachUpstream_def syncUpstream_def Let_def split: option.split)
qed

lemma detach_frame [simp]:
  "same_config g (detachUpstream uni rg iu g)" "gw_calls (detachUpstream uni rg iu g) = gw_calls g"
proof -
  let ?g1 = "reg_all rg (snd iu) \<lparr>li_tools = [], li_prompts = [], li_resources = [], li_templates = []\<rparr> g"
  have "same_config g ?g1" by (rule same_config_reg_all)
  then show "same_config g (detachUpstream uni rg iu g)"
    by (simp add: detachUpstream_def Let_def same_config_def removeRoute_def)
  show "gw_calls (detachUpstream uni rg iu g) = gw_calls g"
    by (simp add: detachUpstream_def Let_def removeRoute_def)
qed

text \<open>Detaching by name.\<close>

lemma detach_by_name:
  assumes "gw_ok uni g" and "iu \<in> set (gw_upstreams g)"
  shows "gw_upstreams (detachUpstream uni rg iu g) = filter (\<lambda>x. iname x \<noteq> iname iu) (gw_upstreams g)"
  unfolding detach_upstreams
proof (rule filter_cong [OF refl])
  fix x
  assume x: "x \<in> set (gw_upstreams g)"
  have d: "distinct (map iname (gw_upstreams g))" "distinct (map fst (gw_upstreams g))"
    using assms(1) by (simp_all add: gw_ok_def)
  have "fst x = fst iu \<Longrightarrow> x = iu" using d(2) x assms(2) by (simp add: distinct_map inj_on_def)
  moreover have "iname x = iname iu \<Longrightarrow> x = iu" by (rule distinct_names_inj [OF d(1) x assms(2)])
  ultimately show "(fst x \<noteq> fst iu) = (iname x \<noteq> iname iu)" by blast
qed

lemma upstream_by_name_None:
  "upstream_by_name g name = None \<longleftrightarrow> name \<notin> iname ` set (gw_upstreams g)"
  unfolding upstream_by_name_def find_None_iff by force

lemma detach_all_ok:
  assumes "gw_ok uni g" and "good_orders rg"
  shows "gw_ok uni (snd (detach_all uni rg ucs g)) \<and>
    gw_upstreams (snd (detach_all uni rg ucs g)) = filter (\<lambda>iu. iname iu \<notin> up_name ` set ucs) (gw_upstreams g) \<and>
    set (fst (detach_all uni rg ucs g)) = {iu \<in> set (gw_upstreams g). iname iu \<in> up_name ` set ucs} \<and>
    same_config g (snd (detach_all uni rg ucs g)) \<and> gw_calls (snd (detach_all uni rg ucs g)) = gw_calls g"
  using assms
proof (induction ucs arbitrary: g)
  case (Cons uc ucs)
  show ?case
  proof (cases "upstream_by_name g (up_name uc)")
    case None
    then have "iname iu \<noteq> up_name uc" if "iu \<in> set (gw_upstreams g)" for iu
      using that unfolding upstream_by_name_None by force
    then have "filter (\<lambda>iu. iname iu \<notin> up_name ` set (uc # ucs)) (gw_upstreams g) =
        filter (\<lambda>iu. iname iu \<notin> up_name ` set ucs) (gw_upstreams g)"
      and "{iu \<in> set (gw_upstreams g). iname iu \<in> up_name ` set (uc # ucs)} =
        {iu \<in> set (gw_upstreams g). iname iu \<in> up_name ` set ucs}"
      by (auto intro!: filter_cong)
    then show ?thesis using Cons.IH [OF Cons.prems] None by simp
  next
    case (Some iu)
    note iu = upstream_by_name_Some [OF Some]
    let ?g = "detachUpstream uni rg iu g"
    have ok: "gw_ok uni ?g" using gw_ok_detach [OF Cons.prems(1) _ Cons.prems(2)] iu by blast
    have ups: "gw_upstreams ?g = filter (\<lambda>x. iname x \<noteq> up_name uc) (gw_upstreams g)"
      using detach_by_name [OF Cons.prems(1)] iu by metis
    have "distinct (map iname (gw_upstreams g))" using Cons.prems(1) by (simp add: gw_ok_def)
    then have uniq: "x = iu" if "x \<in> set (gw_upstreams g)" "iname x = up_name uc" for x
      using distinct_names_inj that iu by metis
    note IH = Cons.IH [OF ok Cons.prems(2)]
    have "filter (\<lambda>x. iname x \<notin> up_name ` set ucs) (gw_upstreams ?g) =
        filter (\<lambda>x. iname x \<notin> up_name ` set (uc # ucs)) (gw_upstreams g)"
      unfolding ups filter_filter by (rule filter_cong) auto
    moreover have "insert iu {x \<in> set (gw_upstreams ?g). iname x \<in> up_name ` set ucs} =
        {x \<in> set (gw_upstreams g). iname x \<in> up_name ` set (uc # ucs)}"
      unfolding ups using iu uniq by auto
    moreover have "same_config g (snd (detach_all uni rg ucs ?g))"
      using same_config_trans [OF detach_frame(1)] IH by blast
    ultimately show ?thesis using IH Some by (simp add: Let_def split_def)
  qed
qed simp

lemma attach_all_ok:
  assumes "gw_ok uni g" and "good_orders rg" and "distinct (map iname fresh)" and "distinct (map fst fresh)"
    and "\<forall>iu\<in>set fresh. iname iu \<notin> names_of g \<and> fst iu \<notin> fst ` set (gw_upstreams g) \<and> fst iu < gw_next g"
  shows "gw_ok uni (fold (attachUpstream uni rg ans) fresh g) \<and>
    gw_upstreams (fold (attachUpstream uni rg ans) fresh g) = gw_upstreams g @ fresh \<and>
    same_config g (fold (attachUpstream uni rg ans) fresh g) \<and>
    gw_calls (fold (attachUpstream uni rg ans) fresh g) = gw_calls g @ map (\<lambda>iu. UConnect (fst iu)) fresh"
  using assms
proof (induction fresh arbitrary: g)
  case (Cons iu fresh)
  let ?g = "attachUpstream uni rg ans iu g"
  have new: "iname iu \<notin> names_of g" "fst iu \<notin> fst ` set (gw_upstreams g)" "fst iu < gw_next g"
    using Cons.prems(5) by simp_all
  have ok: "gw_ok uni ?g" by (rule gw_ok_attach [OF Cons.prems(1,2) new])
  have cfg: "same_config g ?g" by simp
  have "\<forall>x\<in>set fresh. iname x \<notin> names_of ?g \<and> fst x \<notin> fst ` set (gw_upstreams ?g) \<and> fst x < gw_next ?g"
  proof
    fix x
    assume x: "x \<in> set fresh"
    then have "iname x \<noteq> iname iu" "fst x \<noteq> fst iu"
      using Cons.prems(3,4) by (simp_all, metis image_eqI, metis image_eqI)
    then show "iname x \<notin> names_of ?g \<and> fst x \<notin> fst ` set (gw_upstreams ?g) \<and> fst x < gw_next ?g"
      using Cons.prems(5) x cfg by (auto simp: names_of_def same_config_def)
  qed
  from Cons.IH [OF ok Cons.prems(2) _ _ this] Cons.prems(3,4) same_config_trans [OF cfg] show ?case
    by auto
qed simp

text \<open>Applying a plan, all its steps.\<close>

lemma apply_plan_ok:
  assumes "gw_ok uni g" and "good_orders rg" and "distinct (map iname fresh)"
    and "map fst fresh = [gw_next g..<gw_next g + length fresh]"
    and gone_def: "gone = up_name ` set (pl_remove plan @ pl_restart plan)"
    and "iname ` set fresh \<inter> (names_of g - gone) = {}"
    and g'_def: "g' = apply_plan uni rg ans cfg res plan fresh g"
  shows "gw_ok uni g'" and "gw_upstreams g' = filter (\<lambda>iu. iname iu \<notin> gone) (gw_upstreams g) @ fresh"
    and "gw_cfg g' = cfg" and "gw_resolver g' = res" and "gw_next g' = gw_next g + length fresh"
    and "\<exists>ds. gw_calls g' = gw_calls g @ map (\<lambda>iu. UClose (fst iu)) ds @ map (\<lambda>iu. UConnect (fst iu)) fresh \<and>
      set ds = {iu \<in> set (gw_upstreams g). iname iu \<in> gone}"
proof -
  define mounts where "mounts = newBlobMounts (bl_mounts (cf_blob cfg))"
  define g1 where "g1 = g\<lparr>gw_cfg := cfg, gw_resolver := res, gw_mounts := mounts, gw_next := gw_next g + length fresh\<rparr>"
  define g2 where "g2 = swap_mounts (gw_mounts g) mounts g1"
  define ucs where "ucs = pl_remove plan @ pl_restart plan"
  obtain ds g3 where d: "detach_all uni rg ucs g2 = (ds, g3)" by (cases "detach_all uni rg ucs g2")
  define g4 where "g4 = closeUpstreams ds g3"
  have g': "g' = fold (attachUpstream uni rg ans) fresh g4"
    using d by (simp add: g'_def apply_plan_def Let_def g4_def g2_def g1_def mounts_def ucs_def)
  have g2: "gw_upstreams g2 = gw_upstreams g" "gw_calls g2 = gw_calls g" "gw_cfg g2 = cfg" "gw_resolver g2 = res"
      "gw_next g2 = gw_next g + length fresh"
    by (simp_all add: g2_def g1_def swap_mounts_def)
  have "gw_ok uni g2"
    using assms(1) by (auto simp: g2_def g1_def swap_mounts_def gw_ok_def features_ok_def routes_ok_def prefixes_of_def names_of_def)
  from detach_all_ok [OF this assms(2), of ucs]
  have g3: "gw_ok uni g3" "gw_upstreams g3 = filter (\<lambda>iu. iname iu \<notin> gone) (gw_upstreams g)"
      "set ds = {iu \<in> set (gw_upstreams g). iname iu \<in> gone}" "same_config g2 g3" "gw_calls g3 = gw_calls g"
    unfolding d fst_conv snd_conv g2 gone_def ucs_def [symmetric] by blast+
  have "gw_ok uni g4" using g3(1) by (simp add: g4_def closeUpstreams_def gw_ok_fields)
  moreover have "\<forall>iu\<in>set fresh. iname iu \<notin> names_of g4 \<and> fst iu \<notin> fst ` set (gw_upstreams g4) \<and> fst iu < gw_next g4"
  proof
    fix iu
    assume iu: "iu \<in> set fresh"
    then have "fst iu \<in> set [gw_next g..<gw_next g + length fresh]" unfolding assms(4) [symmetric] by simp
    then have "gw_next g \<le> fst iu" "fst iu < gw_next g + length fresh" by simp_all
    moreover have "\<forall>iv\<in>set (gw_upstreams g). fst iv < gw_next g" using assms(1) by (simp add: gw_ok_def)
    moreover have "iname iu \<notin> names_of g - gone" using assms(6) iu by blast
    ultimately show "iname iu \<notin> names_of g4 \<and> fst iu \<notin> fst ` set (gw_upstreams g4) \<and> fst iu < gw_next g4"
      using g3(4) by (auto simp: g4_def closeUpstreams_def names_of_def g3(2) same_config_def g2)
  qed
  moreover have "distinct (map fst fresh)" unfolding assms(4) by simp
  ultimately have *: "gw_ok uni g' \<and> gw_upstreams g' = gw_upstreams g4 @ fresh \<and> same_config g4 g' \<and>
      gw_calls g' = gw_calls g4 @ map (\<lambda>iu. UConnect (fst iu)) fresh"
    unfolding g' using assms(2,3) by (intro attach_all_ok)
  then show "gw_ok uni g'" ..
  show "gw_upstreams g' = filter (\<lambda>iu. iname iu \<notin> gone) (gw_upstreams g) @ fresh"
    using * g3(2) by (simp add: g4_def closeUpstreams_def)
  show "gw_cfg g' = cfg" "gw_resolver g' = res" "gw_next g' = gw_next g + length fresh"
    using * g3(4) g2 by (simp_all add: g4_def closeUpstreams_def same_config_def)
  show "\<exists>ds. gw_calls g' = gw_calls g @ map (\<lambda>iu. UClose (fst iu)) ds @ map (\<lambda>iu. UConnect (fst iu)) fresh \<and>
      set ds = {iu \<in> set (gw_upstreams g). iname iu \<in> gone}"
    using * g3(3,5) by (intro exI [of _ ds]) (simp add: g4_def closeUpstreams_def)
qed

subsection \<open>What a plan decides\<close>

lemma map_of_by_name:
  assumes "distinct (map key xs)"
  shows "map_of (fold (\<lambda>x. AList.update (key x) x) xs []) n = Some x \<longleftrightarrow> x \<in> set xs \<and> key x = n"
proof -
  have "fold (\<lambda>x. AList.update (key x) x) xs m = fold (\<lambda>(k, v). AList.update k v) (map (\<lambda>x. (key x, x)) xs) m" for m
    by (simp add: fold_map comp_def)
  then have "map_of (fold (\<lambda>x. AList.update (key x) x) xs []) = map_of (rev (map (\<lambda>x. (key x, x)) xs))"
    by (simp only: map_of_fold_update_pairs) simp
  moreover have "distinct (map fst (rev (map (\<lambda>x. (key x, x)) xs)))"
    using assms by (simp add: rev_map [symmetric] comp_def)
  ultimately show ?thesis by (simp add: map_of_eq_Some_iff) auto
qed

lemma map_of_by_name_None:
  assumes "distinct (map key xs)"
  shows "map_of (fold (\<lambda>x. AList.update (key x) x) xs []) n = None \<longleftrightarrow> n \<notin> key ` set xs"
proof (cases "map_of (fold (\<lambda>x. AList.update (key x) x) xs []) n")
  case None
  then have "\<not> (x \<in> set xs \<and> key x = n)" for x unfolding map_of_by_name [OF assms, symmetric] by simp
  then show ?thesis using None by blast
next
  case (Some x)
  then have "x \<in> set xs \<and> key x = n" unfolding map_of_by_name [OF assms] .
  then show ?thesis using Some by auto
qed

text \<open>What an unchanged verdict means.\<close>

definition unchanged_since :: "config \<Rightarrow> config \<Rightarrow> upstream_config \<Rightarrow> bool" where
  "unchanged_since old new uc \<longleftrightarrow>
     (\<exists>prev\<in>set (cf_upstreams old). same_section prev uc) \<and>
     (up_redact uc = None \<longrightarrow> cf_redact old = cf_redact new) \<and>
     (\<forall>v\<in>set (secret_values uc). \<forall>n\<in>set (extractSecretRefs v).
        sec_get (secretsByName (cf_secrets old)) n = sec_get (secretsByName (cf_secrets new)) n)"

lemma same_section_name: "same_section a b \<Longrightarrow> up_name a = up_name b"
proof -
  assume "same_section a b"
  then have "up_name (a\<lparr>up_headers := [], up_env := []\<rparr>) = up_name (b\<lparr>up_headers := [], up_env := []\<rparr>)"
    by (simp add: same_section_def)
  then show ?thesis by simp
qed

lemma plan_names:
  assumes "distinct (map up_name (cf_upstreams old))" and plan_def: "plan = planUpstreams nd old new"
  shows "set (pl_add plan) = {uc \<in> set (cf_upstreams new). up_name uc \<notin> up_name ` set (cf_upstreams old)}"
    and "set (pl_remove plan) = {uc \<in> set (cf_upstreams old). up_name uc \<notin> up_name ` set (cf_upstreams new)}"
    and "set (pl_restart plan) \<subseteq> {uc \<in> set (cf_upstreams new). up_name uc \<in> up_name ` set (cf_upstreams old)}"
    and "set (pl_unchanged plan) = up_name ` (set (cf_upstreams new) - set (pl_add plan) - set (pl_restart plan))"
    and "\<And>uc. uc \<in> set (cf_upstreams new) - set (pl_add plan) - set (pl_restart plan) \<Longrightarrow> unchanged_since old new uc"
proof -
  let ?old = "fold (\<lambda>uc. AList.update (up_name uc) uc) (cf_upstreams old) []"
  define v where "v = plan_verdict nd ?old (secretsByName (cf_secrets old)) (secretsByName (cf_secrets new))
      (cf_redact old \<noteq> cf_redact new \<or> nd_redact nd (cf_redact old) (cf_redact new))"
  have plan: "pl_add plan = filter (\<lambda>uc. v uc = VAdd) (cf_upstreams new)"
      "pl_restart plan = filter (\<lambda>uc. v uc = VRestart) (cf_upstreams new)"
      "pl_remove plan = filter (\<lambda>uc. up_name uc \<notin> set (map up_name (cf_upstreams new))) (cf_upstreams old)"
      "pl_unchanged plan = map up_name (filter (\<lambda>uc. v uc = VUnchanged) (cf_upstreams new))"
    by (simp_all add: plan_def planUpstreams_def Let_def v_def)
  note by_name = map_of_by_name [OF assms(1)] map_of_by_name_None [OF assms(1)]
  have add: "v uc = VAdd \<longleftrightarrow> up_name uc \<notin> up_name ` set (cf_upstreams old)" for uc
    using by_name(2) [of "up_name uc"] by (auto simp: v_def plan_verdict_def split: option.split)
  have neither: "uc \<in> set (cf_upstreams new) - set (pl_add plan) - set (pl_restart plan) \<longleftrightarrow>
      uc \<in> set (cf_upstreams new) \<and> v uc = VUnchanged" for uc
    by (cases "v uc") (auto simp: plan)
  show "set (pl_add plan) = {uc \<in> set (cf_upstreams new). up_name uc \<notin> up_name ` set (cf_upstreams old)}"
    by (auto simp: plan add)
  show "set (pl_remove plan) = {uc \<in> set (cf_upstreams old). up_name uc \<notin> up_name ` set (cf_upstreams new)}"
    by (auto simp: plan)
  show "set (pl_restart plan) \<subseteq> {uc \<in> set (cf_upstreams new). up_name uc \<in> up_name ` set (cf_upstreams old)}"
  proof
    fix uc
    assume "uc \<in> set (pl_restart plan)"
    then have "uc \<in> set (cf_upstreams new)" "v uc \<noteq> VAdd" by (auto simp: plan)
    then show "uc \<in> {uc \<in> set (cf_upstreams new). up_name uc \<in> up_name ` set (cf_upstreams old)}" using add by blast
  qed
  show "set (pl_unchanged plan) = up_name ` (set (cf_upstreams new) - set (pl_add plan) - set (pl_restart plan))"
    using neither by (auto simp: plan)
  fix uc
  assume "uc \<in> set (cf_upstreams new) - set (pl_add plan) - set (pl_restart plan)"
  then have "v uc = VUnchanged" using neither by blast
  then obtain prev where p: "map_of ?old (up_name uc) = Some prev" "upstream_deep_equal nd prev uc"
      "\<not> (up_redact uc = None \<and> cf_redact old \<noteq> cf_redact new)"
      "\<not> secretRefsChanged uc (secretsByName (cf_secrets old)) (secretsByName (cf_secrets new))"
    by (auto simp: v_def plan_verdict_def split: option.splits if_splits)
  have "prev \<in> set (cf_upstreams old)" using p(1) by_name(1) by blast
  moreover have "same_section prev uc"
    using p(2) by (simp add: upstream_deep_equal_def same_section_def gomap_eq_iff)
  ultimately show "unchanged_since old new uc"
    using p(3,4) unfolding unchanged_since_def secretRefsChanged_def secret_values_def list_ex_iff by blast
qed

text \<open>The names a plan detaches and the names it builds anew.\<close>

lemma plan_gone:
  assumes "distinct (map up_name (cf_upstreams old))" and "distinct (map up_name (cf_upstreams new))"
    and plan_def: "plan = planUpstreams nd old new"
    and gone_def: "gone = up_name ` set (pl_remove plan @ pl_restart plan)"
    and fresh_def: "fr = pl_add plan @ pl_restart plan"
  shows "up_name ` set (cf_upstreams old) - gone = set (pl_unchanged plan)"
    and "distinct (map up_name fr)" and "set fr \<subseteq> set (cf_upstreams new)"
    and "up_name ` set fr \<inter> (up_name ` set (cf_upstreams old) - gone) = {}"
    and "up_name ` set (cf_upstreams new) = set (pl_unchanged plan) \<union> up_name ` set fr"
    and "set (pl_unchanged plan) \<inter> up_name ` set fr = {}"
proof -
  note pn = plan_names [OF assms(1) plan_def]
  have inj: "inj_on up_name (set (cf_upstreams new))" using assms(2) by (simp add: distinct_map)
  show sub: "set fr \<subseteq> set (cf_upstreams new)" using pn(1,3) by (auto simp: fresh_def)
  show disj: "set (pl_unchanged plan) \<inter> up_name ` set fr = {}"
  proof -
    have "up_name uc \<notin> up_name ` set fr" if "uc \<in> set (cf_upstreams new) - set (pl_add plan) - set (pl_restart plan)" for uc
      using that sub inj by (auto simp: fresh_def inj_on_def)
    then show ?thesis unfolding pn(4) by blast
  qed
  show "up_name ` set (cf_upstreams new) = set (pl_unchanged plan) \<union> up_name ` set fr"
    using sub unfolding pn(4) fresh_def by auto
  have unch_old: "set (pl_unchanged plan) \<subseteq> up_name ` set (cf_upstreams old)"
  proof
    fix n
    assume "n \<in> set (pl_unchanged plan)"
    then obtain uc where "uc \<in> set (cf_upstreams new) - set (pl_add plan) - set (pl_restart plan)" "n = up_name uc"
      unfolding pn(4) by blast
    then show "n \<in> up_name ` set (cf_upstreams old)" using pn(1) by blast
  qed
  have unch_new: "set (pl_unchanged plan) \<subseteq> up_name ` set (cf_upstreams new)" unfolding pn(4) by blast
  show keep: "up_name ` set (cf_upstreams old) - gone = set (pl_unchanged plan)"
  proof
    show "up_name ` set (cf_upstreams old) - gone \<subseteq> set (pl_unchanged plan)"
    proof
      fix n
      assume n: "n \<in> up_name ` set (cf_upstreams old) - gone"
      then obtain prev where prev: "prev \<in> set (cf_upstreams old)" "up_name prev = n" by blast
      have "prev \<in> set (pl_remove plan) \<Longrightarrow> n \<in> gone" unfolding gone_def using prev(2) by auto
      then have "prev \<notin> set (pl_remove plan)" using n by blast
      then have "n \<in> up_name ` set (cf_upstreams new)" unfolding pn(2) using prev by simp
      then obtain uc where uc: "uc \<in> set (cf_upstreams new)" "up_name uc = n" by (elim imageE) simp
      have "uc \<in> set (pl_restart plan) \<Longrightarrow> n \<in> gone" unfolding gone_def using uc(2) by auto
      then have "uc \<notin> set (pl_restart plan)" using n by blast
      moreover have "up_name uc \<in> up_name ` set (cf_upstreams old)" unfolding uc(2) prev(2) [symmetric] using prev(1) by (rule imageI)
      then have "uc \<notin> set (pl_add plan)" unfolding pn(1) by simp
      ultimately show "n \<in> set (pl_unchanged plan)" unfolding pn(4) uc(2) [symmetric] using uc(1) by (intro imageI) simp
    qed
    have "n \<notin> gone" if "n \<in> set (pl_unchanged plan)" for n
    proof
      assume "n \<in> gone"
      then obtain uc where uc: "uc \<in> set (pl_remove plan) \<or> uc \<in> set (pl_restart plan)" "n = up_name uc"
        unfolding gone_def by auto
      show False
      proof (cases "uc \<in> set (pl_restart plan)")
        case True
        then have "n \<in> up_name ` set fr" using uc(2) by (simp add: fresh_def)
        then show ?thesis using that disj by blast
      next
        case False
        then show ?thesis using uc that unch_new pn(2) by blast
      qed
    qed
    then show "set (pl_unchanged plan) \<subseteq> up_name ` set (cf_upstreams old) - gone" using unch_old by blast
  qed
  show "up_name ` set fr \<inter> (up_name ` set (cf_upstreams old) - gone) = {}" unfolding keep using disj by blast
  have "distinct (map up_name (filter P (cf_upstreams new)))" for P using assms(2) by (rule distinct_map_filter)
  then have "distinct (map up_name (pl_add plan))" "distinct (map up_name (pl_restart plan))"
    by (simp_all add: plan_def planUpstreams_def Let_def)
  moreover have "up_name ` set (pl_add plan) \<inter> up_name ` set (pl_restart plan) = {}" using pn(1,3) by fastforce
  ultimately show "distinct (map up_name fr)" by (simp add: fresh_def)
qed

end
