(* ===== verification/Gw_Reload_Correct.thy ===== *)
theory Gw_Reload_Correct
  imports Gw_Reload
begin

text \<open>
  What reloading guarantees: when it fails, what it leaves running, and the states a gateway can reach.
\<close>

subsection \<open>A valid configuration can be built\<close>

lemma parseOptional_ok: "dur_ok pd s \<Longrightarrow> \<exists>d. parseOptionalDuration pd s = Some d"
  by (auto simp: parseOptionalDuration_def dur_ok_def)

lemma applyReconnect_ok: "reconnect_ok pd rc \<Longrightarrow> \<exists>o''. applyReconnectConfig pd rc o' = Inr o''"
  by (auto simp: applyReconnectConfig_def reconnect_ok_def dur_ok_def split: option.split)

lemma redact_ok_NewRedactor:
  "redact_ok compile rd \<Longrightarrow> rd_enabled rd \<Longrightarrow> \<exists>r. NewRedactor compile (rd_patterns rd) (rd_min_entropy rd) = Inr r"
  by (simp add: redact_ok_def redactor_iff)

lemma newUpstream_ok:
  assumes "dur_ok pd (sv_drain_timeout (cf_server cfg))" and "upstream_ok pd uc"
    and "\<And>rd. up_redact uc = Some rd \<Longrightarrow> redact_ok compile rd"
  shows "\<exists>u. newUpstream pd compile uc cfg rd = Inr u"
proof -
  obtain d where d: "parseOptionalDuration pd (sv_drain_timeout (cf_server cfg)) = Some d"
    using parseOptional_ok [OF assms(1)] by blast
  obtain c where c: "parseOptionalDuration pd (up_call_timeout uc) = Some c"
    using parseOptional_ok [of pd "up_call_timeout uc"] assms(2) unfolding upstream_ok_def by blast
  have "\<exists>r. (case up_redact uc of None \<Rightarrow> Inr rd
      | Some rd \<Rightarrow> if rd_enabled rd then map_sum (NewUpRedact (up_name uc)) Some
          (NewRedactor compile (rd_patterns rd) (rd_min_entropy rd)) else Inr None) = Inr r"
    using redact_ok_NewRedactor [OF assms(3)] by (fastforce split: option.split)
  then obtain r where r: "(case up_redact uc of None \<Rightarrow> Inr rd
      | Some rd \<Rightarrow> if rd_enabled rd then map_sum (NewUpRedact (up_name uc)) Some
          (NewRedactor compile (rd_patterns rd) (rd_min_entropy rd)) else Inr None) = Inr r" ..
  have "\<exists>o''. (case up_reconnect uc of None \<Rightarrow> Inr o'
      | Some rc \<Rightarrow> map_sum (NewReconnect (up_name uc)) id (applyReconnectConfig pd rc o')) = Inr o''" for o'
  proof (cases "up_reconnect uc")
    case (Some rc)
    then obtain o'' where "applyReconnectConfig pd rc o' = Inr o''"
      using applyReconnect_ok assms(2) by (fastforce simp: upstream_ok_def)
    then show ?thesis using Some by simp
  qed simp
  then obtain o'' where "(case up_reconnect uc of
        None \<Rightarrow> Inr \<lparr>op_connect_timeout = 0, op_keepalive = 0, op_reconnect_initial = 0, op_reconnect_max = 0,
          op_drain_timeout = d, op_call_timeout = c, op_redactor = r\<rparr>
      | Some rc \<Rightarrow> map_sum (NewReconnect (up_name uc)) id (applyReconnectConfig pd rc
          \<lparr>op_connect_timeout = 0, op_keepalive = 0, op_reconnect_initial = 0, op_reconnect_max = 0,
          op_drain_timeout = d, op_call_timeout = c, op_redactor = r\<rparr>)) = Inr o''" by blast
  then show ?thesis unfolding newUpstream_def d c option.case r sum.case Let_def by simp
qed

lemma new_upstreams_ok:
  assumes "config_ok pd compile cfg" and "set ucs \<subseteq> set (cf_upstreams cfg)"
  shows "\<exists>us. new_upstreams pd compile cfg rd i ucs = Inr us"
  using assms(2)
proof (induction ucs arbitrary: i)
  case (Cons uc ucs)
  have "uc \<in> set (cf_upstreams cfg)" using Cons.prems by simp
  then have "\<exists>u. newUpstream pd compile uc cfg rd = Inr u"
    using assms(1) by (intro newUpstream_ok) (auto simp: config_ok_def list_all_iff)
  then obtain u where "newUpstream pd compile uc cfg rd = Inr u" ..
  moreover obtain us where "new_upstreams pd compile cfg rd (Suc i) ucs = Inr us"
    using Cons.IH Cons.prems by auto
  ultimately show ?case by simp
qed simp

lemma global_redactor_ok:
  assumes "config_ok pd compile cfg"
  shows "\<exists>rd. global_redactor compile cfg = Inr rd"
proof (cases "rd_enabled (cf_redact cfg)")
  case True
  then obtain r where "NewRedactor compile (rd_patterns (cf_redact cfg)) (rd_min_entropy (cf_redact cfg)) = Inr r"
    using redact_ok_NewRedactor assms by (fastforce simp: config_ok_def)
  then show ?thesis by (simp add: global_redactor_def)
qed (simp add: global_redactor_def)

text \<open>The sources of a resolver are the sections of its secrets, by name.\<close>

definition source_of :: "secret_config \<Rightarrow> secret_source" where
  "source_of s = \<lparr>ss_value = se_value s, ss_env = se_env s, ss_file = se_file s, ss_command = se_command s\<rparr>"

lemma collect_sources_eq:
  "distinct (map se_name ss) \<Longrightarrow> se_name ` set ss \<inter> dom (map_of m) = {} \<Longrightarrow>
     collect_sources m ss = Inr (fold (\<lambda>s. AList.update (se_name s) (source_of s)) ss m)"
proof (induction m ss rule: collect_sources.induct)
  case (2 m c cs)
  have none: "map_of m (se_name c) = None" using "2.prems"(2) by (auto simp: domIff)
  moreover have "se_name ` set cs \<inter> dom (map_of (AList.update (se_name c) (source_of c) m)) = {}"
    using "2.prems" by auto
  ultimately show ?case using 2(1) "2.prems"(1) by (simp only: collect_sources.simps source_of_def [symmetric]) simp
qed simp

lemma NewSecretResolver_ok:
  assumes "distinct (map se_name ss)"
  shows "\<exists>r. NewSecretResolver ss = Inr r \<and>
    (\<forall>n. map_of (sr_sources r) n = map_option source_of (map_of (secretsByName ss) n))"
proof -
  let ?m = "fold (\<lambda>s. AList.update (se_name s) (source_of s)) ss []"
  have "collect_sources [] ss = Inr ?m" using assms by (intro collect_sources_eq) simp_all
  moreover have "map_of (fold (\<lambda>s. AList.update (se_name s) (source_of s)) ss m) n =
      map_option source_of (map_of (fold (\<lambda>s. AList.update (se_name s) s) ss m') n)"
    if "\<forall>n. map_of m n = map_option source_of (map_of m' n)" for m m' n
    using that by (induction ss arbitrary: m m') simp_all
  from this [of "[]" "[]"] have "map_of ?m n = map_option source_of (map_of (secretsByName ss) n)" for n
    by (simp add: secretsByName_def)
  ultimately show ?thesis by (simp add: NewSecretResolver_def)
qed

subsection \<open>When a reload fails\<close>

lemma reload_cases:
  assumes "gw_cfg g = old"
  shows "(\<exists>r e. Reload uni pd compile nd rg ans cfg0 g = (r, Some e, g) \<and>
        (cfg0 = None \<or> (\<exists>c. cfg0 = Some c \<and> \<not> config_ok pd compile (setDefaults c)))) \<or>
    (\<exists>c rd plan fresh res r. cfg0 = Some c \<and> config_ok pd compile (setDefaults c) \<and>
        NewSecretResolver (cf_secrets (setDefaults c)) = Inr res \<and>
        global_redactor compile (setDefaults c) = Inr rd \<and> plan = planUpstreams nd old (setDefaults c) \<and>
        new_upstreams pd compile (setDefaults c) rd (gw_next g) (pl_add plan @ pl_restart plan) = Inr fresh \<and>
        Reload uni pd compile nd rg ans cfg0 g =
          (no_result\<lparr>rr_added := map up_name (pl_add plan), rr_removed := map up_name (pl_remove plan),
             rr_restarted := map up_name (pl_restart plan), rr_unchanged := pl_unchanged plan,
             rr_restart_required := restartRequired nd old (setDefaults c)\<rparr>, None,
           apply_plan uni rg ans (setDefaults c) res plan fresh g))"
proof (cases cfg0)
  case (Some c)
  let ?cfg = "setDefaults c"
  show ?thesis
  proof (cases "config_ok pd compile ?cfg")
    case False
    then obtain e where "Validate pd compile ?cfg = Inl e"
      using Validate_iff by (cases "Validate pd compile ?cfg") (auto simp: unit_eq)
    then show ?thesis using Some False by (simp add: Reload_def)
  next
    case True
    then have V: "Validate pd compile ?cfg = Inr ()" by (simp add: Validate_iff)
    obtain res where res: "NewSecretResolver (cf_secrets ?cfg) = Inr res"
      using NewSecretResolver_ok [of "cf_secrets ?cfg"] True by (auto simp: config_ok_def)
    obtain rd where rd: "global_redactor compile ?cfg = Inr rd" using global_redactor_ok [OF True] ..
    define plan where "plan = planUpstreams nd old ?cfg"
    have "set (pl_add plan @ pl_restart plan) \<subseteq> set (cf_upstreams ?cfg)"
      by (auto simp: plan_def planUpstreams_def Let_def)
    from new_upstreams_ok [OF True this] obtain fresh where
      fresh: "new_upstreams pd compile ?cfg rd (gw_next g) (pl_add plan @ pl_restart plan) = Inr fresh" by blast
    have "Reload uni pd compile nd rg ans cfg0 g =
          (no_result\<lparr>rr_added := map up_name (pl_add plan), rr_removed := map up_name (pl_remove plan),
             rr_restarted := map up_name (pl_restart plan), rr_unchanged := pl_unchanged plan,
             rr_restart_required := restartRequired nd old ?cfg\<rparr>, None,
           apply_plan uni rg ans ?cfg res plan fresh g)"
      unfolding Reload_def Some option.case Let_def V sum.case res rd assms plan_def [symmetric] fresh
      by simp
    then show ?thesis using Some True res rd plan_def fresh by blast
  qed
qed (simp add: Reload_def)

subsection \<open>Upstreams up to date\<close>

text \<open>
  An attached upstream is current when building it anew from the running configuration gives the same
  object, but for the drain timeout, which is part of the \<open>server\<close> section and needs a restart. Its
  references are current when the resolver it was built with reads each of them from the same source
  as the resolver of the running configuration.
\<close>

definition up_current ::
  "(string \<Rightarrow> int option) \<Rightarrow> (string \<Rightarrow> (string \<Rightarrow> string) option) \<Rightarrow> config \<Rightarrow> upstream_config \<Rightarrow> upstream \<Rightarrow> bool" where
  "up_current pd compile cfg uc u \<longleftrightarrow> same_section (us_cfg u) uc \<and>
     (\<exists>rd u'. global_redactor compile cfg = Inr rd \<and> newUpstream pd compile uc cfg rd = Inr u' \<and>
        u = u'\<lparr>us_cfg := us_cfg u, us_drain_timeout := us_drain_timeout u\<rparr>)"

type_synonym sources = "(string, secret_source) gomap"

text \<open>The values an upstream interpolates secrets in.\<close>

definition live_values :: "upstream_config \<Rightarrow> string set" where
  "live_values uc = ran (map_of (up_env uc)) \<union> ran (map_of (up_headers uc))"

definition refs_current :: "sources \<Rightarrow> sources \<Rightarrow> upstream_config \<Rightarrow> bool" where
  "refs_current built now uc \<longleftrightarrow>
     (\<forall>v\<in>live_values uc. \<forall>n\<in>set (extractSecretRefs v). map_of built n = map_of now n)"

lemma live_values_section: "same_section a b \<Longrightarrow> live_values a = live_values b"
  by (simp add: live_values_def same_section_def)

lemma live_values_subset: "live_values uc \<subseteq> set (secret_values uc)"
  by (force simp: live_values_def secret_values_def ran_def dest: map_of_SomeD)

definition synced ::
  "(string \<Rightarrow> int option) \<Rightarrow> (string \<Rightarrow> (string \<Rightarrow> string) option) \<Rightarrow> (nat \<Rightarrow> sources) \<Rightarrow> gateway \<Rightarrow> bool" where
  "synced pd compile built g \<longleftrightarrow> config_ok pd compile (gw_cfg g) \<and> setDefaults (gw_cfg g) = gw_cfg g \<and>
     names_of g = up_name ` set (cf_upstreams (gw_cfg g)) \<and>
     (\<forall>n. map_of (sr_sources (gw_resolver g)) n =
        map_option source_of (map_of (secretsByName (cf_secrets (gw_cfg g))) n)) \<and>
     (\<forall>iu\<in>set (gw_upstreams g). \<exists>uc\<in>set (cf_upstreams (gw_cfg g)).
        up_current pd compile (gw_cfg g) uc (snd iu) \<and>
        refs_current (built (fst iu)) (sr_sources (gw_resolver g)) uc)"

lemma newUpstream_section:
  assumes "newUpstream pd compile uc cfg rd = Inr u" and "same_section uc uc'"
    and "newUpstream pd compile uc' cfg' rd' = Inr u'" and "up_redact uc = None \<Longrightarrow> rd = rd'"
  shows "u = u'\<lparr>us_cfg := uc, us_drain_timeout := us_drain_timeout u\<rparr>"
proof -
  have f: "up_call_timeout uc = up_call_timeout uc'" "up_redact uc = up_redact uc'" "up_reconnect uc = up_reconnect uc'"
      "up_name uc = up_name uc'"
  proof -
    let ?z = "\<lambda>u. u\<lparr>up_headers := [], up_env := []\<rparr>"
    have z: "?z uc = ?z uc'" using assms(2) by (simp add: same_section_def)
    show "up_call_timeout uc = up_call_timeout uc'" using arg_cong [OF z, of up_call_timeout] by simp
    show "up_redact uc = up_redact uc'" using arg_cong [OF z, of up_redact] by simp
    show "up_reconnect uc = up_reconnect uc'" using arg_cong [OF z, of up_reconnect] by simp
    show "up_name uc = up_name uc'" using arg_cong [OF z, of up_name] by simp
  qed
  obtain d c r o1 where 1: "parseOptionalDuration pd (up_call_timeout uc) = Some c"
      "(case up_redact uc of None \<Rightarrow> Inr rd
        | Some rd \<Rightarrow> if rd_enabled rd then map_sum (NewUpRedact (up_name uc)) Some
            (NewRedactor compile (rd_patterns rd) (rd_min_entropy rd)) else Inr None) = Inr r"
      "(case up_reconnect uc of
          None \<Rightarrow> Inr \<lparr>op_connect_timeout = 0, op_keepalive = 0, op_reconnect_initial = 0, op_reconnect_max = 0,
            op_drain_timeout = d, op_call_timeout = c, op_redactor = r\<rparr>
        | Some rc \<Rightarrow> map_sum (NewReconnect (up_name uc)) id (applyReconnectConfig pd rc
            \<lparr>op_connect_timeout = 0, op_keepalive = 0, op_reconnect_initial = 0, op_reconnect_max = 0,
            op_drain_timeout = d, op_call_timeout = c, op_redactor = r\<rparr>)) = Inr o1"
      "u = NewUpstream uc o1"
    using assms(1) by (auto simp: newUpstream_def Let_def split: option.splits sum.splits)
  obtain d' c' r' o2 where 2: "parseOptionalDuration pd (up_call_timeout uc) = Some c'"
      "(case up_redact uc of None \<Rightarrow> Inr rd'
        | Some rd \<Rightarrow> if rd_enabled rd then map_sum (NewUpRedact (up_name uc)) Some
            (NewRedactor compile (rd_patterns rd) (rd_min_entropy rd)) else Inr None) = Inr r'"
      "(case up_reconnect uc of
          None \<Rightarrow> Inr \<lparr>op_connect_timeout = 0, op_keepalive = 0, op_reconnect_initial = 0, op_reconnect_max = 0,
            op_drain_timeout = d', op_call_timeout = c', op_redactor = r'\<rparr>
        | Some rc \<Rightarrow> map_sum (NewReconnect (up_name uc)) id (applyReconnectConfig pd rc
            \<lparr>op_connect_timeout = 0, op_keepalive = 0, op_reconnect_initial = 0, op_reconnect_max = 0,
            op_drain_timeout = d', op_call_timeout = c', op_redactor = r'\<rparr>)) = Inr o2"
      "u' = NewUpstream uc' o2"
    using assms(3) unfolding f by (auto simp: newUpstream_def Let_def split: option.splits sum.splits)
  have "c = c'" using 1(1) 2(1) by simp
  moreover have "r = r'"
  proof (cases "up_redact uc")
    case None
    then show ?thesis using 1(2) 2(2) assms(4) by simp
  next
    case (Some x)
    then show ?thesis using 1(2) 2(2) by (simp split: if_splits)
  qed
  ultimately have "o1 = o2\<lparr>op_drain_timeout := op_drain_timeout o1\<rparr>"
    using 1(3) 2(3)
    by (cases "up_reconnect uc") (auto simp: applyReconnectConfig_def split: option.splits if_splits)
  then show ?thesis
    unfolding 1(4) 2(4) NewUpstream_def options_setDefaults_def Let_def
    by (cases o1; cases o2) simp
qed

lemma same_section_sym: "same_section a b \<Longrightarrow> same_section b a"
  by (simp add: same_section_def)

lemma same_section_trans: "same_section a b \<Longrightarrow> same_section b c \<Longrightarrow> same_section a c"
  by (simp add: same_section_def)

lemma same_section_redact: "same_section a b \<Longrightarrow> up_redact a = up_redact b"
proof -
  assume "same_section a b"
  then have "up_redact (a\<lparr>up_headers := [], up_env := []\<rparr>) = up_redact (b\<lparr>up_headers := [], up_env := []\<rparr>)"
    by (simp add: same_section_def)
  then show ?thesis by simp
qed

lemma same_section_refl [simp]: "same_section a a"
  by (simp add: same_section_def)

text \<open>Equal up to the zero struct is equal, because no declared secret has an empty name.\<close>

lemma sec_get_eq:
  assumes "distinct (map se_name a)" and "[] \<notin> se_name ` set a" and "distinct (map se_name b)" and "[] \<notin> se_name ` set b"
    and "sec_get (secretsByName a) n = sec_get (secretsByName b) n"
  shows "map_of (secretsByName a) n = map_of (secretsByName b) n"
proof -
  have "map_of (secretsByName c) n = (if se_name (sec_get (secretsByName c) n) = [] then None
      else Some (sec_get (secretsByName c) n))" if "distinct (map se_name c)" "[] \<notin> se_name ` set c" for c
  proof (cases "map_of (secretsByName c) n")
    case (Some s)
    then have "s \<in> set c" unfolding secretsByName_def map_of_by_name [OF that(1)] by blast
    then have "se_name s \<noteq> []" using that(2) by (metis image_eqI)
    then show ?thesis using Some by (simp add: sec_get_def)
  qed (simp add: sec_get_def)
  from this [OF assms(1,2)] this [OF assms(3,4)] assms(5) show ?thesis by simp
qed

text \<open>An unchanged verdict keeps an upstream current.\<close>

lemma up_current_unchanged:
  assumes "up_current pd compile old prev u" and "same_section prev uc"
    and "up_redact uc = None \<Longrightarrow> cf_redact old = cf_redact new"
    and "config_ok pd compile new" and "uc \<in> set (cf_upstreams new)"
  shows "up_current pd compile new uc u"
proof -
  obtain rd u' where 1: "same_section (us_cfg u) prev" "global_redactor compile old = Inr rd"
      "newUpstream pd compile prev old rd = Inr u'" "u = u'\<lparr>us_cfg := us_cfg u, us_drain_timeout := us_drain_timeout u\<rparr>"
    using assms(1) by (auto simp: up_current_def)
  obtain rd' where rd': "global_redactor compile new = Inr rd'" using global_redactor_ok [OF assms(4)] ..
  have "\<exists>u2. newUpstream pd compile uc new rd' = Inr u2"
    using assms(4,5) by (intro newUpstream_ok) (auto simp: config_ok_def list_all_iff)
  then obtain u2 where u2: "newUpstream pd compile uc new rd' = Inr u2" ..
  have "rd = rd'" if "up_redact prev = None"
  proof -
    have "cf_redact old = cf_redact new" using that assms(3) same_section_redact [OF assms(2)] by simp
    then have "global_redactor compile old = global_redactor compile new" unfolding global_redactor_def by (simp only:)
    then show ?thesis using 1(2) rd' by simp
  qed
  from newUpstream_section [OF 1(3) assms(2) u2 this]
  have "u' = u2\<lparr>us_cfg := prev, us_drain_timeout := us_drain_timeout u'\<rparr>" .
  then have "u = u2\<lparr>us_cfg := us_cfg u, us_drain_timeout := us_drain_timeout u\<rparr>"
    using 1(4) by (cases u; cases u'; cases u2) simp
  then show ?thesis
    using same_section_trans [OF 1(1) assms(2)] rd' u2 unfolding up_current_def by blast
qed

lemma up_current_new:
  assumes "newUpstream pd compile uc cfg rd = Inr u" and "global_redactor compile cfg = Inr rd"
  shows "up_current pd compile cfg uc u"
proof -
  have "us_cfg u = uc" by (rule newUpstream_cfg [OF assms(1)])
  then show ?thesis using assms unfolding up_current_def by (intro conjI exI [of _ rd] exI [of _ u]) simp_all
qed

lemma list_all2_in_right:
  assumes "list_all2 P xs ys" and "y \<in> set ys"
  obtains x where "x \<in> set xs" and "P x y"
  using assms by (induction rule: list_all2_induct) auto

lemma synced_New:
  assumes "config_ok pd compile (setDefaults cfg)" and "New pd compile bs cfg = Inr g"
  shows "synced pd compile (\<lambda>_. sr_sources (gw_resolver g)) g"
proof -
  obtain res rd us where 1: "NewSecretResolver (cf_secrets (setDefaults cfg)) = Inr res"
      "global_redactor compile (setDefaults cfg) = Inr rd"
      "new_upstreams pd compile (setDefaults cfg) rd 0 (cf_upstreams (setDefaults cfg)) = Inr us"
      "gw_cfg g = setDefaults cfg" "gw_resolver g = res" "gw_upstreams g = us"
    using assms(2) by (auto simp: New_def Let_def split: sum.splits)
  have "iname ` set us = up_name ` set (map (\<lambda>iu. us_cfg (snd iu)) us)" by (simp add: image_image)
  then have names: "names_of g = up_name ` set (cf_upstreams (setDefaults cfg))"
    unfolding names_of_def 1(6) new_upstreams_names(1) [OF 1(3)] .
  have "\<exists>uc\<in>set (cf_upstreams (setDefaults cfg)). up_current pd compile (setDefaults cfg) uc (snd iu)" if iu: "iu \<in> set us" for iu
  proof -
    have "list_all2 (\<lambda>uc iu. newUpstream pd compile uc (setDefaults cfg) rd = Inr (snd iu)) (cf_upstreams (setDefaults cfg)) us"
      using new_upstreams_nth [OF 1(3)] by blast
    then obtain uc where "uc \<in> set (cf_upstreams (setDefaults cfg))"
        "newUpstream pd compile uc (setDefaults cfg) rd = Inr (snd iu)"
      by (rule list_all2_in_right [OF _ iu])
    then show ?thesis using up_current_new [OF _ 1(2)] by blast
  qed
  moreover have "\<forall>n. map_of (sr_sources res) n = map_option source_of (map_of (secretsByName (cf_secrets (setDefaults cfg))) n)"
    using NewSecretResolver_ok [of "cf_secrets (setDefaults cfg)"] assms(1) 1(1) by (auto simp: config_ok_def)
  ultimately show ?thesis using assms(1) names unfolding synced_def 1 refs_current_def by (simp add: setDefaults_idem)
qed

subsection \<open>A successful reload\<close>

text \<open>All of it at once: the upstreams kept are those reported unchanged, the rest are closed, and the new ones follow.\<close>

lemma reload_step:
  assumes "gw_ok uni g" and "synced pd compile built g" and "good_orders rg"
    and "Reload uni pd compile nd rg ans (Some c) g = (r, None, g')"
  shows "config_ok pd compile (setDefaults c)" and "gw_cfg g' = setDefaults c" and "gw_ok uni g'"
    and "synced pd compile (\<lambda>i. if i < gw_next g then built i else sr_sources (gw_resolver g')) g'"
    and "\<exists>fresh. gw_upstreams g' = filter (\<lambda>iu. iname iu \<in> set (rr_unchanged r)) (gw_upstreams g) @ fresh \<and>
      map (\<lambda>iu. up_name (us_cfg (snd iu))) fresh = rr_added r @ rr_restarted r \<and>
      map fst fresh = [gw_next g..<gw_next g'] \<and>
      (\<exists>ds. gw_calls g' = gw_calls g @ map (\<lambda>iu. UClose (fst iu)) ds @ map (\<lambda>iu. UConnect (fst iu)) fresh \<and>
         set ds = {iu \<in> set (gw_upstreams g). iname iu \<notin> set (rr_unchanged r)})"
    and "set (rr_unchanged r) = {n. \<exists>uc\<in>set (cf_upstreams (setDefaults c)). up_name uc = n} - set (rr_added r) - set (rr_restarted r)"
proof -
  define old where "old = gw_cfg g"
  define cfg where "cfg = setDefaults c"
  obtain rd plan fresh res where ok: "config_ok pd compile cfg" "NewSecretResolver (cf_secrets cfg) = Inr res"
      "global_redactor compile cfg = Inr rd" "plan = planUpstreams nd old cfg"
      "new_upstreams pd compile cfg rd (gw_next g) (pl_add plan @ pl_restart plan) = Inr fresh"
      "g' = apply_plan uni rg ans cfg res plan fresh g"
      "rr_added r = map up_name (pl_add plan)" "rr_restarted r = map up_name (pl_restart plan)"
      "rr_unchanged r = pl_unchanged plan"
    using reload_cases [where g = g, OF refl, of uni pd compile nd rg ans "Some c"] assms(4)
    by (auto simp: old_def cfg_def)
  have old: "config_ok pd compile old" "names_of g = up_name ` set (cf_upstreams old)"
    using assms(2) by (simp_all add: synced_def old_def)
  have dist: "distinct (map up_name (cf_upstreams old))" "distinct (map up_name (cf_upstreams cfg))"
    using old(1) ok(1) by (simp_all add: config_ok_def)
  define gone where "gone = up_name ` set (pl_remove plan @ pl_restart plan)"
  define fr where "fr = pl_add plan @ pl_restart plan"
  note pg = plan_gone [OF dist ok(4) gone_def fr_def]
  note nu = new_upstreams_names [OF ok(5)]
  have len: "length fresh = length fr" using arg_cong [OF nu(1), of length] by (simp add: fr_def)
  have ids: "map fst fresh = [gw_next g..<gw_next g + length fresh]" unfolding nu(2) len fr_def ..
  have inames: "map iname fresh = map up_name fr"
  proof -
    have "map iname fresh = map up_name (map (\<lambda>iu. us_cfg (snd iu)) fresh)" by simp
    then show ?thesis unfolding nu(1) fr_def .
  qed
  have inames': "iname ` set fresh = up_name ` set fr"
    using arg_cong [OF inames, of set] by (simp add: image_image)
  have d: "distinct (map iname fresh)" unfolding inames by (rule pg(2))
  have disj: "iname ` set fresh \<inter> (names_of g - gone) = {}" unfolding inames' old(2) by (rule pg(4))
  note ap = apply_plan_ok [OF assms(1,3) d ids gone_def disj ok(6)]
  show "config_ok pd compile (setDefaults c)" "gw_cfg g' = setDefaults c" "gw_ok uni g'"
    using ok(1) ap(1,3) by (simp_all add: cfg_def)
  have kept: "iname iu \<notin> gone \<longleftrightarrow> iname iu \<in> set (pl_unchanged plan)" if "iu \<in> set (gw_upstreams g)" for iu
  proof -
    have "iname iu \<in> up_name ` set (cf_upstreams old)" unfolding old(2) [symmetric] names_of_def using that by (rule imageI)
    then show ?thesis unfolding pg(1) [symmetric] by blast
  qed
  have ups: "gw_upstreams g' = filter (\<lambda>iu. iname iu \<in> set (rr_unchanged r)) (gw_upstreams g) @ fresh"
    unfolding ap(2) ok(9) using kept by (simp cong: filter_cong)
  have goneset: "{iu \<in> set (gw_upstreams g). iname iu \<in> gone} = {iu \<in> set (gw_upstreams g). iname iu \<notin> set (rr_unchanged r)}"
    unfolding ok(9) using kept by blast
  show "\<exists>fresh. gw_upstreams g' = filter (\<lambda>iu. iname iu \<in> set (rr_unchanged r)) (gw_upstreams g) @ fresh \<and>
      map (\<lambda>iu. up_name (us_cfg (snd iu))) fresh = rr_added r @ rr_restarted r \<and>
      map fst fresh = [gw_next g..<gw_next g'] \<and>
      (\<exists>ds. gw_calls g' = gw_calls g @ map (\<lambda>iu. UClose (fst iu)) ds @ map (\<lambda>iu. UConnect (fst iu)) fresh \<and>
         set ds = {iu \<in> set (gw_upstreams g). iname iu \<notin> set (rr_unchanged r)})"
    using ups inames ids ap(5,6) unfolding goneset by (intro exI [of _ fresh]) (simp add: ok(7,8) fr_def)
  have unch: "up_name ` set (cf_upstreams cfg) = set (rr_unchanged r) \<union> up_name ` set fr"
      "set (rr_unchanged r) \<inter> up_name ` set fr = {}"
    unfolding ok(9) by (rule pg(5) pg(6))+
  show "set (rr_unchanged r) = {n. \<exists>uc\<in>set (cf_upstreams (setDefaults c)). up_name uc = n} - set (rr_added r) - set (rr_restarted r)"
  proof -
    have "{n. \<exists>uc\<in>set (cf_upstreams (setDefaults c)). up_name uc = n} = up_name ` set (cf_upstreams cfg)"
      by (auto simp: cfg_def)
    moreover have "set (rr_added r) \<union> set (rr_restarted r) = up_name ` set fr" by (auto simp: ok(7,8) fr_def)
    moreover have "U = U \<union> F - A - B" if "A \<union> B = F" "U \<inter> F = {}" for U F A B :: "string set" using that by blast
    ultimately show ?thesis using unch by metis
  qed
  obtain res' where res': "NewSecretResolver (cf_secrets cfg) = Inr res'"
      "\<forall>n. map_of (sr_sources res') n = map_option source_of (map_of (secretsByName (cf_secrets cfg)) n)"
    using NewSecretResolver_ok [of "cf_secrets cfg"] ok(1) by (auto simp: config_ok_def)
  have src: "map_of (sr_sources (gw_resolver g')) n = map_option source_of (map_of (secretsByName (cf_secrets cfg)) n)" for n
    using res' ok(2) by (simp add: ap(4))
  let ?built = "\<lambda>i. if i < gw_next g then built i else sr_sources (gw_resolver g')"
  have "\<exists>uc\<in>set (cf_upstreams cfg). up_current pd compile cfg uc (snd iu) \<and>
      refs_current (?built (fst iu)) (sr_sources (gw_resolver g')) uc" if iu: "iu \<in> set (gw_upstreams g')" for iu
  proof (cases "iu \<in> set fresh")
    case True
    have "list_all2 (\<lambda>uc iu. newUpstream pd compile uc cfg rd = Inr (snd iu)) (pl_add plan @ pl_restart plan) fresh"
      using new_upstreams_nth [OF ok(5)] by blast
    then obtain uc where uc: "uc \<in> set (pl_add plan @ pl_restart plan)" "newUpstream pd compile uc cfg rd = Inr (snd iu)"
      by (rule list_all2_in_right [OF _ True])
    have "fst iu \<in> set (map fst fresh)" using True by simp
    then have "\<not> fst iu < gw_next g" unfolding ids by simp
    then show ?thesis
      using uc pg(3) up_current_new [OF uc(2) ok(3)] unfolding fr_def by (auto simp: refs_current_def)
  next
    case False
    then have iu': "iu \<in> set (gw_upstreams g)" "iname iu \<in> set (pl_unchanged plan)" using iu unfolding ups ok(9) by auto
    obtain prev where prev: "prev \<in> set (cf_upstreams old)" "up_current pd compile old prev (snd iu)"
        "refs_current (built (fst iu)) (sr_sources (gw_resolver g)) prev"
      using assms(2) iu'(1) unfolding synced_def old_def [symmetric] by blast
    note pn = plan_names [OF dist(1) ok(4)]
    obtain uc where uc: "uc \<in> set (cf_upstreams cfg) - set (pl_add plan) - set (pl_restart plan)" "up_name uc = iname iu"
      using iu'(2) unfolding pn(4) by (elim imageE) simp
    note u = pn(5) [OF uc(1), unfolded unchanged_since_def]
    obtain prev' where prev': "prev' \<in> set (cf_upstreams old)" "same_section prev' uc"
      using u [THEN conjunct1] by (elim bexE)
    note un = u [THEN conjunct2, THEN conjunct1] u [THEN conjunct2, THEN conjunct2]
    have "same_section (us_cfg (snd iu)) prev" using prev(2) unfolding up_current_def ..
    then have "up_name prev = iname iu" by (rule same_section_name [symmetric])
    then have "up_name prev = up_name prev'" using same_section_name [OF prev'(2)] uc(2) by simp
    then have eq: "prev' = prev" using dist(1) prev(1) prev'(1) by (simp add: distinct_map inj_on_def)
    have cur: "up_current pd compile cfg uc (snd iu)"
      using up_current_unchanged [OF prev(2) prev'(2) [unfolded eq] _ ok(1)] un(1) uc(1) by blast
    have "map_of (sr_sources (gw_resolver g)) n = map_of (sr_sources (gw_resolver g')) n"
      if "v \<in> live_values uc" "n \<in> set (extractSecretRefs v)" for v n
    proof -
      have "map_of (secretsByName (cf_secrets old)) n = map_of (secretsByName (cf_secrets cfg)) n"
        using un(2) live_values_subset that old(1) ok(1) by (intro sec_get_eq) (auto simp: config_ok_def)
      then show ?thesis using assms(2) src by (simp add: synced_def old_def)
    qed
    moreover have "live_values uc = live_values prev" using live_values_section [OF prev'(2)] by (simp add: eq)
    ultimately have "refs_current (built (fst iu)) (sr_sources (gw_resolver g')) uc"
      using prev(3) unfolding refs_current_def by (metis (no_types))
    moreover have "fst iu < gw_next g" using assms(1) iu'(1) by (simp add: gw_ok_def)
    ultimately show ?thesis using cur uc(1) by auto
  qed
  moreover have "names_of g' = up_name ` set (cf_upstreams cfg)"
  proof -
    have "names_of g' = (names_of g \<inter> set (rr_unchanged r)) \<union> up_name ` set fr"
      unfolding names_of_def ups inames' [symmetric] by auto
    moreover have "set (rr_unchanged r) \<subseteq> names_of g" unfolding old(2) ok(9) pg(1) [symmetric] by blast
    ultimately show ?thesis using unch(1) by blast
  qed
  ultimately show "synced pd compile ?built g'"
    unfolding synced_def ap(3) using ok(1) src setDefaults_idem [of c, folded cfg_def] by blast
qed

end
