(* ===== verification/Gw_Reach.thy ===== *)
theory Gw_Reach
  imports Gw_Reload_Correct
begin

text \<open>
  The states a running gateway goes through, and what holds in all of them: a gateway is constructed from
  a valid configuration, built, and then takes the notifications of its upstreams, their reconnects and
  reloads in any order. The handlers of one gateway are taken to run one at a time.

  The second component of a reachable state is a ghost: the secret sources of the resolver each upstream
  was constructed with.
\<close>

subsection \<open>The other steps keep the configuration and the upstreams\<close>

definition same_core :: "gateway \<Rightarrow> gateway \<Rightarrow> bool" where
  "same_core g g' \<longleftrightarrow> gw_upstreams g' = gw_upstreams g \<and> gw_cfg g' = gw_cfg g \<and> gw_resolver g' = gw_resolver g \<and>
     gw_next g' = gw_next g"

named_theorems core_intros

lemma same_core_refl [core_intros]: "same_core g g"
  by (simp add: same_core_def)

lemma same_core_trans: "same_core g g' \<Longrightarrow> same_core g' g'' \<Longrightarrow> same_core g g''"
  by (simp add: same_core_def)

lemma core_reg:
  "same_core g g' \<Longrightarrow> same_core g (reg_tools rg u ts g')" "same_core g g' \<Longrightarrow> same_core g (reg_prompts rg u ps g')"
  "same_core g g' \<Longrightarrow> same_core g (reg_resources rg u rs g')" "same_core g g' \<Longrightarrow> same_core g (reg_templates rg u tps g')"
  by (simp_all add: same_core_def reg_tools_def reg_prompts_def reg_resources_def reg_templates_def Let_def)

lemma core_route: "same_core g g' \<Longrightarrow> same_core g (setRouteServer uni u s g')"
  by (simp add: same_core_def setRouteServer_def Let_def)

lemma core_refresh: "same_core g g' \<Longrightarrow> same_core g (snd (refreshRouteServer uni an u known g'))"
  by (auto simp: refreshRouteServer_def intro: core_route split: option.split)

lemma core_when: "same_core g g' \<Longrightarrow> (\<And>x. same_core g (f x g')) \<Longrightarrow> same_core g (when_listed l f g')"
  by (simp add: when_listed_def split: option.split)

lemma core_register: "same_core g g' \<Longrightarrow> same_core g (register_listed uni rg u l g')"
  unfolding register_listed_def Let_def reg_all_def by (simp add: core_reg core_route)

lemmas core_steps = core_reg core_route core_refresh core_when core_register

lemma core_notifications:
  "same_core g (snd (onToolListChanged uni rg ans name g))" "same_core g (snd (onPromptListChanged uni rg ans name g))"
  "same_core g (snd (onResourceListChanged uni rg ans name g))" "same_core g (onUpstreamReconnect uni rg ans ans' name g)"
  by (auto simp: onToolListChanged_def onPromptListChanged_def onResourceListChanged_def onUpstreamReconnect_def Let_def
      intro!: core_steps core_intros split: option.split)

lemma core_Build:
  assumes "Build uni rg ans g = (Inr (), g')"
  shows "same_core g g'"
proof -
  have *: "same_core g h \<Longrightarrow> same_core g (fold (\<lambda>(iu, l). register_listed uni rg (snd iu) l) ls h)" for ls h
  proof (induction ls arbitrary: h)
    case (Cons il ls)
    show ?case
      using Cons.IH [of "register_listed uni rg (snd (fst il)) (snd il) h"] core_register [OF Cons.prems]
      by (simp add: split_def)
  qed simp
  obtain ls cs where b: "build_list ans (gw_upstreams g) = (ls, cs)" by (cases "build_list ans (gw_upstreams g)")
  have "same_core g (fold (\<lambda>(iu, l). register_listed uni rg (snd iu) l) ls (g\<lparr>gw_calls := gw_calls g @ cs\<rparr>))"
    by (rule *) (simp add: same_core_def)
  then show ?thesis
    using assms b by (auto simp: Build_def Let_def same_core_def split: option.splits)
qed

lemma synced_core:
  assumes "synced pd compile built g" and "same_core g g'"
  shows "synced pd compile built g'"
  using assms by (simp add: synced_def same_core_def names_of_def)

subsection \<open>Reachable states\<close>

inductive gw_reach ::
  "(string \<Rightarrow> string) \<Rightarrow> (string \<Rightarrow> int option) \<Rightarrow> (string \<Rightarrow> (string \<Rightarrow> string) option) \<Rightarrow> gateway \<Rightarrow> (nat \<Rightarrow> sources) \<Rightarrow> bool"
  for uni pd compile where
  start: "config_ok pd compile (setDefaults cfg) \<Longrightarrow> New pd compile bs cfg = Inr g \<Longrightarrow>
     gw_reach uni pd compile g (\<lambda>_. sr_sources (gw_resolver g))"
| build: "gw_reach uni pd compile g b \<Longrightarrow> good_orders rg \<Longrightarrow> Build uni rg ans g = (Inr (), g') \<Longrightarrow>
     gw_reach uni pd compile g' b"
| tools_changed: "gw_reach uni pd compile g b \<Longrightarrow> good_orders rg \<Longrightarrow>
     gw_reach uni pd compile (snd (onToolListChanged uni rg ans name g)) b"
| prompts_changed: "gw_reach uni pd compile g b \<Longrightarrow> good_orders rg \<Longrightarrow>
     gw_reach uni pd compile (snd (onPromptListChanged uni rg ans name g)) b"
| resources_changed: "gw_reach uni pd compile g b \<Longrightarrow> good_orders rg \<Longrightarrow>
     gw_reach uni pd compile (snd (onResourceListChanged uni rg ans name g)) b"
| reconnected: "gw_reach uni pd compile g b \<Longrightarrow> good_orders rg \<Longrightarrow>
     gw_reach uni pd compile (onUpstreamReconnect uni rg ans ans' name g) b"
| reload: "gw_reach uni pd compile g b \<Longrightarrow> good_orders rg \<Longrightarrow>
     Reload uni pd compile nd rg ans cfg0 g = (r, e, g') \<Longrightarrow>
     gw_reach uni pd compile g' (\<lambda>i. if i < gw_next g then b i else sr_sources (gw_resolver g'))"

lemma reload_error_same:
  "Reload uni pd compile nd rg ans cfg0 g = (r, Some e, g') \<Longrightarrow> g' = g"
  using reload_cases [where g = g, OF refl, of uni pd compile nd rg ans cfg0] by auto

lemma synced_ghost:
  assumes "gw_ok uni g" and "synced pd compile b g"
  shows "synced pd compile (\<lambda>i. if i < gw_next g then b i else s) g"
proof -
  have "\<forall>iu\<in>set (gw_upstreams g). fst iu < gw_next g" using assms(1) by (simp add: gw_ok_def)
  then show ?thesis using assms(2) unfolding synced_def by (metis (full_types))
qed

lemma reach_ok: "gw_reach uni pd compile g b \<Longrightarrow> gw_ok uni g \<and> synced pd compile b g"
proof (induction rule: gw_reach.induct)
  case (start cfg bs g)
  then have "distinct (map up_name (cf_upstreams (setDefaults cfg)))" by (simp add: config_ok_def)
  with start show ?case using gw_ok_New synced_New by blast
next
  case (build g b rg ans g')
  then show ?case using gw_ok_Build core_Build synced_core by blast
next
  case (reload g b rg nd ans cfg0 r e g')
  show ?case
  proof (cases e)
    case None
    then obtain c where "cfg0 = Some c" using reload.hyps(3) by (cases cfg0) (auto simp: Reload_def)
    then show ?thesis
      using reload_step(3,4) [of uni g pd compile b rg nd ans c r g'] reload None by blast
  next
    case (Some e')
    then have "g' = g" using reload_error_same reload.hyps(3) by blast
    then show ?thesis using reload.IH synced_ghost by blast
  qed
qed (blast intro: gw_ok_notifications synced_core core_notifications)+

lemma reach_attached:
  assumes "gw_reach uni pd compile g b"
  shows "gw_ok uni g" and "synced pd compile b g"
  using reach_ok [OF assms] by blast+

subsection \<open>A small gateway\<close>

definition demo_answer :: up_answer where
  "demo_answer = \<lparr>an_connect = True, an_tools = Some [demo_tool ''get_issue''], an_prompts = Some [],
     an_resources = Some [], an_templates = Some []\<rparr>"

definition demo_ranges :: range_orders where
  "demo_ranges k up = (\<lambda>ks. ks, \<lambda>ks. ks)"

definition demo_new :: gateway where
  "demo_new = (case New (\<lambda>_. None) (\<lambda>_. None) False demo_config of Inr g \<Rightarrow> g)"

definition demo_built :: gateway where
  "demo_built = snd (Build (\<lambda>s. s) demo_ranges (\<lambda>_. demo_answer) demo_new)"

lemma New_ok:
  assumes "config_ok pd compile (setDefaults cfg)"
  shows "\<exists>g. New pd compile bs cfg = Inr g"
proof -
  obtain res where res: "NewSecretResolver (cf_secrets (setDefaults cfg)) = Inr res"
    using NewSecretResolver_ok [of "cf_secrets (setDefaults cfg)"] assms by (auto simp: config_ok_def)
  obtain rd where rd: "global_redactor compile (setDefaults cfg) = Inr rd" using global_redactor_ok [OF assms] ..
  obtain us where "new_upstreams pd compile (setDefaults cfg) rd 0 (cf_upstreams (setDefaults cfg)) = Inr us"
    using new_upstreams_ok [OF assms subset_refl] by blast
  then show ?thesis unfolding New_def Let_def res sum.case rd by simp
qed

lemma New_cfg: "New pd compile bs cfg = Inr g \<Longrightarrow> gw_cfg g = setDefaults cfg"
  by (auto simp: New_def Let_def split: sum.splits)

lemma demo_orders: "good_orders demo_ranges"
  by (simp add: good_orders_def good_ranges_def demo_ranges_def range_order_def)

lemma demo_new_eq: "New (\<lambda>_. None) (\<lambda>_. None) False demo_config = Inr demo_new"
  using New_ok [OF demo_config_ok, of False] by (auto simp: demo_new_def)

lemma demo_reach_new: "gw_reach uni (\<lambda>_. None) (\<lambda>_. None) demo_new (\<lambda>_. sr_sources (gw_resolver demo_new))"
  by (rule gw_reach.start [OF demo_config_ok demo_new_eq])

lemma demo_build_ok: "fst (Build (\<lambda>s. s) demo_ranges (\<lambda>_. demo_answer) demo_new) = Inr ()"
  by code_simp

lemma demo_reach_built:
  "gw_reach (\<lambda>s. s) (\<lambda>_. None) (\<lambda>_. None) demo_built (\<lambda>_. sr_sources (gw_resolver demo_new))"
proof -
  have "Build (\<lambda>s. s) demo_ranges (\<lambda>_. demo_answer) demo_new = (Inr (), demo_built)"
    using demo_build_ok by (simp add: demo_built_def prod_eq_iff)
  from gw_reach.build [OF demo_reach_new demo_orders this] show ?thesis .
qed

lemma demo_built_serves:
  "map_option snd (ms_tools (gw_server demo_built) ''gh_get_issue'') = Some (HCall ''gh'' ''get_issue'')"
  by code_simp

lemma demo_built_routes: "map ro_upstream (gw_routes demo_built) = [''gh'']"
  by code_simp

subsection \<open>Properties of every reachable gateway\<close>




lemma demo_request_routed: "ms_name (ServerForRequest (\<lambda>s. s) demo_built (Some (''h'', ''/gh/x''))) = ''gh''"
  by code_simp


text \<open>
  C20. A reload fails exactly when there is no configuration or it does not validate; nothing later can
  fail. A failed reload leaves the gateway as it was.
\<close>

theorem reload_fails_iff_invalid:
  "(fst (snd (Reload uni pd compile nd rg ans cfg0 g)) = None \<longleftrightarrow>
      (\<exists>c. cfg0 = Some c \<and> Validate pd compile (setDefaults c) = Inr ())) \<and>
   (fst (snd (Reload uni pd compile nd rg ans cfg0 g)) = None \<or>
      snd (snd (Reload uni pd compile nd rg ans cfg0 g)) = g)"
  using reload_cases [where g = g, OF refl, of uni pd compile nd rg ans cfg0] unfolding Validate_iff by auto

text \<open>
  C18. A successful reload: the configuration is the new one with its defaults, an upstream is attached
  for each of its sections and for nothing else, the upstreams reported unchanged are the same objects as
  before, no call was made on them, and every other one was closed before any of the new ones was connected.
\<close>

theorem reload_converges:
  assumes "gw_reach uni pd compile g b" and "good_orders rg"
    and "Reload uni pd compile nd rg ans (Some c) g = (r, None, g')"
  shows "gw_cfg g' = setDefaults c \<and> distinct (map iname (gw_upstreams g')) \<and>
    iname ` set (gw_upstreams g') = up_name ` set (cf_upstreams (setDefaults c)) \<and>
    (\<exists>fresh ds. gw_upstreams g' = filter (\<lambda>iu. iname iu \<in> set (rr_unchanged r)) (gw_upstreams g) @ fresh \<and>
       map (\<lambda>iu. up_name (us_cfg (snd iu))) fresh = rr_added r @ rr_restarted r \<and>
       fst ` set fresh \<inter> fst ` set (gw_upstreams g) = {} \<and>
       gw_calls g' = gw_calls g @ map (\<lambda>iu. UClose (fst iu)) ds @ map (\<lambda>iu. UConnect (fst iu)) fresh \<and>
       set ds = {iu \<in> set (gw_upstreams g). iname iu \<notin> set (rr_unchanged r)})"
proof -
  note ok = reach_attached [OF assms(1)]
  note step = reload_step [OF ok assms(2,3)]
  obtain fresh ds where f: "gw_upstreams g' = filter (\<lambda>iu. iname iu \<in> set (rr_unchanged r)) (gw_upstreams g) @ fresh"
      "map (\<lambda>iu. up_name (us_cfg (snd iu))) fresh = rr_added r @ rr_restarted r"
      "map fst fresh = [gw_next g..<gw_next g']"
      "gw_calls g' = gw_calls g @ map (\<lambda>iu. UClose (fst iu)) ds @ map (\<lambda>iu. UConnect (fst iu)) fresh"
      "set ds = {iu \<in> set (gw_upstreams g). iname iu \<notin> set (rr_unchanged r)}"
    using step(5) by blast
  have "fst ` set fresh = {gw_next g..<gw_next g'}" using arg_cong [OF f(3), of set] by simp
  moreover have "\<forall>iu\<in>set (gw_upstreams g). fst iu < gw_next g" using ok(1) by (simp add: gw_ok_def)
  ultimately have "fst ` set fresh \<inter> fst ` set (gw_upstreams g) = {}" by force
  moreover have "distinct (map iname (gw_upstreams g'))" using step(3) by (simp add: gw_ok_def)
  moreover have "iname ` set (gw_upstreams g') = up_name ` set (cf_upstreams (setDefaults c))"
    using step(2,4) by (simp add: synced_def names_of_def)
  ultimately show ?thesis using step(2) f(1,2,4,5) by blast
qed

definition demo_config2 :: config where
  "demo_config2 = demo_config\<lparr>cf_upstreams := [demo_upstream\<lparr>up_route := \<lparr>ro_host = [], ro_path = ''/git''\<rparr>\<rparr>]\<rparr>"

definition demo_nd :: nil_diff where
  "demo_nd = \<lparr>nd_upstream = \<lambda>a b. False, nd_redact = \<lambda>a b. False, nd_auth = \<lambda>a b. False\<rparr>"

definition demo_reload :: "reload_result \<times> reload_error option \<times> gateway" where
  "demo_reload = Reload (\<lambda>s. s) (\<lambda>_. None) (\<lambda>_. None) demo_nd demo_ranges (\<lambda>_. demo_answer) (Some demo_config2) demo_built"

lemma demo_config2_ok: "config_ok (\<lambda>_. None) (\<lambda>_. None) (setDefaults demo_config2)"
proof -
  have "config_ok (\<lambda>_. None) (\<lambda>_. None) (setDefaults demo_config)" by (rule demo_config_ok)
  then show ?thesis
    by (simp add: config_ok_def setDefaults_def demo_config2_def demo_config_def demo_upstream_def demo_tools_def
        default_lazy_def dur_ok_def upstream_ok_def route_ok_def scopes_ok_def has_route_def secret_values_def)
qed

lemma demo_reload_ok:
  "Reload (\<lambda>s. s) (\<lambda>_. None) (\<lambda>_. None) demo_nd demo_ranges (\<lambda>_. demo_answer) (Some demo_config2) demo_built =
     (fst demo_reload, None, snd (snd demo_reload))"
  using reload_cases [where g = demo_built, OF refl, of "\<lambda>s. s" "\<lambda>_. None" "\<lambda>_. None" demo_nd demo_ranges
      "\<lambda>_. demo_answer" "Some demo_config2"] demo_config2_ok
  unfolding demo_reload_def by auto

theorem reload_converges_witness:
  "gw_cfg (snd (snd demo_reload)) = setDefaults demo_config2 \<and> distinct (map iname (gw_upstreams (snd (snd demo_reload)))) \<and>
    iname ` set (gw_upstreams (snd (snd demo_reload))) = up_name ` set (cf_upstreams (setDefaults demo_config2)) \<and>
    (\<exists>fresh ds. gw_upstreams (snd (snd demo_reload)) =
         filter (\<lambda>iu. iname iu \<in> set (rr_unchanged (fst demo_reload))) (gw_upstreams demo_built) @ fresh \<and>
       map (\<lambda>iu. up_name (us_cfg (snd iu))) fresh = rr_added (fst demo_reload) @ rr_restarted (fst demo_reload) \<and>
       fst ` set fresh \<inter> fst ` set (gw_upstreams demo_built) = {} \<and>
       gw_calls (snd (snd demo_reload)) =
         gw_calls demo_built @ map (\<lambda>iu. UClose (fst iu)) ds @ map (\<lambda>iu. UConnect (fst iu)) fresh \<and>
       set ds = {iu \<in> set (gw_upstreams demo_built). iname iu \<notin> set (rr_unchanged (fst demo_reload))})"
  by (rule reload_converges [OF demo_reach_built demo_orders demo_reload_ok])

text \<open>Built the same way, the drain timeout apart.\<close>

definition same_object :: "upstream \<Rightarrow> upstream \<Rightarrow> bool" where
  "same_object u u0 \<longleftrightarrow> same_section (us_cfg u) (us_cfg u0) \<and>
     u\<lparr>us_cfg := us_cfg u0, us_drain_timeout := us_drain_timeout u0\<rparr> = u0"

text \<open>
  C2. Reloading is as good as restarting: whatever the reloads and notifications before, a gateway newly
  constructed from the running configuration has the same upstreams, each built the same way up to its
  drain timeout, and reads every secret an upstream refers to from the source that upstream reads it from.
\<close>

theorem reload_equals_restart:
  assumes "gw_reach uni pd compile g b"
  shows "\<exists>g0. New pd compile bs (gw_cfg g) = Inr g0 \<and> gw_cfg g0 = gw_cfg g \<and>
    iname ` set (gw_upstreams g) = iname ` set (gw_upstreams g0) \<and>
    (\<forall>iu\<in>set (gw_upstreams g). \<exists>iu0\<in>set (gw_upstreams g0). same_object (snd iu) (snd iu0) \<and>
       (\<forall>v\<in>live_values (us_cfg (snd iu0)). \<forall>n\<in>set (extractSecretRefs v).
          map_of (b (fst iu)) n = map_of (sr_sources (gw_resolver g0)) n))"
proof -
  note ok = reach_attached [OF assms]
  have cfg: "config_ok pd compile (gw_cfg g)" "setDefaults (gw_cfg g) = gw_cfg g"
      "names_of g = up_name ` set (cf_upstreams (gw_cfg g))"
    using ok(2) by (simp_all add: synced_def)
  obtain g0 where g0: "New pd compile bs (gw_cfg g) = Inr g0"
    using New_ok [of pd compile "gw_cfg g" bs] cfg by auto
  obtain res rd us where n: "NewSecretResolver (cf_secrets (gw_cfg g)) = Inr res"
      "global_redactor compile (gw_cfg g) = Inr rd"
      "new_upstreams pd compile (gw_cfg g) rd 0 (cf_upstreams (gw_cfg g)) = Inr us"
      "gw_cfg g0 = gw_cfg g" "gw_resolver g0 = res" "gw_upstreams g0 = us"
    using g0 by (auto simp: New_def Let_def cfg(2) split: sum.splits)
  have "synced pd compile (\<lambda>_. sr_sources (gw_resolver g0)) g0" using synced_New [of pd compile "gw_cfg g" bs g0] g0 cfg by simp
  then have s0: "names_of g0 = up_name ` set (cf_upstreams (gw_cfg g))"
      "\<forall>n. map_of (sr_sources (gw_resolver g0)) n = map_of (sr_sources (gw_resolver g)) n"
    using ok(2) unfolding synced_def n(4) by simp_all
  have "\<exists>iu0\<in>set us. same_object (snd iu) (snd iu0) \<and>
       (\<forall>v\<in>live_values (us_cfg (snd iu0)). \<forall>n\<in>set (extractSecretRefs v).
          map_of (b (fst iu)) n = map_of (sr_sources (gw_resolver g0)) n)" if iu: "iu \<in> set (gw_upstreams g)" for iu
  proof -
    obtain uc where uc: "uc \<in> set (cf_upstreams (gw_cfg g))" "up_current pd compile (gw_cfg g) uc (snd iu)"
        "refs_current (b (fst iu)) (sr_sources (gw_resolver g)) uc"
      using ok(2) iu unfolding synced_def by blast
    obtain u' where u': "same_section (us_cfg (snd iu)) uc" "newUpstream pd compile uc (gw_cfg g) rd = Inr u'"
        "snd iu = u'\<lparr>us_cfg := us_cfg (snd iu), us_drain_timeout := us_drain_timeout (snd iu)\<rparr>"
      using uc(2) n(2) by (auto simp: up_current_def)
    have "list_all2 (\<lambda>iu uc. newUpstream pd compile uc (gw_cfg g) rd = Inr (snd iu)) us (cf_upstreams (gw_cfg g))"
      using new_upstreams_nth [OF n(3)] by (simp add: list_all2_conv_all_nth)
    then obtain iu0 where iu0: "iu0 \<in> set us" "newUpstream pd compile uc (gw_cfg g) rd = Inr (snd iu0)"
      by (rule list_all2_in_right [OF _ uc(1)])
    then have eq: "snd iu0 = u'" using u'(2) by simp
    have sec: "us_cfg u' = uc" by (rule newUpstream_cfg [OF u'(2)])
    have "same_object (snd iu) (snd iu0)"
      unfolding same_object_def eq sec by (subst (2) u'(3)) (use u'(1) sec in simp)
    moreover have "\<forall>v\<in>live_values (us_cfg (snd iu0)). \<forall>n\<in>set (extractSecretRefs v).
          map_of (b (fst iu)) n = map_of (sr_sources (gw_resolver g0)) n"
      using uc(3) unfolding eq sec refs_current_def s0(2) [rule_format] .
    ultimately show ?thesis using iu0(1) by blast
  qed
  moreover have "iname ` set (gw_upstreams g) = iname ` set (gw_upstreams g0)"
    using cfg(3) s0(1) by (simp add: names_of_def)
  ultimately show ?thesis using g0 n(4,6) by blast
qed

lemma demo_built_upstreams: "map iname (gw_upstreams demo_built) = [''gh'']"
  by code_simp

theorem reload_equals_restart_witness:
  "\<exists>g0. New (\<lambda>_. None) (\<lambda>_. None) False (gw_cfg demo_built) = Inr g0 \<and> gw_cfg g0 = gw_cfg demo_built \<and>
    iname ` set (gw_upstreams demo_built) = iname ` set (gw_upstreams g0) \<and>
    (\<exists>iu\<in>set (gw_upstreams demo_built). \<exists>iu0\<in>set (gw_upstreams g0). same_object (snd iu) (snd iu0) \<and>
       \<not> (\<exists>v\<in>live_values (us_cfg (snd iu0)). \<exists>n\<in>set (extractSecretRefs v).
          map_of (sr_sources (gw_resolver demo_new)) n \<noteq> map_of (sr_sources (gw_resolver g0)) n))"
proof -
  obtain iu where "iu \<in> set (gw_upstreams demo_built)" using demo_built_upstreams by (cases "gw_upstreams demo_built") auto
  then show ?thesis using reload_equals_restart [OF demo_reach_built, of False] by blast
qed

text \<open>
  Reloading the configuration that runs does nothing: no upstream is added, removed or restarted, no
  call is made on any, and nothing needs a restart. What the secrets' sources hold does not enter into it:
  a process started with the old value of a secret in its environment keeps running with it.
\<close>

theorem reload_same_does_nothing:
  assumes "gw_reach uni pd compile g b" and "good_orders rg" and "setDefaults c = gw_cfg g"
    and "\<not> (\<exists>uc. nd_upstream nd uc uc)" and "\<not> nd_redact nd (cf_redact (gw_cfg g)) (cf_redact (gw_cfg g))"
    and "\<not> nd_auth nd (cf_auth (gw_cfg g)) (cf_auth (gw_cfg g))"
  shows "\<exists>g'. Reload uni pd compile nd rg ans (Some c) g =
      (no_result\<lparr>rr_unchanged := map up_name (cf_upstreams (gw_cfg g))\<rparr>, None, g') \<and>
    gw_cfg g' = gw_cfg g \<and> gw_upstreams g' = gw_upstreams g \<and> gw_calls g' = gw_calls g"
proof -
  note ok = reach_attached [OF assms(1)]
  let ?cfg = "gw_cfg g"
  have cfg: "config_ok pd compile ?cfg" "names_of g = up_name ` set (cf_upstreams ?cfg)"
    using ok(2) by (simp_all add: synced_def)
  have dist: "distinct (map up_name (cf_upstreams ?cfg))" using cfg(1) by (simp add: config_ok_def)
  have v: "plan_verdict nd (fold (\<lambda>uc. AList.update (up_name uc) uc) (cf_upstreams ?cfg) [])
      (secretsByName (cf_secrets ?cfg)) (secretsByName (cf_secrets ?cfg)) False uc = VUnchanged"
    if "uc \<in> set (cf_upstreams ?cfg)" for uc
  proof -
    have "map_of (fold (\<lambda>uc. AList.update (up_name uc) uc) (cf_upstreams ?cfg) []) (up_name uc) = Some uc"
      using that map_of_by_name [OF dist] by blast
    moreover have "upstream_deep_equal nd uc uc" using assms(4) by (simp add: upstream_deep_equal_def gomap_eq_iff)
    ultimately show ?thesis by (simp add: plan_verdict_def secretRefsChanged_def list_ex_iff)
  qed
  have plan: "planUpstreams nd ?cfg ?cfg = \<lparr>pl_add = [], pl_restart = [], pl_remove = [],
      pl_unchanged = map up_name (cf_upstreams ?cfg)\<rparr>"
    using v assms(5) by (simp add: planUpstreams_def filter_empty_conv cong: filter_cong)
  have rr: "restartRequired nd ?cfg ?cfg = []"
    using assms(6) by (simp add: restartRequired_def blobStoreChanged_def)
  obtain res g' where run: "Reload uni pd compile nd rg ans (Some c) g =
      (no_result\<lparr>rr_unchanged := map up_name (cf_upstreams ?cfg)\<rparr>, None, g')"
    using reload_cases [where g = g, OF refl, of uni pd compile nd rg ans "Some c"] cfg(1)
    by (auto simp: assms(3) plan rr no_result_def)
  note step = reload_step [OF ok assms(2) run]
  have "gw_upstreams g' = filter (\<lambda>iu. iname iu \<in> up_name ` set (cf_upstreams ?cfg)) (gw_upstreams g) \<and>
      (\<exists>ds. gw_calls g' = gw_calls g @ map (\<lambda>iu. UClose (fst iu)) ds \<and>
        set ds = {iu \<in> set (gw_upstreams g). iname iu \<notin> up_name ` set (cf_upstreams ?cfg)})"
    using step(5) by (auto simp: no_result_def)
  moreover have all: "\<forall>iu\<in>set (gw_upstreams g). iname iu \<in> up_name ` set (cf_upstreams ?cfg)"
    unfolding cfg(2) [symmetric] names_of_def by blast
  moreover have "filter (\<lambda>iu. iname iu \<in> up_name ` set (cf_upstreams ?cfg)) (gw_upstreams g) = gw_upstreams g"
    using all by (rule filter_True)
  moreover have "{iu \<in> set (gw_upstreams g). iname iu \<notin> up_name ` set (cf_upstreams ?cfg)} = {}"
    unfolding Collect_empty_eq using all by simp
  ultimately have "gw_upstreams g' = gw_upstreams g \<and> gw_calls g' = gw_calls g" by (metis append_Nil2 list.simps(8) set_empty)
  then show ?thesis using run step(2) assms(3) by auto
qed

theorem reload_same_does_nothing_witness:
  "\<exists>g'. Reload (\<lambda>s. s) (\<lambda>_. None) (\<lambda>_. None) demo_nd demo_ranges (\<lambda>_. demo_answer) (Some demo_config) demo_new =
      (no_result\<lparr>rr_unchanged := map up_name (cf_upstreams (gw_cfg demo_new))\<rparr>, None, g') \<and>
    gw_cfg g' = gw_cfg demo_new \<and> gw_upstreams g' = gw_upstreams demo_new \<and> gw_calls g' = gw_calls demo_new"
proof (rule reload_same_does_nothing [OF demo_reach_new demo_orders])
  show "setDefaults demo_config = gw_cfg demo_new"
    using New_cfg [OF demo_new_eq] by simp
qed (simp_all add: demo_nd_def)

end
