(* ===== verification/Gw_Reloader.thy ===== *)
theory Gw_Reloader
  imports Gw_Reach
begin

text \<open>
  The configuration source and the reload loop, \<open>internal/gateway/source.go\<close> and
  \<open>internal/gateway/reloader.go\<close>: the file is polled by the hash of its content, a change or a signal puts a
  token in a channel of one slot, and the loop takes the token, loads the file and reloads the gateway.

  The TOML decoder and SHA-256 are the parameters \<open>unm\<close> and \<open>h\<close>; the content of the file is \<open>None\<close> while
  it cannot be read. Log lines and metric instruments are left out, except for what they count.
\<close>

subsection \<open>The file source\<close>

record file_source_options =
  fo_path :: string
  fo_interval :: int
  fo_signals :: "string list option"

record file_source =
  fs_path :: string
  fs_interval :: int
  fs_signals :: "string list"
  fs_last :: string

definition source_defaults :: "file_source_options \<Rightarrow> file_source_options" where
  "source_defaults fo = (if fo_signals fo = None then fo\<lparr>fo_signals := Some [''SIGHUP'']\<rparr> else fo)"

text \<open>\<open>None\<close> is the error for an empty path. The hash last seen starts as 32 zero bytes.\<close>

definition NewFileSource :: "file_source_options \<Rightarrow> file_source option" where
  "NewFileSource fo0 =
     (let fo = source_defaults fo0 in
      if fo_path fo = [] then None
      else Some \<lparr>fs_path = fo_path fo, fs_interval = fo_interval fo, fs_signals = the (fo_signals fo),
        fs_last = replicate 32 (CHR 0x00)\<rparr>)"

datatype load_error =
    ReadConfig
  | BadToml
  | BadConfig config_error

text \<open>\<open>Load\<close> up to the lock, the critical section that records the hash, and both together.\<close>

definition load_read ::
  "(string \<Rightarrow> int option) \<Rightarrow> (string \<Rightarrow> (string \<Rightarrow> string) option) \<Rightarrow> (string \<Rightarrow> config option) \<Rightarrow> string option
     \<Rightarrow> load_error + string \<times> config" where
  "load_read pd compile unm file =
     (case file of
        None \<Rightarrow> Inl ReadConfig
      | Some data \<Rightarrow>
          (case unm data of
             None \<Rightarrow> Inl BadToml
           | Some raw \<Rightarrow>
               (case Decode pd compile raw of
                  Inl e \<Rightarrow> Inl (BadConfig e)
                | Inr cfg \<Rightarrow> Inr (data, cfg))))"

definition record_hash :: "(string \<Rightarrow> string) \<Rightarrow> string \<Rightarrow> file_source \<Rightarrow> file_source" where
  "record_hash h data s = s\<lparr>fs_last := h data\<rparr>"

definition Load ::
  "(string \<Rightarrow> int option) \<Rightarrow> (string \<Rightarrow> (string \<Rightarrow> string) option) \<Rightarrow> (string \<Rightarrow> config option) \<Rightarrow> (string \<Rightarrow> string)
     \<Rightarrow> string option \<Rightarrow> file_source \<Rightarrow> (load_error + config) \<times> file_source" where
  "Load pd compile unm h file s =
     (case load_read pd compile unm file of
        Inl e \<Rightarrow> (Inl e, s)
      | Inr (data, cfg) \<Rightarrow> (Inr cfg, record_hash h data s))"

text \<open>\<open>changed\<close>: the critical section on the bytes it has read, and the whole of it.\<close>

definition changed_compare :: "(string \<Rightarrow> string) \<Rightarrow> string \<Rightarrow> file_source \<Rightarrow> bool \<times> file_source" where
  "changed_compare h data s =
     (if h data = fs_last s then (False, s) else (True, s\<lparr>fs_last := h data\<rparr>))"

definition changed :: "(string \<Rightarrow> string) \<Rightarrow> string option \<Rightarrow> file_source \<Rightarrow> bool \<times> file_source" where
  "changed h file s = (case file of None \<Rightarrow> (False, s) | Some data \<Rightarrow> changed_compare h data s)"

subsection \<open>The reloader\<close>

text \<open>The last success, in seconds, and the counter of attempts by result.\<close>

record reloader =
  rl_last_success :: int
  rl_succeeded :: nat
  rl_failed :: nat

definition NewReloader :: "int \<Rightarrow> reloader" where
  "NewReloader now = \<lparr>rl_last_success = now, rl_succeeded = 0, rl_failed = 0\<rparr>"

datatype attempt_error = LoadConfig load_error | TargetReload reload_error

definition observe :: "int \<Rightarrow> attempt_error option \<Rightarrow> reloader \<Rightarrow> reloader" where
  "observe now err rl =
     (case err of
        Some _ \<Rightarrow> rl\<lparr>rl_failed := rl_failed rl + 1\<rparr>
      | None \<Rightarrow> rl\<lparr>rl_last_success := now, rl_succeeded := rl_succeeded rl + 1\<rparr>)"

text \<open>One load-and-apply cycle without interruption.\<close>

definition reload_once ::
  "(string \<Rightarrow> string) \<Rightarrow> (string \<Rightarrow> int option) \<Rightarrow> (string \<Rightarrow> (string \<Rightarrow> string) option) \<Rightarrow> (string \<Rightarrow> config option)
     \<Rightarrow> (string \<Rightarrow> string) \<Rightarrow> nil_diff \<Rightarrow> range_orders \<Rightarrow> (nat \<Rightarrow> up_answer) \<Rightarrow> string option \<Rightarrow> file_source \<Rightarrow> gateway
     \<Rightarrow> reload_result \<times> attempt_error option \<times> file_source \<times> gateway" where
  "reload_once uni pd compile unm h nd rg ans file s g =
     (case Load pd compile unm h file s of
        (Inl e, s') \<Rightarrow> (no_result, Some (LoadConfig e), s', g)
      | (Inr cfg, s') \<Rightarrow>
          (let (res, err, g') = Reload uni pd compile nd rg ans (Some cfg) g
           in (res, map_option TargetReload err, s', g')))"

definition Reloader_Reload ::
  "(string \<Rightarrow> string) \<Rightarrow> (string \<Rightarrow> int option) \<Rightarrow> (string \<Rightarrow> (string \<Rightarrow> string) option) \<Rightarrow> (string \<Rightarrow> config option)
     \<Rightarrow> (string \<Rightarrow> string) \<Rightarrow> nil_diff \<Rightarrow> range_orders \<Rightarrow> (nat \<Rightarrow> up_answer) \<Rightarrow> int \<Rightarrow> string option
     \<Rightarrow> reloader \<Rightarrow> file_source \<Rightarrow> gateway \<Rightarrow> (reload_result \<times> attempt_error option) \<times> reloader \<times> file_source \<times> gateway" where
  "Reloader_Reload uni pd compile unm h nd rg ans now file rl s g =
     (let (res, err, s', g') = reload_once uni pd compile unm h nd rg ans file s g
      in ((res, err), observe now err rl, s', g'))"

subsection \<open>The two loops\<close>

text \<open>
  \<open>Watch\<close> and the loop of \<open>Run\<close> are two goroutines. The steps are what each does between two points where
  the other, the file or the gateway's own handlers may come in. The ghost \<open>ls_read\<close> is the content the
  last successful \<open>Load\<close> read, and \<open>ls_failed\<close> tells whether the last \<open>Load\<close> failed.
\<close>

datatype watch_pc = WSelect | WCompare string | WSend | WDone

datatype run_pc = RSelect | RLoad | RRecord string config | RApply config | RDone

record loop_sys =
  ls_file :: "string option"
  ls_signal :: bool
  ls_done :: bool
  ls_source :: file_source
  ls_watch :: watch_pc
  ls_chan :: bool
  ls_run :: run_pc
  ls_reloader :: reloader
  ls_gateway :: gateway
  ls_read :: string
  ls_failed :: bool

text \<open>What the gateway does of its own accord meanwhile.\<close>

inductive handler_step :: "(string \<Rightarrow> string) \<Rightarrow> gateway \<Rightarrow> gateway \<Rightarrow> bool" for uni where
  h_build: "good_orders rg \<Longrightarrow> Build uni rg ans g = (Inr (), g') \<Longrightarrow> handler_step uni g g'"
| h_tools: "good_orders rg \<Longrightarrow> handler_step uni g (snd (onToolListChanged uni rg ans name g))"
| h_prompts: "good_orders rg \<Longrightarrow> handler_step uni g (snd (onPromptListChanged uni rg ans name g))"
| h_resources: "good_orders rg \<Longrightarrow> handler_step uni g (snd (onResourceListChanged uni rg ans name g))"
| h_reconnect: "good_orders rg \<Longrightarrow> handler_step uni g (onUpstreamReconnect uni rg ans ans' name g)"

inductive loop_step ::
  "(string \<Rightarrow> string) \<Rightarrow> (string \<Rightarrow> int option) \<Rightarrow> (string \<Rightarrow> (string \<Rightarrow> string) option) \<Rightarrow> (string \<Rightarrow> config option)
     \<Rightarrow> (string \<Rightarrow> string) \<Rightarrow> loop_sys \<Rightarrow> loop_sys \<Rightarrow> bool" for uni pd compile unm h where
  e_file: "loop_step uni pd compile unm h y (y\<lparr>ls_file := file\<rparr>)"
| e_signal: "fs_signals (ls_source y) \<noteq> [] \<Longrightarrow> loop_step uni pd compile unm h y (y\<lparr>ls_signal := True\<rparr>)"
| e_done: "loop_step uni pd compile unm h y (y\<lparr>ls_done := True\<rparr>)"
| e_handler: "handler_step uni (ls_gateway y) g' \<Longrightarrow> loop_step uni pd compile unm h y (y\<lparr>ls_gateway := g'\<rparr>)"
| w_done: "ls_watch y = WSelect \<or> ls_watch y = WSend \<Longrightarrow> ls_done y \<Longrightarrow>
    loop_step uni pd compile unm h y (y\<lparr>ls_watch := WDone\<rparr>)"
| w_signal: "ls_watch y = WSelect \<Longrightarrow> ls_signal y \<Longrightarrow>
    loop_step uni pd compile unm h y (y\<lparr>ls_watch := WSend, ls_signal := False\<rparr>)"
| w_tick: "ls_watch y = WSelect \<Longrightarrow> fs_interval (ls_source y) > 0 \<Longrightarrow>
    loop_step uni pd compile unm h y (case ls_file y of None \<Rightarrow> y | Some data \<Rightarrow> y\<lparr>ls_watch := WCompare data\<rparr>)"
| w_compare: "ls_watch y = WCompare data \<Longrightarrow> changed_compare h data (ls_source y) = (c, s') \<Longrightarrow>
    loop_step uni pd compile unm h y (y\<lparr>ls_source := s', ls_watch := (if c then WSend else WSelect)\<rparr>)"
| w_send: "ls_watch y = WSend \<Longrightarrow> \<not> ls_chan y \<Longrightarrow>
    loop_step uni pd compile unm h y (y\<lparr>ls_chan := True, ls_watch := WSelect\<rparr>)"
| r_done: "ls_run y = RSelect \<Longrightarrow> ls_done y \<Longrightarrow> loop_step uni pd compile unm h y (y\<lparr>ls_run := RDone\<rparr>)"
| r_wake: "ls_run y = RSelect \<Longrightarrow> ls_chan y \<Longrightarrow>
    loop_step uni pd compile unm h y (y\<lparr>ls_run := RLoad, ls_chan := False\<rparr>)"
| r_fail: "ls_run y = RLoad \<Longrightarrow> load_read pd compile unm (ls_file y) = Inl e \<Longrightarrow>
    loop_step uni pd compile unm h y
      (y\<lparr>ls_run := RSelect, ls_reloader := observe now (Some (LoadConfig e)) (ls_reloader y), ls_failed := True\<rparr>)"
| r_read: "ls_run y = RLoad \<Longrightarrow> load_read pd compile unm (ls_file y) = Inr (data, cfg) \<Longrightarrow>
    loop_step uni pd compile unm h y (y\<lparr>ls_run := RRecord data cfg, ls_read := data, ls_failed := False\<rparr>)"
| r_record: "ls_run y = RRecord data cfg \<Longrightarrow>
    loop_step uni pd compile unm h y (y\<lparr>ls_run := RApply cfg, ls_source := record_hash h data (ls_source y)\<rparr>)"
| r_apply: "ls_run y = RApply cfg \<Longrightarrow> good_orders rg \<Longrightarrow>
    Reload uni pd compile nd rg ans (Some cfg) (ls_gateway y) = (res, err, g') \<Longrightarrow>
    loop_step uni pd compile unm h y
      (y\<lparr>ls_run := RSelect, ls_reloader := observe now (map_option TargetReload err) (ls_reloader y), ls_gateway := g'\<rparr>)"

text \<open>
  At the start the program has loaded the file once and constructed the gateway from it
  (\<open>cmd/mcpgateway/main.go\<close>).
\<close>

inductive loop_reach ::
  "(string \<Rightarrow> string) \<Rightarrow> (string \<Rightarrow> int option) \<Rightarrow> (string \<Rightarrow> (string \<Rightarrow> string) option) \<Rightarrow> (string \<Rightarrow> config option)
     \<Rightarrow> (string \<Rightarrow> string) \<Rightarrow> loop_sys \<Rightarrow> bool" for uni pd compile unm h where
  l_start: "NewFileSource fo = Some s0 \<Longrightarrow> Load pd compile unm h (Some data) s0 = (Inr cfg, s) \<Longrightarrow>
    New pd compile bs cfg = Inr g \<Longrightarrow>
    loop_reach uni pd compile unm h \<lparr>ls_file = Some data, ls_signal = False, ls_done = False, ls_source = s, ls_watch = WSelect,
      ls_chan = False, ls_run = RSelect, ls_reloader = NewReloader now, ls_gateway = g, ls_read = data, ls_failed = False\<rparr>"
| l_step: "loop_reach uni pd compile unm h y \<Longrightarrow> loop_step uni pd compile unm h y y' \<Longrightarrow> loop_reach uni pd compile unm h y'"

subsection \<open>What the loops keep\<close>

definition decoded ::
  "(string \<Rightarrow> int option) \<Rightarrow> (string \<Rightarrow> (string \<Rightarrow> string) option) \<Rightarrow> (string \<Rightarrow> config option) \<Rightarrow> string \<Rightarrow> config \<Rightarrow> bool" where
  "decoded pd compile unm data cfg \<longleftrightarrow> (\<exists>raw. unm data = Some raw \<and> Decode pd compile raw = Inr cfg)"

lemma load_read_Inr:
  "load_read pd compile unm file = Inr (data, cfg) \<longleftrightarrow> file = Some data \<and> decoded pd compile unm data cfg"
  by (auto simp: load_read_def decoded_def split: option.splits sum.splits)

text \<open>A change not yet read is announced: it is on its way to the loader, unless the last load failed.\<close>

definition announced :: "(string \<Rightarrow> string) \<Rightarrow> loop_sys \<Rightarrow> bool" where
  "announced h y \<longleftrightarrow> ls_done y \<or> ls_failed y \<or> ls_watch y = WSend \<or> ls_chan y \<or> ls_run y = RLoad \<or>
     (\<exists>cfg. ls_run y = RRecord (ls_read y) cfg) \<or> fs_last (ls_source y) = h (ls_read y)"

lemma announced_step: "loop_step uni pd compile unm h y y' \<Longrightarrow> announced h y \<Longrightarrow>
    (\<forall>d cfg. ls_run y = RRecord d cfg \<longrightarrow> d = ls_read y) \<Longrightarrow> announced h y'"
  by (induction rule: loop_step.induct)
    (auto simp: announced_def changed_compare_def record_hash_def split: option.splits if_splits)

text \<open>What runs, or is about to, is what was read.\<close>

definition runs_read ::
  "(string \<Rightarrow> int option) \<Rightarrow> (string \<Rightarrow> (string \<Rightarrow> string) option) \<Rightarrow> (string \<Rightarrow> config option) \<Rightarrow> loop_sys \<Rightarrow> bool" where
  "runs_read pd compile unm y \<longleftrightarrow>
     (case ls_run y of
        RRecord d cfg \<Rightarrow> d = ls_read y \<and> decoded pd compile unm d cfg
      | RApply cfg \<Rightarrow> decoded pd compile unm (ls_read y) cfg
      | _ \<Rightarrow> decoded pd compile unm (ls_read y) (gw_cfg (ls_gateway y)))"

lemma handler_core: "handler_step uni g g' \<Longrightarrow> same_core g g'"
  by (induction rule: handler_step.induct) (blast intro: core_Build core_notifications)+

lemma handler_reach: "handler_step uni g g' \<Longrightarrow> gw_reach uni pd compile g b \<Longrightarrow> gw_reach uni pd compile g' b"
  by (induction rule: handler_step.induct) (blast intro: gw_reach.intros)+

lemma decoded_ok:
  assumes "decoded pd compile unm d cfg"
  shows "setDefaults cfg = cfg" and "config_ok pd compile cfg"
proof -
  obtain raw where "Decode pd compile raw = Inr cfg" using assms by (auto simp: decoded_def)
  then have "cfg = setDefaults raw \<and> Validate pd compile cfg = Inr ()"
    by (cases "Validate pd compile (setDefaults raw)") (auto simp: Decode_def Let_def unit_eq)
  then show "setDefaults cfg = cfg" and "config_ok pd compile cfg" using Validate_iff by (auto simp: setDefaults_idem)
qed

text \<open>A configuration that was decoded is always applied.\<close>

lemma decoded_applies:
  assumes "decoded pd compile unm d cfg" and "gw_reach uni pd compile g b" and "good_orders rg"
    and "Reload uni pd compile nd rg ans (Some cfg) g = (res, err, g')"
  shows "err = None \<and> gw_cfg g' = cfg"
proof -
  have "err = None"
    using reload_cases [where g = g, OF refl, of uni pd compile nd rg ans "Some cfg"] decoded_ok [OF assms(1)] assms(4)
    by auto
  then show ?thesis
    using reload_step(2) [OF reach_attached [OF assms(2)] assms(3)] assms(4) decoded_ok [OF assms(1)] by auto
qed

lemma runs_read_step:
  assumes "loop_step uni pd compile unm h y y'" and "runs_read pd compile unm y" and "gw_reach uni pd compile (ls_gateway y) b"
  shows "runs_read pd compile unm y'"
  using assms
proof (induction rule: loop_step.induct)
  case (e_handler y g')
  then have "gw_cfg g' = gw_cfg (ls_gateway y)" using handler_core by (auto simp: same_core_def)
  then show ?case using e_handler.prems by (simp add: runs_read_def split: run_pc.split_asm)
next
  case (r_apply y cfg rg nd ans res err g' now)
  then show ?case using decoded_applies [of pd compile unm "ls_read y" cfg uni "ls_gateway y" b rg nd ans res err g']
    by (simp add: runs_read_def)
qed (auto simp: runs_read_def load_read_Inr split: run_pc.split option.split)

lemma loop_gateway_step:
  assumes "loop_step uni pd compile unm h y y'" and "gw_reach uni pd compile (ls_gateway y) b"
  shows "\<exists>b'. gw_reach uni pd compile (ls_gateway y') b'"
  using assms
proof (induction rule: loop_step.induct)
  case (e_handler y g')
  then show ?case using handler_reach by fastforce
next
  case (r_apply y cfg rg nd ans res err g' now)
  then show ?case using gw_reach.reload [OF r_apply.prems r_apply.hyps(2,3)] by fastforce
next
  case (w_tick y)
  then show ?case by (cases "ls_file y") auto
qed auto

lemma loop_invariant:
  "loop_reach uni pd compile unm h y \<Longrightarrow>
     announced h y \<and> runs_read pd compile unm y \<and> (\<exists>b. gw_reach uni pd compile (ls_gateway y) b)"
proof (induction rule: loop_reach.induct)
  case (l_start fo s0 data cfg s bs g now)
  then have d: "decoded pd compile unm data cfg" "fs_last s = h data"
    by (auto simp: Load_def record_hash_def load_read_Inr split: sum.splits)
  then have "gw_reach uni pd compile g (\<lambda>_. sr_sources (gw_resolver g))"
    using l_start decoded_ok by (metis gw_reach.start)
  moreover have "gw_cfg g = cfg" using New_cfg [OF l_start(3)] decoded_ok(1) [OF d(1)] by simp
  ultimately show ?case using d by (auto simp: announced_def runs_read_def)
next
  case (l_step y y')
  then have "\<forall>d cfg. ls_run y = RRecord d cfg \<longrightarrow> d = ls_read y" by (auto simp: runs_read_def)
  then show ?case using l_step announced_step runs_read_step loop_gateway_step by meson
qed

subsection \<open>No change is lost\<close>

definition at_rest :: "loop_sys \<Rightarrow> bool" where
  "at_rest y \<longleftrightarrow> ls_watch y = WSelect \<and> \<not> ls_chan y \<and> ls_run y = RSelect \<and> \<not> ls_done y"

text \<open>
  C3. No change of the configuration file is lost. However edits, polls, signals, loads and the gateway's
  own handlers interleave: whenever both loops are at rest and the last load did not fail, the next poll
  reports a change, or the gateway runs the configuration that is in the file (up to a collision of the hash).
\<close>

theorem watch_loses_no_change:
  assumes "loop_reach uni pd compile unm h y" and "at_rest y" and "\<not> ls_failed y" and "ls_file y = Some data"
  shows "fst (changed h (ls_file y) (ls_source y)) \<or>
    (\<exists>d raw. h d = h data \<and> unm d = Some raw \<and> Decode pd compile raw = Inr (gw_cfg (ls_gateway y)))"
proof (cases "h data = fs_last (ls_source y)")
  case True
  note inv = loop_invariant [OF assms(1)]
  then have "h (ls_read y) = h data" using True assms(2,3) by (auto simp: announced_def at_rest_def)
  then show ?thesis using inv assms(2) by (auto simp: runs_read_def at_rest_def decoded_def)
qed (simp add: changed_def changed_compare_def assms(4))

text \<open>The loops left to themselves: the file stays as it is and the process goes on.\<close>

definition undisturbed ::
  "(string \<Rightarrow> string) \<Rightarrow> (string \<Rightarrow> int option) \<Rightarrow> (string \<Rightarrow> (string \<Rightarrow> string) option) \<Rightarrow> (string \<Rightarrow> config option)
     \<Rightarrow> (string \<Rightarrow> string) \<Rightarrow> loop_sys \<Rightarrow> loop_sys \<Rightarrow> bool" where
  "undisturbed uni pd compile unm h y y' \<longleftrightarrow> loop_step uni pd compile unm h y y' \<and>
     ls_file y' = ls_file y \<and> ls_done y' = ls_done y"

lemma poll_announces:
  assumes "at_rest y" and "fs_interval (ls_source y) > 0" and "ls_file y = Some data" and "h data \<noteq> fs_last (ls_source y)"
  shows "(undisturbed uni pd compile unm h)\<^sup>*\<^sup>* y
    (y\<lparr>ls_source := (ls_source y)\<lparr>fs_last := h data\<rparr>, ls_watch := WSelect, ls_run := RLoad\<rparr>)"
proof -
  let ?s = "(ls_source y)\<lparr>fs_last := h data\<rparr>"
  let ?U = "undisturbed uni pd compile unm h"
  have "?U y (y\<lparr>ls_watch := WCompare data\<rparr>)"
    using w_tick [of y uni pd compile unm h] assms by (simp add: undisturbed_def at_rest_def)
  moreover have "?U (y\<lparr>ls_watch := WCompare data\<rparr>) (y\<lparr>ls_source := ?s, ls_watch := WSend\<rparr>)"
    using w_compare [of "y\<lparr>ls_watch := WCompare data\<rparr>" data h] assms(4) by (simp add: undisturbed_def changed_compare_def)
  moreover have "?U (y\<lparr>ls_source := ?s, ls_watch := WSend\<rparr>) (y\<lparr>ls_source := ?s, ls_chan := True, ls_watch := WSelect\<rparr>)"
    using w_send [of "y\<lparr>ls_source := ?s, ls_watch := WSend\<rparr>" uni pd compile unm h] assms(1) by (simp add: undisturbed_def at_rest_def)
  moreover have "?U (y\<lparr>ls_source := ?s, ls_chan := True, ls_watch := WSelect\<rparr>)
      (y\<lparr>ls_source := ?s, ls_watch := WSelect, ls_run := RLoad, ls_chan := False\<rparr>)"
    using r_wake [of "y\<lparr>ls_source := ?s, ls_chan := True, ls_watch := WSelect\<rparr>" uni pd compile unm h] assms(1)
    by (simp add: undisturbed_def at_rest_def)
  moreover have "y\<lparr>ls_source := ?s, ls_watch := WSelect, ls_run := RLoad, ls_chan := False\<rparr> =
      y\<lparr>ls_source := ?s, ls_watch := WSelect, ls_run := RLoad\<rparr>" using assms(1) by (simp add: at_rest_def)
  ultimately show ?thesis by (metis (no_types, lifting) r_into_rtranclp rtranclp.rtrancl_into_rtrancl)
qed

lemma load_applies:
  assumes "ls_run y = RLoad" and "ls_file y = Some data" and "decoded pd compile unm data cfg"
    and "gw_reach uni pd compile (ls_gateway y) b"
  shows "\<exists>y'. (undisturbed uni pd compile unm h)\<^sup>*\<^sup>* y y' \<and> ls_file y' = ls_file y \<and> ls_done y' = ls_done y \<and>
    ls_watch y' = ls_watch y \<and> ls_chan y' = ls_chan y \<and> ls_run y' = RSelect \<and> \<not> ls_failed y' \<and>
    gw_cfg (ls_gateway y') = cfg \<and> fs_last (ls_source y') = h data"
proof -
  let ?U = "undisturbed uni pd compile unm h"
  let ?y1 = "y\<lparr>ls_run := RRecord data cfg, ls_read := data, ls_failed := False\<rparr>"
  let ?y2 = "?y1\<lparr>ls_run := RApply cfg, ls_source := record_hash h data (ls_source ?y1)\<rparr>"
  obtain res err g' where r: "Reload uni pd compile demo_nd demo_ranges (\<lambda>_. demo_answer) (Some cfg) (ls_gateway y) = (res, err, g')"
    by (metis prod_cases3)
  let ?y3 = "?y2\<lparr>ls_run := RSelect, ls_reloader := observe 0 (map_option TargetReload err) (ls_reloader ?y2), ls_gateway := g'\<rparr>"
  have "?U y ?y1"
    using r_read [OF assms(1), of pd compile unm data cfg uni h] assms(2,3) by (simp add: undisturbed_def load_read_Inr)
  moreover have "?U ?y1 ?y2" using r_record [of ?y1 data cfg uni pd compile unm h] by (simp add: undisturbed_def)
  moreover have "?U ?y2 ?y3"
    using r_apply [of ?y2 cfg demo_ranges uni pd compile demo_nd "\<lambda>_. demo_answer" res err g' unm h 0] demo_orders r
    by (simp add: undisturbed_def)
  moreover have "gw_cfg g' = cfg" using decoded_applies [OF assms(3,4) demo_orders r] by blast
  ultimately have "?U\<^sup>*\<^sup>* y ?y3" by (meson r_into_rtranclp rtranclp.rtrancl_into_rtrancl)
  then show ?thesis using \<open>gw_cfg g' = cfg\<close> by (intro exI [of _ ?y3]) (simp add: record_hash_def)
qed


subsection \<open>A small run\<close>

definition demo_unm :: "string \<Rightarrow> config option" where
  "demo_unm d = (if d = ''a'' then Some demo_config else if d = ''b'' then Some demo_config2 else None)"

definition demo_loop :: loop_sys where
  "demo_loop = \<lparr>ls_file = Some ''a'', ls_signal = False, ls_done = False,
     ls_source = \<lparr>fs_path = ''c'', fs_interval = 1, fs_signals = [''SIGHUP''], fs_last = ''a''\<rparr>, ls_watch = WSelect,
     ls_chan = False, ls_run = RSelect, ls_reloader = NewReloader 0,
     ls_gateway = (case New (\<lambda>_. None) (\<lambda>_. None) False (setDefaults demo_config) of Inr g \<Rightarrow> g),
     ls_read = ''a'', ls_failed = False\<rparr>"

lemma demo_decodes: "Decode (\<lambda>_. None) (\<lambda>_. None) demo_config = Inr (setDefaults demo_config)"
    "Decode (\<lambda>_. None) (\<lambda>_. None) demo_config2 = Inr (setDefaults demo_config2)"
  using demo_config_ok demo_config2_ok by (simp_all add: Decode_def Let_def flip: Validate_iff)

lemma demo_loop_reach: "loop_reach (\<lambda>s. s) (\<lambda>_. None) (\<lambda>_. None) demo_unm id demo_loop"
proof -
  let ?c = "setDefaults demo_config"
  obtain g where g: "New (\<lambda>_. None) (\<lambda>_. None) False ?c = Inr g"
    using New_ok [of "\<lambda>_. None" "\<lambda>_. None" ?c False] demo_config_ok by (auto simp: setDefaults_idem)
  have src: "NewFileSource \<lparr>fo_path = ''c'', fo_interval = 1, fo_signals = None\<rparr> =
      Some \<lparr>fs_path = ''c'', fs_interval = 1, fs_signals = [''SIGHUP''], fs_last = replicate 32 (CHR 0x00)\<rparr>"
    unfolding NewFileSource_def source_defaults_def Let_def by simp
  have ld: "Load (\<lambda>_. None) (\<lambda>_. None) demo_unm id (Some ''a'')
      \<lparr>fs_path = ''c'', fs_interval = 1, fs_signals = [''SIGHUP''], fs_last = replicate 32 (CHR 0x00)\<rparr> =
      (Inr ?c, \<lparr>fs_path = ''c'', fs_interval = 1, fs_signals = [''SIGHUP''], fs_last = ''a''\<rparr>)"
    by (simp add: Load_def load_read_def demo_unm_def demo_decodes record_hash_def)
  show ?thesis
    using l_start [OF src ld g, of "\<lambda>s. s" 0] g by (simp add: demo_loop_def)
qed

lemma demo_loop_edited: "loop_reach (\<lambda>s. s) (\<lambda>_. None) (\<lambda>_. None) demo_unm id (demo_loop\<lparr>ls_file := Some ''b''\<rparr>)"
  by (rule l_step [OF demo_loop_reach e_file])

theorem watch_loses_no_change_witness:
  "at_rest demo_loop \<and> \<not> fst (changed id (ls_file demo_loop) (ls_source demo_loop)) \<and>
    (\<exists>d raw. id d = id ''a'' \<and> demo_unm d = Some raw \<and>
      Decode (\<lambda>_. None) (\<lambda>_. None) raw = Inr (gw_cfg (ls_gateway demo_loop)))"
proof -
  have "at_rest demo_loop" "\<not> ls_failed demo_loop" "ls_file demo_loop = Some ''a''"
      "\<not> fst (changed id (ls_file demo_loop) (ls_source demo_loop))"
    by (simp_all add: demo_loop_def at_rest_def changed_def changed_compare_def)
  then show ?thesis using watch_loses_no_change [OF demo_loop_reach, of "''a''"] by blast
qed


text \<open>
  A failed load does lose a change: the poll records the hash before the file is loaded, so when the load
  fails (the file is being replaced, or is briefly invalid) and the file then is as the poll saw it, no later
  poll reports it, and the gateway keeps the old configuration.
\<close>

lemma failed_load_forgets:
  assumes "loop_reach uni pd compile unm h y" and "at_rest y" and "fs_interval (ls_source y) > 0"
    and "h data \<noteq> fs_last (ls_source y)"
  shows "\<exists>y'. loop_reach uni pd compile unm h y' \<and> at_rest y' \<and> ls_file y' = Some data \<and>
    \<not> fst (changed h (ls_file y') (ls_source y')) \<and> ls_gateway y' = ls_gateway y"
proof -
  let ?y1 = "y\<lparr>ls_file := Some data\<rparr>"
  let ?y2 = "?y1\<lparr>ls_source := (ls_source ?y1)\<lparr>fs_last := h data\<rparr>, ls_watch := WSelect, ls_run := RLoad\<rparr>"
  let ?y3 = "?y2\<lparr>ls_file := None\<rparr>"
  let ?y4 = "?y3\<lparr>ls_run := RSelect, ls_reloader := observe 0 (Some (LoadConfig ReadConfig)) (ls_reloader ?y3), ls_failed := True\<rparr>"
  have more: "(undisturbed uni pd compile unm h)\<^sup>*\<^sup>* a b \<Longrightarrow> loop_reach uni pd compile unm h a \<Longrightarrow> loop_reach uni pd compile unm h b" for a b
    by (induction rule: rtranclp_induct) (auto simp: undisturbed_def intro: l_step)
  have "loop_reach uni pd compile unm h ?y1" using l_step [OF assms(1) e_file] by blast
  moreover have "(undisturbed uni pd compile unm h)\<^sup>*\<^sup>* ?y1 ?y2"
    using assms by (intro poll_announces) (auto simp: at_rest_def)
  ultimately have "loop_reach uni pd compile unm h ?y2" using more by blast
  then have "loop_reach uni pd compile unm h ?y3" using e_file l_step by blast
  moreover have "loop_step uni pd compile unm h ?y3 ?y4"
    by (rule r_fail) (simp_all add: load_read_def)
  ultimately have "loop_reach uni pd compile unm h (?y4\<lparr>ls_file := Some data\<rparr>)" using l_step e_file by metis
  then show ?thesis
    using assms(2) by (intro exI [of _ "?y4\<lparr>ls_file := Some data\<rparr>"]) (simp add: at_rest_def changed_def changed_compare_def)
qed

text \<open>The steps from \<open>RLoad\<close> on, taken without interruption, are a call of \<open>Reload\<close> on the reloader.\<close>

lemma Reloader_Reload_steps:
  assumes "ls_run y = RLoad" and "good_orders rg"
    and "Reloader_Reload uni pd compile unm h nd rg ans now (ls_file y) (ls_reloader y) (ls_source y) (ls_gateway y) =
      ((res, err), rl', s', g')"
  shows "\<exists>y'. (loop_step uni pd compile unm h)\<^sup>*\<^sup>* y y' \<and> ls_run y' = RSelect \<and> ls_reloader y' = rl' \<and>
    ls_source y' = s' \<and> ls_gateway y' = g'"
proof (cases "load_read pd compile unm (ls_file y)")
  case (Inl e)
  let ?y1 = "y\<lparr>ls_run := RSelect, ls_reloader := observe now (Some (LoadConfig e)) (ls_reloader y), ls_failed := True\<rparr>"
  have "(loop_step uni pd compile unm h)\<^sup>*\<^sup>* y ?y1" by (rule r_into_rtranclp, rule r_fail [OF assms(1) Inl])
  then show ?thesis
    using assms(3) Inl by (intro exI [of _ ?y1]) (auto simp: Reloader_Reload_def reload_once_def Load_def Let_def)
next
  case (Inr dc)
  then obtain data cfg where dc: "load_read pd compile unm (ls_file y) = Inr (data, cfg)" by (cases dc) auto
  let ?y1 = "y\<lparr>ls_run := RRecord data cfg, ls_read := data, ls_failed := False\<rparr>"
  let ?y2 = "?y1\<lparr>ls_run := RApply cfg, ls_source := record_hash h data (ls_source ?y1)\<rparr>"
  obtain res1 err1 g1 where r: "Reload uni pd compile nd rg ans (Some cfg) (ls_gateway y) = (res1, err1, g1)"
    by (metis prod_cases3)
  let ?y3 = "?y2\<lparr>ls_run := RSelect, ls_reloader := observe now (map_option TargetReload err1) (ls_reloader ?y2), ls_gateway := g1\<rparr>"
  have "loop_step uni pd compile unm h y ?y1" by (rule r_read [OF assms(1) dc])
  moreover have "loop_step uni pd compile unm h ?y1 ?y2" by (rule r_record) simp
  moreover have "loop_step uni pd compile unm h ?y2 ?y3"
    using r_apply [of ?y2 cfg rg uni pd compile nd ans res1 err1 g1 unm h now] assms(2) r by simp
  ultimately have "(loop_step uni pd compile unm h)\<^sup>*\<^sup>* y ?y3" by (meson r_into_rtranclp rtranclp.rtrancl_into_rtrancl)
  then show ?thesis
    using assms(3) dc r by (intro exI [of _ ?y3]) (auto simp: Reloader_Reload_def reload_once_def Load_def Let_def)
qed

end
