(* ===== verification/Mcp_Http.thy ===== *)
theory Mcp_Http
  imports Gw_Strings Gw_Redact
begin

text \<open>
  The parts of \<open>net/http\<close>, \<open>net/url\<close> and \<open>encoding/base64\<close> that \<open>mcpauth\<close> and the gateway's transport use:
  canonical header keys, header maps, query strings, and the unpadded URL alphabet.
\<close>

subsection \<open>Headers\<close>

text \<open>\<open>textproto.CanonicalMIMEHeaderKey\<close>: a key with a byte that no token may have is left as it is.\<close>

definition upper_byte :: "char \<Rightarrow> char" where
  "upper_byte c = (if 97 \<le> byte_of c \<and> byte_of c \<le> 122 then char_of (byte_of c - 32) else c)"

definition header_byte :: "char \<Rightarrow> bool" where
  "header_byte c \<longleftrightarrow> (48 \<le> byte_of c \<and> byte_of c \<le> 57) \<or> (65 \<le> byte_of c \<and> byte_of c \<le> 90) \<or>
     (97 \<le> byte_of c \<and> byte_of c \<le> 122) \<or>
     byte_of c \<in> {33, 35, 36, 37, 38, 39, 42, 43, 45, 46, 94, 95, 96, 124, 126}"

fun canonical_from :: "bool \<Rightarrow> string \<Rightarrow> string" where
  "canonical_from up [] = []"
| "canonical_from up (c # cs) = (if up then upper_byte c else lower_byte c) # canonical_from (c = CHR ''-'') cs"

definition canonical_key :: "string \<Rightarrow> string" where
  "canonical_key k = (if list_all header_byte k then canonical_from True k else k)"

type_synonym http_header = "(string, string list) gomap"

definition header_get :: "http_header \<Rightarrow> string \<Rightarrow> string" where
  "header_get h k = (case set_get h (canonical_key k) of [] \<Rightarrow> [] | v # _ \<Rightarrow> v)"

definition header_del :: "string \<Rightarrow> http_header \<Rightarrow> http_header" where
  "header_del k h = AList.delete (canonical_key k) h"

definition header_set :: "string \<Rightarrow> string \<Rightarrow> http_header \<Rightarrow> http_header" where
  "header_set k v h = AList.update (canonical_key k) [v] h"

lemma header_get_del [simp]:
  "header_get (header_del k h) k' = (if canonical_key k' = canonical_key k then [] else header_get h k')"
  by (simp add: header_get_def header_del_def)

lemma header_get_set [simp]:
  "header_get (header_set k v h) k' = (if canonical_key k' = canonical_key k then v else header_get h k')"
  by (simp add: header_get_def header_set_def)

text \<open>A request as a handler sees it; \<open>hq_form\<close> is the outcome of \<open>ParseForm\<close>.\<close>

record http_req =
  hq_method :: string
  hq_path :: string
  hq_raw_query :: string
  hq_header :: http_header
  hq_form :: "(string, string list) gomap option"

subsection \<open>Query strings\<close>

definition values_get :: "(string, string list) gomap \<Rightarrow> string \<Rightarrow> string" where
  "values_get m k = (case set_get m k of [] \<Rightarrow> [] | v # _ \<Rightarrow> v)"

definition hex_digit :: "char \<Rightarrow> nat option" where
  "hex_digit c =
     (if 48 \<le> byte_of c \<and> byte_of c \<le> 57 then Some (byte_of c - 48)
      else if 97 \<le> byte_of c \<and> byte_of c \<le> 102 then Some (byte_of c - 87)
      else if 65 \<le> byte_of c \<and> byte_of c \<le> 70 then Some (byte_of c - 55)
      else None)"

fun query_unescape :: "string \<Rightarrow> string option" where
  "query_unescape [] = Some []"
| "query_unescape (c # cs) =
     (if c = CHR ''%'' then
        (case cs of
           a # b # s \<Rightarrow>
             (case (hex_digit a, hex_digit b) of
                (Some x, Some y) \<Rightarrow> map_option ((#) (char_of (16 * x + y))) (query_unescape s)
              | _ \<Rightarrow> None)
         | _ \<Rightarrow> None)
      else map_option ((#) (if c = CHR ''+'' then CHR '' '' else c)) (query_unescape cs))"

fun split_byte :: "char \<Rightarrow> string \<Rightarrow> string list" where
  "split_byte b [] = [[]]"
| "split_byte b (c # cs) =
     (if c = b then [] # split_byte b cs
      else (case split_byte b cs of [] \<Rightarrow> [[c]] | p # ps \<Rightarrow> (c # p) # ps))"

text \<open>\<open>url.ParseQuery\<close>: the values, and whether some piece was bad; bad pieces are skipped.\<close>

fun parse_pieces :: "string list \<Rightarrow> (string, string list) gomap \<Rightarrow> bool \<Rightarrow> (string, string list) gomap \<times> bool" where
  "parse_pieces [] m bad = (m, bad)"
| "parse_pieces (p # ps) m bad =
     (if CHR '';'' \<in> set p then parse_pieces ps m True
      else if p = [] then parse_pieces ps m bad
      else
        (let (k, v) = (case str_cut p (CHR ''='') of Some kv \<Rightarrow> kv | None \<Rightarrow> (p, [])) in
         case query_unescape k of
           None \<Rightarrow> parse_pieces ps m True
         | Some k' \<Rightarrow>
             (case query_unescape v of
                None \<Rightarrow> parse_pieces ps m True
              | Some v' \<Rightarrow> parse_pieces ps (app_put k' v' m) bad)))"

definition parse_query :: "string \<Rightarrow> (string, string list) gomap option" where
  "parse_query s = (let (m, bad) = parse_pieces (split_byte (CHR ''&'') s) [] False in if bad then None else Some m)"

subsection \<open>Base64\<close>

definition b64_char :: "nat \<Rightarrow> char" where
  "b64_char n =
     (if n < 26 then char_of (65 + n) else if n < 52 then char_of (71 + n)
      else if n < 62 then char_of (n - 4) else if n = 62 then CHR ''-'' else CHR ''_'')"

fun base64_raw :: "string \<Rightarrow> string" where
  "base64_raw [] = []"
| "base64_raw [a] = (let v = byte_of a * 16 in [b64_char (v div 64), b64_char (v mod 64)])"
| "base64_raw [a, b] =
     (let v = (byte_of a * 256 + byte_of b) * 4 in
      [b64_char (v div 4096), b64_char (v div 64 mod 64), b64_char (v mod 64)])"
| "base64_raw (a # b # c # s) =
     (let v = (byte_of a * 256 + byte_of b) * 256 + byte_of c in
      [b64_char (v div 262144), b64_char (v div 4096 mod 64), b64_char (v div 64 mod 64), b64_char (v mod 64)] @
        base64_raw s)"

lemma base64_example: "base64_raw ''Mcp!'' = ''TWNwIQ''"
  by (simp add: b64_char_def char_of_def bit_iff_odd)

lemma query_example: "parse_query ''a=1&b=x+y&a=2'' = Some [(''a'', [''1'', ''2'']), (''b'', [''x y''])]"
  by (simp add: parse_query_def str_cut_def app_put_def set_get_def)

lemma canonical_example: "canonical_key ''x-KEY'' = ''X-Key''"
  by (simp add: canonical_key_def header_byte_def upper_byte_def lower_byte_def char_of_def bit_iff_odd)

end
