(* ===== verification/Mcp_Auth.thy ===== *)
theory Mcp_Auth
  imports Mcp_Http Gw_Config Gw_Discovery "HOL-Library.Multiset"
begin

text \<open>
  Inbound authentication, \<open>mcpauth/auth.go\<close> and \<open>mcpauth/oauth.go\<close>: the shared secret in a header, and the
  small OAuth server that trades the secret for scoped bearer tokens.

  Times are nanoseconds. What a request draws from its surroundings is a record \<open>auth_env\<close>: two readings
  of the clock, the secret (\<open>None\<close> when it cannot be resolved) and the random bytes. SHA-256, setting
  query parameters of a URL, and the SDK's extraction of a bearer token are fields of \<open>auth_prims\<close>.
\<close>

subsection \<open>State\<close>

record token_info =
  ti_scopes :: "string list"
  ti_expires :: int

record oauth_code =
  oc_client :: string
  oc_redirect :: string
  oc_scope :: string
  oc_challenge :: string
  oc_method :: string
  oc_expires :: int

record oauth_state =
  os_codes :: "(string, oauth_code) gomap"
  os_tokens :: "(string, token_info) gomap"

record auth_server =
  as_cfg :: auth_config
  as_name :: string
  as_ttl :: int
  as_fallback :: "string list"

record auth_prims =
  cp_sha256 :: "string \<Rightarrow> string"
  cp_set_query :: "string \<Rightarrow> (string \<times> string) list \<Rightarrow> string option"
  cp_bearer :: "http_req \<Rightarrow> string option"
  cp_bearer_ok :: "http_req \<Rightarrow> token_info \<Rightarrow> bool"

record auth_env =
  ae_now :: int
  ae_later :: int
  ae_secret :: "string option"
  ae_rand :: "string option"

datatype http_resp =
    HText nat
  | HNoContent
  | HUnauthorized string
  | HBearerRejected string
  | HJson nat json
  | HPage string string
  | HRedirect string

definition seconds :: int where
  "seconds = 1000000000"

definition defaultOAuthTokenTTL :: int where
  "defaultOAuthTokenTTL = 3600 * seconds"

text \<open>\<open>newOAuthState\<close>: the ttl of an unparsable or non-positive setting is the default.\<close>

definition newOAuthState :: "(string \<Rightarrow> int option) \<Rightarrow> auth_config \<Rightarrow> string \<Rightarrow> string list \<Rightarrow> auth_server \<times> oauth_state" where
  "newOAuthState pd cfg name scopes =
     (\<lparr>as_cfg = cfg, as_name = name,
       as_ttl = (case parseOptionalDuration pd (oa_token_ttl (au_oauth cfg)) of
                   Some d \<Rightarrow> (if d > 0 then d else defaultOAuthTokenTTL) | None \<Rightarrow> defaultOAuthTokenTTL),
       as_fallback = scopes\<rparr>, \<lparr>os_codes = [], os_tokens = []\<rparr>)"

definition constantTimeEqual :: "auth_prims \<Rightarrow> string \<Rightarrow> string \<Rightarrow> bool" where
  "constantTimeEqual pr a b \<longleftrightarrow> cp_sha256 pr a = cp_sha256 pr b"

subsection \<open>The small endpoints\<close>

definition scopes :: "auth_server \<Rightarrow> string list" where
  "scopes srv =
     (if oa_scopes (au_oauth (as_cfg srv)) \<noteq> [] then oa_scopes (au_oauth (as_cfg srv))
      else if as_fallback srv \<noteq> [] then as_fallback srv else [''mcp''])"

definition normalizeScope :: "auth_server \<Rightarrow> string \<Rightarrow> string" where
  "normalizeScope srv scope = (if scope \<noteq> [] then scope else str_join '' '' (scopes srv))"

definition validClient :: "auth_server \<Rightarrow> string \<Rightarrow> bool" where
  "validClient srv client \<longleftrightarrow>
     oa_client_id (au_oauth (as_cfg srv)) = [] \<or> client = oa_client_id (au_oauth (as_cfg srv))"

definition validRedirectURI :: "auth_server \<Rightarrow> string \<Rightarrow> bool" where
  "validRedirectURI srv uri \<longleftrightarrow> uri \<in> set (oa_redirect_uris (au_oauth (as_cfg srv)))"

definition resourceMetadataURL :: "auth_server \<Rightarrow> string" where
  "resourceMetadataURL srv = oa_issuer (au_oauth (as_cfg srv)) @ ''/.well-known/oauth-protected-resource''"

definition allowMetadataRequest :: "http_req \<Rightarrow> http_resp option" where
  "allowMetadataRequest r =
     (if hq_method r = ''OPTIONS'' then Some HNoContent
      else if hq_method r \<noteq> ''GET'' then Some (HText 405) else None)"

definition metadata :: "http_req \<Rightarrow> json \<Rightarrow> http_resp" where
  "metadata r j = (case allowMetadataRequest r of Some resp \<Rightarrow> resp | None \<Rightarrow> HJson 200 j)"

definition strings_json :: "string list \<Rightarrow> json" where
  "strings_json ss = JArr (map JStr ss)"

definition serveProtectedResourceMetadata :: "auth_server \<Rightarrow> http_req \<Rightarrow> http_resp" where
  "serveProtectedResourceMetadata srv r =
     (let o' = au_oauth (as_cfg srv) in
      metadata r (JObj [(''resource'', JStr (oa_resource o')), (''authorization_servers'', strings_json [oa_issuer o']),
        (''scopes_supported'', strings_json (scopes srv)), (''bearer_methods_supported'', strings_json [''header'']),
        (''resource_name'', JStr (as_name srv))]))"

definition serveAuthorizationServerMetadata :: "auth_server \<Rightarrow> http_req \<Rightarrow> http_resp" where
  "serveAuthorizationServerMetadata srv r =
     (let iss = oa_issuer (au_oauth (as_cfg srv)) in
      metadata r (JObj [(''issuer'', JStr iss), (''authorization_endpoint'', JStr (iss @ ''/authorize'')),
        (''token_endpoint'', JStr (iss @ ''/token'')), (''jwks_uri'', JStr (iss @ ''/jwks'')),
        (''scopes_supported'', strings_json (scopes srv)), (''response_types_supported'', strings_json [''code'']),
        (''grant_types_supported'', strings_json [''authorization_code'']),
        (''token_endpoint_auth_methods_supported'', strings_json [''none'']),
        (''code_challenge_methods_supported'', strings_json [''S256'', ''plain''])]))"

definition serveJWKS :: "http_req \<Rightarrow> http_resp" where
  "serveJWKS r = metadata r (JObj [(''keys'', JArr [])])"

subsection \<open>Authorize\<close>

definition renderAuthorize :: "string \<Rightarrow> string \<Rightarrow> http_resp" where
  "renderAuthorize rawQuery message = HPage rawQuery message"

definition with_state :: "(string, string list) gomap \<Rightarrow> (string \<times> string) list \<Rightarrow> (string \<times> string) list" where
  "with_state q kvs = (if values_get q ''state'' = [] then kvs else kvs @ [(''state'', values_get q ''state'')])"

definition redirectOAuthError ::
  "auth_prims \<Rightarrow> auth_server \<Rightarrow> (string, string list) gomap \<Rightarrow> string \<Rightarrow> string \<Rightarrow> http_resp" where
  "redirectOAuthError pr srv q uri code =
     (if uri = [] \<or> \<not> validRedirectURI srv uri then HText 400
      else
        (case cp_set_query pr uri (with_state q [(''error'', code)]) of
           None \<Rightarrow> HText 400
         | Some loc \<Rightarrow> HRedirect loc))"

definition randomToken :: "auth_env \<Rightarrow> string option" where
  "randomToken env = map_option base64_raw (ae_rand env)"

definition handleAuthorizePost ::
  "auth_prims \<Rightarrow> auth_server \<Rightarrow> auth_env \<Rightarrow> http_req \<Rightarrow> oauth_state \<Rightarrow> http_resp \<times> oauth_state" where
  "handleAuthorizePost pr srv env r st =
     (case hq_form r of
        None \<Rightarrow> (HText 400, st)
      | Some form \<Rightarrow>
          (case parse_query (values_get form ''query'') of
             None \<Rightarrow> (HText 400, st)
           | Some q \<Rightarrow>
               (let uri = values_get q ''redirect_uri'' in
                if uri = [] \<or> \<not> validRedirectURI srv uri then (HText 400, st)
                else if values_get q ''response_type'' \<noteq> ''code''
                  then (redirectOAuthError pr srv q uri ''unsupported_response_type'', st)
                else if \<not> validClient srv (values_get q ''client_id'')
                  then (redirectOAuthError pr srv q uri ''unauthorized_client'', st)
                else if values_get q ''code_challenge'' = []
                  then (redirectOAuthError pr srv q uri ''invalid_request'', st)
                else
                  (case ae_secret env of
                     None \<Rightarrow> (HText 503, st)
                   | Some expected \<Rightarrow>
                       (if \<not> constantTimeEqual pr (''Bearer '' @ values_get form ''token'') expected \<and>
                           \<not> constantTimeEqual pr (values_get form ''token'') expected
                        then (renderAuthorize (values_get form ''query'') ''Invalid token'', st)
                        else
                          (case randomToken env of
                             None \<Rightarrow> (HText 500, st)
                           | Some code \<Rightarrow>
                               (let st' = st\<lparr>os_codes := AList.update code
                                  \<lparr>oc_client = values_get q ''client_id'', oc_redirect = uri,
                                   oc_scope = normalizeScope srv (values_get q ''scope''),
                                   oc_challenge = values_get q ''code_challenge'',
                                   oc_method = values_get q ''code_challenge_method'',
                                   oc_expires = ae_now env + 300 * seconds\<rparr> (os_codes st)\<rparr>
                                in case cp_set_query pr uri (with_state q [(''code'', code)]) of
                                     None \<Rightarrow> (HText 400, st')
                                   | Some loc \<Rightarrow> (HRedirect loc, st'))))))))"

definition serveAuthorize ::
  "auth_prims \<Rightarrow> auth_server \<Rightarrow> auth_env \<Rightarrow> http_req \<Rightarrow> oauth_state \<Rightarrow> http_resp \<times> oauth_state" where
  "serveAuthorize pr srv env r st =
     (if hq_method r = ''GET'' then (renderAuthorize (hq_raw_query r) [], st)
      else if hq_method r = ''POST'' then handleAuthorizePost pr srv env r st
      else (HText 405, st))"

subsection \<open>Token\<close>

definition verifyPKCE :: "auth_prims \<Rightarrow> string \<Rightarrow> string \<Rightarrow> string \<Rightarrow> bool" where
  "verifyPKCE pr challenge method' verifier =
     (if challenge = [] then False
      else if verifier = [] then False
      else if method' = [] \<or> method' = ''plain'' then constantTimeEqual pr verifier challenge
      else if method' \<noteq> ''S256'' then False
      else constantTimeEqual pr (base64_raw (cp_sha256 pr verifier)) challenge)"

definition oauth_error :: "nat \<Rightarrow> string \<Rightarrow> http_resp" where
  "oauth_error status code = HJson status (JObj [(''error'', JStr code)])"

text \<open>The first critical section of \<open>serveToken\<close>: a code is taken out whatever comes of it.\<close>

definition take_code :: "string \<Rightarrow> oauth_state \<Rightarrow> oauth_code option \<times> oauth_state" where
  "take_code code st =
     (case map_of (os_codes st) code of
        None \<Rightarrow> (None, st)
      | Some c \<Rightarrow> (Some c, st\<lparr>os_codes := AList.delete code (os_codes st)\<rparr>))"

text \<open>The second: the token is stored.\<close>

definition put_token :: "auth_server \<Rightarrow> auth_env \<Rightarrow> string \<Rightarrow> oauth_code \<Rightarrow> oauth_state \<Rightarrow> oauth_state" where
  "put_token srv env tok c st =
     st\<lparr>os_tokens := AList.update tok \<lparr>ti_scopes = str_fields (oc_scope c), ti_expires = ae_later env + as_ttl srv\<rparr>
       (os_tokens st)\<rparr>"

definition serveToken ::
  "auth_prims \<Rightarrow> auth_server \<Rightarrow> auth_env \<Rightarrow> http_req \<Rightarrow> oauth_state \<Rightarrow> http_resp \<times> oauth_state" where
  "serveToken pr srv env r st =
     (if hq_method r \<noteq> ''POST'' then (HText 405, st)
      else
        (case hq_form r of
           None \<Rightarrow> (oauth_error 400 ''invalid_request'', st)
         | Some form \<Rightarrow>
             (if values_get form ''grant_type'' \<noteq> ''authorization_code''
              then (oauth_error 400 ''unsupported_grant_type'', st)
              else
                (case take_code (values_get form ''code'') st of
                   (None, st1) \<Rightarrow> (oauth_error 400 ''invalid_grant'', st1)
                 | (Some c, st1) \<Rightarrow>
                     (if ae_now env > oc_expires c then (oauth_error 400 ''invalid_grant'', st1)
                      else if oc_redirect c \<noteq> values_get form ''redirect_uri'' \<or>
                          \<not> validClient srv (values_get form ''client_id'')
                        then (oauth_error 400 ''invalid_grant'', st1)
                      else if \<not> verifyPKCE pr (oc_challenge c) (oc_method c) (values_get form ''code_verifier'')
                        then (oauth_error 400 ''invalid_grant'', st1)
                      else
                        (case randomToken env of
                           None \<Rightarrow> (oauth_error 500 ''server_error'', st1)
                         | Some tok \<Rightarrow>
                             (HJson 200 (JObj [(''access_token'', JStr tok), (''token_type'', JStr ''Bearer''),
                                (''expires_in'', JNum (of_int (as_ttl srv div seconds))),
                                (''scope'', JStr (oc_scope c))]),
                              put_token srv env tok c st1)))))))"

definition verifyAccessToken :: "int \<Rightarrow> string \<Rightarrow> oauth_state \<Rightarrow> token_info option \<times> oauth_state" where
  "verifyAccessToken now tok st =
     (case map_of (os_tokens st) tok of
        None \<Rightarrow> (None, st)
      | Some info \<Rightarrow>
          (if now > ti_expires info then (None, st\<lparr>os_tokens := AList.delete tok (os_tokens st)\<rparr>)
           else (Some info, st)))"

subsection \<open>The middleware\<close>

definition oauth_paths :: "string list" where
  "oauth_paths = [''/.well-known/oauth-protected-resource'', ''/.well-known/oauth-authorization-server'',
     ''/.well-known/openid-configuration'', ''/jwks'', ''/authorize'', ''/token'']"

text \<open>\<open>serve\<close>: \<open>None\<close> for a path that is not an endpoint of the server.\<close>

definition oauth_serve ::
  "auth_prims \<Rightarrow> auth_server \<Rightarrow> auth_env \<Rightarrow> http_req \<Rightarrow> oauth_state \<Rightarrow> http_resp option \<times> oauth_state" where
  "oauth_serve pr srv env r st =
     (let p = hq_path r in
      if p = ''/.well-known/oauth-protected-resource'' then (Some (serveProtectedResourceMetadata srv r), st)
      else if p = ''/.well-known/oauth-authorization-server'' \<or> p = ''/.well-known/openid-configuration''
        then (Some (serveAuthorizationServerMetadata srv r), st)
      else if p = ''/jwks'' then (Some (serveJWKS r), st)
      else if p = ''/authorize'' then map_prod Some id (serveAuthorize pr srv env r st)
      else if p = ''/token'' then map_prod Some id (serveToken pr srv env r st)
      else (None, st))"

text \<open>What becomes of a request: it reaches the next handler, with the token it carried, or it is answered.\<close>

datatype auth_outcome = Passed http_req "token_info option" | Answered http_resp

definition strip_credential :: "auth_server \<Rightarrow> http_req \<Rightarrow> http_req" where
  "strip_credential srv r = r\<lparr>hq_header := header_del (au_header (as_cfg srv)) (hq_header r)\<rparr>"

definition bearer_handler ::
  "auth_prims \<Rightarrow> auth_server \<Rightarrow> auth_env \<Rightarrow> http_req \<Rightarrow> oauth_state \<Rightarrow> auth_outcome \<times> oauth_state" where
  "bearer_handler pr srv env r st =
     (let reject = Answered (HBearerRejected (resourceMetadataURL srv)) in
      case cp_bearer pr r of
        None \<Rightarrow> (reject, st)
      | Some tok \<Rightarrow>
          (case verifyAccessToken (ae_now env) tok st of
             (None, st1) \<Rightarrow> (reject, st1)
           | (Some info, st1) \<Rightarrow>
               (if cp_bearer_ok pr r info then (Passed (strip_credential srv r) (Some info), st1) else (reject, st1))))"

definition Middleware_handle ::
  "auth_prims \<Rightarrow> auth_server \<Rightarrow> auth_env \<Rightarrow> http_req \<Rightarrow> oauth_state \<Rightarrow> auth_outcome \<times> oauth_state" where
  "Middleware_handle pr srv env r st =
     (let cfg = as_cfg srv; oauth = oa_enabled (au_oauth cfg);
          (served, st1) = (if oauth then oauth_serve pr srv env r st else (None, st))
      in case served of
           Some resp \<Rightarrow> (Answered resp, st1)
         | None \<Rightarrow>
             (case ae_secret env of
                None \<Rightarrow> (Answered (HText 503), st1)
              | Some expected \<Rightarrow>
                  (if constantTimeEqual pr (header_get (hq_header r) (au_header cfg)) expected
                   then (Passed (strip_credential srv r) None, st1)
                   else if \<not> oauth then (Answered (HUnauthorized (as_name srv)), st1)
                   else bearer_handler pr srv env r st1)))"

text \<open>\<open>Middleware\<close>: nothing at all when auth is off.\<close>

definition auth_Middleware ::
  "auth_prims \<Rightarrow> (string \<Rightarrow> int option) \<Rightarrow> auth_config \<Rightarrow> string \<Rightarrow> string list
     \<Rightarrow> ((auth_env \<Rightarrow> http_req \<Rightarrow> oauth_state \<Rightarrow> auth_outcome \<times> oauth_state) \<times> oauth_state) option" where
  "auth_Middleware pr pd cfg name fallback =
     (if \<not> au_enabled cfg then None
      else
        (let (srv, st) = newOAuthState pd cfg (if name = [] then ''mcp'' else name) fallback
         in Some (Middleware_handle pr srv, st)))"

subsection \<open>Who gets in\<close>

lemma oauth_serve_None: "fst (oauth_serve pr srv env r st) = None \<longleftrightarrow> hq_path r \<notin> set oauth_paths"
  by (simp add: oauth_serve_def oauth_paths_def Let_def map_prod_def split_def)

lemma oauth_serve_state: "hq_path r \<notin> set oauth_paths \<Longrightarrow> oauth_serve pr srv env r st = (None, st)"
  by (simp add: oauth_serve_def oauth_paths_def Let_def)

lemma Middleware_passes_iff:
  "(\<exists>st'. Middleware_handle pr srv env r st = (Passed r' ti, st')) \<longleftrightarrow>
     \<not> (oa_enabled (au_oauth (as_cfg srv)) \<and> hq_path r \<in> set oauth_paths) \<and>
     r' = r\<lparr>hq_header := header_del (au_header (as_cfg srv)) (hq_header r)\<rparr> \<and>
     (\<exists>expected. ae_secret env = Some expected \<and>
        (if cp_sha256 pr (header_get (hq_header r) (au_header (as_cfg srv))) = cp_sha256 pr expected then ti = None
         else oa_enabled (au_oauth (as_cfg srv)) \<and>
           (\<exists>tok info. cp_bearer pr r = Some tok \<and> map_of (os_tokens st) tok = Some info \<and>
              ae_now env \<le> ti_expires info \<and> cp_bearer_ok pr r info \<and> ti = Some info)))"
proof (cases "oa_enabled (au_oauth (as_cfg srv)) \<and> hq_path r \<in> set oauth_paths")
  case True
  then obtain resp where "fst (oauth_serve pr srv env r st) = Some resp" using oauth_serve_None by fastforce
  then show ?thesis using True by (auto simp: Middleware_handle_def Let_def split_def)
next
  case False
  then have "(if oa_enabled (au_oauth (as_cfg srv)) then oauth_serve pr srv env r st else (None, st)) = (None, st)"
    using oauth_serve_state by auto
  then show ?thesis
    using False
    by (auto simp: Middleware_handle_def Let_def constantTimeEqual_def bearer_handler_def verifyAccessToken_def
        strip_credential_def split: option.splits)
qed

text \<open>
  C16. A request reaches the server behind the middleware exactly when it is not for an endpoint of the
  OAuth server, the secret can be read, and either its header holds the secret, or it bears a token that
  was issued, has not expired and passes the SDK's checks. It is then without the credential header, and
  carries the scopes of its token, or no token at all if it came in on the secret.
\<close>

theorem auth_gate:
  "(\<exists>st'. Middleware_handle pr srv env r st = (Passed r' ti, st')) \<longleftrightarrow>
     \<not> (oa_enabled (au_oauth (as_cfg srv)) \<and> hq_path r \<in> set oauth_paths) \<and>
     r' = r\<lparr>hq_header := header_del (au_header (as_cfg srv)) (hq_header r)\<rparr> \<and>
     (\<exists>expected. ae_secret env = Some expected \<and>
        (if cp_sha256 pr (header_get (hq_header r) (au_header (as_cfg srv))) = cp_sha256 pr expected then ti = None
         else oa_enabled (au_oauth (as_cfg srv)) \<and>
           (\<exists>tok info. cp_bearer pr r = Some tok \<and> map_of (os_tokens st) tok = Some info \<and>
              ae_now env \<le> ti_expires info \<and> cp_bearer_ok pr r info \<and> ti = Some info)))"
  by (rule Middleware_passes_iff)

text \<open>A secret that resolves to the empty string admits every request without the header.\<close>

lemma empty_secret_admits_all:
  assumes "ae_secret env = Some []" and "header_get (hq_header r) (au_header (as_cfg srv)) = []"
    and "hq_path r \<notin> set oauth_paths"
  shows "Middleware_handle pr srv env r st = (Passed (strip_credential srv r) None, st)"
  using assms oauth_serve_state by (simp add: Middleware_handle_def Let_def constantTimeEqual_def)

subsection \<open>Where tokens come from\<close>

text \<open>
  The requests of many clients interleave between the critical sections of the code. The ghost
  \<open>ay_granted\<close> records each code given out with the secret the client presented and the one expected;
  \<open>ay_taken\<close> are the codes taken out by requests still at work; \<open>ay_issued\<close> records each code a token was
  issued for, with the verifier that was presented.
\<close>

record auth_sys =
  ay_state :: oauth_state
  ay_granted :: "(oauth_code \<times> string \<times> string) multiset"
  ay_taken :: "oauth_code multiset"
  ay_issued :: "(oauth_code \<times> string) multiset"

text \<open>The code an authorization request is given, if it is given one.\<close>

definition granted_code ::
  "auth_prims \<Rightarrow> auth_server \<Rightarrow> auth_env \<Rightarrow> http_req \<Rightarrow> (string \<times> oauth_code \<times> string \<times> string) option" where
  "granted_code pr srv env r =
     (case (hq_form r, ae_secret env, randomToken env) of
        (Some form, Some expected, Some code) \<Rightarrow>
          (case parse_query (values_get form ''query'') of
             None \<Rightarrow> None
           | Some q \<Rightarrow>
               (if values_get q ''redirect_uri'' \<noteq> [] \<and> validRedirectURI srv (values_get q ''redirect_uri'') \<and>
                   values_get q ''response_type'' = ''code'' \<and> validClient srv (values_get q ''client_id'') \<and>
                   values_get q ''code_challenge'' \<noteq> [] \<and>
                   (constantTimeEqual pr (''Bearer '' @ values_get form ''token'') expected \<or>
                    constantTimeEqual pr (values_get form ''token'') expected)
                then Some (code, \<lparr>oc_client = values_get q ''client_id'', oc_redirect = values_get q ''redirect_uri'',
                  oc_scope = normalizeScope srv (values_get q ''scope''), oc_challenge = values_get q ''code_challenge'',
                  oc_method = values_get q ''code_challenge_method'', oc_expires = ae_now env + 300 * seconds\<rparr>,
                  values_get form ''token'', expected)
                else None))
      | _ \<Rightarrow> None)"

lemma handleAuthorizePost_state:
  "snd (handleAuthorizePost pr srv env r st) =
     (case granted_code pr srv env r of
        None \<Rightarrow> st | Some (code, c, _) \<Rightarrow> st\<lparr>os_codes := AList.update code c (os_codes st)\<rparr>)"
  by (simp add: handleAuthorizePost_def granted_code_def Let_def split: option.split)

lemma granted_code_Some:
  "granted_code pr srv env r = Some (code, c, t, s) \<Longrightarrow>
     validRedirectURI srv (oc_redirect c) \<and> validClient srv (oc_client c) \<and> oc_challenge c \<noteq> [] \<and>
     (cp_sha256 pr t = cp_sha256 pr s \<or> cp_sha256 pr (''Bearer '' @ t) = cp_sha256 pr s)"
  by (auto simp: granted_code_def constantTimeEqual_def split: option.splits if_splits)

text \<open>The checks \<open>serveToken\<close> makes on a code it has taken.\<close>

definition token_due :: "auth_prims \<Rightarrow> auth_server \<Rightarrow> auth_env \<Rightarrow> (string, string list) gomap \<Rightarrow> oauth_code \<Rightarrow> bool" where
  "token_due pr srv env form c \<longleftrightarrow> ae_now env \<le> oc_expires c \<and> oc_redirect c = values_get form ''redirect_uri'' \<and>
     validClient srv (values_get form ''client_id'') \<and>
     verifyPKCE pr (oc_challenge c) (oc_method c) (values_get form ''code_verifier'')"

inductive auth_step :: "auth_prims \<Rightarrow> auth_server \<Rightarrow> auth_sys \<Rightarrow> auth_sys \<Rightarrow> bool" for pr srv where
  a_authorize: "hq_method r = ''POST'' \<Longrightarrow> serveAuthorize pr srv env r (ay_state y) = (resp, st') \<Longrightarrow>
    auth_step pr srv y (y\<lparr>ay_state := st',
      ay_granted := ay_granted y + (case granted_code pr srv env r of None \<Rightarrow> {#} | Some (_, g) \<Rightarrow> {#g#})\<rparr>)"
| a_take: "take_code code (ay_state y) = (Some c, st') \<Longrightarrow>
    auth_step pr srv y (y\<lparr>ay_state := st', ay_taken := add_mset c (ay_taken y)\<rparr>)"
| a_refuse: "c \<in># ay_taken y \<Longrightarrow> auth_step pr srv y (y\<lparr>ay_taken := ay_taken y - {#c#}\<rparr>)"
| a_issue: "c \<in># ay_taken y \<Longrightarrow> token_due pr srv env form c \<Longrightarrow> randomToken env = Some tok \<Longrightarrow>
    auth_step pr srv y (y\<lparr>ay_state := put_token srv env tok c (ay_state y), ay_taken := ay_taken y - {#c#},
      ay_issued := add_mset (c, values_get form ''code_verifier'') (ay_issued y)\<rparr>)"
| a_verify: "verifyAccessToken now tok (ay_state y) = (res, st') \<Longrightarrow> auth_step pr srv y (y\<lparr>ay_state := st'\<rparr>)"

inductive auth_reach :: "auth_prims \<Rightarrow> auth_server \<Rightarrow> auth_sys \<Rightarrow> bool" for pr srv where
  ar_start: "auth_reach pr srv \<lparr>ay_state = \<lparr>os_codes = [], os_tokens = []\<rparr>, ay_granted = {#}, ay_taken = {#}, ay_issued = {#}\<rparr>"
| ar_step: "auth_reach pr srv y \<Longrightarrow> auth_step pr srv y y' \<Longrightarrow> auth_reach pr srv y'"

text \<open>A whole token request is such steps: take, then issue or refuse.\<close>

lemma serveToken_steps:
  assumes "serveToken pr srv env r (ay_state y) = (resp, st')"
  shows "\<exists>y'. (auth_step pr srv)\<^sup>*\<^sup>* y y' \<and> ay_state y' = st' \<and> ay_granted y' = ay_granted y \<and> ay_taken y' = ay_taken y"
proof (cases "st' = ay_state y")
  case False
  then obtain form c st1 where f: "hq_form r = Some form" "take_code (values_get form ''code'') (ay_state y) = (Some c, st1)"
    using assms by (auto simp: serveToken_def take_code_def split: if_splits option.splits)
  let ?y1 = "y\<lparr>ay_state := st1, ay_taken := add_mset c (ay_taken y)\<rparr>"
  have 1: "auth_step pr srv y ?y1" by (rule a_take [OF f(2)])
  have 2: "c \<in># ay_taken ?y1" by simp
  show ?thesis
  proof (cases "st' = st1")
    case True
    have "(auth_step pr srv)\<^sup>*\<^sup>* y (?y1\<lparr>ay_taken := ay_taken ?y1 - {#c#}\<rparr>)"
      using 1 a_refuse [OF 2, of pr srv] by (meson r_into_rtranclp rtranclp.rtrancl_into_rtrancl)
    then show ?thesis using True by (intro exI [of _ "?y1\<lparr>ay_taken := ay_taken ?y1 - {#c#}\<rparr>"]) simp
  next
    case neq: False
    obtain tok where t: "token_due pr srv env form c" "randomToken env = Some tok" "st' = put_token srv env tok c st1"
      using assms f neq False by (auto simp: serveToken_def token_due_def split: if_splits option.splits)
    let ?y2 = "?y1\<lparr>ay_state := put_token srv env tok c (ay_state ?y1), ay_taken := ay_taken ?y1 - {#c#},
      ay_issued := add_mset (c, values_get form ''code_verifier'') (ay_issued ?y1)\<rparr>"
    have "(auth_step pr srv)\<^sup>*\<^sup>* y ?y2"
      using 1 a_issue [OF 2 t(1,2)] by (meson r_into_rtranclp rtranclp.rtrancl_into_rtrancl)
    then show ?thesis using t(3) by (intro exI [of _ ?y2]) simp
  qed
qed auto

lemma mset_update_codes: "mset (map snd (AList.update k v m)) \<subseteq># add_mset v (mset (map snd m))"
  by (induction m) (auto simp: add_mset_commute)

lemma mset_delete_codes: "map_of m k = Some c \<Longrightarrow> add_mset c (mset (map snd (AList.delete k m))) \<subseteq># mset (map snd m)"
proof (induction m)
  case (Cons kv m)
  show ?case
  proof (cases "fst kv = k")
    case True
    have "mset (map snd (AList.delete k m)) \<subseteq># mset (map snd m)"
      unfolding AList.delete_eq mset_map mset_filter by (intro image_mset_subseteq_mono multiset_filter_subset)
    then show ?thesis using True Cons.prems by (cases kv) (simp add: AList.delete_simps)
  next
    case False
    then show ?thesis using Cons by (cases kv) (simp add: AList.delete_simps add_mset_commute [of c])
  qed
qed simp

definition auth_inv :: "auth_prims \<Rightarrow> auth_server \<Rightarrow> auth_sys \<Rightarrow> bool" where
  "auth_inv pr srv y \<longleftrightarrow>
     image_mset fst (ay_issued y) + ay_taken y + mset (map snd (os_codes (ay_state y))) \<subseteq># image_mset fst (ay_granted y) \<and>
     (\<forall>tok info. map_of (os_tokens (ay_state y)) tok = Some info \<longrightarrow>
        (\<exists>(c, v)\<in>#ay_issued y. ti_scopes info = str_fields (oc_scope c))) \<and>
     (\<forall>(c, v)\<in>#ay_issued y. verifyPKCE pr (oc_challenge c) (oc_method c) v) \<and>
     (\<forall>(c, t, s)\<in>#ay_granted y. validRedirectURI srv (oc_redirect c) \<and> validClient srv (oc_client c) \<and> oc_challenge c \<noteq> [] \<and>
        (cp_sha256 pr t = cp_sha256 pr s \<or> cp_sha256 pr (''Bearer '' @ t) = cp_sha256 pr s))"

lemma put_token_fields [simp]:
  "os_codes (put_token srv env tok c st) = os_codes st"
  "os_tokens (put_token srv env tok c st) =
     AList.update tok \<lparr>ti_scopes = str_fields (oc_scope c), ti_expires = ae_later env + as_ttl srv\<rparr> (os_tokens st)"
  by (simp_all add: put_token_def)

lemma subseteq_move: "A + add_mset c B \<subseteq># G \<Longrightarrow> M \<subseteq># add_mset c B \<Longrightarrow> A + M \<subseteq># G"
  by (meson subset_mset.add_left_mono subset_mset.order_trans)

lemma auth_inv_step:
  assumes "auth_step pr srv y y'" and "auth_inv pr srv y"
  shows "auth_inv pr srv y'"
  using assms
proof (induction rule: auth_step.induct)
  case (a_authorize r env y resp st')
  have st': "st' = (case granted_code pr srv env r of None \<Rightarrow> ay_state y
      | Some (code, c, _) \<Rightarrow> (ay_state y)\<lparr>os_codes := AList.update code c (os_codes (ay_state y))\<rparr>)"
    using a_authorize.hyps handleAuthorizePost_state [of pr srv env r "ay_state y"] by (auto simp: serveAuthorize_def)
  show ?case
  proof (cases "granted_code pr srv env r")
    case None
    then show ?thesis using a_authorize.prems st' by (simp add: auth_inv_def)
  next
    case (Some g)
    then obtain code c t s where g: "g = (code, c, t, s)" by (cases g)
    let ?m = "mset (map snd (os_codes (ay_state y)))" and ?A = "image_mset fst (ay_issued y) + ay_taken y"
    have "?A + ?m \<subseteq># image_mset fst (ay_granted y)" using a_authorize.prems unfolding auth_inv_def by blast
    then have "?A + add_mset c ?m \<subseteq># add_mset c (image_mset fst (ay_granted y))" by (simp add: add.assoc)
    then have "?A + mset (map snd (AList.update code c (os_codes (ay_state y)))) \<subseteq># add_mset c (image_mset fst (ay_granted y))"
      using mset_update_codes by (rule subseteq_move)
    then show ?thesis
      using a_authorize.prems granted_code_Some Some st' by (simp add: auth_inv_def g)
  qed
next
  case (a_take code y c st')
  then have m: "map_of (os_codes (ay_state y)) code = Some c" "st' = (ay_state y)\<lparr>os_codes := AList.delete code (os_codes (ay_state y))\<rparr>"
    by (auto simp: take_code_def split: option.splits)
  have "image_mset fst (ay_issued y) + ay_taken y + mset (map snd (os_codes (ay_state y))) \<subseteq># image_mset fst (ay_granted y)"
    using a_take.prems unfolding auth_inv_def by blast
  then have "image_mset fst (ay_issued y) + ay_taken y + add_mset c (mset (map snd (AList.delete code (os_codes (ay_state y)))))
      \<subseteq># image_mset fst (ay_granted y)"
    using mset_delete_codes [OF m(1)] by (meson subset_mset.add_left_mono subset_mset.order_trans)
  then show ?case using a_take.prems m(2) by (simp add: auth_inv_def)
next
  case (a_refuse c y)
  have "image_mset fst (ay_issued y) + ay_taken y + mset (map snd (os_codes (ay_state y))) \<subseteq># image_mset fst (ay_granted y)"
    using a_refuse.prems unfolding auth_inv_def by blast
  moreover have "image_mset fst (ay_issued y) + (ay_taken y - {#c#}) + mset (map snd (os_codes (ay_state y))) \<subseteq>#
      image_mset fst (ay_issued y) + ay_taken y + mset (map snd (os_codes (ay_state y)))"
    by (intro subset_mset.add_right_mono subset_mset.add_left_mono diff_subset_eq_self)
  ultimately have "image_mset fst (ay_issued y) + (ay_taken y - {#c#}) + mset (map snd (os_codes (ay_state y)))
      \<subseteq># image_mset fst (ay_granted y)" by (rule subset_mset.order_trans [rotated])
  then show ?case using a_refuse.prems by (simp add: auth_inv_def)
next
  case (a_issue c y env form tok)
  then have eq: "add_mset c (ay_taken y - {#c#}) = ay_taken y" by simp
  have "image_mset fst (ay_issued y) + add_mset c (ay_taken y - {#c#}) + mset (map snd (os_codes (ay_state y)))
      \<subseteq># image_mset fst (ay_granted y)"
    using a_issue.prems unfolding eq auth_inv_def by blast
  then show ?case
    using a_issue.prems a_issue.hyps(2) by (auto simp: auth_inv_def token_due_def)
next
  case (a_verify now tok y res st')
  then have "os_codes st' = os_codes (ay_state y) \<and>
      (\<forall>k info. map_of (os_tokens st') k = Some info \<longrightarrow> map_of (os_tokens (ay_state y)) k = Some info)"
    by (auto simp: verifyAccessToken_def split: option.splits if_splits)
  then show ?case using a_verify.prems by (simp add: auth_inv_def) meson
qed

lemma reach_auth_inv: "auth_reach pr srv y \<Longrightarrow> auth_inv pr srv y"
  by (induction rule: auth_reach.induct) (simp add: auth_inv_def, rule auth_inv_step)

text \<open>
  C7. Every access token was earned. Whatever the clients do, in whatever order their requests interleave:
  each code is redeemed at most once (codes redeemed, being redeemed and still open are among the codes
  granted, counted with their multiplicity), and a token the server knows carries the scopes of a code that
  was granted to someone who presented the secret, for a registered redirect URI and an accepted client,
  and redeemed by someone who knew the verifier of its challenge.
\<close>

theorem oauth_tokens_earned:
  assumes "auth_reach pr srv y" and "map_of (os_tokens (ay_state y)) tok = Some info"
  shows "image_mset fst (ay_issued y) + ay_taken y + mset (map snd (os_codes (ay_state y))) \<subseteq># image_mset fst (ay_granted y) \<and>
    (\<exists>c v t s. (c, v) \<in># ay_issued y \<and> (c, t, s) \<in># ay_granted y \<and> ti_scopes info = str_fields (oc_scope c) \<and>
      verifyPKCE pr (oc_challenge c) (oc_method c) v \<and> validRedirectURI srv (oc_redirect c) \<and> validClient srv (oc_client c) \<and>
      (cp_sha256 pr t = cp_sha256 pr s \<or> cp_sha256 pr (''Bearer '' @ t) = cp_sha256 pr s))"
proof -
  note inv = reach_auth_inv [OF assms(1), unfolded auth_inv_def]
  obtain c v where c: "(c, v) \<in># ay_issued y" "ti_scopes info = str_fields (oc_scope c)"
    using inv assms(2) by blast
  have "c \<in># image_mset fst (ay_issued y)" using c(1) by force
  moreover have "image_mset fst (ay_issued y) \<subseteq># image_mset fst (ay_granted y)"
    using inv by (meson mset_subset_eq_add_left subset_mset.order_trans)
  ultimately have "c \<in># image_mset fst (ay_granted y)" by (rule mset_subset_eqD [rotated])
  then obtain t s where "(c, t, s) \<in># ay_granted y" by auto
  then show ?thesis using inv c by fast
qed

text \<open>A run: a client is granted a code, redeems it, and holds a token.\<close>

definition demo_auth :: auth_server where
  "demo_auth = \<lparr>as_cfg = \<lparr>au_enabled = True, au_header = ''X-Key'', au_value = ''s'',
     au_oauth = \<lparr>oa_enabled = True, oa_issuer = ''i'', oa_resource = ''r'', oa_scopes = [], oa_client_id = [],
       oa_token_ttl = [], oa_redirect_uris = [''u'']\<rparr>\<rparr>, as_name = ''gw'', as_ttl = defaultOAuthTokenTTL, as_fallback = []\<rparr>"

definition demo_prims :: auth_prims where
  "demo_prims = \<lparr>cp_sha256 = id, cp_set_query = (\<lambda>u kvs. Some u), cp_bearer = (\<lambda>_. None), cp_bearer_ok = (\<lambda>_ _. True)\<rparr>"

definition demo_env :: "string \<Rightarrow> auth_env" where
  "demo_env rand = \<lparr>ae_now = 0, ae_later = 0, ae_secret = Some ''s'', ae_rand = Some rand\<rparr>"

definition demo_post :: http_req where
  "demo_post = \<lparr>hq_method = ''POST'', hq_path = ''/authorize'', hq_raw_query = [], hq_header = [],
     hq_form = Some [(''query'', [''redirect_uri=u&response_type=code&scope=t&code_challenge=v'']), (''token'', [''s''])]\<rparr>"

definition demo_redeem :: http_req where
  "demo_redeem = \<lparr>hq_method = ''POST'', hq_path = ''/token'', hq_raw_query = [], hq_header = [],
     hq_form = Some [(''grant_type'', [''authorization_code'']), (''code'', [''AAAA'']), (''redirect_uri'', [''u'']),
       (''code_verifier'', [''v''])]\<rparr>"

definition demo_code :: oauth_code where
  "demo_code = \<lparr>oc_client = [], oc_redirect = ''u'', oc_scope = ''t'', oc_challenge = ''v'', oc_method = [], oc_expires = 300 * seconds\<rparr>"

definition demo_ginfo :: token_info where
  "demo_ginfo = \<lparr>ti_scopes = [''t''], ti_expires = defaultOAuthTokenTTL\<rparr>"

lemma demo_query: "parse_query ''redirect_uri=u&response_type=code&scope=t&code_challenge=v'' =
    Some [(''redirect_uri'', [''u'']), (''response_type'', [''code'']), (''scope'', [''t'']), (''code_challenge'', [''v''])]"
  by (simp add: parse_query_def str_cut_def app_put_def set_get_def)

lemma demo_random: "randomToken (demo_env (replicate 3 (CHR 0x00))) = Some ''AAAA''" "randomToken (demo_env ''Mcp'') = Some ''TWNw''"
  by (simp_all add: randomToken_def demo_env_def numeral_3_eq_3 b64_char_def char_of_def bit_iff_odd)

lemma demo_env_fields [simp]: "ae_now (demo_env r) = 0" "ae_later (demo_env r) = 0" "ae_secret (demo_env r) = Some ''s''"
  by (simp_all add: demo_env_def)

lemma demo_granted: "granted_code demo_prims demo_auth (demo_env (replicate 3 (CHR 0x00))) demo_post = Some (''AAAA'', demo_code, ''s'', ''s'')"
  by (simp add: granted_code_def demo_random demo_post_def demo_query values_get_def set_get_def demo_code_def
      validRedirectURI_def validClient_def constantTimeEqual_def demo_prims_def demo_auth_def normalizeScope_def)

lemma demo_fields: "str_fields ''t'' = [''t'']"
  by code_simp

lemma demo_issued: "serveToken demo_prims demo_auth (demo_env ''Mcp'') demo_redeem \<lparr>os_codes = [(''AAAA'', demo_code)], os_tokens = []\<rparr> =
   (HJson 200 (JObj [(''access_token'', JStr ''TWNw''), (''token_type'', JStr ''Bearer''), (''expires_in'', JNum 3600), (''scope'', JStr ''t'')]),
    \<lparr>os_codes = [], os_tokens = [(''TWNw'', demo_ginfo)]\<rparr>)"
  by (simp add: serveToken_def demo_redeem_def values_get_def set_get_def take_code_def demo_code_def demo_random
      validClient_def verifyPKCE_def constantTimeEqual_def demo_auth_def put_token_def demo_ginfo_def
      defaultOAuthTokenTTL_def seconds_def demo_fields)

lemma demo_run: "auth_reach demo_prims demo_auth \<lparr>ay_state = \<lparr>os_codes = [], os_tokens = [(''TWNw'', demo_ginfo)]\<rparr>,
   ay_granted = {#(demo_code, ''s'', ''s'')#}, ay_taken = {#}, ay_issued = {#(demo_code, ''v'')#}\<rparr>"
proof -
  let ?y0 = "\<lparr>ay_state = \<lparr>os_codes = [], os_tokens = []\<rparr>, ay_granted = {#}, ay_taken = {#}, ay_issued = {#}\<rparr>"
  let ?env = "demo_env (replicate 3 (CHR 0x00))"
  have m: "hq_method demo_post = ''POST''" by (simp add: demo_post_def)
  have st: "snd (serveAuthorize demo_prims demo_auth ?env demo_post \<lparr>os_codes = [], os_tokens = []\<rparr>) =
      \<lparr>os_codes = [(''AAAA'', demo_code)], os_tokens = []\<rparr>"
    using handleAuthorizePost_state [of demo_prims demo_auth ?env demo_post "\<lparr>os_codes = [], os_tokens = []\<rparr>"]
    by (simp add: serveAuthorize_def demo_granted m)
  have "auth_reach demo_prims demo_auth (?y0\<lparr>ay_state := \<lparr>os_codes = [(''AAAA'', demo_code)], os_tokens = []\<rparr>,
      ay_granted := {#(demo_code, ''s'', ''s'')#}\<rparr>)" (is "auth_reach _ _ ?y1")
    using ar_step [OF ar_start a_authorize [OF m, of demo_prims demo_auth ?env ?y0]] st
    by (simp add: demo_granted prod_eq_iff del: replicate.simps)
  moreover have "auth_step demo_prims demo_auth ?y1 (?y1\<lparr>ay_state := \<lparr>os_codes = [], os_tokens = []\<rparr>, ay_taken := {#demo_code#}\<rparr>)"
      (is "auth_step _ _ _ ?y2")
    using a_take [of "''AAAA''" ?y1] by (simp add: take_code_def)
  moreover have "auth_step demo_prims demo_auth ?y2 \<lparr>ay_state = \<lparr>os_codes = [], os_tokens = [(''TWNw'', demo_ginfo)]\<rparr>,
      ay_granted = {#(demo_code, ''s'', ''s'')#}, ay_taken = {#}, ay_issued = {#(demo_code, ''v'')#}\<rparr>"
    using a_issue [of demo_code ?y2 demo_prims demo_auth "demo_env ''Mcp''" "the (hq_form demo_redeem)"]
    by (simp add: token_due_def demo_redeem_def values_get_def set_get_def demo_code_def demo_random
        validClient_def verifyPKCE_def constantTimeEqual_def demo_auth_def put_token_def demo_ginfo_def
        defaultOAuthTokenTTL_def seconds_def demo_fields)
  ultimately show ?thesis by (meson ar_step)
qed

theorem oauth_tokens_earned_witness:
  "\<exists>y c v t s. auth_reach demo_prims demo_auth y \<and> map_of (os_tokens (ay_state y)) ''TWNw'' = Some demo_ginfo \<and>
     (c, v) \<in># ay_issued y \<and> (c, t, s) \<in># ay_granted y \<and> ti_scopes demo_ginfo = str_fields (oc_scope c)"
  using oauth_tokens_earned [OF demo_run, of "''TWNw''" demo_ginfo] demo_run by fastforce
end
