(* ===== verification/Fx_Http.thy ===== *)
theory Fx_Http
  imports Mcp_Http
begin

text \<open>
  HTTP egress, \<open>internal/effect/http.go\<close> and \<open>internal/effect/http_policy.go\<close>: an allowlist checked on a
  request, on each redirect, and on the address the dialer connects to.

  Parsing a URL or an address, resolving a name and what a server answers are parameters. An IP address is
  the list of its bytes, as in package \<open>net\<close>. \<open>uni\<close> lowers a string that is not ASCII.
\<close>

subsection \<open>URLs and addresses\<close>

record url =
  ur_scheme :: string
  ur_host :: string

definition digit_byte :: "char \<Rightarrow> bool" where
  "digit_byte c \<longleftrightarrow> 48 \<le> byte_of c \<and> byte_of c \<le> 57"

text \<open>The authority before its last colon and what follows it.\<close>

fun cut_last :: "char \<Rightarrow> string \<Rightarrow> (string \<times> string) option" where
  "cut_last b [] = None"
| "cut_last b (c # cs) =
     (case cut_last b cs of
        Some (x, y) \<Rightarrow> Some (c # x, y)
      | None \<Rightarrow> (if c = b then Some ([], cs) else None))"

text \<open>\<open>URL.Hostname\<close>: the port is cut off if it is one, then the brackets of an IPv6 literal.\<close>

definition ur_hostname :: "url \<Rightarrow> string" where
  "ur_hostname u =
     (let host = (case cut_last (CHR '':'') (ur_host u) of
                    Some (h, p) \<Rightarrow> (if list_all digit_byte p then h else ur_host u)
                  | None \<Rightarrow> ur_host u)
      in if length host \<ge> 2 \<and> hd host = CHR ''['' \<and> last host = CHR '']'' then butlast (tl host) else host)"

type_synonym ip = "nat list"

definition to4 :: "ip \<Rightarrow> ip option" where
  "to4 ip =
     (if length ip = 4 then Some ip
      else if length ip = 16 \<and> take 12 ip = replicate 10 0 @ [255, 255] then Some (drop 12 ip)
      else None)"

definition link_local_unicast :: "ip \<Rightarrow> bool" where
  "link_local_unicast ip =
     (case to4 ip of
        Some ip4 \<Rightarrow> ip4 ! 0 = 169 \<and> ip4 ! 1 = 254
      | None \<Rightarrow> length ip = 16 \<and> ip ! 0 = 254 \<and> 128 \<le> ip ! 1 \<and> ip ! 1 < 192)"

definition link_local_multicast :: "ip \<Rightarrow> bool" where
  "link_local_multicast ip =
     (case to4 ip of
        Some ip4 \<Rightarrow> ip4 ! 0 = 224 \<and> ip4 ! 1 = 0 \<and> ip4 ! 2 = 0
      | None \<Rightarrow> length ip = 16 \<and> ip ! 0 = 255 \<and> ip ! 1 mod 16 = 2)"

subsection \<open>The policy\<close>

record http_policy =
  hp_allow :: "string list"
  hp_link_local :: bool

text \<open>The errors wrap \<open>ErrDenied\<close>, except that of an address that does not parse.\<close>

datatype deny_error =
    NoURL
  | BadScheme string
  | NoHost
  | NotAllowed string
  | LinkLocal ip
  | BadDialAddress string
  | NotAnIP string

definition is_denied :: "deny_error \<Rightarrow> bool" where
  "is_denied e = (case e of BadDialAddress _ \<Rightarrow> False | _ \<Rightarrow> True)"

definition CheckIP :: "http_policy \<Rightarrow> ip \<Rightarrow> deny_error option" where
  "CheckIP p ip =
     (if hp_link_local p then None
      else if link_local_unicast ip \<or> link_local_multicast ip then Some (LinkLocal ip)
      else None)"

definition has_suffix :: "string \<Rightarrow> string \<Rightarrow> bool" where
  "has_suffix s p \<longleftrightarrow> length p \<le> length s \<and> drop (length s - length p) s = p"

definition allow_match :: "string \<Rightarrow> string \<Rightarrow> string \<Rightarrow> bool" where
  "allow_match host hostPort allow =
     (if allow = ''*'' then True
      else if has_prefix allow ''*.'' then has_suffix host (tl allow)
      else if str_contains allow '':'' then allow = hostPort \<or> allow = host
      else allow = host)"

definition allowsHost :: "(string \<Rightarrow> string) \<Rightarrow> http_policy \<Rightarrow> string \<Rightarrow> string \<Rightarrow> bool" where
  "allowsHost uni p host hostPort =
     list_ex (\<lambda>allow. allow_match (to_lower uni (trim_suffix host ''.'')) (to_lower uni hostPort) (to_lower uni allow))
       (hp_allow p)"

definition CheckURL ::
  "(string \<Rightarrow> string) \<Rightarrow> (string \<Rightarrow> ip option) \<Rightarrow> http_policy \<Rightarrow> url option \<Rightarrow> deny_error option" where
  "CheckURL uni parse_ip p u0 =
     (case u0 of
        None \<Rightarrow> Some NoURL
      | Some u \<Rightarrow>
          (if ur_scheme u \<noteq> ''http'' \<and> ur_scheme u \<noteq> ''https'' then Some (BadScheme (ur_scheme u))
           else if ur_hostname u = [] then Some NoHost
           else if \<not> allowsHost uni p (ur_hostname u) (ur_host u) then Some (NotAllowed (ur_host u))
           else
             (case parse_ip (ur_hostname u) of
                Some ip \<Rightarrow> CheckIP p ip
              | None \<Rightarrow> None)))"

subsection \<open>The client\<close>

text \<open>
  What lies outside: \<open>nw_address\<close> is the address the dialer is about to connect to for a URL,
  \<open>nw_split\<close> is \<open>net.SplitHostPort\<close> (its host), \<open>nw_serve\<close> is what comes back for a request: \<open>None\<close> for a
  final response, or the request \<open>http.Client\<close> makes of a redirect.
\<close>

record http_request =
  rq_url :: url
  rq_header :: http_header

record net_world =
  nw_parse_ip :: "string \<Rightarrow> ip option"
  nw_split :: "string \<Rightarrow> string option"
  nw_address :: "url \<Rightarrow> string"
  nw_serve :: "http_request \<Rightarrow> http_request option"

text \<open>The \<open>Control\<close> function of \<open>policyDialer\<close>.\<close>

definition policyDialer :: "net_world \<Rightarrow> http_policy \<Rightarrow> string \<Rightarrow> deny_error option" where
  "policyDialer w p address =
     (case nw_split w address of
        None \<Rightarrow> Some (BadDialAddress address)
      | Some host \<Rightarrow>
          (case nw_parse_ip w host of
             None \<Rightarrow> Some (NotAnIP address)
           | Some ip \<Rightarrow> CheckIP p ip))"

text \<open>\<open>policyTransport.RoundTrip\<close> over the dialer: the request that reaches a server, or the refusal.\<close>

definition policy_RoundTrip ::
  "(string \<Rightarrow> string) \<Rightarrow> net_world \<Rightarrow> http_policy \<Rightarrow> http_request \<Rightarrow> deny_error + http_request" where
  "policy_RoundTrip uni w p req =
     (case CheckURL uni (nw_parse_ip w) p (Some (rq_url req)) of
        Some e \<Rightarrow> Inl e
      | None \<Rightarrow>
          (case policyDialer w p (nw_address w (rq_url req)) of
             Some e \<Rightarrow> Inl e
           | None \<Rightarrow> Inr req))"

record http_client =
  hc_policy :: http_policy
  hc_timeout :: int

definition NewHTTPClient :: "http_policy \<Rightarrow> int \<Rightarrow> http_client" where
  "NewHTTPClient p timeout = \<lparr>hc_policy = p, hc_timeout = timeout\<rparr>"

definition check_redirect :: "(string \<Rightarrow> string) \<Rightarrow> net_world \<Rightarrow> http_client \<Rightarrow> http_request \<Rightarrow> deny_error option" where
  "check_redirect uni w cl req = CheckURL uni (nw_parse_ip w) (hc_policy cl) (Some (rq_url req))"

text \<open>
  \<open>http.Client.Do\<close> over a round tripper \<open>rt\<close> whose state is \<open>'s\<close>: the requests that reached a server, in
  order, and how it ended. \<open>Following\<close> is the outcome when \<open>n\<close> requests are not enough to see an end.
\<close>

datatype 'e outcome = Finished | Failed 'e | Following

fun client_do ::
  "('s \<Rightarrow> http_request \<Rightarrow> ('e + http_request) \<times> 's) \<Rightarrow> (http_request \<Rightarrow> 'e option) \<Rightarrow> (http_request \<Rightarrow> http_request option)
     \<Rightarrow> nat \<Rightarrow> 's \<Rightarrow> http_request \<Rightarrow> http_request list \<times> 'e outcome \<times> 's" where
  "client_do rt redir serve 0 s req = ([], Following, s)"
| "client_do rt redir serve (Suc n) s req =
     (case rt s req of
        (Inl e, s') \<Rightarrow> ([], Failed e, s')
      | (Inr sent, s') \<Rightarrow>
          (case serve sent of
             None \<Rightarrow> ([sent], Finished, s')
           | Some next \<Rightarrow>
               (case redir next of
                  Some e \<Rightarrow> ([sent], Failed e, s')
                | None \<Rightarrow>
                    (let (more, out, s'') = client_do rt redir serve n s' next in (sent # more, out, s'')))))"

text \<open>\<open>AllowHostOf\<close>, with \<open>url.Parse\<close> as a parameter.\<close>

definition AllowHostOf :: "(string \<Rightarrow> url option) \<Rightarrow> string \<Rightarrow> string list" where
  "AllowHostOf parse raw =
     (if raw = [] then []
      else
        (case parse raw of
           None \<Rightarrow> []
         | Some u \<Rightarrow> (if ur_hostname u = [] then [] else [ur_host u])))"

subsection \<open>What a client reaches\<close>

text \<open>A round tripper that sends only what satisfies \<open>ok\<close>.\<close>

locale careful_transport =
  fixes rt :: "'s \<Rightarrow> http_request \<Rightarrow> ('e + http_request) \<times> 's" and ok :: "http_request \<Rightarrow> bool"
  assumes sends_ok: "rt s req = (Inr sent, s') \<Longrightarrow> ok sent"
begin

lemma client_sends_ok: "client_do rt redir serve n s req = (sent, out, s') \<Longrightarrow> \<forall>r\<in>set sent. ok r"
proof (induction n arbitrary: s req sent out s')
  case (Suc n)
  obtain x s1 where rt: "rt s req = (x, s1)" by (cases "rt s req")
  show ?case
  proof (cases x)
    case (Inr r)
    then have "ok r" using sends_ok rt by simp
    moreover have "\<forall>r\<in>set more. ok r" if "client_do rt redir serve n s1 next = (more, out', s2)" for "next" more out' s2
      using Suc.IH that .
    ultimately show ?thesis
      using Suc.prems rt Inr by (auto split: option.splits prod.splits)
  qed (use Suc.prems rt in simp)
qed simp

end

text \<open>What a policy lets out.\<close>

definition egress_ok :: "(string \<Rightarrow> string) \<Rightarrow> net_world \<Rightarrow> http_policy \<Rightarrow> http_request \<Rightarrow> bool" where
  "egress_ok uni w p req \<longleftrightarrow>
     (ur_scheme (rq_url req) = ''http'' \<or> ur_scheme (rq_url req) = ''https'') \<and>
     allowsHost uni p (ur_hostname (rq_url req)) (ur_host (rq_url req)) \<and>
     (\<exists>host ip. nw_split w (nw_address w (rq_url req)) = Some host \<and> nw_parse_ip w host = Some ip \<and>
        (hp_link_local p \<or> \<not> link_local_unicast ip \<and> \<not> link_local_multicast ip))"

lemma policy_RoundTrip_ok: "policy_RoundTrip uni w p req = Inr sent \<Longrightarrow> sent = req \<and> egress_ok uni w p req"
  by (auto simp: policy_RoundTrip_def CheckURL_def policyDialer_def CheckIP_def egress_ok_def
      split: option.splits if_splits)

definition policy_transport ::
  "(string \<Rightarrow> string) \<Rightarrow> net_world \<Rightarrow> http_client \<Rightarrow> unit \<Rightarrow> http_request \<Rightarrow> (deny_error + http_request) \<times> unit" where
  "policy_transport uni w cl s req = (policy_RoundTrip uni w (hc_policy cl) req, s)"

interpretation policy: careful_transport "policy_transport uni w cl" "egress_ok uni w (hc_policy cl)" for uni w cl
  by unfold_locales (auto simp: policy_transport_def dest: policy_RoundTrip_ok)

text \<open>Where a host configured by URL leads: to the same authority, or to the same name at any port if the URL has none.\<close>

definition same_host :: "(string \<Rightarrow> string) \<Rightarrow> url \<Rightarrow> url \<Rightarrow> bool" where
  "same_host uni u v \<longleftrightarrow> to_lower uni (trim_suffix (ur_hostname v) ''.'') = to_lower uni (ur_host u) \<or>
     (CHR '':'' \<in> set (to_lower uni (ur_host u)) \<and> to_lower uni (ur_host v) = to_lower uni (ur_host u))"

lemma contains_byte: "str_contains s [b] \<longleftrightarrow> b \<in> set s"
  by (induction s) (auto simp: has_prefix_def)

lemma allow_host_of:
  assumes "parse raw = Some u" and "\<not> has_prefix (to_lower uni (ur_host u)) ''*''"
    and "allowsHost uni \<lparr>hp_allow = AllowHostOf parse raw, hp_link_local = ll\<rparr> (ur_hostname v) (ur_host v)"
  shows "same_host uni u v"
proof -
  have "\<not> has_prefix (to_lower uni (ur_host u)) ''*.''" "to_lower uni (ur_host u) \<noteq> ''*''"
    using assms(2) by (cases "to_lower uni (ur_host u)"; auto simp: has_prefix_def)+
  then show ?thesis
    using assms(1,3)
    by (auto simp: allowsHost_def AllowHostOf_def allow_match_def same_host_def contains_byte split: if_splits)
qed

text \<open>
  A client made for an upstream's URL stays there. Whatever the server answers and however often it
  redirects, every request that reaches a server goes over HTTP to the authority of that URL (to its host, at
  any port, if the URL names none), and never connects to a link-local address, whatever the name resolves to.
\<close>

theorem client_stays_on_host:
  assumes "parse raw = Some u" and "\<not> has_prefix (to_lower uni (ur_host u)) ''*''"
    and "cl = NewHTTPClient \<lparr>hp_allow = AllowHostOf parse raw, hp_link_local = False\<rparr> timeout"
    and "client_do (policy_transport uni w cl) (check_redirect uni w cl) serve n () req = (sent, out, s')"
    and "r \<in> set sent"
  shows "ur_scheme (rq_url r) \<in> {''http'', ''https''} \<and> same_host uni u (rq_url r) \<and>
    (\<exists>host ip. nw_split w (nw_address w (rq_url r)) = Some host \<and> nw_parse_ip w host = Some ip \<and>
       \<not> link_local_unicast ip \<and> \<not> link_local_multicast ip)"
proof -
  have "egress_ok uni w (hc_policy cl) r" using policy.client_sends_ok assms(4,5) by blast
  then show ?thesis
    using allow_host_of [where parse = parse and raw = raw, OF assms(1,2)] assms(3) by (auto simp: egress_ok_def NewHTTPClient_def)
qed

definition demo_url :: url where
  "demo_url = \<lparr>ur_scheme = ''http'', ur_host = ''h:80''\<rparr>"

definition demo_net :: net_world where
  "demo_net = \<lparr>nw_parse_ip = (\<lambda>s. if s = ''a'' then Some [10, 0, 0, 1] else None), nw_split = (\<lambda>_. Some ''a''),
     nw_address = (\<lambda>_. ''a:80''), nw_serve = Some\<rparr>"

definition demo_client :: http_client where
  "demo_client = NewHTTPClient \<lparr>hp_allow = AllowHostOf (\<lambda>_. Some demo_url) ''http://h:80'', hp_link_local = False\<rparr> 0"

definition demo_request :: http_request where
  "demo_request = \<lparr>rq_url = demo_url, rq_header = []\<rparr>"

lemma demo_hostname: "ur_hostname demo_url = ''h''"
  by (simp add: ur_hostname_def demo_url_def digit_byte_def)

lemma demo_checked: "CheckURL (\<lambda>s. s) (nw_parse_ip demo_net) (hc_policy demo_client) (Some demo_url) = None"
  by (simp add: CheckURL_def demo_hostname allowsHost_def demo_client_def NewHTTPClient_def AllowHostOf_def
      allow_match_def contains_byte demo_net_def) (simp add: demo_url_def has_prefix_def to_lower_def is_ascii_def lower_byte_def)

lemma demo_sent: "policy_RoundTrip (\<lambda>s. s) demo_net (hc_policy demo_client) demo_request = Inr demo_request"
  unfolding policy_RoundTrip_def demo_request_def
  by (simp add: demo_checked)
    (simp add: policyDialer_def demo_net_def CheckIP_def link_local_unicast_def link_local_multicast_def to4_def)

text \<open>
  The number of redirects is not bounded: \<open>CheckRedirect\<close> replaces the limit of ten of \<open>http.Client\<close>, so a
  server that redirects to itself keeps a client without a timeout busy forever.
\<close>

lemma redirects_unbounded:
  "client_do (policy_transport (\<lambda>s. s) demo_net demo_client) (check_redirect (\<lambda>s. s) demo_net demo_client) Some n () demo_request =
     (replicate n demo_request, Following, ())"
proof (induction n)
  case (Suc n)
  have "check_redirect (\<lambda>s. s) demo_net demo_client demo_request = None"
    by (simp add: check_redirect_def demo_request_def demo_checked)
  moreover have "policy_transport (\<lambda>s. s) demo_net demo_client () demo_request = (Inr demo_request, ())"
    by (simp add: policy_transport_def demo_sent)
  ultimately show ?case by (simp add: Suc)
qed simp

theorem client_stays_on_host_witness:
  "demo_request \<in> set (fst (client_do (policy_transport (\<lambda>s. s) demo_net demo_client)
      (check_redirect (\<lambda>s. s) demo_net demo_client) Some 2 () demo_request)) \<and>
   same_host (\<lambda>s. s) demo_url (rq_url demo_request)"
proof -
  have "\<not> has_prefix (to_lower (\<lambda>s. s) (ur_host demo_url)) ''*''"
    by (simp add: demo_url_def has_prefix_def to_lower_def is_ascii_def lower_byte_def)
  from client_stays_on_host [OF refl this demo_client_def redirects_unbounded [of 2], of demo_request]
  show ?thesis by (simp add: redirects_unbounded)
qed

end
