(* ===== verification/Fx_Fs.thy ===== *)
theory Fx_Fs
  imports Gw_Path
begin

text \<open>
  Host files, \<open>internal/effect/fs.go\<close>, \<open>fs_root.go\<close>, \<open>fs_os.go\<close> and \<open>fs_deny.go\<close>: providers that are confined
  to a directory, unconfined, or refuse everything.

  Paths are those of Unix. What the system does is a parameter: the working directory, whether a directory
  can be made and opened as a root, and what \<open>os.Root\<close> (which follows no symlink out) does with a call.
\<close>

subsection \<open>path/filepath\<close>

definition path_is_abs :: "string \<Rightarrow> bool" where
  "path_is_abs p \<longleftrightarrow> p \<noteq> [] \<and> hd p = CHR ''/''"

text \<open>\<open>filepath.Join\<close> of two elements.\<close>

definition path_join :: "string \<Rightarrow> string \<Rightarrow> string" where
  "path_join a b =
     (if a \<noteq> [] then path_clean (a @ ''/'' @ b) else if b \<noteq> [] then path_clean b else [])"

text \<open>\<open>filepath.Abs\<close>; \<open>cwd\<close> is \<open>None\<close> when the working directory is not known.\<close>

definition path_abs :: "string option \<Rightarrow> string \<Rightarrow> string option" where
  "path_abs cwd p = (if path_is_abs p then Some (path_clean p) else map_option (\<lambda>d. path_join d p) cwd)"

text \<open>The elements of a cleaned absolute path.\<close>

definition abs_elems :: "string \<Rightarrow> string list" where
  "abs_elems p = clean_elems True [] (split_slash p)"

fun common_prefix :: "string list \<Rightarrow> string list \<Rightarrow> nat" where
  "common_prefix (x # xs) (y # ys) = (if x = y then Suc (common_prefix xs ys) else 0)"
| "common_prefix _ _ = 0"

text \<open>\<open>filepath.Rel\<close> between absolute paths, the only ones it is asked for here.\<close>

definition path_rel :: "string \<Rightarrow> string \<Rightarrow> string option" where
  "path_rel base targ =
     (if path_is_abs base \<and> path_is_abs targ then
        (let bs = abs_elems base; ts = abs_elems targ; n = common_prefix bs ts;
             es = replicate (length bs - n) ''..'' @ drop n ts
         in Some (if es = [] then ''.'' else join_slash es))
      else None)"

subsection \<open>The providers\<close>

datatype fs_op =
    OpOpen string
  | OpCreate string
  | OpReadFile string
  | OpWriteFile string string nat
  | OpStat string
  | OpMkdirAll string nat
  | OpRemove string
  | OpRemoveAll string
  | OpRename string string

fun op_names :: "fs_op \<Rightarrow> string list" where
  "op_names (OpOpen n) = [n]"
| "op_names (OpCreate n) = [n]"
| "op_names (OpReadFile n) = [n]"
| "op_names (OpWriteFile n data perm) = [n]"
| "op_names (OpStat n) = [n]"
| "op_names (OpMkdirAll n perm) = [n]"
| "op_names (OpRemove n) = [n]"
| "op_names (OpRemoveAll n) = [n]"
| "op_names (OpRename a b) = [a, b]"

datatype fs_error =
    Denied string
  | OutsideRoot string
  | ResolveRoot string
  | CreateRoot string
  | OpenRoot string

record host_fs =
  hf_cwd :: "string option"
  hf_mkdir :: "string \<Rightarrow> bool"
  hf_root :: "string \<Rightarrow> bool"

record root_fs =
  rf_dir :: string
  rf_once :: bool
  rf_err :: "fs_error option"

definition Root :: "string \<Rightarrow> root_fs" where
  "Root dir = \<lparr>rf_dir = dir, rf_once = False, rf_err = None\<rparr>"

definition resolveDir :: "host_fs \<Rightarrow> root_fs \<Rightarrow> (fs_error + string) \<times> root_fs" where
  "resolveDir w r =
     (let r' = (if rf_once r then r
                else
                  (case path_abs (hf_cwd w) (rf_dir r) of
                     None \<Rightarrow> r\<lparr>rf_once := True, rf_err := Some (ResolveRoot (rf_dir r))\<rparr>
                   | Some dir \<Rightarrow>
                       (if hf_mkdir w dir then r\<lparr>rf_once := True, rf_dir := dir\<rparr>
                        else r\<lparr>rf_once := True, rf_dir := dir, rf_err := Some (CreateRoot dir)\<rparr>)))
      in (case rf_err r' of Some e \<Rightarrow> Inl e | None \<Rightarrow> Inr (rf_dir r'), r'))"

definition open_root :: "host_fs \<Rightarrow> root_fs \<Rightarrow> (fs_error + string) \<times> root_fs" where
  "open_root w r =
     (case resolveDir w r of
        (Inl e, r') \<Rightarrow> (Inl e, r')
      | (Inr dir, r') \<Rightarrow> (if hf_root w dir then Inr dir else Inl (OpenRoot dir), r'))"

text \<open>Where a name leads, before it is cleaned.\<close>

definition host_path :: "string \<Rightarrow> string \<Rightarrow> string" where
  "host_path dir name = (if path_is_abs name then name else path_join dir name)"

definition root_rel :: "string \<Rightarrow> string \<Rightarrow> fs_error + string" where
  "root_rel dir name =
     (if name = [] then Inl (OutsideRoot name)
      else
        (case path_rel dir (path_clean (host_path dir name)) of
           None \<Rightarrow> Inl (OutsideRoot name)
         | Some rel \<Rightarrow>
             (if rel = ''..'' \<or> has_prefix rel ''../'' \<or> path_is_abs rel then Inl (OutsideRoot name) else Inr rel)))"

fun map_names :: "(string \<Rightarrow> fs_error + string) \<Rightarrow> fs_op \<Rightarrow> fs_error + fs_op" where
  "map_names f (OpOpen n) = map_sum id OpOpen (f n)"
| "map_names f (OpCreate n) = map_sum id OpCreate (f n)"
| "map_names f (OpReadFile n) = map_sum id OpReadFile (f n)"
| "map_names f (OpWriteFile n data perm) = map_sum id (\<lambda>n. OpWriteFile n data perm) (f n)"
| "map_names f (OpStat n) = map_sum id OpStat (f n)"
| "map_names f (OpMkdirAll n perm) = map_sum id (\<lambda>n. OpMkdirAll n perm) (f n)"
| "map_names f (OpRemove n) = map_sum id OpRemove (f n)"
| "map_names f (OpRemoveAll n) = map_sum id OpRemoveAll (f n)"
| "map_names f (OpRename a b) =
     (case f a of Inl e \<Rightarrow> Inl e | Inr a' \<Rightarrow> map_sum id (OpRename a') (f b))"

text \<open>
  Every operation of \<open>rootFS\<close>: the call it makes on the root of the directory, if it makes one; what
  \<open>os.Root\<close> answers is handed on.
\<close>

definition root_do :: "host_fs \<Rightarrow> fs_op \<Rightarrow> root_fs \<Rightarrow> (fs_error + string \<times> fs_op) \<times> root_fs" where
  "root_do w op r =
     (case open_root w r of
        (Inl e, r') \<Rightarrow> (Inl e, r')
      | (Inr dir, r') \<Rightarrow> (map_sum id (Pair dir) (map_names (root_rel (rf_dir r')) op), r'))"

definition root_Resolve :: "host_fs \<Rightarrow> string \<Rightarrow> root_fs \<Rightarrow> (fs_error + string) \<times> root_fs" where
  "root_Resolve w name r =
     (case resolveDir w r of
        (Inl e, r') \<Rightarrow> (Inl e, r')
      | (Inr _, r') \<Rightarrow> (map_sum id (path_join (rf_dir r')) (root_rel (rf_dir r') name), r'))"

text \<open>The other two providers: the call as it stands, or none.\<close>

definition os_do :: "fs_op \<Rightarrow> fs_op" where
  "os_do op = op"

definition os_Resolve :: "host_fs \<Rightarrow> string \<Rightarrow> string option" where
  "os_Resolve w name = path_abs (hf_cwd w) name"

definition deny_do :: "string \<Rightarrow> fs_op \<Rightarrow> fs_error + fs_op" where
  "deny_do reason op = Inl (Denied reason)"

definition deny_Resolve :: "string \<Rightarrow> string \<Rightarrow> fs_error + string" where
  "deny_Resolve reason name = Inl (Denied reason)"

text \<open>The states of a confined provider. The working directory the system reports is an absolute path.\<close>

definition good_host :: "host_fs \<Rightarrow> bool" where
  "good_host w \<longleftrightarrow> (\<forall>c. hf_cwd w = Some c \<longrightarrow> path_is_abs c)"

inductive root_reach :: "root_fs \<Rightarrow> bool" where
  rr_start: "root_reach (Root dir)"
| rr_do: "root_reach r \<Longrightarrow> good_host w \<Longrightarrow> root_reach (snd (root_do w op r))"
| rr_resolve: "root_reach r \<Longrightarrow> good_host w \<Longrightarrow> root_reach (snd (root_Resolve w name r))"

subsection \<open>Cleaned paths\<close>

lemma clean_plain: "list_all plain_elem es \<Longrightarrow> clean_elems rooted out es = rev out @ es"
  by (induction es arbitrary: out) (auto simp: plain_elem_def)

lemma abs_elems_plain: "list_all plain_elem (abs_elems p)"
  using clean_elems_rooted by (auto simp: abs_elems_def list_all_iff)

lemma abs_elems_slash: "e \<in> set (abs_elems p) \<Longrightarrow> CHR ''/'' \<notin> set e"
  unfolding abs_elems_def by (rule clean_elems_no_slash)

lemma path_clean_abs: "path_is_abs p \<Longrightarrow> path_clean p = CHR ''/'' # join_slash (abs_elems p)"
  by (auto simp: path_clean_def path_is_abs_def abs_elems_def Let_def)

lemma abs_elems_slashed: "\<forall>e\<in>set es. CHR ''/'' \<notin> set e \<Longrightarrow> list_all plain_elem es \<Longrightarrow> abs_elems (CHR ''/'' # join_slash es) = es"
  by (cases "es = []") (simp_all add: abs_elems_def split_join_slash clean_plain)

lemma abs_elems_clean [simp]: "path_is_abs p \<Longrightarrow> abs_elems (path_clean p) = abs_elems p"
  using abs_elems_slash abs_elems_plain by (simp add: path_clean_abs abs_elems_slashed)

lemma path_is_abs_clean [simp]: "path_is_abs p \<Longrightarrow> path_is_abs (path_clean p)"
  using path_clean_abs by (simp add: path_is_abs_def)

lemma path_join_abs [simp]: "path_is_abs d \<Longrightarrow> path_is_abs (path_join d n)"
  unfolding path_join_def by (simp add: path_is_abs_def) (metis append_is_Nil_conv hd_append2 path_is_abs_clean path_is_abs_def)

lemma host_path_abs [simp]: "path_is_abs d \<Longrightarrow> path_is_abs (host_path d n)"
  by (simp add: host_path_def)

subsection \<open>What a name leads to\<close>

lemma common_prefix_append [simp]: "common_prefix bs (bs @ es) = length bs"
  by (induction bs) auto

lemma common_prefix_full: "common_prefix bs ts = length bs \<Longrightarrow> \<exists>es. ts = bs @ es"
proof (induction bs ts rule: common_prefix.induct)
  case (1 x xs y ys)
  then show ?case by (auto split: if_splits)
qed auto

lemma common_prefix_le: "common_prefix bs ts \<le> length bs"
  by (induction bs ts rule: common_prefix.induct) auto

text \<open>A relative path without dots at its head is a list of plain elements.\<close>

definition rel_elems :: "string \<Rightarrow> string list" where
  "rel_elems p = (if p = ''.'' then [] else split_slash p)"

lemma rel_elems_join:
  assumes "list_all plain_elem es" and "\<forall>e\<in>set es. CHR ''/'' \<notin> set e"
  shows "rel_elems (if es = [] then ''.'' else join_slash es) = es"
    and "valid_path (if es = [] then ''.'' else join_slash es)"
proof -
  have "join_slash es \<noteq> ''.''" if "es \<noteq> []"
    using that assms split_join_slash [of es] by (cases es) (auto simp: plain_elem_def)
  then show "rel_elems (if es = [] then ''.'' else join_slash es) = es"
    and "valid_path (if es = [] then ''.'' else join_slash es)"
    using assms by (auto simp: rel_elems_def valid_path_def split_join_slash)
qed

lemma dotdot_split: "rel = ''..'' \<or> has_prefix rel ''../'' \<Longrightarrow> hd (split_slash rel) = ''..''"
proof -
  assume "rel = ''..'' \<or> has_prefix rel ''../''"
  then consider "rel = ''..''" | x where "rel = ''..'' @ CHR ''/'' # x"
    by (auto simp: has_prefix_def) (metis append_Cons append_Nil append_take_drop_id)
  then show ?thesis by cases (simp_all add: split_slash_append del: append.simps)
qed

lemma inside_rel:
  assumes "list_all plain_elem es" and "\<forall>e\<in>set es. CHR ''/'' \<notin> set e" and "es \<noteq> []"
  shows "\<not> (join_slash es = ''..'' \<or> has_prefix (join_slash es) ''../'' \<or> path_is_abs (join_slash es))"
proof -
  have es: "split_slash (join_slash es) = es" using assms by (simp add: split_join_slash)
  have hd: "plain_elem (hd es)" using assms(1,3) by (cases es) auto
  have "\<not> path_is_abs (join_slash es)"
  proof
    assume "path_is_abs (join_slash es)"
    then obtain x where "join_slash es = CHR ''/'' # x" by (cases "join_slash es") (auto simp: path_is_abs_def)
    then have "hd es = []" using es by (metis list.sel(1) split_slash.simps(2))
    then show False using hd by (simp add: plain_elem_def)
  qed
  moreover have "\<not> (join_slash es = ''..'' \<or> has_prefix (join_slash es) ''../'')"
    using dotdot_split [of "join_slash es"] es hd by (auto simp: plain_elem_def)
  ultimately show ?thesis by blast
qed

lemma dotdot_join: "join_slash (''..'' # es) = ''..'' \<or> has_prefix (join_slash (''..'' # es)) ''../''"
  by (cases "es = []") (simp_all add: has_prefix_def)

text \<open>A name is mapped exactly when its cleaned path lies in the directory, and then to the rest of it.\<close>

lemma root_rel_iff:
  assumes "path_is_abs d"
  shows "root_rel d name = Inr p \<longleftrightarrow> name \<noteq> [] \<and>
    (\<exists>es. abs_elems (host_path d name) = abs_elems d @ es \<and> p = (if es = [] then ''.'' else join_slash es))"
proof -
  define bs ts n where "bs = abs_elems d" and "ts = abs_elems (host_path d name)" and "n = common_prefix bs ts"
  define es where "es = replicate (length bs - n) ''..'' @ drop n ts"
  have rel: "path_rel d (path_clean (host_path d name)) = Some (if es = [] then ''.'' else join_slash es)"
    using assms by (simp add: path_rel_def bs_def ts_def n_def es_def Let_def)
  have ts: "list_all plain_elem ts" "\<forall>e\<in>set ts. CHR ''/'' \<notin> set e"
    using abs_elems_plain abs_elems_slash by (auto simp: ts_def)
  show ?thesis
  proof (cases "n = length bs")
    case True
    then obtain xs where xs: "ts = bs @ xs" using common_prefix_full by (auto simp: n_def)
    then have "es = xs" using True by (simp add: es_def)
    moreover have "list_all plain_elem xs" "\<forall>e\<in>set xs. CHR ''/'' \<notin> set e" using ts xs by auto
    ultimately show ?thesis
      using rel inside_rel [of xs] xs
      by (auto simp: root_rel_def ts_def [symmetric] bs_def [symmetric] path_is_abs_def has_prefix_def)
  next
    case False
    then have "n < length bs" using common_prefix_le [of bs ts] by (simp add: n_def)
    then obtain k where "length bs - n = Suc k" by (metis Suc_diff_Suc)
    then have "\<exists>xs. es = ''..'' # xs" by (simp add: es_def)
    then have "root_rel d name = Inl (OutsideRoot name)"
      using rel dotdot_join by (auto simp: root_rel_def)
    moreover have "ts \<noteq> bs @ xs" for xs using False by (auto simp: n_def)
    ultimately show ?thesis by (auto simp: ts_def bs_def)
  qed
qed

lemma root_rel_Inl: "root_rel d name = Inl e \<Longrightarrow> e = OutsideRoot name"
  by (auto simp: root_rel_def split: if_splits option.splits)

lemma root_rel_inside:
  assumes "path_is_abs d" and "root_rel d name = Inr p"
  shows "valid_path p \<and> abs_elems (host_path d name) = abs_elems d @ rel_elems p"
proof -
  obtain es where es: "abs_elems (host_path d name) = abs_elems d @ es" "p = (if es = [] then ''.'' else join_slash es)"
    using root_rel_iff [OF assms(1)] assms(2) by blast
  have "list_all plain_elem es" "\<forall>e\<in>set es. CHR ''/'' \<notin> set e"
    using abs_elems_plain [of "host_path d name"] abs_elems_slash [of _ "host_path d name"] unfolding es(1) by auto
  from rel_elems_join [OF this] show ?thesis using es by simp
qed

subsection \<open>Confinement\<close>

definition root_inv :: "root_fs \<Rightarrow> bool" where
  "root_inv r \<longleftrightarrow> (if rf_once r then rf_err r = None \<longrightarrow> path_is_abs (rf_dir r) else rf_err r = None)"

lemma path_abs_abs: "path_abs (hf_cwd w) p = Some d \<Longrightarrow> good_host w \<Longrightarrow> path_is_abs d"
  by (auto simp: path_abs_def good_host_def split: if_splits)

lemma resolveDir_inv: "root_inv r \<Longrightarrow> good_host w \<Longrightarrow> resolveDir w r = (res, r') \<Longrightarrow>
    root_inv r' \<and> (\<forall>d. res = Inr d \<longrightarrow> d = rf_dir r' \<and> path_is_abs d) \<and> (\<forall>e. res = Inl e \<longrightarrow> (\<forall>n. e = OutsideRoot n \<longrightarrow> rf_once r \<and> rf_err r = Some e))"
  by (auto simp: resolveDir_def root_inv_def Let_def path_abs_abs split: if_splits option.splits)

lemma open_root_state: "snd (open_root w r) = snd (resolveDir w r)"
  by (simp add: open_root_def split: prod.split sum.split)

lemma root_states: "snd (root_do w op r) = snd (resolveDir w r)" "snd (root_Resolve w name r) = snd (resolveDir w r)"
  using open_root_state [of w r] by (auto simp: root_do_def root_Resolve_def split: prod.split sum.split)

text \<open>The error kept is never about a name.\<close>

definition kept_error :: "root_fs \<Rightarrow> bool" where
  "kept_error r \<longleftrightarrow> (\<forall>n. rf_err r \<noteq> Some (OutsideRoot n))"

lemma resolveDir_kept: "kept_error r \<Longrightarrow> kept_error (snd (resolveDir w r))"
  by (auto simp: resolveDir_def kept_error_def Let_def split: option.splits)

lemma root_reach_inv: "root_reach r \<Longrightarrow> root_inv r \<and> kept_error r"
proof (induction rule: root_reach.induct)
  case (rr_start dir)
  show ?case by (simp add: Root_def root_inv_def kept_error_def)
next
  case (rr_do r w op)
  then show ?case using resolveDir_inv resolveDir_kept unfolding root_states by (metis prod.collapse)
next
  case (rr_resolve r w name)
  then show ?case using resolveDir_inv resolveDir_kept unfolding root_states by (metis prod.collapse)
qed

text \<open>Operations differ in their names alone.\<close>

lemma map_names_Inr: "map_names f op = Inr op' \<Longrightarrow>
    list_all2 (\<lambda>n p. f n = Inr p) (op_names op) (op_names op') \<and> map_names (\<lambda>_. Inr []) op' = map_names (\<lambda>_. Inr []) op"
  by (cases op) (auto split: sum.splits simp: map_sum_def)

lemma map_names_Inl: "map_names f op = Inl e \<Longrightarrow> \<exists>n\<in>set (op_names op). f n = Inl e"
  by (cases op) (auto split: sum.splits simp: map_sum_def)

text \<open>
  C10. A confined provider stays in its directory. Whatever name a tool gives, absolute or relative and with
  any dots in it: an operation reaches the system only as the same operation on the root of the directory,
  with a path of plain elements that leads where the name leads; and it is refused for its name only when the
  name is empty or leads out of the directory.
\<close>

theorem root_fs_confined:
  assumes "root_reach r" and "good_host w" and "root_do w op r = (res, r')"
  shows "case res of
      Inr (d, op') \<Rightarrow> d = rf_dir r' \<and> path_is_abs d \<and> map_names (\<lambda>_. Inr []) op' = map_names (\<lambda>_. Inr []) op \<and>
        list_all2 (\<lambda>n p. valid_path p \<and> abs_elems (host_path d n) = abs_elems d @ rel_elems p) (op_names op) (op_names op')
    | Inl e \<Rightarrow> \<forall>n. e = OutsideRoot n \<longrightarrow> n \<in> set (op_names op) \<and>
        (n = [] \<or> \<not> prefix (abs_elems (rf_dir r')) (abs_elems (host_path (rf_dir r') n)))"
proof -
  note inv = root_reach_inv [OF assms(1)]
  obtain res1 where rd: "resolveDir w r = (res1, r')"
    using root_states(1) [of w op r] assms(3) by (metis prod.collapse snd_conv)
  note dir = resolveDir_inv [OF conjunct1 [OF inv] assms(2) rd]
  show ?thesis
  proof (cases res1)
    case (Inl e)
    then have "res = Inl e" using assms(3) rd by (simp add: root_do_def open_root_def)
    then show ?thesis using dir inv Inl by (auto simp: kept_error_def)
  next
    case (Inr d)
    then have d: "d = rf_dir r'" "path_is_abs d" using dir by auto
    show ?thesis
    proof (cases "map_names (root_rel d) op")
      case (Inl e)
      then obtain n where n: "n \<in> set (op_names op)" "root_rel d n = Inl e" using map_names_Inl by blast
      moreover have "n = [] \<or> \<not> prefix (abs_elems d) (abs_elems (host_path d n))"
        using n(2) root_rel_iff [OF d(2), of n] by (auto simp: prefix_def)
      moreover have "e = OutsideRoot n" using root_rel_Inl [OF n(2)] .
      ultimately show ?thesis
        using assms(3) rd \<open>res1 = Inr d\<close> Inl d(1) by (auto simp: root_do_def open_root_def split: if_splits)
    next
      case (Inr op')
      have "res = Inl (OpenRoot d) \<or> res = Inr (d, op')"
        using assms(3) rd \<open>res1 = Inr d\<close> Inr d(1) by (auto simp: root_do_def open_root_def split: if_splits)
      moreover have "list_all2 (\<lambda>n p. valid_path p \<and> abs_elems (host_path d n) = abs_elems d @ rel_elems p) (op_names op) (op_names op')"
        using map_names_Inr [OF Inr] root_rel_inside [OF d(2)] by (auto elim!: list_all2_mono)
      ultimately show ?thesis using map_names_Inr [OF Inr] d by auto
    qed
  qed
qed

definition demo_host :: host_fs where
  "demo_host = \<lparr>hf_cwd = Some ''/w'', hf_mkdir = (\<lambda>_. True), hf_root = (\<lambda>_. True)\<rparr>"

lemma demo_good_host: "good_host demo_host"
  by (simp add: good_host_def demo_host_def path_is_abs_def)

lemma demo_root_call: "root_do demo_host (OpRename ''a/../b//c'' ''/w/r/d'') (Root ''r'') =
    (Inr (''/w/r'', OpRename ''b/c'' ''d''), \<lparr>rf_dir = ''/w/r'', rf_once = True, rf_err = None\<rparr>)"
  by code_simp

lemma demo_root_escape: "fst (root_do demo_host (OpReadFile ''a/../../rr/x'') (Root ''r'')) = Inl (OutsideRoot ''a/../../rr/x'')"
  by code_simp

theorem root_fs_confined_witness:
  "path_is_abs ''/w/r'' \<and> list_all2 (\<lambda>n p. valid_path p \<and> abs_elems (host_path ''/w/r'' n) = abs_elems ''/w/r'' @ rel_elems p)
     [''a/../b//c'', ''/w/r/d''] [''b/c'', ''d'']"
  using root_fs_confined [OF rr_start demo_good_host demo_root_call] by simp

text \<open>\<open>Resolve\<close> names the same place on the host.\<close>

lemma clean_elems_append: "clean_elems rooted out (xs @ ys) = clean_elems rooted (rev (clean_elems rooted out xs)) ys"
  by (induction rooted out xs rule: clean_elems.induct) auto

lemma root_Resolve_inside:
  assumes "root_reach r" and "good_host w" and "root_Resolve w name r = (Inr h, r')"
  shows "abs_elems h = abs_elems (host_path (rf_dir r') name) \<and> prefix (abs_elems (rf_dir r')) (abs_elems h)"
proof -
  obtain d where rd: "resolveDir w r = (Inr d, r')"
    using assms(3) by (auto simp: root_Resolve_def split: prod.splits sum.splits)
  have d: "path_is_abs (rf_dir r')" using resolveDir_inv [OF _ assms(2) rd] root_reach_inv [OF assms(1)] by blast
  obtain p where p: "root_rel (rf_dir r') name = Inr p" "h = path_join (rf_dir r') p"
    using assms(3) rd by (auto simp: root_Resolve_def map_sum_def split: sum.splits)
  note rel = root_rel_inside [OF d p(1)]
  have "abs_elems h = clean_elems True (rev (abs_elems (rf_dir r'))) (split_slash p)"
    using d abs_elems_clean [of "rf_dir r' @ ''/'' @ p"]
    by (simp add: p(2) path_join_def path_is_abs_def split_slash_append clean_elems_append abs_elems_def)
  also have "\<dots> = abs_elems (rf_dir r') @ rel_elems p"
    using rel by (cases "p = ''.''") (simp_all add: rel_elems_def valid_path_def clean_plain)
  finally show ?thesis using rel by simp
qed

end
