(* ===== verification/Gw_Transport.thy ===== *)
theory Gw_Transport
  imports Fx_Http Gw_Config Gw_Secrets
begin

text \<open>
  The transports of upstreams, \<open>internal/gateway/transport\<close>: the environment of a stdio upstream, and the
  HTTP client of an http or sse upstream, which strips and injects headers over the egress policy.

  \<open>itp\<close> interpolates secrets, with the resolver's state; \<open>None\<close> is the nil function. The process a stdio
  transport starts, and the transports of the SDK, are data here.
\<close>

type_synonym 's interp = "('s \<Rightarrow> string \<Rightarrow> (secret_error + string) \<times> 's) option"

datatype transport_error =
    EmptyCommand
  | InterpolateEnv string secret_error
  | InterpolateHeader string secret_error
  | UnknownKind string
  | Egress deny_error

definition interp_value :: "'s interp \<Rightarrow> string \<Rightarrow> 's \<Rightarrow> (secret_error + string) \<times> 's" where
  "interp_value itp v s = (case itp of None \<Rightarrow> (Inr v, s) | Some f \<Rightarrow> f s v)"

definition entries :: "(string list \<Rightarrow> string list) \<Rightarrow> (string, string) gomap \<Rightarrow> (string \<times> string) list" where
  "entries ord m = map (\<lambda>k. (k, str_get m k)) (ord (remdups (map fst m)))"

subsection \<open>stdio\<close>

fun interpolate_env ::
  "'s interp \<Rightarrow> (string \<times> string) list \<Rightarrow> (string, string) gomap \<Rightarrow> 's \<Rightarrow> (transport_error + (string, string) gomap) \<times> 's" where
  "interpolate_env itp [] overrides s = (Inr overrides, s)"
| "interpolate_env itp ((k, v) # kvs) overrides s =
     (case interp_value itp v s of
        (Inl e, s') \<Rightarrow> (Inl (InterpolateEnv v e), s')
      | (Inr iv, s') \<Rightarrow> interpolate_env itp kvs (AList.update k iv overrides) s')"

text \<open>A variable of the gateway's environment is kept unless an override has its name.\<close>

definition env_overridden :: "(string, string) gomap \<Rightarrow> string \<Rightarrow> bool" where
  "env_overridden overrides kv =
     (case index_byte kv (CHR ''='') of
        Some i \<Rightarrow> i > 0 \<and> map_of overrides (take i kv) \<noteq> None
      | None \<Rightarrow> False)"

definition merge_env :: "(string list \<Rightarrow> string list) \<Rightarrow> (string, string) gomap \<Rightarrow> string list \<Rightarrow> string list" where
  "merge_env ord overrides base =
     filter (\<lambda>kv. \<not> env_overridden overrides kv) base @ map (\<lambda>(k, v). k @ ''='' @ v) (entries ord overrides)"

text \<open>What becomes of an upstream's options: the process, its environment (\<open>None\<close> is inherited), or the endpoint.\<close>

record up_client =
  uc_client :: http_client
  uc_headers :: "(string, string) gomap"
  uc_strip :: "string list"

datatype transport =
    CommandTransport "string list" "string list option"
  | StreamableTransport string up_client
  | SSETransport string up_client

definition buildStdio ::
  "(string list \<Rightarrow> string list) \<Rightarrow> (string list \<Rightarrow> string list) \<Rightarrow> string list \<Rightarrow> string list \<Rightarrow> (string, string) gomap
     \<Rightarrow> 's interp \<Rightarrow> 's \<Rightarrow> (transport_error + transport) \<times> 's" where
  "buildStdio ord ord' base command env itp s =
     (if command = [] then (Inl EmptyCommand, s)
      else if env = [] then (Inr (CommandTransport command None), s)
      else
        (case interpolate_env itp (entries ord env) [] s of
           (Inl e, s') \<Rightarrow> (Inl e, s')
         | (Inr overrides, s') \<Rightarrow> (Inr (CommandTransport command (Some (merge_env ord' overrides base))), s')))"

subsection \<open>http and sse\<close>

definition newUpstreamClient :: "http_client \<Rightarrow> (string, string) gomap \<Rightarrow> string list \<Rightarrow> up_client" where
  "newUpstreamClient cl headers strip = \<lparr>uc_client = cl, uc_headers = headers, uc_strip = strip\<rparr>"

record transport_options =
  to_kind :: string
  to_command :: "string list"
  to_url :: string
  to_env :: "(string, string) gomap"
  to_headers :: "(string, string) gomap"
  to_strip :: "string list"

text \<open>\<open>setDefaults\<close>: the client of an upstream may reach the host of its URL alone.\<close>

definition default_client :: "(string \<Rightarrow> url option) \<Rightarrow> string \<Rightarrow> http_client" where
  "default_client parse u = NewHTTPClient \<lparr>hp_allow = AllowHostOf parse u, hp_link_local = False\<rparr> 0"

definition transport_Build ::
  "(string \<Rightarrow> url option) \<Rightarrow> (string list \<Rightarrow> string list) \<Rightarrow> (string list \<Rightarrow> string list) \<Rightarrow> string list \<Rightarrow> transport_options
     \<Rightarrow> 's interp \<Rightarrow> 's \<Rightarrow> (transport_error + transport) \<times> 's" where
  "transport_Build parse ord ord' base opts itp s =
     (let cl = newUpstreamClient (default_client parse (to_url opts)) (to_headers opts) (to_strip opts) in
      if to_kind opts = ''stdio'' then buildStdio ord ord' base (to_command opts) (to_env opts) itp s
      else if to_kind opts = ''http'' then (Inr (StreamableTransport (to_url opts) cl), s)
      else if to_kind opts = ''sse'' then (Inr (SSETransport (to_url opts) cl), s)
      else (Inl (UnknownKind (to_kind opts)), s))"

text \<open>\<open>defaultTransportBuilder\<close> in \<open>upstream.go\<close> passes the section of the configuration on.\<close>

definition upstream_options :: "upstream_config \<Rightarrow> transport_options" where
  "upstream_options cfg =
     \<lparr>to_kind = up_kind cfg, to_command = up_command cfg, to_url = up_url cfg, to_env = up_env cfg,
      to_headers = up_headers cfg, to_strip = up_strip cfg\<rparr>"

fun inject :: "'s interp \<Rightarrow> (string \<times> string) list \<Rightarrow> http_header \<Rightarrow> 's \<Rightarrow> (transport_error + http_header) \<times> 's" where
  "inject itp [] hdr s = (Inr hdr, s)"
| "inject itp ((k, v) # kvs) hdr s =
     (case interp_value itp v s of
        (Inl e, s') \<Rightarrow> (Inl (InterpolateHeader v e), s')
      | (Inr iv, s') \<Rightarrow> inject itp kvs (header_set k iv hdr) s')"

definition upstream_RoundTrip ::
  "(string \<Rightarrow> string) \<Rightarrow> net_world \<Rightarrow> (string list \<Rightarrow> string list) \<Rightarrow> 's interp \<Rightarrow> up_client \<Rightarrow> 's \<Rightarrow> http_request
     \<Rightarrow> (transport_error + http_request) \<times> 's" where
  "upstream_RoundTrip uni w ord itp uc s req =
     (case inject itp (entries ord (uc_headers uc)) (fold header_del (uc_strip uc) (rq_header req)) s of
        (Inl e, s') \<Rightarrow> (Inl e, s')
      | (Inr hdr, s') \<Rightarrow>
          (case policy_RoundTrip uni w (hc_policy (uc_client uc)) (req\<lparr>rq_header := hdr\<rparr>) of
             Inl e \<Rightarrow> (Inl (Egress e), s')
           | Inr sent \<Rightarrow> (Inr sent, s')))"

definition upstream_do ::
  "(string \<Rightarrow> string) \<Rightarrow> net_world \<Rightarrow> (string list \<Rightarrow> string list) \<Rightarrow> 's interp \<Rightarrow> up_client \<Rightarrow> nat \<Rightarrow> 's \<Rightarrow> http_request
     \<Rightarrow> http_request list \<times> transport_error outcome \<times> 's" where
  "upstream_do uni w ord itp uc =
     client_do (upstream_RoundTrip uni w ord itp uc)
       (\<lambda>r. map_option Egress (check_redirect uni w (uc_client uc) r)) (nw_serve w)"

text \<open>
  The life of requests: each is canceled when its caller is done with it, when its body is closed
  (\<open>abortBody\<close>, at most once), or when the upstream shuts down.
\<close>

record up_requests =
  rs_shutdown :: bool
  rs_live :: "nat list"

definition request_begin :: "nat \<Rightarrow> up_requests \<Rightarrow> up_requests" where
  "request_begin i rs = rs\<lparr>rs_live := List.insert i (rs_live rs)\<rparr>"

definition request_release :: "nat \<Rightarrow> up_requests \<Rightarrow> up_requests" where
  "request_release i rs = rs\<lparr>rs_live := removeAll i (rs_live rs)\<rparr>"

definition client_cleanup :: "up_requests \<Rightarrow> up_requests" where
  "client_cleanup rs = rs\<lparr>rs_shutdown := True\<rparr>"

definition request_canceled :: "bool \<Rightarrow> nat \<Rightarrow> up_requests \<Rightarrow> bool" where
  "request_canceled caller_done i rs \<longleftrightarrow> caller_done \<or> rs_shutdown rs \<or> i \<notin> set (rs_live rs)"

lemma cleanup_cancels_everything:
  "request_canceled caller_done i (client_cleanup rs)" "request_canceled caller_done i (request_begin j (client_cleanup rs))"
  by (simp_all add: request_canceled_def client_cleanup_def request_begin_def)

lemma streaming_not_cut: "\<not> rs_shutdown rs \<Longrightarrow> i \<in> set (rs_live rs) \<Longrightarrow> j \<noteq> i \<Longrightarrow>
    \<not> request_canceled False i (request_release j rs)"
  by (simp add: request_canceled_def request_release_def)

subsection \<open>Headers\<close>

lemma entries_keys: "range_order ord \<Longrightarrow> fst ` set (entries ord m) = fst ` set m"
  by (simp add: entries_def image_image range_order_set)

lemma entries_distinct: "range_order ord \<Longrightarrow> distinct (map fst (entries ord m))"
  by (simp add: entries_def comp_def range_order_distinct)

lemma entries_value: "(k, v) \<in> set (entries ord m) \<Longrightarrow> v = str_get m k"
  by (auto simp: entries_def)

lemma header_get_dels: "header_get (fold header_del ks h) k =
    (if canonical_key k \<in> canonical_key ` set ks then [] else header_get h k)"
  by (induction ks arbitrary: h) auto

lemma inject_sets:
  assumes "inject itp kvs hdr s = (Inr hdr', s')" and "distinct (map (canonical_key \<circ> fst) kvs)"
  shows "(\<forall>(k, v)\<in>set kvs. \<exists>s1 s2. interp_value itp v s1 = (Inr (header_get hdr' k), s2)) \<and>
    (\<forall>k. canonical_key k \<notin> (canonical_key \<circ> fst) ` set kvs \<longrightarrow> header_get hdr' k = header_get hdr k)"
  using assms
proof (induction kvs arbitrary: hdr s)
  case (Cons kv kvs)
  obtain k v where kv: "kv = (k, v)" by (cases kv)
  obtain iv s1 where i: "interp_value itp v s = (Inr iv, s1)" "inject itp kvs (header_set k iv hdr) s1 = (Inr hdr', s')"
    using Cons.prems(1) kv by (auto split: prod.splits sum.splits)
  note IH = Cons.IH [OF i(2)]
  have k: "canonical_key k \<notin> (canonical_key \<circ> fst) ` set kvs" "distinct (map (canonical_key \<circ> fst) kvs)"
    using Cons.prems(2) kv by (auto simp: comp_def)
  then have "header_get hdr' k = iv" using IH [OF k(2)] by simp
  then show ?case using IH [OF k(2)] k(1) i(1) by (auto simp: kv)
qed simp

text \<open>What every request of an upstream's client is like when it reaches a server.\<close>

definition sent_ok ::
  "(string \<Rightarrow> string) \<Rightarrow> net_world \<Rightarrow> 's interp \<Rightarrow> up_client \<Rightarrow> http_request \<Rightarrow> bool" where
  "sent_ok uni w itp uc r \<longleftrightarrow> egress_ok uni w (hc_policy (uc_client uc)) r \<and>
     (inj_on canonical_key (fst ` set (uc_headers uc)) \<longrightarrow>
        (\<forall>k\<in>fst ` set (uc_headers uc). \<exists>s1 s2.
           interp_value itp (str_get (uc_headers uc) k) s1 = (Inr (header_get (rq_header r) k), s2)) \<and>
        (\<forall>k\<in>set (uc_strip uc). canonical_key k \<notin> canonical_key ` fst ` set (uc_headers uc) \<longrightarrow>
           header_get (rq_header r) k = []))"

lemma upstream_RoundTrip_ok:
  assumes "range_order ord" and "upstream_RoundTrip uni w ord itp uc s req = (Inr sent, s')"
  shows "sent_ok uni w itp uc sent"
proof -
  let ?es = "entries ord (uc_headers uc)"
  obtain hdr s1 where i: "inject itp ?es (fold header_del (uc_strip uc) (rq_header req)) s = (Inr hdr, s1)"
      "policy_RoundTrip uni w (hc_policy (uc_client uc)) (req\<lparr>rq_header := hdr\<rparr>) = Inr sent"
    using assms(2) by (auto simp: upstream_RoundTrip_def split: prod.splits sum.splits)
  note sent = policy_RoundTrip_ok [OF i(2)]
  have "?thesis" if inj: "inj_on canonical_key (fst ` set (uc_headers uc))"
  proof -
    have "distinct (map canonical_key (map fst ?es))"
    proof (rule iffD2 [OF distinct_map conjI])
      show "distinct (map fst ?es)" by (rule entries_distinct [OF assms(1)])
      show "inj_on canonical_key (set (map fst ?es))" using inj entries_keys [OF assms(1), of "uc_headers uc"] by simp
    qed
    then have "distinct (map (canonical_key \<circ> fst) ?es)" by simp
    note set = inject_sets [OF i(1) this]
    have "\<forall>k\<in>fst ` set (uc_headers uc). \<exists>s1 s2.
        interp_value itp (str_get (uc_headers uc) k) s1 = (Inr (header_get hdr k), s2)"
      using set entries_value unfolding entries_keys [OF assms(1), of "uc_headers uc", symmetric] by fastforce
    moreover have "(canonical_key \<circ> fst) ` set ?es = canonical_key ` fst ` set (uc_headers uc)"
      unfolding image_comp [symmetric] entries_keys [OF assms(1)] ..
    ultimately show ?thesis using set sent by (auto simp: sent_ok_def header_get_dels)
  qed
  then show ?thesis using sent by (auto simp: sent_ok_def)
qed

text \<open>An upstream's client sends nothing else.\<close>

interpretation up: careful_transport "upstream_RoundTrip uni w ord itp uc" "\<lambda>r. range_order ord \<longrightarrow> sent_ok uni w itp uc r"
  for uni w ord itp uc
  by unfold_locales (blast intro: upstream_RoundTrip_ok)

lemma upstream_do_ok:
  "range_order ord \<Longrightarrow> upstream_do uni w ord itp uc n s req = (sent, out, s') \<Longrightarrow> r \<in> set sent \<Longrightarrow> sent_ok uni w itp uc r"
  unfolding upstream_do_def by (blast dest: up.client_sends_ok)


subsection \<open>The environment of a process\<close>

text \<open>What a process finds under a name: the last entry for it, as \<open>os/exec\<close> passes it on.\<close>

definition env_step :: "string \<Rightarrow> string \<Rightarrow> string option \<Rightarrow> string option" where
  "env_step k kv r =
     (case index_byte kv (CHR ''='') of
        Some i \<Rightarrow> (if i > 0 \<and> take i kv = k then Some (drop (Suc i) kv) else r)
      | None \<Rightarrow> r)"

definition env_get :: "string \<Rightarrow> string list \<Rightarrow> string option" where
  "env_get k kvs = fold (env_step k) kvs None"

lemma env_step_none: "env_step k kv r = (case env_step k kv None of Some v \<Rightarrow> Some v | None \<Rightarrow> r)"
  by (simp add: env_step_def split: option.split)

lemma env_fold: "fold (env_step k) kvs r = (case env_get k kvs of Some v \<Rightarrow> Some v | None \<Rightarrow> r)"
proof (induction kvs arbitrary: r)
  case (Cons kv kvs)
  have "env_get k (kv # kvs) = fold (env_step k) kvs (env_step k kv None)" by (simp add: env_get_def)
  moreover have "fold (env_step k) (kv # kvs) r = (case env_get k kvs of Some v \<Rightarrow> Some v | None \<Rightarrow> env_step k kv r)"
    by (simp add: Cons)
  ultimately show ?case unfolding Cons [of "env_step k kv None"] env_step_none [of k kv r]
    by (simp split: option.split)
qed (simp add: env_get_def)

lemma env_get_append: "env_get k (xs @ ys) = (case env_get k ys of Some v \<Rightarrow> Some v | None \<Rightarrow> env_get k xs)"
  using env_fold [of k ys "env_get k xs"] by (simp add: env_get_def)

definition env_name :: "string \<Rightarrow> bool" where
  "env_name k \<longleftrightarrow> k \<noteq> [] \<and> CHR ''='' \<notin> set k"

lemma env_step_entry: "env_name k' \<Longrightarrow> env_step k (k' @ ''='' @ v) r = (if k' = k then Some v else r)"
  using index_byte_append_notin [of "CHR ''=''" k' v] by (auto simp: env_step_def env_name_def)

lemma env_get_entries:
  "distinct (map fst es) \<Longrightarrow> \<forall>k\<in>fst ` set es. env_name k \<Longrightarrow> env_get k (map (\<lambda>(k, v). k @ ''='' @ v) es) = map_of es k"
proof (induction es)
  case (Cons e es)
  obtain k' v where e: "e = (k', v)" by (cases e)
  have "env_get k (map (\<lambda>(k, v). k @ ''='' @ v) (e # es)) =
      fold (env_step k) (map (\<lambda>(k, v). k @ ''='' @ v) es) (if k' = k then Some v else None)"
    using Cons.prems(2) env_step_entry [of k' k v None] by (simp add: env_get_def e)
  moreover have "map_of es k' = None" using Cons.prems(1) by (simp add: e map_of_eq_None_iff)
  ultimately show ?case using Cons unfolding env_fold by (auto simp: e split: option.splits)
qed (simp add: env_get_def)

lemma env_get_kept:
  "map_of ov k = None \<Longrightarrow> env_get k (filter (\<lambda>kv. \<not> env_overridden ov kv) base) = env_get k base"
proof -
  assume k: "map_of ov k = None"
  have "env_step k kv r = r" if "env_overridden ov kv" for kv r
    using that k by (auto simp: env_overridden_def env_step_def split: option.splits)
  then have "fold (env_step k) (filter (\<lambda>kv. \<not> env_overridden ov kv) base) r = fold (env_step k) base r" for r
    by (induction base arbitrary: r) auto
  then show ?thesis by (simp add: env_get_def)
qed

lemma interpolate_env_values:
  assumes "interpolate_env itp kvs ov s = (Inr ov', s')" and "distinct (map fst kvs)"
  shows "(\<forall>(k, v)\<in>set kvs. \<exists>iv s1 s2. interp_value itp v s1 = (Inr iv, s2) \<and> map_of ov' k = Some iv) \<and>
    (\<forall>k. k \<notin> fst ` set kvs \<longrightarrow> map_of ov' k = map_of ov k)"
  using assms
proof (induction kvs arbitrary: ov s)
  case (Cons kv kvs)
  obtain k v where kv: "kv = (k, v)" by (cases kv)
  obtain iv s1 where i: "interp_value itp v s = (Inr iv, s1)" "interpolate_env itp kvs (AList.update k iv ov) s1 = (Inr ov', s')"
    using Cons.prems(1) kv by (auto split: prod.splits sum.splits)
  have k: "k \<notin> fst ` set kvs" "distinct (map fst kvs)" using Cons.prems(2) kv by auto
  note IH = Cons.IH [OF i(2) k(2)]
  then have "map_of ov' k = Some iv" using k(1) by simp
  then show ?case using IH k(1) i(1) by (auto simp: kv)
qed simp

text \<open>
  The environment of a stdio upstream: a configured variable has its interpolated value, whatever the
  gateway's own environment says, and every other variable is the gateway's.
\<close>

theorem stdio_env_merge:
  assumes "buildStdio ord ord' base command env itp s = (Inr t, s')" and "env \<noteq> []"
    and "range_order ord" and "range_order ord'" and "\<forall>k\<in>fst ` set env. env_name k"
  shows "\<exists>vars. t = CommandTransport command (Some vars) \<and>
    (\<forall>k. if k \<in> fst ` set env
         then \<exists>v s1 s2. interp_value itp (str_get env k) s1 = (Inr v, s2) \<and> env_get k vars = Some v
         else env_get k vars = env_get k base)"
proof -
  obtain ov where ov: "interpolate_env itp (entries ord env) [] s = (Inr ov, s')"
      "t = CommandTransport command (Some (merge_env ord' ov base))"
    using assms(1,2) by (auto simp: buildStdio_def split: if_splits sum.splits prod.splits)
  note vals = interpolate_env_values [OF ov(1) entries_distinct [OF assms(3)]]
  have val: "\<exists>v s1 s2. interp_value itp (str_get env k) s1 = (Inr v, s2) \<and> map_of ov k = Some v" if "k \<in> fst ` set env" for k
  proof -
    have "(k, str_get env k) \<in> set (entries ord env)"
      using that entries_keys [OF assms(3), of env] entries_value by (metis (no_types, lifting) imageE prod.collapse)
    then show ?thesis using vals by fast
  qed
  have none: "map_of ov k = None" if "k \<notin> fst ` set env" for k
    using vals that entries_keys [OF assms(3), of env] by auto
  have names: "\<forall>k\<in>fst ` set (entries ord' ov). env_name k"
  proof
    fix k assume "k \<in> fst ` set (entries ord' ov)"
    then have "map_of ov k \<noteq> None" using entries_keys [OF assms(4), of ov] by (simp add: map_of_eq_None_iff)
    then have "k \<in> fst ` set env" using none [of k] by argo
    then show "env_name k" by (rule bspec [OF assms(5)])
  qed
  have entry: "map_of (entries ord' ov) k = map_of ov k" for k
  proof (cases "map_of ov k")
    case None
    then have "k \<notin> fst ` set (entries ord' ov)" by (simp add: entries_keys [OF assms(4)] map_of_eq_None_iff)
    then have "map_of (entries ord' ov) k = None" by (rule iffD2 [OF map_of_eq_None_iff])
    then show ?thesis using None by simp
  next
    case (Some v)
    then have "k \<in> fst ` set ov" by (metis map_of_eq_None_iff option.distinct(1))
    then have "(k, v) \<in> set (entries ord' ov)"
      using Some entries_keys [OF assms(4), of ov] entries_value [of k _ ord' ov] by (force simp: str_get_def)
    then show ?thesis using Some entries_distinct [OF assms(4)] by simp
  qed
  have get: "env_get k (merge_env ord' ov base) = (case map_of ov k of Some v \<Rightarrow> Some v | None \<Rightarrow> env_get k base)" for k
    unfolding merge_env_def env_get_append env_get_entries [OF entries_distinct [OF assms(4)] names] entry
    using env_get_kept by (simp split: option.split)
  show ?thesis
    by (rule exI [of _ "merge_env ord' ov base"]) (use ov(2) get val none in fastforce)
qed

subsection \<open>Small upstreams\<close>

definition demo_http :: transport_options where
  "demo_http = \<lparr>to_kind = ''http'', to_command = [], to_url = ''http://h:80'', to_env = [],
     to_headers = [(''X-Key'', ''v'')], to_strip = [''Cookie'']\<rparr>"

definition demo_up :: up_client where
  "demo_up = newUpstreamClient (default_client (\<lambda>_. Some demo_url) (to_url demo_http)) (to_headers demo_http) (to_strip demo_http)"

definition demo_cookie :: http_request where
  "demo_cookie = \<lparr>rq_url = demo_url, rq_header = [(''Cookie'', [''c''])]\<rparr>"

definition demo_decorated :: http_request where
  "demo_decorated = \<lparr>rq_url = demo_url, rq_header = [(''X-Key'', [''v''])]\<rparr>"

lemma demo_canonical: "canonical_key ''X-Key'' = ''X-Key''" "canonical_key ''Cookie'' = ''Cookie''"
  by (simp_all add: canonical_key_def header_byte_def upper_byte_def lower_byte_def char_of_def bit_iff_odd)

lemma demo_client_same: "uc_client demo_up = demo_client"
  by (simp add: demo_up_def newUpstreamClient_def default_client_def demo_client_def demo_http_def)

lemma demo_egress: "policy_RoundTrip (\<lambda>s. s) demo_net (hc_policy demo_client) demo_decorated = Inr demo_decorated"
  using demo_sent unfolding policy_RoundTrip_def
  by (simp add: demo_decorated_def demo_request_def split: option.splits)

lemma demo_do: "\<exists>out s'. upstream_do (\<lambda>s. s) demo_net (\<lambda>ks. ks) None demo_up 1 () demo_cookie = ([demo_decorated], out, s')"
proof -
  have "upstream_RoundTrip (\<lambda>s. s) demo_net (\<lambda>ks. ks) None demo_up () demo_cookie = (Inr demo_decorated, ())"
    unfolding upstream_RoundTrip_def demo_client_same
    by (simp add: demo_up_def newUpstreamClient_def demo_http_def demo_cookie_def entries_def str_get_def interp_value_def
        header_set_def header_del_def demo_canonical flip: demo_decorated_def) (simp add: demo_egress)
  then show ?thesis by (simp add: upstream_do_def split: option.split)
qed


lemma demo_env_ok: "env_name ''TOKEN''"
  by (simp add: env_name_def)

theorem stdio_env_merge_witness:
  "\<exists>vars. buildStdio (\<lambda>ks. ks) (\<lambda>ks. ks) [''TOKEN=old'', ''HOME=/h''] [''cmd''] [(''TOKEN'', ''new'')] None () =
      (Inr (CommandTransport [''cmd''] (Some vars)), ()) \<and>
    env_get ''TOKEN'' vars = Some ''new'' \<and> env_get ''HOME'' vars = env_get ''HOME'' [''TOKEN=old'', ''HOME=/h'']"
proof -
  obtain t where t: "buildStdio (\<lambda>ks. ks) (\<lambda>ks. ks) [''TOKEN=old'', ''HOME=/h''] [''cmd''] [(''TOKEN'', ''new'')] None () = (Inr t, ())"
    by (simp add: buildStdio_def entries_def interp_value_def)
  have "\<forall>k\<in>fst ` set [(''TOKEN'', ''new'')]. env_name k" using demo_env_ok by simp
  from stdio_env_merge [OF t list.distinct(2) range_order_id range_order_id this] obtain vars where
    v: "t = CommandTransport [''cmd''] (Some vars)"
      "\<forall>k. if k \<in> fst ` set [(''TOKEN'', ''new'')]
         then \<exists>v s1 s2. interp_value (None :: unit interp) (str_get [(''TOKEN'', ''new'')] k) s1 = (Inr v, s2) \<and> env_get k vars = Some v
         else env_get k vars = env_get k [''TOKEN=old'', ''HOME=/h'']"
    by (elim exE conjE) (rule that)
  have "env_get ''TOKEN'' vars = Some ''new''"
    using v(2) [THEN spec, of "''TOKEN''"] by (simp add: str_get_def interp_value_def)
  moreover have "env_get ''HOME'' vars = env_get ''HOME'' [''TOKEN=old'', ''HOME=/h'']"
    using v(2) [THEN spec, of "''HOME''"] by simp
  ultimately show ?thesis using t unfolding v(1) by blast
qed

end
