(* ===== verification/Gw_Inbound.thy ===== *)
theory Gw_Inbound
  imports Mcp_Auth Gw_Reach
begin

text \<open>
  The gateway's own inbound authentication, \<open>HTTPMiddleware\<close> in \<open>internal/gateway/auth.go\<close>: \<open>mcpauth\<close> with
  the settings of the configuration at hand when the middleware is made, and a secret that is interpolated
  anew for each request from the configuration and the resolver of that moment.
\<close>

definition HTTPMiddleware ::
  "auth_prims \<Rightarrow> (string \<Rightarrow> int option) \<Rightarrow> gateway
     \<Rightarrow> ((auth_env \<Rightarrow> http_req \<Rightarrow> oauth_state \<Rightarrow> auth_outcome \<times> oauth_state) \<times> oauth_state) option" where
  "HTTPMiddleware pr pd g =
     auth_Middleware pr pd (cf_auth (gw_cfg g)) ''mcpgateway'' (derivedUpstreamScopes (cf_upstreams (gw_cfg g)))"

definition inbound_secret :: "sec_world \<Rightarrow> bool \<Rightarrow> gateway \<Rightarrow> string option" where
  "inbound_secret w canceled g =
     (case Interpolate (Some (Resolve w canceled)) (au_value (cf_auth (gw_cfg g))) (gw_resolver g) of
        (Inr v, _) \<Rightarrow> Some v | (Inl _, _) \<Rightarrow> None)"

lemma HTTPMiddleware_Some:
  "HTTPMiddleware pr pd g = Some (m, st) \<longleftrightarrow> au_enabled (cf_auth (gw_cfg g)) \<and>
     (\<exists>srv. newOAuthState pd (cf_auth (gw_cfg g)) ''mcpgateway'' (derivedUpstreamScopes (cf_upstreams (gw_cfg g))) = (srv, st) \<and>
        m = Middleware_handle pr srv)"
  by (auto simp: HTTPMiddleware_def auth_Middleware_def Let_def split: prod.split)

lemma newOAuthState_cfg: "newOAuthState pd cfg name sc = (srv, st) \<Longrightarrow> as_cfg srv = cfg"
  by (auto simp: newOAuthState_def)

text \<open>
  A rotated secret takes effect at once, the rest of the section needs a restart: a request with no bearer
  token passes the middleware made at \<open>g0\<close> exactly when the header that was configured then holds the value
  the configuration and the secrets of the running gateway \<open>g\<close> give now.
\<close>

lemma inbound_uses_live_secret:
  assumes "HTTPMiddleware pr pd g0 = Some (m, st0)" and "hq_path r \<notin> set oauth_paths" and "cp_bearer pr r = None"
    and "ae_secret env = inbound_secret w canceled g"
  shows "(\<exists>r' ti st'. m env r st = (Passed r' ti, st')) \<longleftrightarrow>
    (\<exists>v. inbound_secret w canceled g = Some v \<and>
       cp_sha256 pr (header_get (hq_header r) (au_header (cf_auth (gw_cfg g0)))) = cp_sha256 pr v)"
proof -
  obtain srv where srv: "newOAuthState pd (cf_auth (gw_cfg g0)) ''mcpgateway'' (derivedUpstreamScopes (cf_upstreams (gw_cfg g0))) = (srv, st0)"
      and m: "m = Middleware_handle pr srv"
    using assms(1) unfolding HTTPMiddleware_Some by blast
  note cfg = newOAuthState_cfg [OF srv]
  show ?thesis unfolding m Middleware_passes_iff cfg using assms(2-4) by auto
qed

end
