(* ===== verification/Blob_Util.thy ===== *)
theory Blob_Util
  imports Fx_Http Gw_Path Gw_Redact
begin

text \<open>
  The naming rules every blob store shares, \<open>internal/blobutil/blobutil.go\<close>. The tables of package \<open>mime\<close>
  are parameters: \<open>by_ext\<close> is \<open>TypeByExtension\<close> (empty for none), \<open>media\<close> is \<open>ParseMediaType\<close> (the media
  type without its parameters), \<open>fmt\<close> is \<open>FormatMediaType\<close>.
\<close>

text \<open>\<open>path.Base\<close> and \<open>path.Ext\<close>.\<close>

definition path_base :: "string \<Rightarrow> string" where
  "path_base p =
     (if p = [] then ''.''
      else
        (let s = trim_right_byte p (CHR ''/'') in
         if s = [] then ''/'' else last (split_slash s)))"

definition path_ext :: "string \<Rightarrow> string" where
  "path_ext p = (case cut_last (CHR ''.'') (last (split_slash p)) of Some (_, e) \<Rightarrow> CHR ''.'' # e | None \<Rightarrow> [])"

definition printable_rune :: "nat \<Rightarrow> bool" where
  "printable_rune r \<longleftrightarrow> \<not> (r < 32 \<or> r = 127 \<or> r = 34)"

definition CleanName :: "string \<Rightarrow> string \<Rightarrow> string" where
  "CleanName name fallback =
     (let base = path_base (trim_space (map (\<lambda>c. if c = CHR 0x5C then CHR ''/'' else c) name));
          clean = string_of_runes (filter printable_rune (runes_of base))
      in if clean = [] \<or> clean = ''.'' \<or> clean = ''..'' then fallback @ ''.bin'' else clean)"

definition ContentType :: "(string \<Rightarrow> string) \<Rightarrow> string \<Rightarrow> string \<Rightarrow> string" where
  "ContentType by_ext declared name =
     (if declared \<noteq> [] then declared
      else if by_ext (path_ext name) \<noteq> [] then by_ext (path_ext name)
      else ''application/octet-stream'')"

definition active_types :: "string list" where
  "active_types = [''text/html'', ''application/xhtml+xml'', ''image/svg+xml'', ''application/xml'', ''text/xml'']"

definition ServeType :: "(string \<Rightarrow> string option) \<Rightarrow> string \<Rightarrow> string" where
  "ServeType media t =
     (case media t of
        None \<Rightarrow> ''application/octet-stream''
      | Some base \<Rightarrow> (if base \<in> set active_types then ''application/octet-stream'' else t))"

definition ContentDisposition :: "(string \<Rightarrow> (string \<times> string) list \<Rightarrow> string) \<Rightarrow> string \<Rightarrow> string" where
  "ContentDisposition fmt name = fmt ''attachment'' [(''filename'', name)]"

subsection \<open>Clean names are safe\<close>

definition safe_byte :: "char \<Rightarrow> bool" where
  "safe_byte c \<longleftrightarrow> 32 \<le> byte_of c \<and> byte_of c \<noteq> (127::nat) \<and> c \<noteq> CHR 0x22"

lemma path_base_no_slash: "path_base p = ''/'' \<or> CHR ''/'' \<notin> set (path_base p)"
proof -
  have "CHR ''/'' \<notin> set (last (split_slash s))" for s by (rule split_slash_elems [of _ s]) simp
  then show ?thesis by (auto simp: path_base_def Let_def)
qed

definition safe_name :: "string \<Rightarrow> bool" where
  "safe_name r \<longleftrightarrow> r \<noteq> [] \<and> r \<noteq> ''.'' \<and> r \<noteq> ''..'' \<and> (r = ''/'' \<or> CHR ''/'' \<notin> set r)
     \<and> (\<forall>c\<in>set r. safe_byte c \<and> c \<noteq> CHR 0x5C)"

lemma trim_space_set: "set (trim_space s) \<subseteq> set s"
proof -
  have *: "set (strip_left encs s) \<subseteq> set s" for encs s
  proof (induction encs s rule: strip_left.induct)
    case (1 encs s)
    show ?case
    proof (cases "lead_enc encs s")
      case (Some e)
      have "set (drop (length e) s) \<subseteq> set s" by (rule set_drop_subset)
      then show ?thesis using 1 [OF Some] Some by (subst strip_left.simps) auto
    qed (subst strip_left.simps, simp)
  qed
  show ?thesis unfolding trim_space_def by (metis "*" set_rev subset_trans)
qed

lemma trim_right_set: "set (trim_right_byte s b) \<subseteq> set s"
  unfolding trim_right_byte_def by (metis set_dropWhileD set_rev subsetI)

lemma split_slash_set: "e \<in> set (split_slash s) \<Longrightarrow> set e \<subseteq> set s"
proof (induction s arbitrary: e)
  case (Cons c s)
  have all: "set x \<subseteq> set s" if "x \<in> set (split_slash s)" for x by (rule Cons.IH [OF that])
  have hd: "set (hd (split_slash s)) \<subseteq> set s" by (rule all) simp
  have tl: "set x \<subseteq> set s" if "x \<in> set (tl (split_slash s))" for x
    by (rule all) (rule list.set_sel(2) [OF split_slash_nonempty that])
  show ?case
  proof (cases "c = CHR ''/''")
    case True
    then have "e = [] \<or> e \<in> set (split_slash s)" using Cons.prems by simp
    then show ?thesis using all [of e] by auto
  next
    case False
    then have "e = c # hd (split_slash s) \<or> e \<in> set (tl (split_slash s))" using Cons.prems by simp
    then show ?thesis using hd tl [of e] by auto
  qed
qed simp

lemma path_base_set: "set (path_base p) \<subseteq> set p \<union> {CHR ''.'', CHR ''/''}"
proof -
  let ?s = "trim_right_byte p (CHR ''/'')"
  have "set (last (split_slash ?s)) \<subseteq> set ?s" by (rule split_slash_set) simp
  then have "set (last (split_slash ?s)) \<subseteq> set p" using trim_right_set by blast
  then show ?thesis by (auto simp: path_base_def Let_def)
qed

lemma quote_byte: "byte_of (CHR 0x22) = (34::nat)"
  by simp

lemma runes_small: "r \<in> set (runes_of s) \<Longrightarrow> r < 128 \<Longrightarrow> char_of r \<in> set s"
proof (induction s rule: runes_of.induct)
  case (1 s)
  then have s: "s \<noteq> []" by (auto simp: runes_of.simps)
  then obtain c cs where cs: "s = c # cs" by (cases s) auto
  have "r = fst (decode_rune s) \<or> r \<in> set (runes_of (drop (snd (decode_rune s)) s))"
    using 1(2) s by (subst (asm) runes_of.simps) simp
  then show ?case
  proof
    assume r: "r = fst (decode_rune s)"
    then have "byte_of c < (128::nat)" using decode_rune_wide [of c cs] 1(3) cs by force
    then show ?thesis using r cs by simp
  next
    assume "r \<in> set (runes_of (drop (snd (decode_rune s)) s))"
    then show ?thesis using 1(1) [OF s] 1(3) in_set_dropD by fast
  qed
qed

lemma encoded_byte:
  assumes "c \<in> set (string_of_runes rs)"
  shows "128 \<le> (byte_of c :: nat) \<or> (\<exists>r\<in>set rs. r < 128 \<and> c = char_of r)"
proof -
  obtain r where r: "r \<in> set rs" "c \<in> set (encode_rune r)" using assms by (auto simp: string_of_runes_def)
  show ?thesis
  proof (cases "r < 128")
    case True
    then show ?thesis using r encode_ascii [OF True] by auto
  next
    case False
    then show ?thesis using encode_wide(2) r(2) by blast
  qed
qed


definition clean_runes :: "string \<Rightarrow> string" where
  "clean_runes base = string_of_runes (filter printable_rune (runes_of base))"

lemma clean_runes_bytes:
  assumes "c \<in> set (clean_runes base)"
  shows "128 \<le> (byte_of c :: nat) \<or> safe_byte c \<and> c \<in> set base"
proof -
  consider "128 \<le> (byte_of c :: nat)"
    | r where "r \<in> set (runes_of base)" "printable_rune r" "r < 128" "c = char_of r"
    using encoded_byte assms by (fastforce simp: clean_runes_def)
  then show ?thesis
  proof cases
    case 2
    then have "byte_of c = r" by simp
    moreover have "c \<in> set base" using runes_small [OF 2(1,3)] 2(4) by simp
    moreover have "c \<noteq> CHR 0x22"
      using 2(2) \<open>byte_of c = r\<close> by (metis char_of_char of_char_Char printable_rune_def quote_byte)
    ultimately show ?thesis using 2(2) by (auto simp: safe_byte_def printable_rune_def)
  qed simp
qed

text \<open>
  What a caller calls a file never ends the quoted file name of a header: the cleaned name has no quote, no backslash, no control byte, and no slash, except that a name of slashes alone stays one slash.
\<close>

theorem clean_name_safe:
  assumes "CHR ''/'' \<notin> set fallback" and "\<forall>c\<in>set fallback. safe_byte c \<and> c \<noteq> CHR 0x5C"
  shows "safe_name (CleanName name fallback)"
proof -
  define r where "r = CleanName name fallback"
  let ?plain = "map (\<lambda>c. if c = CHR 0x5C then CHR ''/'' else c) name"
  define base where "base = path_base (trim_space ?plain)"
  have no_back: "CHR 0x5C \<notin> set base"
    using path_base_set [of "trim_space ?plain"] trim_space_set [of ?plain] by (auto simp: base_def)
  have safe: "safe_byte c \<and> c \<noteq> CHR 0x5C" if "c \<in> set (clean_runes base)" for c
    using clean_runes_bytes [OF that] no_back by (auto simp: safe_byte_def)
  have "c \<in> set base" if "c \<in> set (clean_runes base)" "c = CHR ''/''" for c
    using clean_runes_bytes [OF that(1)] that(2) by auto
  then have slash: "base = ''/'' \<or> CHR ''/'' \<notin> set (clean_runes base)"
    using path_base_no_slash base_def by metis
  have one: "clean_runes ''/'' = ''/''"
    by (simp add: clean_runes_def runes_of.simps printable_rune_def string_of_runes_def encode_ascii char_of_def bit_iff_odd)
  have r: "r = (if clean_runes base = [] \<or> clean_runes base = ''.'' \<or> clean_runes base = ''..''
    then fallback @ ''.bin'' else clean_runes base)"
    by (simp add: r_def CleanName_def base_def clean_runes_def Let_def)
  have bin: "\<forall>c\<in>set ''.bin''. safe_byte c \<and> c \<noteq> CHR 0x5C \<and> c \<noteq> CHR ''/''"
    by (simp add: safe_byte_def)
  show ?thesis
  proof (cases "clean_runes base = [] \<or> clean_runes base = ''.'' \<or> clean_runes base = ''..''")
    case True
    then have f: "r = fallback @ ''.bin''" unfolding r by (rule if_P)
    have "\<forall>c\<in>set (fallback @ ''.bin''). safe_byte c \<and> c \<noteq> CHR 0x5C" "CHR ''/'' \<notin> set (fallback @ ''.bin'')"
      using assms bin by (auto simp del: set_simps)
    moreover have "length (fallback @ ''.bin'') = length fallback + 4" by simp
    then have "fallback @ ''.bin'' \<noteq> []" "fallback @ ''.bin'' \<noteq> ''.''" "fallback @ ''.bin'' \<noteq> ''..''" by auto
    ultimately show ?thesis unfolding r_def [symmetric] safe_name_def f by blast
  next
    case False
    then have f: "r = clean_runes base" unfolding r by (rule if_not_P)
    have "r = ''/'' \<or> CHR ''/'' \<notin> set r" using slash one unfolding f by metis
    then show ?thesis using False safe unfolding r_def [symmetric] safe_name_def f by blast
  qed
qed

theorem clean_name_safe_witness: "safe_name (CleanName [CHR ''a'', CHR 0x5C, CHR 0x22] ''id'')"
  by (rule clean_name_safe) (simp_all add: safe_byte_def)

end
