(* ===== verification/Blob_Http.thy ===== *)
theory Blob_Http
  imports Blob_Util
begin

text \<open>
  The blob store that serves over HTTP from a directory, \<open>blob/http.go\<close> and \<open>blob/blob.go\<close>: an index in memory,
  the bytes in files, and operations whose critical sections interleave.

  A file is named by its file system and its path; file system 0 is the store's own, the others are those
  files are attached from. Times are nanoseconds, sizes bytes. \<open>escape\<close> is \<open>url.PathEscape\<close>.
\<close>

subsection \<open>State\<close>

record blob =
  bb_id :: string
  bb_url :: string
  bb_name :: string
  bb_mime :: string
  bb_size :: int
  bb_expires :: int

record put_options =
  po_name :: string
  po_mime :: string
  po_size :: int
  po_ttl :: int

record blob_object =
  ob_blob :: blob
  ob_fs :: nat
  ob_path :: string
  ob_attached :: bool

record http_store =
  hs_base :: string
  hs_prefix :: string
  hs_ttl :: int
  hs_max :: nat
  hs_objects :: "(string, blob_object) gomap"

type_synonym disk = "(nat \<times> string, string) gomap"

datatype blob_error =
    BlobCanceled
  | TooLarge
  | NoBlobID
  | StoreObject
  | NotFound string
  | NoSource
  | StatFailed
  | IsDirectory
  | NotRegular
  | BlobDenied string
  | BadOptions string

definition DefaultTTL :: int where
  "DefaultTTL = 15 * 60 * 1000000000"

definition DefaultMaxSize :: nat where
  "DefaultMaxSize = 2 ^ 30"

definition objectPath :: "string \<Rightarrow> string" where
  "objectPath oid = path_clean (if oid = [] then ''objects'' else ''objects/'' @ oid)"

subsection \<open>Making a store\<close>

record http_options =
  ho_base :: string
  ho_fs :: bool
  ho_ttl :: int
  ho_max :: int

record parsed_url =
  pu_scheme :: string
  pu_host :: string
  pu_path :: string

definition http_defaults :: "(string \<Rightarrow> parsed_url option) \<Rightarrow> http_options \<Rightarrow> blob_error + http_options" where
  "http_defaults parse o' =
     (if ho_base o' = [] then Inl (BadOptions ''BaseURL'')
      else
        (case parse (ho_base o') of
           None \<Rightarrow> Inl (BadOptions ''BaseURL'')
         | Some u \<Rightarrow>
             (if pu_scheme u \<noteq> ''http'' \<and> pu_scheme u \<noteq> ''https'' then Inl (BadOptions ''BaseURL'')
              else if pu_host u = [] then Inl (BadOptions ''BaseURL'')
              else if \<not> ho_fs o' then Inl (BadOptions ''FS'')
              else if ho_ttl o' < 0 then Inl (BadOptions ''TTL'')
              else if ho_max o' < 0 then Inl (BadOptions ''MaxSize'')
              else Inr (o'\<lparr>ho_base := trim_suffix (ho_base o') ''/'',
                     ho_ttl := (if ho_ttl o' = 0 then DefaultTTL else ho_ttl o'),
                     ho_max := (if ho_max o' = 0 then int DefaultMaxSize else ho_max o')\<rparr>))))"

text \<open>
  \<open>NewHTTP\<close>: the object directory is cleared if that works (\<open>cleared\<close>) and made (\<open>made\<close>).
\<close>

definition own_files :: "disk \<Rightarrow> string set" where
  "own_files d = {p. map_of d (0, p) \<noteq> None}"

definition NewHTTP ::
  "(string \<Rightarrow> parsed_url option) \<Rightarrow> bool \<Rightarrow> bool \<Rightarrow> http_options \<Rightarrow> disk \<Rightarrow> (blob_error + http_store) \<times> disk" where
  "NewHTTP parse cleared made o0 d =
     (case http_defaults parse o0 of
        Inl e \<Rightarrow> (Inl e, d)
      | Inr o' \<Rightarrow>
          (case parse (ho_base o') of
             None \<Rightarrow> (Inl (BadOptions ''BaseURL''), d)
           | Some u \<Rightarrow>
               (let d' = (if cleared then filter (\<lambda>((fs, p), _). \<not> (fs = 0 \<and> has_prefix p ''objects/'')) d else d) in
                if \<not> made then (Inl StoreObject, d')
                else (Inr \<lparr>hs_base = ho_base o', hs_prefix = trim_suffix (pu_path u) ''/'', hs_ttl = ho_ttl o',
                       hs_max = nat (ho_max o'), hs_objects = []\<rparr>, d'))))"

subsection \<open>Put and Attach\<close>

text \<open>A reader is the bytes it gives before it ends, or fails.\<close>

record reader =
  rd_data :: string
  rd_fails :: bool

text \<open>What can go wrong on the disk: creating, writing past some byte, closing and removing.\<close>

record disk_faults =
  df_create :: bool
  df_write :: "nat option"
  df_close :: bool
  df_remove :: bool

definition write_object :: "http_store \<Rightarrow> disk_faults \<Rightarrow> string \<Rightarrow> reader \<Rightarrow> disk \<Rightarrow> (blob_error + nat) \<times> disk" where
  "write_object h df oid r d =
     (if df_create df then (Inl StoreObject, d)
      else
        (let n = min (length (rd_data r)) (hs_max h + 1);
             n = (case df_write df of Some k \<Rightarrow> min n k | None \<Rightarrow> n);
             d1 = AList.update (0, objectPath oid) (take n (rd_data r)) d;
             err = (if df_write df \<noteq> None \<or> (rd_fails r \<and> length (rd_data r) \<le> hs_max h) then Some StoreObject
                    else if df_close df then Some StoreObject
                    else if n > hs_max h then Some TooLarge else None)
         in case err of
              Some e \<Rightarrow> (Inl e, if df_remove df then d1 else AList.delete (0, objectPath oid) d1)
            | None \<Rightarrow> (Inr n, d1)))"

definition describe ::
  "(string \<Rightarrow> string) \<Rightarrow> (string \<Rightarrow> string) \<Rightarrow> http_store \<Rightarrow> int \<Rightarrow> string \<Rightarrow> string \<Rightarrow> put_options \<Rightarrow> int \<Rightarrow> blob" where
  "describe escape by_ext h now oid name opts sz =
     \<lparr>bb_id = oid, bb_url = hs_base h @ ''/'' @ oid @ ''/'' @ escape name, bb_name = name,
      bb_mime = ContentType by_ext (po_mime opts) name, bb_size = sz,
      bb_expires = now + (if po_ttl opts \<le> 0 then hs_ttl h else po_ttl opts)\<rparr>"

text \<open>\<open>Put\<close> up to its critical section: the id and the number of bytes written.\<close>

definition put_write ::
  "http_store \<Rightarrow> bool \<Rightarrow> string option \<Rightarrow> disk_faults \<Rightarrow> reader \<Rightarrow> put_options \<Rightarrow> disk \<Rightarrow> (blob_error + string \<times> nat) \<times> disk" where
  "put_write h canceled new_id df r opts d =
     (if canceled then (Inl BlobCanceled, d)
      else if po_size opts > 0 \<and> po_size opts > int (hs_max h) then (Inl TooLarge, d)
      else
        (case new_id of
           None \<Rightarrow> (Inl NoBlobID, d)
         | Some oid \<Rightarrow>
             (case write_object h df oid r d of
                (Inl e, d') \<Rightarrow> (Inl e, d')
              | (Inr n, d') \<Rightarrow> (Inr (oid, n), d'))))"

definition put_index ::
  "(string \<Rightarrow> string) \<Rightarrow> (string \<Rightarrow> string) \<Rightarrow> int \<Rightarrow> put_options \<Rightarrow> string \<times> nat \<Rightarrow> http_store \<Rightarrow> blob \<times> http_store" where
  "put_index escape by_ext now opts idn h =
     (let (oid, n) = idn; b = describe escape by_ext h now oid (CleanName (po_name opts) oid) opts (int n)
      in (b, h\<lparr>hs_objects := AList.update oid \<lparr>ob_blob = b, ob_fs = 0, ob_path = objectPath oid, ob_attached = False\<rparr>
           (hs_objects h)\<rparr>))"

definition Put ::
  "(string \<Rightarrow> string) \<Rightarrow> (string \<Rightarrow> string) \<Rightarrow> bool \<Rightarrow> string option \<Rightarrow> disk_faults \<Rightarrow> int \<Rightarrow> reader \<Rightarrow> put_options
     \<Rightarrow> http_store \<Rightarrow> disk \<Rightarrow> (blob_error + blob) \<times> http_store \<times> disk" where
  "Put escape by_ext canceled new_id df now r opts h d =
     (case put_write h canceled new_id df r opts d of
        (Inl e, d') \<Rightarrow> (Inl e, h, d')
      | (Inr idn, d') \<Rightarrow> (let (b, h') = put_index escape by_ext now opts idn h in (Inr b, h', d')))"

text \<open>What \<open>Stat\<close> reports of a file.\<close>

record file_info =
  fi_dir :: bool
  fi_regular :: bool
  fi_size :: int

definition Attach ::
  "(string \<Rightarrow> string) \<Rightarrow> (string \<Rightarrow> string) \<Rightarrow> bool \<Rightarrow> (string \<Rightarrow> file_info option) \<Rightarrow> string option \<Rightarrow> int \<Rightarrow> nat option \<Rightarrow> string
     \<Rightarrow> put_options \<Rightarrow> http_store \<Rightarrow> (blob_error + blob) \<times> http_store" where
  "Attach escape by_ext canceled stat new_id now src name opts h =
     (if canceled then (Inl BlobCanceled, h)
      else
        (case src of
           None \<Rightarrow> (Inl NoSource, h)
         | Some fs \<Rightarrow>
             (case stat name of
                None \<Rightarrow> (Inl StatFailed, h)
              | Some info \<Rightarrow>
                  (if fi_dir info then (Inl IsDirectory, h)
                   else if \<not> fi_regular info then (Inl NotRegular, h)
                   else if fi_size info > int (hs_max h) then (Inl TooLarge, h)
                   else
                     (case new_id of
                        None \<Rightarrow> (Inl NoBlobID, h)
                      | Some oid \<Rightarrow>
                          (let opts' = (if po_name opts = [] then opts\<lparr>po_name := path_base name\<rparr> else opts);
                               b = describe escape by_ext h now oid (CleanName (po_name opts') oid) opts' (fi_size info)
                           in (Inr b, h\<lparr>hs_objects := AList.update oid
                                 \<lparr>ob_blob = b, ob_fs = fs, ob_path = name, ob_attached = True\<rparr> (hs_objects h)\<rparr>)))))))"

subsection \<open>Lookup, Open, Delete\<close>

definition discard :: "bool \<Rightarrow> blob_object \<Rightarrow> disk \<Rightarrow> disk" where
  "discard fails ob d = (if ob_attached ob \<or> fails then d else AList.delete (ob_fs ob, ob_path ob) d)"

text \<open>The critical section of \<open>lookup\<close>: the object, if it is served, and the one to discard, if it has expired.\<close>

definition lookup_section :: "int \<Rightarrow> string \<Rightarrow> http_store \<Rightarrow> (blob_object option \<times> blob_object list) \<times> http_store" where
  "lookup_section now oid h =
     (case map_of (hs_objects h) oid of
        None \<Rightarrow> ((None, []), h)
      | Some ob \<Rightarrow>
          (if \<not> now < bb_expires (ob_blob ob)
           then ((None, [ob]), h\<lparr>hs_objects := AList.delete oid (hs_objects h)\<rparr>)
           else ((Some ob, []), h)))"

definition blob_lookup :: "int \<Rightarrow> bool \<Rightarrow> string \<Rightarrow> http_store \<Rightarrow> disk \<Rightarrow> blob_object option \<times> http_store \<times> disk" where
  "blob_lookup now fails oid h d =
     (let ((res, gone), h') = lookup_section now oid h in (res, h', fold (discard fails) gone d))"

text \<open>\<open>Open\<close>: what the opened file holds, and the reference.\<close>

definition blob_Open ::
  "bool \<Rightarrow> int \<Rightarrow> bool \<Rightarrow> string \<Rightarrow> http_store \<Rightarrow> disk \<Rightarrow> (blob_error + string \<times> blob) \<times> http_store \<times> disk" where
  "blob_Open canceled now fails oid h d =
     (if canceled then (Inl BlobCanceled, h, d)
      else
        (case blob_lookup now fails oid h d of
           (None, h', d') \<Rightarrow> (Inl (NotFound oid), h', d')
         | (Some ob, h', d') \<Rightarrow>
             (case map_of d' (ob_fs ob, ob_path ob) of
                None \<Rightarrow> (Inl (NotFound oid), h', d')
              | Some content \<Rightarrow> (Inr (content, ob_blob ob), h', d'))))"

definition delete_section :: "string \<Rightarrow> http_store \<Rightarrow> blob_object list \<times> http_store" where
  "delete_section oid h =
     (case map_of (hs_objects h) oid of None \<Rightarrow> [] | Some ob \<Rightarrow> [ob], h\<lparr>hs_objects := AList.delete oid (hs_objects h)\<rparr>)"

definition blob_Delete :: "bool \<Rightarrow> string \<Rightarrow> http_store \<Rightarrow> disk \<Rightarrow> (blob_error + unit) \<times> http_store \<times> disk" where
  "blob_Delete fails oid h d =
     (case delete_section oid h of
        ([], h') \<Rightarrow> (Inr (), h', d)
      | (ob # _, h') \<Rightarrow> (if fails \<and> \<not> ob_attached ob then Inl StoreObject else Inr (), h', discard fails ob d))"

subsection \<open>Expiry\<close>

definition expired_at :: "int \<Rightarrow> blob_object \<Rightarrow> bool" where
  "expired_at now ob \<longleftrightarrow> \<not> now < bb_expires (ob_blob ob)"

definition sweep_section :: "int \<Rightarrow> http_store \<Rightarrow> blob_object list \<times> http_store" where
  "sweep_section now h =
     (let m = AList.clearjunk (hs_objects h) in
      (map snd (filter (\<lambda>(_, ob). expired_at now ob) m), h\<lparr>hs_objects := filter (\<lambda>(_, ob). \<not> expired_at now ob) m\<rparr>))"

definition purge_section :: "http_store \<Rightarrow> blob_object list \<times> http_store" where
  "purge_section h = (map snd (AList.clearjunk (hs_objects h)), h\<lparr>hs_objects := []\<rparr>)"

definition blob_remove :: "(blob_object \<Rightarrow> bool) \<Rightarrow> blob_object list \<Rightarrow> disk \<Rightarrow> disk" where
  "blob_remove fails gone d = fold (\<lambda>ob. discard (fails ob) ob) gone d"

definition sweep :: "(blob_object \<Rightarrow> bool) \<Rightarrow> int \<Rightarrow> http_store \<times> disk \<Rightarrow> http_store \<times> disk" where
  "sweep fails now s = (let (gone, h) = sweep_section now (fst s) in (h, blob_remove fails gone (snd s)))"

definition purge :: "(blob_object \<Rightarrow> bool) \<Rightarrow> http_store \<times> disk \<Rightarrow> http_store \<times> disk" where
  "purge fails s = (let (gone, h) = purge_section (fst s) in (h, blob_remove fails gone (snd s)))"

text \<open>\<open>Run\<close>, with the times at which its ticker fires before the context is done.\<close>

definition Run :: "(blob_object \<Rightarrow> bool) \<Rightarrow> int list \<Rightarrow> http_store \<times> disk \<Rightarrow> http_store \<times> disk" where
  "Run fails ticks s = purge fails (fold (sweep fails) ticks s)"

definition sweepInterval :: "int \<Rightarrow> int" where
  "sweepInterval ttl = min (max (ttl div 4) (10 * 1000000000)) (5 * 60 * 1000000000)"

subsection \<open>Serving\<close>

definition requestID :: "http_store \<Rightarrow> string \<Rightarrow> string" where
  "requestID h p =
     (let p1 = (if hs_prefix h \<noteq> [] then trim_prefix p (hs_prefix h) else p);
          p2 = trim_prefix p1 ''/''
      in (case index_byte p2 (CHR ''/'') of Some i \<Rightarrow> take i p2 | None \<Rightarrow> p2))"

datatype served =
    MethodNotAllowed
  | PageNotFound
  | ServedContent string "(string \<times> string) list"

definition ServeHTTP ::
  "(string \<Rightarrow> string option) \<Rightarrow> (string \<Rightarrow> (string \<times> string) list \<Rightarrow> string) \<Rightarrow> int \<Rightarrow> bool \<Rightarrow> string \<Rightarrow> string
     \<Rightarrow> http_store \<Rightarrow> disk \<Rightarrow> served \<times> http_store \<times> disk" where
  "ServeHTTP media fmt now fails method' p h d =
     (if method' \<noteq> ''GET'' \<and> method' \<noteq> ''HEAD'' then (MethodNotAllowed, h, d)
      else
        (case blob_lookup now fails (requestID h p) h d of
           (None, h', d') \<Rightarrow> (PageNotFound, h', d')
         | (Some ob, h', d') \<Rightarrow>
             (case map_of d' (ob_fs ob, ob_path ob) of
                None \<Rightarrow> (PageNotFound, h', d')
              | Some content \<Rightarrow>
                  (ServedContent content
                     [(''Content-Type'', ServeType media (bb_mime (ob_blob ob))), (''X-Content-Type-Options'', ''nosniff''),
                      (''Content-Disposition'', ContentDisposition fmt (bb_name (ob_blob ob))), (''Cache-Control'', ''no-store'')],
                   h', d'))))"

definition MountPath :: "http_store \<Rightarrow> string" where
  "MountPath h = (if hs_prefix h = [] then ''/'' else hs_prefix h @ ''/'')"

subsection \<open>Ids and object paths\<close>

definition good_id :: "string \<Rightarrow> bool" where
  "good_id oid \<longleftrightarrow> plain_elem oid \<and> CHR ''/'' \<notin> set oid"

lemma objectPath_good: "good_id oid \<Longrightarrow> objectPath oid = ''objects/'' @ oid"
proof -
  assume oid: "good_id oid"
  have "split_slash (''objects'' @ CHR ''/'' # oid) = [''objects'', oid]"
    using oid by (simp only: split_slash_append) (simp add: good_id_def split_slash_plain)
  then have "split_slash (''objects/'' @ oid) = [''objects'', oid]" by simp
  then show ?thesis
    using oid by (simp add: objectPath_def path_clean_def good_id_def plain_elem_def)
qed

lemma objectPath_inj: "good_id a \<Longrightarrow> good_id b \<Longrightarrow> objectPath a = objectPath b \<longleftrightarrow> a = b"
  by (simp add: objectPath_good)

subsection \<open>Interleaved operations\<close>

text \<open>
  A store at work: puts that have written their bytes and not yet entered the index, and objects that have left
  the index and whose bytes are still to be removed. Ghosts: \<open>bs_seen\<close>, the ids handed out; \<open>bs_data\<close>, the bytes put
  under each; \<open>bs_left\<close>, the files whose removal failed, or that were there before.
\<close>

record blob_sys =
  bs_store :: http_store
  bs_disk :: disk
  bs_pending :: "(string \<times> nat \<times> put_options) list"
  bs_gone :: "blob_object list"
  bs_seen :: "string list"
  bs_data :: "(string, string) gomap"
  bs_left :: "string list"

definition after_write :: "bool \<Rightarrow> string \<Rightarrow> reader \<Rightarrow> put_options \<Rightarrow> (blob_error + string \<times> nat) \<times> disk \<Rightarrow> blob_sys \<Rightarrow> blob_sys" where
  "after_write stuck oid r opts res s =
     (case res of
        (Inl _, d) \<Rightarrow>
          s\<lparr>bs_disk := d, bs_seen := oid # bs_seen s,
            bs_left := (if stuck then objectPath oid # bs_left s else bs_left s)\<rparr>
      | (Inr (_, n), d) \<Rightarrow>
          s\<lparr>bs_disk := d, bs_seen := oid # bs_seen s, bs_data := AList.update oid (rd_data r) (bs_data s),
            bs_pending := (oid, n, opts) # bs_pending s\<rparr>)"

definition drop_objects :: "blob_object list \<times> http_store \<Rightarrow> blob_sys \<Rightarrow> blob_sys" where
  "drop_objects r s = s\<lparr>bs_store := snd r, bs_gone := fst r @ bs_gone s\<rparr>"

definition after_discard :: "bool \<Rightarrow> blob_object \<Rightarrow> blob_sys \<Rightarrow> blob_sys" where
  "after_discard fails ob s =
     s\<lparr>bs_disk := discard fails ob (bs_disk s), bs_gone := remove1 ob (bs_gone s),
       bs_left := (if fails \<and> \<not> ob_attached ob then ob_path ob # bs_left s else bs_left s)\<rparr>"

inductive blob_step :: "(string \<Rightarrow> string) \<Rightarrow> (string \<Rightarrow> string) \<Rightarrow> blob_sys \<Rightarrow> blob_sys \<Rightarrow> bool"
  for escape :: "string \<Rightarrow> string" and by_ext :: "string \<Rightarrow> string"
where
  step_write:
    "good_id oid \<Longrightarrow> oid \<notin> set (bs_seen s)
      \<Longrightarrow> blob_step escape by_ext s
            (after_write (df_remove df) oid r opts (put_write (bs_store s) canceled (Some oid) df r opts (bs_disk s)) s)"
| step_index:
    "(oid, n, opts) \<in> set (bs_pending s) \<Longrightarrow> put_index escape by_ext now opts (oid, n) (bs_store s) = (b, h)
      \<Longrightarrow> blob_step escape by_ext s (s\<lparr>bs_store := h, bs_pending := filter (\<lambda>p. fst p \<noteq> oid) (bs_pending s)\<rparr>)"
| step_attach:
    "good_id oid \<Longrightarrow> oid \<notin> set (bs_seen s) \<Longrightarrow> fs \<noteq> 0
      \<Longrightarrow> Attach escape by_ext canceled st (Some oid) now (Some fs) name opts (bs_store s) = (res, h)
      \<Longrightarrow> blob_step escape by_ext s (s\<lparr>bs_store := h, bs_seen := oid # bs_seen s\<rparr>)"
| step_lookup:
    "lookup_section now oid (bs_store s) = ((res, gone), h)
      \<Longrightarrow> blob_step escape by_ext s (drop_objects (gone, h) s)"
| step_delete: "blob_step escape by_ext s (drop_objects (delete_section oid (bs_store s)) s)"
| step_sweep: "blob_step escape by_ext s (drop_objects (sweep_section now (bs_store s)) s)"
| step_purge: "blob_step escape by_ext s (drop_objects (purge_section (bs_store s)) s)"
| step_discard: "ob \<in> set (bs_gone s) \<Longrightarrow> blob_step escape by_ext s (after_discard fails ob s)"

text \<open>A store starts empty, and the files that are not its own may change at any time.\<close>

definition fresh_sys :: "http_store \<Rightarrow> disk \<Rightarrow> blob_sys" where
  "fresh_sys h d =
     \<lparr>bs_store = h, bs_disk = d, bs_pending = [], bs_gone = [], bs_seen = [], bs_data = [],
      bs_left = map snd (filter (\<lambda>f. fst f = 0) (map fst d))\<rparr>"

inductive blob_reach :: "(string \<Rightarrow> string) \<Rightarrow> (string \<Rightarrow> string) \<Rightarrow> blob_sys \<Rightarrow> bool"
  for escape :: "string \<Rightarrow> string" and by_ext :: "string \<Rightarrow> string"
where
  reach_new: "NewHTTP parse cleared made o0 d0 = (Inr h, d) \<Longrightarrow> blob_reach escape by_ext (fresh_sys h d)"
| reach_step: "blob_reach escape by_ext s \<Longrightarrow> blob_step escape by_ext s s' \<Longrightarrow> blob_reach escape by_ext s'"
| reach_outside:
    "blob_reach escape by_ext s \<Longrightarrow> \<forall>p. map_of d (0, p) = map_of (bs_disk s) (0, p)
      \<Longrightarrow> blob_reach escape by_ext (s\<lparr>bs_disk := d\<rparr>)"

subsection \<open>What holds at all times\<close>

definition stored_ok :: "blob_sys \<Rightarrow> string \<Rightarrow> int \<Rightarrow> bool" where
  "stored_ok s oid n \<longleftrightarrow> good_id oid \<and>
     (\<exists>data. map_of (bs_data s) oid = Some data \<and> map_of (bs_disk s) (0, objectPath oid) = Some data
        \<and> n = int (length data) \<and> length data \<le> hs_max (bs_store s))"

definition own_object :: "string \<Rightarrow> blob_object \<Rightarrow> bool" where
  "own_object oid ob \<longleftrightarrow> bb_id (ob_blob ob) = oid \<and> good_id oid
     \<and> (if ob_attached ob then ob_fs ob \<noteq> 0 else ob_fs ob = 0 \<and> ob_path ob = objectPath oid)"

abbreviation index_of :: "blob_sys \<Rightarrow> string \<Rightarrow> blob_object option" where
  "index_of s \<equiv> map_of (hs_objects (bs_store s))"

definition index_ok :: "blob_sys \<Rightarrow> bool" where
  "index_ok s \<longleftrightarrow> (\<forall>oid ob. index_of s oid = Some ob \<longrightarrow> own_object oid ob \<and> oid \<in> set (bs_seen s)
     \<and> (ob_attached ob \<or> stored_ok s oid (bb_size (ob_blob ob))))"

definition pending_ok :: "blob_sys \<Rightarrow> bool" where
  "pending_ok s \<longleftrightarrow> (\<forall>oid n opts. (oid, n, opts) \<in> set (bs_pending s)
     \<longrightarrow> stored_ok s oid (int n) \<and> oid \<in> set (bs_seen s) \<and> index_of s oid = None)"

definition gone_ok :: "blob_sys \<Rightarrow> bool" where
  "gone_ok s \<longleftrightarrow> (\<forall>ob\<in>set (bs_gone s). own_object (bb_id (ob_blob ob)) ob \<and> bb_id (ob_blob ob) \<in> set (bs_seen s)
     \<and> index_of s (bb_id (ob_blob ob)) = None \<and> bb_id (ob_blob ob) \<notin> fst ` set (bs_pending s))"

definition held :: "blob_sys \<Rightarrow> string \<Rightarrow> bool" where
  "held s p \<longleftrightarrow> p \<in> set (bs_left s)
     \<or> (\<exists>oid n opts. (oid, n, opts) \<in> set (bs_pending s) \<and> p = objectPath oid)
     \<or> (\<exists>oid ob. index_of s oid = Some ob \<and> \<not> ob_attached ob \<and> p = ob_path ob)
     \<or> (\<exists>ob\<in>set (bs_gone s). \<not> ob_attached ob \<and> p = ob_path ob)"

definition no_leak :: "blob_sys \<Rightarrow> bool" where
  "no_leak s \<longleftrightarrow> (\<forall>p. map_of (bs_disk s) (0, p) \<noteq> None \<longrightarrow> held s p)"

definition blob_inv :: "blob_sys \<Rightarrow> bool" where
  "blob_inv s \<longleftrightarrow> index_ok s \<and> pending_ok s \<and> gone_ok s \<and> no_leak s"

lemma heldI:
  "p \<in> set (bs_left s) \<Longrightarrow> held s p"
  "(oid, n, opts) \<in> set (bs_pending s) \<Longrightarrow> p = objectPath oid \<Longrightarrow> held s p"
  "index_of s oid = Some ob \<Longrightarrow> \<not> ob_attached ob \<Longrightarrow> p = ob_path ob \<Longrightarrow> held s p"
  "ob \<in> set (bs_gone s) \<Longrightarrow> \<not> ob_attached ob \<Longrightarrow> p = ob_path ob \<Longrightarrow> held s p"
  unfolding held_def by blast+

lemma heldE:
  assumes "held s p"
  obtains "p \<in> set (bs_left s)"
    | oid n opts where "(oid, n, opts) \<in> set (bs_pending s)" "p = objectPath oid"
    | oid ob where "index_of s oid = Some ob" "\<not> ob_attached ob" "p = ob_path ob"
    | ob where "ob \<in> set (bs_gone s)" "\<not> ob_attached ob" "p = ob_path ob"
  using assms unfolding held_def by blast

lemma indexedD:
  assumes "blob_inv s" and "index_of s oid = Some ob"
  shows "own_object oid ob \<and> oid \<in> set (bs_seen s) \<and> (ob_attached ob \<or> stored_ok s oid (bb_size (ob_blob ob)))"
  using assms by (simp add: blob_inv_def index_ok_def)

lemma pendingD:
  assumes "blob_inv s" and "(oid, n, opts) \<in> set (bs_pending s)"
  shows "stored_ok s oid (int n) \<and> oid \<in> set (bs_seen s) \<and> index_of s oid = None"
proof -
  have "pending_ok s" using assms(1) by (simp add: blob_inv_def)
  then show ?thesis using assms(2) unfolding pending_ok_def by blast
qed

lemma goneD:
  assumes "blob_inv s" and "ob \<in> set (bs_gone s)"
  shows "own_object (bb_id (ob_blob ob)) ob \<and> bb_id (ob_blob ob) \<in> set (bs_seen s)
    \<and> index_of s (bb_id (ob_blob ob)) = None \<and> bb_id (ob_blob ob) \<notin> fst ` set (bs_pending s)"
  using assms by (simp add: blob_inv_def gone_ok_def)

lemma leakD: "blob_inv s \<Longrightarrow> map_of (bs_disk s) (0, p) \<noteq> None \<Longrightarrow> held s p"
  by (simp add: blob_inv_def no_leak_def)

text \<open>The sections that take objects out of the index.\<close>

definition drops :: "http_store \<Rightarrow> blob_object list \<times> http_store \<Rightarrow> bool" where
  "drops h r \<longleftrightarrow> hs_max (snd r) = hs_max h
     \<and> (\<forall>k ob. map_of (hs_objects (snd r)) k = Some ob \<longrightarrow> map_of (hs_objects h) k = Some ob)
     \<and> (\<forall>ob\<in>set (fst r). \<exists>k. map_of (hs_objects h) k = Some ob \<and> map_of (hs_objects (snd r)) k = None)
     \<and> (\<forall>k ob. map_of (hs_objects h) k = Some ob \<longrightarrow> map_of (hs_objects (snd r)) k = None \<longrightarrow> ob \<in> set (fst r))"

lemma map_of_kept_distinct:
  "distinct (map fst m) \<Longrightarrow> map_of (filter (\<lambda>(_, v). P v) m) k =
     (case map_of m k of Some v \<Rightarrow> if P v then Some v else None | None \<Rightarrow> None)"
proof (induction m)
  case (Cons kv m)
  obtain k' v' where kv: "kv = (k', v')" by force
  have "map_of m k' = None" using Cons.prems kv by (simp add: map_of_eq_None_iff)
  then show ?case using Cons kv by auto
qed simp

lemma map_of_kept:
  "map_of (filter (\<lambda>(_, v). P v) (AList.clearjunk m)) k =
     (case map_of m k of Some v \<Rightarrow> if P v then Some v else None | None \<Rightarrow> None)"
  using map_of_kept_distinct [OF distinct_clearjunk] by (simp add: map_of_clearjunk)

lemma clearjunk_values:
  "ob \<in> snd ` set (AList.clearjunk m) \<longleftrightarrow> (\<exists>k. map_of m k = Some ob)"
  by (metis (mono_tags) distinct_clearjunk image_iff map_of_clearjunk map_of_eq_Some_iff snd_conv surj_pair)

lemma lookup_drops:
  assumes "lookup_section now oid h = ((res, gone), h')"
  shows "drops h (gone, h')"
  using assms by (auto simp: lookup_section_def drops_def split: option.splits if_splits)

lemma delete_drops: "drops h (delete_section oid h)"
  by (auto simp: delete_section_def drops_def split: option.splits if_splits)

lemma sweep_drops: "drops h (sweep_section now h)"
proof -
  let ?m = "AList.clearjunk (hs_objects h)"
  have new: "map_of (hs_objects (snd (sweep_section now h))) k =
      (case map_of (hs_objects h) k of Some v \<Rightarrow> if \<not> expired_at now v then Some v else None | None \<Rightarrow> None)" for k
    using map_of_kept [of "\<lambda>ob. \<not> expired_at now ob" "hs_objects h" k]
    by (simp add: sweep_section_def Let_def)
  have gone: "ob \<in> set (fst (sweep_section now h)) \<longleftrightarrow> (\<exists>k. map_of (hs_objects h) k = Some ob) \<and> expired_at now ob" for ob
    using clearjunk_values [of ob "hs_objects h"] by (force simp: sweep_section_def Let_def)
  have "hs_max (snd (sweep_section now h)) = hs_max h" by (simp add: sweep_section_def Let_def)
  then show ?thesis unfolding drops_def Ball_def new gone by (auto split: option.splits if_splits)
qed

lemma purge_drops: "drops h (purge_section h)"
  using clearjunk_values [of _ "hs_objects h"] by (auto simp: purge_section_def drops_def)

lemma stored_ok_cong:
  assumes "bs_data s' = bs_data s" and "hs_max (bs_store s') = hs_max (bs_store s)"
    and "map_of (bs_disk s') (0, objectPath oid) = map_of (bs_disk s) (0, objectPath oid)"
  shows "stored_ok s' oid n \<longleftrightarrow> stored_ok s oid n"
  using assms by (simp add: stored_ok_def)

lemma drop_inv:
  assumes inv: "blob_inv s" and d: "drops (bs_store s) r"
  shows "blob_inv (drop_objects r s)"
proof -
  let ?s = "drop_objects r s"
  have st: "stored_ok ?s oid n \<longleftrightarrow> stored_ok s oid n" for oid n
    using d by (intro stored_ok_cong) (simp_all add: drop_objects_def drops_def)
  have sub: "index_of ?s k = Some ob \<Longrightarrow> index_of s k = Some ob" for k ob
    using d by (simp add: drop_objects_def drops_def)
  have none: "index_of s k = None \<Longrightarrow> index_of ?s k = None" for k
    using sub by (metis option.exhaust)
  have out: "\<exists>k. index_of s k = Some ob \<and> index_of ?s k = None" if "ob \<in> set (fst r)" for ob
    using d that by (simp add: drop_objects_def drops_def)
  have kept: "index_of ?s k = None \<Longrightarrow> ob \<in> set (fst r)" if "index_of s k = Some ob" for k ob
    using d that by (simp add: drop_objects_def drops_def)
  have same: "bs_pending ?s = bs_pending s" "bs_seen ?s = bs_seen s" "bs_left ?s = bs_left s" "bs_disk ?s = bs_disk s"
    "bs_gone ?s = fst r @ bs_gone s" by (simp_all add: drop_objects_def)
  have "index_ok ?s" unfolding index_ok_def st same using inv sub by (auto simp: blob_inv_def index_ok_def)
  moreover have "pending_ok ?s"
    unfolding pending_ok_def st same using inv none by (auto simp: blob_inv_def pending_ok_def)
  moreover have "gone_ok ?s" unfolding gone_ok_def same
  proof
    fix ob assume "ob \<in> set (fst r @ bs_gone s)"
    then consider "ob \<in> set (fst r)" | "ob \<in> set (bs_gone s)" by auto
    then show "own_object (bb_id (ob_blob ob)) ob \<and> bb_id (ob_blob ob) \<in> set (bs_seen s)
        \<and> index_of ?s (bb_id (ob_blob ob)) = None \<and> bb_id (ob_blob ob) \<notin> fst ` set (bs_pending s)"
    proof cases
      case 1
      obtain k where k: "index_of s k = Some ob" "index_of ?s k = None" using out [OF 1] by blast
      have o: "own_object k ob" "k \<in> set (bs_seen s)" using inv k(1) by (auto simp: blob_inv_def index_ok_def)
      then have id: "bb_id (ob_blob ob) = k" by (simp add: own_object_def)
      have "k \<notin> fst ` set (bs_pending s)" using inv k(1) by (force simp: blob_inv_def pending_ok_def)
      then show ?thesis using o k(2) id by simp
    next
      case 2
      then show ?thesis using inv none by (simp add: blob_inv_def gone_ok_def)
    qed
  qed
  moreover have "no_leak ?s" unfolding no_leak_def
  proof (intro allI impI)
    fix p assume "map_of (bs_disk ?s) (0, p) \<noteq> None"
    then have "held s p" using inv by (simp add: same blob_inv_def no_leak_def)
    then show "held ?s p"
      unfolding held_def same using kept by (metis (no_types, lifting) Un_iff not_None_eq set_append sub)
  qed
  ultimately show ?thesis by (simp add: blob_inv_def)
qed

lemma discard_inv:
  assumes inv: "blob_inv s" and ob: "ob \<in> set (bs_gone s)"
  shows "blob_inv (after_discard fails ob s)"
proof -
  let ?s = "after_discard fails ob s" and ?id = "bb_id (ob_blob ob)"
  have own: "own_object ?id ob" "index_of s ?id = None" "?id \<notin> fst ` set (bs_pending s)"
    using goneD [OF inv ob] by blast+
  have same: "bs_pending ?s = bs_pending s" "bs_seen ?s = bs_seen s" "bs_store ?s = bs_store s"
    "bs_data ?s = bs_data s" "set (bs_gone ?s) \<subseteq> set (bs_gone s)"
    by (simp_all add: after_discard_def set_remove1_subset)
  have disk: "map_of (bs_disk ?s) (0, p) =
      (if \<not> ob_attached ob \<and> \<not> fails \<and> p = ob_path ob then None else map_of (bs_disk s) (0, p))" for p
    using own(1) by (auto simp: after_discard_def discard_def own_object_def)
  have st: "stored_ok s oid n \<Longrightarrow> oid \<noteq> ?id \<Longrightarrow> stored_ok ?s oid n" for oid n
    using own(1) by (auto simp: stored_ok_def same disk own_object_def objectPath_inj split: if_splits)
  have "index_ok ?s" unfolding index_ok_def same
  proof (intro allI impI)
    fix oid ob' assume i: "index_of s oid = Some ob'"
    then have "oid \<noteq> ?id" using own(2) by auto
    then show "own_object oid ob' \<and> oid \<in> set (bs_seen s) \<and> (ob_attached ob' \<or> stored_ok ?s oid (bb_size (ob_blob ob')))"
      using indexedD [OF inv i] st by blast
  qed
  moreover have "pending_ok ?s" unfolding pending_ok_def same
  proof (intro allI impI)
    fix oid n opts assume i: "(oid, n, opts) \<in> set (bs_pending s)"
    then have "oid \<noteq> ?id" using own(3) by force
    then show "stored_ok ?s oid (int n) \<and> oid \<in> set (bs_seen s) \<and> index_of s oid = None"
      using pendingD [OF inv i] st by blast
  qed
  moreover have "gone_ok ?s" using inv same(5) unfolding gone_ok_def same(1,2,3) by (auto simp: blob_inv_def gone_ok_def)
  moreover have "no_leak ?s" unfolding no_leak_def
  proof (intro allI impI)
    fix p assume p: "map_of (bs_disk ?s) (0, p) \<noteq> None"
    then have old: "\<not> (\<not> ob_attached ob \<and> \<not> fails \<and> p = ob_path ob)" and h: "held s p"
      using leakD [OF inv, of p] by (auto simp: disk split: if_splits)
    from h show "held ?s p"
    proof (cases rule: heldE)
      case (4 ob')
      then have "ob' \<in> set (bs_gone ?s) \<or> p \<in> set (bs_left ?s)"
        using old by (cases "ob' = ob") (auto simp: after_discard_def)
      then show ?thesis using 4 heldI by blast
    next
      case 1
      then have "p \<in> set (bs_left ?s)" by (simp add: after_discard_def)
      then show ?thesis by (rule heldI)
    qed (use same heldI in metis)+
  qed
  ultimately show ?thesis by (simp add: blob_inv_def)
qed

text \<open>What writing an object leaves on the disk.\<close>

lemma put_write_cases:
  assumes "put_write h canceled (Some oid) df r opts d = (res, d')"
  shows "(\<forall>k. k \<noteq> (0, objectPath oid) \<longrightarrow> map_of d' k = map_of d k)
    \<and> (\<forall>x. res = Inr x \<longrightarrow> x = (oid, length (rd_data r)) \<and> length (rd_data r) \<le> hs_max h
         \<and> map_of d' (0, objectPath oid) = Some (rd_data r))
    \<and> (\<forall>e. res = Inl e \<longrightarrow> \<not> df_remove df \<longrightarrow> map_of d' (0, objectPath oid) \<noteq> None
         \<longrightarrow> map_of d (0, objectPath oid) \<noteq> None)"
  using assms by (auto simp: put_write_def write_object_def Let_def split: if_splits option.splits sum.splits prod.splits)

text \<open>A state in which only a fresh id's file differs.\<close>

lemma fresh_stored:
  assumes "stored_ok s k n" and "k \<noteq> oid" and "good_id oid" and "hs_max (bs_store s') = hs_max (bs_store s)"
    and "map_of (bs_data s') k = map_of (bs_data s) k"
    and "\<forall>f. f \<noteq> (0, objectPath oid) \<longrightarrow> map_of (bs_disk s') f = map_of (bs_disk s) f"
  shows "stored_ok s' k n"
  using assms by (auto simp: stored_ok_def objectPath_inj)

lemma write_inv:
  assumes inv: "blob_inv s" and oid: "good_id oid" "oid \<notin> set (bs_seen s)"
    and w: "put_write (bs_store s) canceled (Some oid) df r opts (bs_disk s) = (res, d)"
  shows "blob_inv (after_write (df_remove df) oid r opts (res, d) s)"
proof -
  let ?s = "after_write (df_remove df) oid r opts (res, d) s"
  note disk = put_write_cases [OF w, THEN conjunct1] and ok = put_write_cases [OF w, THEN conjunct2, THEN conjunct1]
    and err = put_write_cases [OF w, THEN conjunct2, THEN conjunct2]
  have same: "bs_store ?s = bs_store s" "bs_seen ?s = oid # bs_seen s" "bs_gone ?s = bs_gone s" "bs_disk ?s = d"
    by (auto simp: after_write_def split: sum.splits prod.splits)
  have data: "k \<noteq> oid \<Longrightarrow> map_of (bs_data ?s) k = map_of (bs_data s) k" for k
    by (auto simp: after_write_def split: sum.splits prod.splits)
  have st: "stored_ok s k n \<Longrightarrow> k \<in> set (bs_seen s) \<Longrightarrow> stored_ok ?s k n" for k n
    by (rule fresh_stored [of s k n oid]) (use oid disk in \<open>auto simp: same intro!: data\<close>)
  have pend: "(k, n, op) \<in> set (bs_pending ?s) \<Longrightarrow> (k, n, op) \<in> set (bs_pending s) \<or> k = oid \<and> stored_ok ?s k (int n)" for k n op
    using ok oid by (auto simp: after_write_def stored_ok_def split: sum.splits prod.splits)
  have new: "index_of s oid = None" using indexedD [OF inv, of oid] oid(2) by (metis not_None_eq)
  have more: "held s p \<Longrightarrow> held ?s p" for p
  proof -
    have "set (bs_left s) \<subseteq> set (bs_left ?s)" "set (bs_pending s) \<subseteq> set (bs_pending ?s)"
      by (cases res; auto simp: after_write_def)+
    then show "held s p \<Longrightarrow> held ?s p" by (elim heldE) (use same heldI subsetD in metis)+
  qed
  have "index_ok ?s" unfolding index_ok_def same using indexedD [OF inv] st by (metis list.set_intros(2))
  moreover have "pending_ok ?s" unfolding pending_ok_def same
  proof (intro allI impI)
    fix k n op assume "(k, n, op) \<in> set (bs_pending ?s)"
    from pend [OF this] show "stored_ok ?s k (int n) \<and> k \<in> set (oid # bs_seen s) \<and> index_of s k = None"
      using pendingD [OF inv, of k n op] st new by auto
  qed
  moreover have "gone_ok ?s" unfolding gone_ok_def same
  proof
    fix ob assume "ob \<in> set (bs_gone s)"
    then have g: "own_object (bb_id (ob_blob ob)) ob" "bb_id (ob_blob ob) \<in> set (bs_seen s)"
      "index_of s (bb_id (ob_blob ob)) = None" "bb_id (ob_blob ob) \<notin> fst ` set (bs_pending s)"
      using goneD [OF inv] by blast+
    moreover have "bb_id (ob_blob ob) \<noteq> oid" using g(2) oid(2) by auto
    ultimately show "own_object (bb_id (ob_blob ob)) ob \<and> bb_id (ob_blob ob) \<in> set (oid # bs_seen s)
        \<and> index_of s (bb_id (ob_blob ob)) = None \<and> bb_id (ob_blob ob) \<notin> fst ` set (bs_pending ?s)"
      using pend by force
  qed
  moreover have "no_leak ?s" unfolding no_leak_def
  proof (intro allI impI)
    fix p assume p: "map_of (bs_disk ?s) (0, p) \<noteq> None"
    show "held ?s p"
    proof (cases "p = objectPath oid")
      case True
      then have "p \<in> set (bs_left ?s) \<or> (\<exists>n. (oid, n, opts) \<in> set (bs_pending ?s)) \<or> held s p"
        using p leakD [OF inv, of p] err by (cases res) (auto simp: after_write_def)
      then show ?thesis using True heldI more by blast
    next
      case False
      then have "held s p" using p disk leakD [OF inv, of p] by (simp add: same)
      then show ?thesis by (rule more)
    qed
  qed
  ultimately show ?thesis by (simp add: blob_inv_def)
qed

lemma add_inv:
  assumes inv: "blob_inv s" and new: "index_of s oid = None" and own: "own_object oid ob"
    and gone: "oid \<notin> (\<lambda>o'. bb_id (ob_blob o')) ` set (bs_gone s)"
    and ok: "ob_attached ob \<and> oid \<notin> fst ` set (bs_pending s) \<or> \<not> ob_attached ob \<and> stored_ok s oid (bb_size (ob_blob ob))"
    and s': "index_of s' = (index_of s)(oid \<mapsto> ob)" "hs_max (bs_store s') = hs_max (bs_store s)"
      "set (bs_pending s') = {p \<in> set (bs_pending s). fst p \<noteq> oid}" "bs_gone s' = bs_gone s" "bs_disk s' = bs_disk s"
      "bs_data s' = bs_data s" "bs_left s' = bs_left s" "set (bs_seen s') = insert oid (set (bs_seen s))"
  shows "blob_inv s'"
proof -
  have st: "stored_ok s' k n \<longleftrightarrow> stored_ok s k n" for k n by (intro stored_ok_cong) (simp_all add: s')
  have "index_ok s'" unfolding index_ok_def st s' using indexedD [OF inv] own ok by auto
  moreover have "pending_ok s'" unfolding pending_ok_def st s' using pendingD [OF inv] by fastforce
  moreover have "gone_ok s'" unfolding gone_ok_def s'
  proof
    fix o' assume g: "o' \<in> set (bs_gone s)"
    then have "bb_id (ob_blob o') \<noteq> oid" using gone by auto
    then show "own_object (bb_id (ob_blob o')) o' \<and> bb_id (ob_blob o') \<in> insert oid (set (bs_seen s)) \<and>
        ((index_of s)(oid \<mapsto> ob)) (bb_id (ob_blob o')) = None \<and>
        bb_id (ob_blob o') \<notin> fst ` {p \<in> set (bs_pending s). fst p \<noteq> oid}"
      using goneD [OF inv g] by auto
  qed
  moreover have "no_leak s'" unfolding no_leak_def s'
  proof (intro allI impI)
    fix p assume "map_of (bs_disk s) (0, p) \<noteq> None"
    from leakD [OF inv this] show "held s' p"
    proof (cases rule: heldE)
      case (2 k n opts)
      show ?thesis
      proof (cases "k = oid")
        case True
        then have "\<not> ob_attached ob" using ok 2(1) by force
        then show ?thesis using True 2(2) own heldI(3) [of s' oid ob p] by (simp add: s' own_object_def)
      next
        case False
        then show ?thesis using 2 heldI(2) [of k n opts s' p] by (simp add: s')
      qed
    next
      case (3 k ob')
      then have "k \<noteq> oid" using new by auto
      then show ?thesis using 3 heldI(3) [of s' k ob' p] by (simp add: s')
    qed (use s' heldI in metis)+
  qed
  ultimately show ?thesis by (simp add: blob_inv_def)
qed

lemma index_inv:
  assumes inv: "blob_inv s" and p: "(oid, n, opts) \<in> set (bs_pending s)"
    and put: "put_index escape by_ext now opts (oid, n) (bs_store s) = (b, h)"
  shows "blob_inv (s\<lparr>bs_store := h, bs_pending := filter (\<lambda>p. fst p \<noteq> oid) (bs_pending s)\<rparr>)"
proof -
  note pend = pendingD [OF inv p]
  have b: "bb_id b = oid" "bb_size b = int n" using put by (auto simp: put_index_def describe_def Let_def)
  have h: "h = (bs_store s)\<lparr>hs_objects := AList.update oid \<lparr>ob_blob = b, ob_fs = 0, ob_path = objectPath oid,
      ob_attached = False\<rparr> (hs_objects (bs_store s))\<rparr>"
    using put by (auto simp: put_index_def Let_def)
  have "oid \<in> fst ` set (bs_pending s)" using p by force
  then have "oid \<notin> (\<lambda>o'. bb_id (ob_blob o')) ` set (bs_gone s)" using goneD [OF inv] by blast
  then show ?thesis
    by (rule add_inv [OF inv, rotated 2]) (use pend b h in \<open>auto simp: own_object_def stored_ok_def\<close>)
qed

lemma attach_inv:
  assumes inv: "blob_inv s" and oid: "good_id oid" "oid \<notin> set (bs_seen s)" and fs: "fs \<noteq> 0"
    and att: "Attach escape by_ext canceled st (Some oid) now (Some fs) name opts (bs_store s) = (res, h)"
  shows "blob_inv (s\<lparr>bs_store := h, bs_seen := oid # bs_seen s\<rparr>)"
proof -
  have gone: "oid \<notin> (\<lambda>o'. bb_id (ob_blob o')) ` set (bs_gone s)" using goneD [OF inv] oid(2) by auto
  have pend: "oid \<notin> fst ` set (bs_pending s)" using pendingD [OF inv] oid(2) by fastforce
  then have all: "{p \<in> set (bs_pending s). fst p \<noteq> oid} = set (bs_pending s)" by force
  have new: "index_of s oid = None" using indexedD [OF inv, of oid] oid(2) by (metis not_None_eq)
  have "h = bs_store s \<or> (\<exists>b. bb_id b = oid \<and>
      h = (bs_store s)\<lparr>hs_objects := AList.update oid \<lparr>ob_blob = b, ob_fs = fs, ob_path = name, ob_attached = True\<rparr>
        (hs_objects (bs_store s))\<rparr>)"
  proof (cases res)
    case (Inl e)
    then show ?thesis using att by (auto simp: Attach_def Let_def split: if_splits option.splits)
  next
    case (Inr b)
    then have "bb_id b = oid \<and> h = (bs_store s)\<lparr>hs_objects := AList.update oid
        \<lparr>ob_blob = b, ob_fs = fs, ob_path = name, ob_attached = True\<rparr> (hs_objects (bs_store s))\<rparr>"
      using att by (auto simp: Attach_def Let_def describe_def split: if_splits option.splits)
    then show ?thesis by blast
  qed
  then consider "h = bs_store s" | b where "bb_id b = oid"
      "h = (bs_store s)\<lparr>hs_objects := AList.update oid \<lparr>ob_blob = b, ob_fs = fs, ob_path = name, ob_attached = True\<rparr>
        (hs_objects (bs_store s))\<rparr>"
    by blast
  then show ?thesis
  proof cases
    case 1
    have "stored_ok (s\<lparr>bs_seen := oid # bs_seen s\<rparr>) k n \<longleftrightarrow> stored_ok s k n" for k n by (intro stored_ok_cong) simp_all
    then show ?thesis using inv 1 by (auto simp: blob_inv_def index_ok_def pending_ok_def gone_ok_def no_leak_def held_def)
  next
    case 2
    then show ?thesis
      by (intro add_inv [OF inv new _ gone]) (use oid fs pend all in \<open>auto simp: own_object_def\<close>)
  qed
qed

lemma disk_change_inv:
  assumes inv: "blob_inv s" and d: "\<forall>p. map_of d (0, p) = map_of (bs_disk s) (0, p)"
  shows "blob_inv (s\<lparr>bs_disk := d\<rparr>)"
proof -
  have "stored_ok (s\<lparr>bs_disk := d\<rparr>) k n \<longleftrightarrow> stored_ok s k n" for k n using d by (intro stored_ok_cong) simp_all
  then show ?thesis
    using inv d by (auto simp: blob_inv_def index_ok_def pending_ok_def gone_ok_def no_leak_def held_def)
qed

lemma step_inv: "blob_step escape by_ext s s' \<Longrightarrow> blob_inv s \<Longrightarrow> blob_inv s'"
proof (induction rule: blob_step.induct)
  case (step_write oid s df r opts canceled)
  then show ?case by (metis surj_pair write_inv)
qed (simp_all add: index_inv attach_inv discard_inv drop_inv lookup_drops delete_drops sweep_drops purge_drops)

lemma fresh_inv:
  assumes "hs_objects h = []"
  shows "blob_inv (fresh_sys h d)"
proof -
  have "map_of d (0, p) \<noteq> None \<Longrightarrow> p \<in> set (bs_left (fresh_sys h d))" for p
    by (force simp: fresh_sys_def dest: map_of_SomeD)
  then have "no_leak (fresh_sys h d)" unfolding no_leak_def by (auto simp: fresh_sys_def intro: heldI(1))
  then show ?thesis using assms by (simp add: blob_inv_def index_ok_def pending_ok_def gone_ok_def fresh_sys_def)
qed

theorem blob_reach_inv: "blob_reach escape by_ext s \<Longrightarrow> blob_inv s"
proof (induction rule: blob_reach.induct)
  case (reach_new parse cleared made o0 d0 h d)
  then have "hs_objects h = []" by (auto simp: NewHTTP_def Let_def split: sum.splits option.splits if_splits)
  then show ?case by (rule fresh_inv)
qed (simp_all add: step_inv disk_change_inv)

subsection \<open>What a put gives back\<close>

lemma index_byte_append: "CHR ''/'' \<notin> set a \<Longrightarrow> index_byte (a @ CHR ''/'' # b) (CHR ''/'') = Some (length a)"
  by (induction a) auto

lemma requestID_mounted:
  assumes "good_id oid"
  shows "requestID h (hs_prefix h @ ''/'' @ oid @ ''/'' @ rest) = oid"
  using assms index_byte_append [of oid rest]
  by (simp add: requestID_def trim_prefix_def cut_prefix_def has_prefix_def good_id_def)

text \<open>Mounted at the root of its own listener, the prefix must not begin an id.\<close>

lemma requestID_root:
  assumes "good_id oid" and "\<not> has_prefix (''/'' @ oid @ ''/'' @ rest) (hs_prefix h) \<or> hs_prefix h = []"
  shows "requestID h (''/'' @ oid @ ''/'' @ rest) = oid"
  using assms index_byte_append [of oid rest]
  by (auto simp: requestID_def trim_prefix_def cut_prefix_def has_prefix_def good_id_def)

definition serve_headers ::
  "(string \<Rightarrow> string option) \<Rightarrow> (string \<Rightarrow> (string \<times> string) list \<Rightarrow> string) \<Rightarrow> blob \<Rightarrow> (string \<times> string) list" where
  "serve_headers media fmt b =
     [(''Content-Type'', ServeType media (bb_mime b)), (''X-Content-Type-Options'', ''nosniff''),
      (''Content-Disposition'', ContentDisposition fmt (bb_name b)), (''Cache-Control'', ''no-store'')]"


definition keeps_foreign :: "blob_sys \<Rightarrow> blob_sys \<Rightarrow> bool" where
  "keeps_foreign s s' \<longleftrightarrow> (\<forall>fs p. fs \<noteq> 0 \<longrightarrow> map_of (bs_disk s') (fs, p) = map_of (bs_disk s) (fs, p))"

text \<open>
  C23. No bytes are forgotten: after every step each file of the store belongs to an indexed object, to a put under way or to an object about to be removed, unless removing it failed or it was there before; and no step touches a file that is not the store's own.
\<close>

theorem blob_no_leak:
  assumes "blob_reach escape by_ext s" and "blob_step escape by_ext s s'"
  shows "no_leak s' \<and> keeps_foreign s s'"
proof -
  have inv: "blob_inv s" by (rule blob_reach_inv [OF assms(1)])
  have "no_leak s'" using step_inv [OF assms(2) inv] by (simp add: blob_inv_def)
  moreover have "keeps_foreign s s'" using assms(2) inv
  proof (induction rule: blob_step.induct)
    case (step_write oid s df r opts canceled)
    obtain res d where w: "put_write (bs_store s) canceled (Some oid) df r opts (bs_disk s) = (res, d)" by force
    have "map_of d (fs, p) = map_of (bs_disk s) (fs, p)" if "fs \<noteq> 0" for fs p
      using put_write_cases [OF w] that by simp
    moreover have "bs_disk (after_write (df_remove df) oid r opts (res, d) s) = d"
      by (auto simp: after_write_def split: sum.splits prod.splits)
    ultimately show ?case by (simp add: keeps_foreign_def w)
  next
    case (step_discard ob s fails)
    then show ?case
      using goneD [of s ob] by (auto simp: keeps_foreign_def after_discard_def discard_def own_object_def)
  qed (simp_all add: keeps_foreign_def drop_objects_def)
  ultimately show ?thesis by simp
qed

subsection \<open>A store at work\<close>

definition demo_parse :: "string \<Rightarrow> parsed_url option" where
  "demo_parse u = Some \<lparr>pu_scheme = ''http'', pu_host = ''h'', pu_path = ''/blob''\<rparr>"

definition demo_store :: http_store where
  "demo_store = \<lparr>hs_base = ''http://h/blob'', hs_prefix = ''/blob'', hs_ttl = DefaultTTL, hs_max = 8, hs_objects = []\<rparr>"

definition demo_put :: put_options where
  "demo_put = \<lparr>po_name = ''a.txt'', po_mime = ''text/plain'', po_size = 5, po_ttl = 0\<rparr>"

definition demo_reader :: reader where
  "demo_reader = \<lparr>rd_data = ''hello'', rd_fails = False\<rparr>"

definition no_faults :: disk_faults where
  "no_faults = \<lparr>df_create = False, df_write = None, df_close = False, df_remove = False\<rparr>"

definition demo_written :: blob_sys where
  "demo_written = (let s = fresh_sys demo_store [] in
     after_write (df_remove no_faults) ''ab'' demo_reader demo_put (put_write (bs_store s) False (Some ''ab'') no_faults demo_reader demo_put (bs_disk s)) s)"

definition demo_indexed :: blob_sys where
  "demo_indexed = demo_written\<lparr>
     bs_store := snd (put_index (\<lambda>n. n) (\<lambda>e. []) 0 demo_put (''ab'', 5) (bs_store demo_written)),
     bs_pending := filter (\<lambda>p. fst p \<noteq> ''ab'') (bs_pending demo_written)\<rparr>"

lemma demo_new: "NewHTTP demo_parse True True \<lparr>ho_base = ''http://h/blob'', ho_fs = True, ho_ttl = 0, ho_max = 8\<rparr> [] = (Inr demo_store, [])"
  by code_simp

lemma demo_written_reach: "blob_reach (\<lambda>n. n) (\<lambda>e. []) demo_written"
  unfolding demo_written_def Let_def
  by (rule reach_step [OF reach_new [OF demo_new] step_write]) code_simp+

lemma demo_index_step: "blob_step (\<lambda>n. n) (\<lambda>e. []) demo_written demo_indexed"
  unfolding demo_indexed_def
  by (rule step_index [where now = 0 and opts = demo_put and n = 5 and b = "fst (put_index (\<lambda>n. n) (\<lambda>e. []) 0 demo_put (''ab'', 5) (bs_store demo_written))"])
    (code_simp, simp)

theorem blob_no_leak_witness: "no_leak demo_indexed \<and> keeps_foreign demo_written demo_indexed"
  by (rule blob_no_leak [OF demo_written_reach demo_index_step])

definition demo_object :: blob_object where
  "demo_object = \<lparr>ob_blob = \<lparr>bb_id = ''ab'', bb_url = ''http://h/blob/ab/a.txt'', bb_name = ''a.txt'', bb_mime = ''text/plain'',
     bb_size = 5, bb_expires = DefaultTTL\<rparr>, ob_fs = 0, ob_path = ''objects/ab'', ob_attached = False\<rparr>"

lemma demo_name: "CleanName ''a.txt'' fallback = ''a.txt''"
proof -
  have "path_base (trim_space (map (\<lambda>c. if c = CHR 0x5C then CHR ''/'' else c) ''a.txt'')) = ''a.txt''" by code_simp
  moreover have "string_of_runes (filter printable_rune (runes_of ''a.txt'')) = ''a.txt''"
    by (simp add: runes_of.simps printable_rune_def string_of_runes_def encode_ascii char_of_def bit_iff_odd)
  ultimately show ?thesis by (simp add: CleanName_def)
qed

lemma demo_path: "objectPath ''ab'' = ''objects/ab''"
  by code_simp

lemma demo_written_store: "bs_store demo_written = demo_store"
  by code_simp


text \<open>
  An id that begins with the prefix's last element loses it when the store is mounted at the root: with base path
  \<open>/a\<close> the object \<open>ab\<close> is looked up as \<open>b\<close>.
\<close>

lemma requestID_prefix_clash: "requestID (demo_store\<lparr>hs_prefix := ''/a''\<rparr>) ''/ab/a.txt'' = ''b''"
  by code_simp

subsection \<open>Shutting down\<close>

lemma blob_remove_gone:
  assumes "ob \<in> set gone" and "\<not> ob_attached ob" and "\<not> fails ob"
  shows "map_of (blob_remove fails gone d) (ob_fs ob, ob_path ob) = None"
proof -
  have keep: "map_of d f = None \<Longrightarrow> map_of (fold (\<lambda>ob. discard (fails ob) ob) gone d) f = None" for gone d f
    by (induction gone arbitrary: d) (auto simp: discard_def)
  show ?thesis using assms
  proof (induction gone arbitrary: d)
    case (Cons o' gone)
    then show ?case by (cases "o' = ob") (auto simp: blob_remove_def discard_def intro!: keep)
  qed simp
qed

text \<open>When \<open>Run\<close> returns nothing is indexed, and what was indexed and could be removed is off the disk.\<close>

lemma run_drops_everything:
  "hs_objects (fst (Run fails ticks s)) = []"
  "map_of (hs_objects (fst (fold (sweep fails) ticks s))) oid = Some ob \<Longrightarrow> \<not> ob_attached ob \<Longrightarrow> \<not> fails ob
     \<Longrightarrow> map_of (snd (Run fails ticks s)) (ob_fs ob, ob_path ob) = None"
proof -
  show "hs_objects (fst (Run fails ticks s)) = []" by (simp add: Run_def purge_def purge_section_def)
  let ?h = "fst (fold (sweep fails) ticks s)"
  assume ob: "map_of (hs_objects ?h) oid = Some ob" "\<not> ob_attached ob" "\<not> fails ob"
  then have "ob \<in> set (fst (purge_section ?h))"
    using clearjunk_values [of ob "hs_objects ?h"] by (auto simp: purge_section_def)
  from blob_remove_gone [of ob _ fails, OF this ob(2,3)]
  show "map_of (snd (Run fails ticks s)) (ob_fs ob, ob_path ob) = None"
    by (simp add: Run_def purge_def prod.case_eq_if)
qed

end
