(* ===== verification/Blob_Content.thy ===== *)
theory Blob_Content
  imports Blob_Http
begin

text \<open>
  How tools hand over files, \<open>blob/content.go\<close>, \<open>blob/ref.go\<close> and the refusing store of \<open>blob/blob.go\<close>: a payload
  goes into the tool result or into the store, and its id opens it again.

  A store is its operations on a state: \<open>put\<close> and \<open>fetch\<close>. The types of the SDK's contents are data here.
\<close>

subsection \<open>Inline or stored\<close>

definition DefaultInlineLimit :: nat where
  "DefaultInlineLimit = 256 * 1024"

function utf8_valid :: "string \<Rightarrow> bool" where
  "utf8_valid s = (if s = [] then True
     else if decode_rune s = (rune_error, 1) then False else utf8_valid (drop (snd (decode_rune s)) s))"
  by pat_completeness auto
termination
  by (relation "measure length") (auto simp: decode_rune_pos)

declare utf8_valid.simps [simp del]

datatype content =
    TextContent string
  | ImageContent string string
  | ResourceLink string string string int

definition has_suffix :: "string \<Rightarrow> string \<Rightarrow> bool" where
  "has_suffix s e \<longleftrightarrow> has_prefix (rev s) (rev e)"

definition isTextual :: "string \<Rightarrow> bool" where
  "isTextual base \<longleftrightarrow> has_prefix base ''text/'' \<or> has_suffix base ''+json'' \<or> has_suffix base ''+xml''
     \<or> base \<in> set [''application/json'', ''application/xml'', ''application/yaml'', ''application/x-yaml'', ''application/toml'']"

definition inline :: "(string \<Rightarrow> string option) \<Rightarrow> string \<Rightarrow> string \<Rightarrow> content option" where
  "inline media data mime =
     (case media mime of
        None \<Rightarrow> None
      | Some base \<Rightarrow>
          (if has_prefix base ''image/'' \<and> base \<noteq> ''image/svg+xml'' then Some (ImageContent data mime)
           else if isTextual base \<and> utf8_valid data then Some (TextContent data)
           else None))"

text \<open>\<open>Content\<close>: the head is read first, and the store gets the head and then the rest.\<close>

definition Content ::
  "(string \<Rightarrow> string option) \<Rightarrow> (string \<Rightarrow> string) \<Rightarrow> (reader \<Rightarrow> put_options \<Rightarrow> 's \<Rightarrow> (blob_error + blob) \<times> 's)
     \<Rightarrow> reader \<Rightarrow> put_options \<Rightarrow> int \<Rightarrow> 's \<Rightarrow> (blob_error + content \<times> blob option) \<times> 's" where
  "Content media by_ext put r opts inline_limit s =
     (let limit = (if inline_limit = 0 then DefaultInlineLimit else nat inline_limit);
          mime = ContentType by_ext (po_mime opts) (CleanName (po_name opts) ''blob'');
          head = take (limit + 1) (rd_data r);
          rest = drop (limit + 1) (rd_data r)
      in if rd_fails r \<and> length (rd_data r) \<le> limit then (Inl StoreObject, s)
         else
           (case (if length head \<le> limit then inline media head mime else None) of
              Some c \<Rightarrow> (Inr (c, None), s)
            | None \<Rightarrow>
                (case put (r\<lparr>rd_data := head @ rest\<rparr>) (opts\<lparr>po_mime := mime\<rparr>) s of
                   (Inl e, s') \<Rightarrow> (Inl e, s')
                 | (Inr b, s') \<Rightarrow> (Inr (ResourceLink (bb_url b) (bb_name b) (bb_mime b) (bb_size b), Some b), s'))))"

subsection \<open>References\<close>

record blob_result =
  br_blob :: string
  br_url :: string
  br_name :: string
  br_mime :: string
  br_size :: int
  br_expires :: string

definition Result :: "(int \<Rightarrow> string) \<Rightarrow> blob \<Rightarrow> blob_result" where
  "Result rfc3339 b = \<lparr>br_blob = bb_id b, br_url = bb_url b, br_name = bb_name b, br_mime = bb_mime b, br_size = bb_size b,
     br_expires = rfc3339 (bb_expires b)\<rparr>"

definition Source_Open ::
  "(string \<Rightarrow> 's \<Rightarrow> (blob_error + string \<times> blob) \<times> 's) option \<Rightarrow> string \<Rightarrow> 's \<Rightarrow> (blob_error + string \<times> blob) \<times> 's" where
  "Source_Open store source s =
     (case store of
        None \<Rightarrow> (Inl (BlobDenied ''this server was started without a blob store''), s)
      | Some fetch \<Rightarrow> if source = [] then (Inl NoSource, s) else fetch source s)"

subsection \<open>A store that refuses\<close>

definition deny_put :: "string \<Rightarrow> reader \<Rightarrow> put_options \<Rightarrow> 's \<Rightarrow> (blob_error + blob) \<times> 's" where
  "deny_put reason r opts s = (Inl (BlobDenied reason), s)"

definition deny_fetch :: "string \<Rightarrow> string \<Rightarrow> 's \<Rightarrow> (blob_error + string \<times> blob) \<times> 's" where
  "deny_fetch reason oid s = (Inl (BlobDenied reason), s)"

subsection \<open>What a tool may rely on\<close>

locale blob_contract =
  fixes put :: "reader \<Rightarrow> put_options \<Rightarrow> 's \<Rightarrow> (blob_error + blob) \<times> 's"
    and fetch :: "string \<Rightarrow> 's \<Rightarrow> (blob_error + string \<times> blob) \<times> 's"
    and ok :: "'s \<Rightarrow> bool"
  assumes put_ok: "ok s \<Longrightarrow> put r opts s = (res, s') \<Longrightarrow> ok s'"
    and put_fetch: "ok s \<Longrightarrow> put r opts s = (Inr b, s') \<Longrightarrow> fetch (bb_id b) s' = (Inr (rd_data r, b), s')"
    and put_whole: "ok s \<Longrightarrow> put r opts s = (Inr b, s') \<Longrightarrow> \<not> rd_fails r \<and> bb_size b = int (length (rd_data r)) \<and> bb_id b \<noteq> []"
begin

text \<open>Whatever \<open>Content\<close> returns stands for the whole payload, never for a part of it.\<close>

lemma content_whole:
  assumes ok: "ok s" and c: "Content media by_ext put r opts limit s = (Inr (c, b), s')"
  shows "\<not> rd_fails r \<and> ok s' \<and>
    (case b of
       None \<Rightarrow> s' = s \<and> (c = TextContent (rd_data r) \<or> (\<exists>mime. c = ImageContent (rd_data r) mime))
     | Some b \<Rightarrow> c = ResourceLink (bb_url b) (bb_name b) (bb_mime b) (int (length (rd_data r)))
         \<and> Source_Open (Some fetch) (br_blob (Result rfc3339 b)) s' = (Inr (rd_data r, b), s'))"
proof -
  define lim where "lim = (if limit = 0 then DefaultInlineLimit else nat limit)"
  define mime where "mime = ContentType by_ext (po_mime opts) (CleanName (po_name opts) ''blob'')"
  have ht: "take (lim + 1) (rd_data r) @ drop (lim + 1) (rd_data r) = rd_data r" by (rule append_take_drop_id)
  have same: "r\<lparr>rd_data := rd_data r\<rparr> = r" by simp
  have C: "Content media by_ext put r opts limit s =
    (if rd_fails r \<and> length (rd_data r) \<le> lim then (Inl StoreObject, s)
     else (case (if length (take (lim + 1) (rd_data r)) \<le> lim then inline media (take (lim + 1) (rd_data r)) mime else None) of
          Some c \<Rightarrow> (Inr (c, None), s)
        | None \<Rightarrow> (case put r (opts\<lparr>po_mime := mime\<rparr>) s of
               (Inl e, s') \<Rightarrow> (Inl e, s')
             | (Inr b, s') \<Rightarrow> (Inr (ResourceLink (bb_url b) (bb_name b) (bb_mime b) (bb_size b), Some b), s'))))"
    unfolding Content_def Let_def lim_def [symmetric] mime_def [symmetric] ht same by simp
  show ?thesis
  proof (cases b)
    case None
    then have l: "length (take (lim + 1) (rd_data r)) \<le> lim" "s' = s" "\<not> rd_fails r \<or> lim < length (rd_data r)"
      and i: "inline media (take (lim + 1) (rd_data r)) mime = Some c"
      using c unfolding C by (auto split: if_splits option.splits prod.splits sum.splits)
    then have "length (rd_data r) \<le> lim" by simp
    then have "take (lim + 1) (rd_data r) = rd_data r" by simp
    then show ?thesis using l i None ok by (auto simp: inline_def split: option.splits if_splits)
  next
    case (Some b')
    then have p: "put r (opts\<lparr>po_mime := mime\<rparr>) s = (Inr b', s')" "c = ResourceLink (bb_url b') (bb_name b') (bb_mime b') (bb_size b')"
      using c unfolding C by (auto split: if_splits option.splits prod.splits sum.splits)
    show ?thesis
      using put_ok [OF ok p(1)] put_fetch [OF ok p(1)] put_whole [OF ok p(1)] p(2) Some
      by (simp add: Source_Open_def Result_def)
  qed
qed

end

text \<open>The store over HTTP keeps the contract, at an instant: what is put can be opened before its time is over.\<close>

definition http_put ::
  "(string \<Rightarrow> string) \<Rightarrow> (string \<Rightarrow> string) \<Rightarrow> (http_store \<Rightarrow> string option) \<Rightarrow> disk_faults \<Rightarrow> int
     \<Rightarrow> reader \<Rightarrow> put_options \<Rightarrow> http_store \<times> disk \<Rightarrow> (blob_error + blob) \<times> http_store \<times> disk" where
  "http_put escape by_ext new_id df now r opts s =
     Put escape by_ext False (new_id (fst s)) df now r opts (fst s) (snd s)"

definition http_fetch :: "int \<Rightarrow> string \<Rightarrow> http_store \<times> disk \<Rightarrow> (blob_error + string \<times> blob) \<times> http_store \<times> disk" where
  "http_fetch now oid s = blob_Open False now False oid (fst s) (snd s)"

lemma Put_ok:
  assumes "Put escape by_ext canceled (Some oid) df now r opts h d = (Inr b, h', d')"
  shows "\<not> rd_fails r \<and> bb_id b = oid \<and> bb_size b = int (length (rd_data r)) \<and> hs_ttl h' = hs_ttl h
    \<and> bb_expires b = now + (if po_ttl opts \<le> 0 then hs_ttl h else po_ttl opts)
    \<and> map_of (hs_objects h') oid = Some \<lparr>ob_blob = b, ob_fs = 0, ob_path = objectPath oid, ob_attached = False\<rparr>
    \<and> map_of d' (0, objectPath oid) = Some (rd_data r)"
proof -
  obtain res d1 where w: "put_write h canceled (Some oid) df r opts d = (res, d1)" by force
  then obtain x where x: "res = Inr x" using assms by (cases res) (auto simp: Put_def)
  then have x': "x = (oid, length (rd_data r))" "map_of d1 (0, objectPath oid) = Some (rd_data r)" "length (rd_data r) \<le> hs_max h"
    using put_write_cases [OF w] by auto
  have "\<not> rd_fails r"
    using w x x'(3) by (auto simp: put_write_def write_object_def Let_def split: if_splits option.splits)
  then show ?thesis using assms w x x' by (auto simp: Put_def put_index_def describe_def Let_def)
qed

lemma http_contract:
  assumes "\<And>h. new_id h \<noteq> Some []"
  shows "blob_contract (http_put escape by_ext new_id df now) (http_fetch now) (\<lambda>s. 0 < hs_ttl (fst s))"
proof
  fix s r opts res s'
  assume ttl: "0 < hs_ttl (fst s)" and p: "http_put escape by_ext new_id df now r opts s = (res, s')"
  show "0 < hs_ttl (fst s')"
  proof (cases "new_id (fst s)")
    case None
    then show ?thesis using p ttl by (auto simp: http_put_def Put_def put_write_def split: if_splits)
  next
    case (Some oid)
    then show ?thesis using p ttl Put_ok [of escape by_ext False oid df now r opts "fst s" "snd s" _ "fst s'" "snd s'"]
      by (cases res) (auto simp: http_put_def Put_def split: sum.splits prod.splits)
  qed
next
  fix s r opts b s'
  assume ttl: "0 < hs_ttl (fst s)" and p: "http_put escape by_ext new_id df now r opts s = (Inr b, s')"
  obtain oid where oid: "new_id (fst s) = Some oid"
    using p by (cases "new_id (fst s)") (auto simp: http_put_def Put_def put_write_def split: if_splits)
  have P: "Put escape by_ext False (Some oid) df now r opts (fst s) (snd s) = (Inr b, fst s', snd s')"
    using p oid by (simp add: http_put_def)
  note ok = Put_ok [OF P]
  have "now < bb_expires b" using ok ttl by simp
  then show "http_fetch now (bb_id b) s' = (Inr (rd_data r, b), s')"
    using ok by (cases s') (simp add: http_fetch_def blob_Open_def blob_lookup_def lookup_section_def)
  show "\<not> rd_fails r \<and> bb_size b = int (length (rd_data r)) \<and> bb_id b \<noteq> []" using ok oid assms by auto
qed

definition uuid_of :: "(http_store \<Rightarrow> string) \<Rightarrow> http_store \<Rightarrow> string option" where
  "uuid_of f h = (if f h = [] then None else Some (f h))"

interpretation http_blobs: blob_contract "http_put escape by_ext (uuid_of f) df now" "http_fetch now" "\<lambda>s. 0 < hs_ttl (fst s)"
  by (rule http_contract) (simp add: uuid_of_def)

interpretation denied: blob_contract "deny_put reason" "deny_fetch reason" "\<lambda>_. True"
  by unfold_locales (simp_all add: deny_put_def)



text \<open>A negative limit is documented to store always; an empty text is still returned inline.\<close>

lemma empty_text_inlined:
  "Content Some (\<lambda>e. []) put \<lparr>rd_data = [], rd_fails = False\<rparr> demo_put (- 1) s = (Inr (TextContent [], None), s)"
  by (simp add: Content_def ContentType_def demo_put_def inline_def isTextual_def has_prefix_def utf8_valid.simps)

end
