(* ===== verification/Ses_Names.thy ===== *)
theory Ses_Names
  imports Blob_Util Gw_Features
begin

text \<open>
  Names and texts of the SSH session pool: session ids (\<open>internal/session/session_id.go\<close>), what is kept of a server's
  banner and version (\<open>pool_handlers.go\<close>), and the command line a request runs (\<open>executeCommand\<close> in \<open>pool.go\<close>).

  The random indices and the clock are arguments. \<open>quote\<close> is \<open>shellquote.Join\<close> of one word.
\<close>

subsection \<open>Session ids\<close>

definition adjectives :: "string list" where
  "adjectives = [''cool'', ''silly'', ''brave'', ''happy'', ''clever'', ''eager'', ''funny'', ''gentle'',
     ''jolly'', ''kind'', ''lively'', ''nice'', ''proud'', ''quiet'', ''witty'', ''young'',
     ''zany'', ''fancy'', ''mighty'', ''swift'', ''calm'', ''bold'', ''wise'', ''merry'',
     ''plucky'', ''spry'', ''zesty'', ''quirky'', ''jovial'', ''vibrant'']"

definition surnames :: "string list" where
  "surnames = [''einstein'', ''newton'', ''darwin'', ''curie'', ''tesla'', ''hopper'', ''lovelace'',
     ''turing'', ''galileo'', ''kepler'', ''pasteur'', ''nobel'', ''bohr'', ''fermi'',
     ''feynman'', ''hawking'', ''torvalds'', ''knuth'', ''dijkstra'', ''musk'', ''neumann'',
     ''oppenheimer'', ''shannon'', ''babbage'', ''ellis'', ''carver'', ''cerf'', ''kahn'', ''ritchie'',
     ''pike'', ''postel'', ''keller'']"

definition slug_rune :: "nat \<Rightarrow> bool" where
  "slug_rune r \<longleftrightarrow> 97 \<le> r \<and> r \<le> 122 \<or> 48 \<le> r \<and> r \<le> 57 \<or> r = 45 \<or> r = 95"

fun slug_loop :: "string \<Rightarrow> nat list \<Rightarrow> string" where
  "slug_loop out [] = out"
| "slug_loop out (r # rs) =
     slug_loop (if slug_rune r then out @ encode_rune r else if out \<noteq> [] then out @ ''-'' else out) rs"

definition trim_dashes :: "string \<Rightarrow> string" where
  "trim_dashes s = trim_right_byte (dropWhile (\<lambda>c. c = CHR ''-'') s) (CHR ''-'')"

definition machineSlug :: "(string \<Rightarrow> string) \<Rightarrow> string \<Rightarrow> string" where
  "machineSlug uni m =
     (let m1 = (case cut_last (CHR ''@'') m of Some (_, h) \<Rightarrow> h | None \<Rightarrow> m);
          m2 = (case cut_last (CHR '':'') m1 of Some (h, _) \<Rightarrow> h | None \<Rightarrow> m1);
          m3 = to_lower uni (trim_space m2);
          s = trim_dashes (slug_loop [] (runes_of m3))
      in if s = [] then ''host'' else s)"

definition random_name :: "string \<Rightarrow> nat \<times> nat \<Rightarrow> string" where
  "random_name slug ij =
     slug @ ''-'' @ adjectives ! (fst ij mod length adjectives) @ ''-'' @ surnames ! (snd ij mod length surnames)"

definition generateSessionID :: "(string \<Rightarrow> string) \<Rightarrow> string \<Rightarrow> (string \<Rightarrow> bool) \<Rightarrow> (nat \<Rightarrow> nat \<times> nat) \<Rightarrow> nat \<Rightarrow> string" where
  "generateSessionID uni machine taken draw nano =
     (let slug = machineSlug uni machine in
      case find (\<lambda>sid. \<not> taken sid) (map (\<lambda>i. random_name slug (draw i)) [0..<100]) of
        Some sid \<Rightarrow> sid
      | None \<Rightarrow> slug @ ''-'' @ dec_nat nano)"

subsection \<open>What a server says of itself\<close>

definition truncateBanner :: "string \<Rightarrow> string" where
  "truncateBanner s =
     (let t = trim_space s;
          line = trim_space (case str_cut t (CHR 0x0A) of Some (l, _) \<Rightarrow> l | None \<Rightarrow> t)
      in if length line \<le> 100 then line else take (trim_loop line 100 0) line)"

definition detectPlatform :: "string \<Rightarrow> string" where
  "detectPlatform v =
     (if str_contains v ''Cisco'' then ''cisco''
      else if str_contains v ''ROSSSH'' then ''mikrotik''
      else if str_contains v ''OpenSSH_for_Windows'' then ''windows''
      else if str_contains v ''OpenSSH'' then ''linux''
      else ''unknown'')"

subsection \<open>The command line\<close>

record exec_request =
  ex_session :: string
  ex_command :: string
  ex_cwd :: string
  ex_sudo :: bool
  ex_password :: string
  ex_stdin :: string
  ex_description :: string
  ex_comment :: bool

definition replace_byte :: "char \<Rightarrow> string \<Rightarrow> string \<Rightarrow> string" where
  "replace_byte b r s = concat (map (\<lambda>c. if c = b then r else [c]) s)"

definition exec_text :: "exec_request \<Rightarrow> string" where
  "exec_text r =
     (if ex_comment r \<and> ex_description r \<noteq> []
      then (let desc = replace_byte (CHR 0x0D) '' '' (replace_byte (CHR 0x0A) '' '' (ex_description r)) in
            ex_command r @ '' # '' @ replace_byte (CHR ''#'') [CHR 0x5C, CHR ''#''] desc)
      else ex_command r)"

definition exec_full :: "(string \<Rightarrow> string) \<Rightarrow> exec_request \<Rightarrow> string" where
  "exec_full quote r =
     (let full = (if ex_cwd r \<noteq> [] then ''cd '' @ quote (ex_cwd r) @ '' && '' @ exec_text r else exec_text r) in
      if ex_sudo r then
        (if ex_password r \<noteq> [] then ''sudo -S -p '' @ [CHR 0x22, CHR 0x22] @ '' -- sh -c '' @ quote full
         else ''sudo -n -- sh -c '' @ quote full)
      else full)"

definition exec_stdin :: "exec_request \<Rightarrow> string option" where
  "exec_stdin r =
     (if ex_sudo r \<and> ex_password r \<noteq> [] then Some (ex_password r @ [CHR 0x0A] @ ex_stdin r)
      else if ex_stdin r \<noteq> [] then Some (ex_stdin r) else None)"

subsection \<open>Ids are plain names\<close>

definition slug_char :: "char \<Rightarrow> bool" where
  "slug_char c \<longleftrightarrow> slug_rune (byte_of c)"

lemma slug_encode: "slug_rune r \<Longrightarrow> encode_rune r = [char_of r] \<and> slug_char (char_of r)"
  by (auto simp: slug_rune_def slug_char_def encode_ascii)

lemma slug_loop_chars: "\<forall>c\<in>set out. slug_char c \<Longrightarrow> \<forall>c\<in>set (slug_loop out rs). slug_char c"
proof (induction rs arbitrary: out)
  case (Cons r rs)
  have "slug_char (CHR ''-'')" by (simp add: slug_char_def slug_rune_def)
  then have "\<forall>c\<in>set (if slug_rune r then out @ encode_rune r else if out \<noteq> [] then out @ ''-'' else out). slug_char c"
    using Cons.prems slug_encode [of r] by auto
  from Cons.IH [OF this] show ?case by simp
qed simp

lemma machineSlug_chars: "machineSlug uni m \<noteq> [] \<and> (\<forall>c\<in>set (machineSlug uni m). slug_char c)"
proof -
  have "\<forall>c\<in>set (slug_loop [] rs). slug_char c" for rs by (rule slug_loop_chars) simp
  then have "\<forall>c\<in>set (trim_dashes (slug_loop [] rs)). slug_char c" for rs
    unfolding trim_dashes_def trim_right_byte_def by (metis set_dropWhileD set_rev)
  moreover have "\<forall>c\<in>set ''host''. slug_char c" by (simp add: slug_char_def slug_rune_def)
  ultimately show ?thesis by (simp add: machineSlug_def Let_def del: set_simps)
qed

lemma name_lists: "(\<forall>w\<in>set adjectives. \<forall>c\<in>set w. slug_char c)" "(\<forall>w\<in>set surnames. \<forall>c\<in>set w. slug_char c)"
  by code_simp+

lemma dec_nat_chars: "\<forall>c\<in>set (dec_nat n). slug_char c"
proof (induction n rule: dec_nat.induct)
  case (1 n)
  have d: "slug_char (char_of (48 + k))" if "k < 10" for k :: nat using that by (simp add: slug_char_def slug_rune_def)
  show ?case
  proof (cases "n < 10")
    case True
    then show ?thesis using d [of n] by (subst dec_nat.simps) simp
  next
    case False
    then show ?thesis using 1 d [of "n mod 10"] by (subst dec_nat.simps) auto
  qed
qed

definition plain_name :: "string \<Rightarrow> bool" where
  "plain_name s \<longleftrightarrow> plain_elem s \<and> (\<forall>c\<in>set s. slug_char c)"

lemma plain_nameI: "s \<noteq> [] \<Longrightarrow> \<forall>c\<in>set s. slug_char c \<Longrightarrow> plain_name s"
proof -
  assume s: "s \<noteq> []" "\<forall>c\<in>set s. slug_char c"
  have "\<not> slug_char (CHR ''.'')" by (simp add: slug_char_def slug_rune_def)
  then have "CHR ''.'' \<notin> set s" using s(2) by blast
  then have "s \<noteq> ''.''" "s \<noteq> ''..''" by auto
  then show ?thesis using s by (simp add: plain_name_def plain_elem_def)
qed

lemma random_name_chars: "\<forall>c\<in>set slug. slug_char c \<Longrightarrow> \<forall>c\<in>set (random_name slug ij). slug_char c"
proof -
  assume slug: "\<forall>c\<in>set slug. slug_char c"
  have n: "adjectives ! (fst ij mod length adjectives) \<in> set adjectives" "surnames ! (snd ij mod length surnames) \<in> set surnames"
    by (intro nth_mem mod_less_divisor; simp add: adjectives_def surnames_def)+
  have "slug_char (CHR ''-'')" by (simp add: slug_char_def slug_rune_def)
  then show ?thesis unfolding random_name_def set_append
    using slug bspec [OF name_lists(1) n(1)] bspec [OF name_lists(2) n(2)] by (simp add: ball_Un)
qed

text \<open>
  Whatever a machine is called, the id of its session is a plain file name of small letters, digits, dashes and
  underscores: the spool directory named after it is one of its own below the spool root, never the root or a path
  out of it.
\<close>

theorem session_id_plain: "plain_name (generateSessionID uni machine taken draw nano)"
proof -
  let ?slug = "machineSlug uni machine"
  note slug = machineSlug_chars [of uni machine]
  show ?thesis
  proof (cases "find (\<lambda>sid. \<not> taken sid) (map (\<lambda>i. random_name ?slug (draw i)) [0..<100])")
    case None
    have "\<forall>c\<in>set (?slug @ ''-'' @ dec_nat nano). slug_char c"
      using slug dec_nat_chars by (auto simp: slug_char_def slug_rune_def)
    moreover have "?slug @ ''-'' @ dec_nat nano \<noteq> []" by simp
    ultimately have "plain_name (?slug @ ''-'' @ dec_nat nano)" using plain_nameI by blast
    then show ?thesis by (simp add: generateSessionID_def None)
  next
    case (Some sid)
    then obtain i where "sid = random_name ?slug (draw i)" by (auto simp: find_Some_iff)
    then have "\<forall>c\<in>set sid. slug_char c" "sid \<noteq> []"
      using random_name_chars [of ?slug "draw i"] slug by simp_all (simp add: random_name_def)
    then show ?thesis using plain_nameI by (simp add: generateSessionID_def Some)
  qed
qed

lemma generateSessionID_free:
  assumes "i < 100" and "\<not> taken (random_name (machineSlug uni machine) (draw i))"
  shows "\<not> taken (generateSessionID uni machine taken draw nano)"
proof -
  let ?names = "map (\<lambda>i. random_name (machineSlug uni machine) (draw i)) [0..<100]"
  have "random_name (machineSlug uni machine) (draw i) \<in> set ?names" using assms(1) by simp
  then obtain sid where "find (\<lambda>sid. \<not> taken sid) ?names = Some sid"
    using assms(2) by (metis find_None_iff not_Some_eq)
  moreover from this have "\<not> taken sid" by (auto simp: find_Some_iff)
  ultimately show ?thesis by (simp add: generateSessionID_def)
qed

subsection \<open>Banners\<close>

text \<open>
  What is kept of a banner is at most 100 bytes, a beginning of its first line that cuts no character in two.
\<close>

theorem banner_bounded:
  "length (truncateBanner s) \<le> 100 \<and>
   (\<exists>line k. prefix (truncateBanner s) line \<and> runes_of (truncateBanner s) = take k (runes_of line) \<and> CHR 0x0A \<notin> set line
      \<and> set line \<subseteq> set s)"
proof -
  define t where "t = trim_space s"
  define line where "line = trim_space (case str_cut t (CHR 0x0A) of Some (l, _) \<Rightarrow> l | None \<Rightarrow> t)"
  have T: "truncateBanner s = (if length line \<le> 100 then line else take (trim_loop line 100 0) line)"
    unfolding truncateBanner_def Let_def t_def line_def ..
  have cut: "set (case str_cut t (CHR 0x0A) of Some (l, _) \<Rightarrow> l | None \<Rightarrow> t) \<subseteq> set t - {CHR 0x0A}"
  proof (cases "index_byte t (CHR 0x0A)")
    case None
    then show ?thesis using index_byte_None [of t "CHR 0x0A"] by (auto simp: str_cut_def)
  next
    case (Some i)
    then have "CHR 0x0A \<notin> set (take i t)" using index_byte_SomeD by fast
    then show ?thesis using Some set_take_subset [of i t] by (auto simp: str_cut_def)
  qed
  have "set line \<subseteq> set t - {CHR 0x0A}" using trim_space_set cut unfolding line_def by blast
  then have l: "CHR 0x0A \<notin> set line" "set line \<subseteq> set s" using trim_space_set [of s] unfolding t_def by auto
  show ?thesis
  proof (cases "length line \<le> 100")
    case True
    have "runes_of line = take (length (runes_of line)) (runes_of line)" by simp
    then show ?thesis using True l T by (metis prefix_order.refl)
  next
    case False
    from trim_loop_spec [of 0 100 line] False
    have b: "trim_loop line 100 0 \<le> 100" "\<exists>k. runes_of (take (trim_loop line 100 0) line) = take k (runes_of line)" by auto
    then show ?thesis using False l unfolding T by (simp add: take_is_prefix) (metis take_is_prefix)
  qed
qed

subsection \<open>Command lines\<close>

definition one_line :: "string \<Rightarrow> bool" where
  "one_line s \<longleftrightarrow> CHR 0x0A \<notin> set s \<and> CHR 0x0D \<notin> set s"

lemma replace_byte_set: "set (replace_byte b r s) \<subseteq> (set s - {b}) \<union> set r"
  by (auto simp: replace_byte_def split: if_splits)

text \<open>
  The sudo password never reaches the command line, where the process list would show it: requests that differ
  in the password alone run the same command, and it leads the standard input. A description stays on the line it
  comments: it adds no line to the command.
\<close>

theorem exec_hides_password:
  assumes "ex_sudo r" and "p \<noteq> []" and "p' \<noteq> []"
  shows "exec_full quote (r\<lparr>ex_password := p\<rparr>) = exec_full quote (r\<lparr>ex_password := p'\<rparr>)
    \<and> exec_stdin (r\<lparr>ex_password := p\<rparr>) = Some (p @ CHR 0x0A # ex_stdin r)
    \<and> prefix (ex_command r) (exec_text r) \<and> one_line (drop (length (ex_command r)) (exec_text r))"
proof -
  define d where "d = replace_byte (CHR 0x0D) '' '' (replace_byte (CHR 0x0A) '' '' (ex_description r))"
  have "set d \<subseteq> (set (replace_byte (CHR 0x0A) '' '' (ex_description r)) - {CHR 0x0D}) \<union> {CHR '' ''}"
    unfolding d_def using replace_byte_set [of "CHR 0x0D" "'' ''"] by simp
  moreover have "CHR 0x0A \<notin> set (replace_byte (CHR 0x0A) '' '' (ex_description r))"
    using replace_byte_set [of "CHR 0x0A" "'' ''" "ex_description r"] by auto
  ultimately have "CHR 0x0A \<notin> set d" "CHR 0x0D \<notin> set d" by auto
  then have tail: "one_line ('' # '' @ replace_byte (CHR ''#'') [CHR 0x5C, CHR ''#''] d)"
    using replace_byte_set [of "CHR ''#''" "[CHR 0x5C, CHR ''#'']" d] by (auto simp: one_line_def)
  have body: "exec_text r = (if ex_comment r \<and> ex_description r \<noteq> []
      then ex_command r @ '' # '' @ replace_byte (CHR ''#'') [CHR 0x5C, CHR ''#''] d else ex_command r)"
    by (simp add: exec_text_def d_def Let_def)
  have "prefix (ex_command r) (exec_text r)" "one_line (drop (length (ex_command r)) (exec_text r))"
    using tail by (simp_all add: body) (simp add: one_line_def)
  moreover have "exec_text (r\<lparr>ex_password := p\<rparr>) = exec_text (r\<lparr>ex_password := p'\<rparr>)" by (simp add: exec_text_def)
  ultimately show ?thesis using assms by (simp add: exec_full_def exec_stdin_def)
qed

definition demo_exec :: exec_request where
  "demo_exec = \<lparr>ex_session = ''s'', ex_command = ''id'', ex_cwd = [], ex_sudo = True, ex_password = [], ex_stdin = [],
     ex_description = ''why'' @ [CHR 0x0A] @ ''not'', ex_comment = True\<rparr>"

theorem exec_hides_password_witness:
  "exec_full (\<lambda>w. w) (demo_exec\<lparr>ex_password := ''a''\<rparr>) = exec_full (\<lambda>w. w) (demo_exec\<lparr>ex_password := ''b''\<rparr>)
   \<and> one_line (drop (length (ex_command demo_exec)) (exec_text demo_exec))"
  using exec_hides_password [of demo_exec "''a''" "''b''" "\<lambda>w. w"] by (simp only: demo_exec_def exec_request.simps) simp

text \<open>A description is appended to the last line, also where that line ends a here document and must stand alone.\<close>

lemma description_breaks_here_document:
  "exec_text (demo_exec\<lparr>ex_command := ''cat <<E'' @ [CHR 0x0A] @ ''x'' @ [CHR 0x0A] @ ''E'', ex_description := ''why''\<rparr>)
   = ''cat <<E'' @ [CHR 0x0A] @ ''x'' @ [CHR 0x0A] @ ''E # why''"
  by code_simp

end
