(* ===== verification/Ses_Job.thy ===== *)
theory Ses_Job
  imports Gw_Prelude Complex_Main
begin

text \<open>
  One file transfer, \<open>internal/session/job.go\<close> and the control flow of \<open>internal/session/scp.go\<close>: the job's record,
  its operations under the lock, and its goroutine, which opens the source, makes an SFTP client, hands it to the job
  as the thing to close, and copies.

  A context is the cause it was canceled with, if any. SFTP clients and the bytes copied are the outside: a client is
  open or closed, and a copy may fail at any time, and must once its client is closed.
\<close>

subsection \<open>State\<close>

datatype transfer_status = TransferRunning | TransferCompleted | TransferFailed | TransferCanceled

datatype transfer_error =
    ErrTransferCanceled
  | ErrSessionClosed
  | ErrContextCanceled
  | ErrOther string

record transfer_job =
  tj_id :: string
  tj_session :: string
  tj_local :: string
  tj_remote :: string
  tj_started :: int
  tj_source :: bool
  tj_sink :: bool
  tj_total :: int
  tj_bytes :: int
  tj_finished :: int
  tj_last_at :: "int option"
  tj_last :: int
  tj_status :: transfer_status
  tj_err :: "transfer_error option"
  tj_done :: bool
  tj_closer :: bool
  tj_aborted :: bool
  tj_ctx :: "transfer_error option"
  tj_done_chan :: bool

definition newTransferJob :: "transfer_error option \<Rightarrow> string \<Rightarrow> string \<Rightarrow> string \<Rightarrow> string \<Rightarrow> int \<Rightarrow> transfer_job" where
  "newTransferJob parent jid session local_path remote_path now =
     \<lparr>tj_id = jid, tj_session = session, tj_local = local_path, tj_remote = remote_path, tj_started = now,
      tj_source = False, tj_sink = False, tj_total = 0, tj_bytes = 0, tj_finished = 0, tj_last_at = None, tj_last = 0, tj_status = TransferRunning,
      tj_err = None, tj_done = False, tj_closer = False, tj_aborted = False, tj_ctx = parent, tj_done_chan = False\<rparr>"

text \<open>A context keeps the first cause.\<close>

definition cancel_ctx :: "transfer_error \<Rightarrow> transfer_error option \<Rightarrow> transfer_error option" where
  "cancel_ctx cause c = (case c of None \<Rightarrow> Some cause | Some c' \<Rightarrow> Some c')"

definition setTotal :: "int \<Rightarrow> transfer_job \<Rightarrow> transfer_job" where
  "setTotal n j = j\<lparr>tj_total := n\<rparr>"

definition job_add :: "int \<Rightarrow> transfer_job \<Rightarrow> transfer_job" where
  "job_add n j = j\<lparr>tj_bytes := tj_bytes j + n\<rparr>"

definition setCloser :: "transfer_job \<Rightarrow> bool \<times> transfer_job" where
  "setCloser j = (if tj_aborted j then (False, j) else (True, j\<lparr>tj_closer := True\<rparr>))"

text \<open>
  \<open>abortCause\<close>: the section under the lock, which says whether this call aborts the job and whether it takes the
  closer; then, the lock released, the context is canceled.
\<close>

definition abort_section :: "transfer_job \<Rightarrow> (bool \<times> bool) \<times> transfer_job" where
  "abort_section j =
     (if tj_aborted j then ((False, False), j)
      else ((True, tj_closer j), j\<lparr>tj_aborted := True, tj_closer := False\<rparr>))"

definition job_cancel :: "transfer_error \<Rightarrow> transfer_job \<Rightarrow> transfer_job" where
  "job_cancel cause j = j\<lparr>tj_ctx := cancel_ctx cause (tj_ctx j)\<rparr>"

definition abortCause :: "transfer_error \<Rightarrow> transfer_job \<Rightarrow> bool \<times> transfer_job" where
  "abortCause cause j =
     (let ((first, closer), j') = abort_section j in (closer, if first then job_cancel cause j' else j'))"

definition finish :: "int \<Rightarrow> transfer_error option \<Rightarrow> transfer_job \<Rightarrow> transfer_job" where
  "finish now err j =
     (let err' = (case err of
                    None \<Rightarrow> None
                  | Some e \<Rightarrow> (case tj_ctx j of
                       Some c \<Rightarrow> (if c \<noteq> ErrContextCanceled then Some c else Some e)
                     | None \<Rightarrow> Some e));
          j1 = j\<lparr>tj_finished := now, tj_done := True, tj_closer := False\<rparr>;
          j2 = (case err' of
                  None \<Rightarrow> j1\<lparr>tj_status := TransferCompleted\<rparr>
                | Some ErrTransferCanceled \<Rightarrow> j1\<lparr>tj_status := TransferCanceled, tj_err := err'\<rparr>
                | Some e \<Rightarrow> j1\<lparr>tj_status := TransferFailed, tj_err := err'\<rparr>)
      in j2\<lparr>tj_ctx := cancel_ctx ErrContextCanceled (tj_ctx j2), tj_done_chan := True\<rparr>)"

definition terminal :: "transfer_job \<Rightarrow> bool" where
  "terminal j \<longleftrightarrow> tj_done_chan j"

definition finishedAt :: "transfer_job \<Rightarrow> int option" where
  "finishedAt j = (if tj_done j then Some (tj_finished j) else None)"

subsection \<open>Progress\<close>

text \<open>Speeds and times are exact here, where the code has \<open>float64\<close>; times are nanoseconds.\<close>

definition minTransferSampleInterval :: int where
  "minTransferSampleInterval = 500 * 1000000"

definition seconds :: "int \<Rightarrow> rat" where
  "seconds ns = of_int ns / 1000000000"

record transfer_snapshot =
  sn_bytes :: int
  sn_total :: int
  sn_percent :: rat
  sn_instant :: rat
  sn_average :: rat
  sn_duration :: rat
  sn_eta :: rat
  sn_done :: bool
  sn_status :: transfer_status
  sn_err :: "transfer_error option"

definition transferStats ::
  "int \<Rightarrow> int \<Rightarrow> int option \<Rightarrow> int option \<Rightarrow> int \<Rightarrow> int \<Rightarrow> int \<Rightarrow> bool \<Rightarrow> rat \<times> rat \<times> rat \<times> rat" where
  "transferStats now started finished last_at sampled current tot done' =
     (let end_at = (case finished of Some t \<Rightarrow> (if done' then t else now) | None \<Rightarrow> now);
          elapsed = seconds (end_at - started);
          duration = (if elapsed > 0 then elapsed else 0);
          average = (if elapsed > 0 then of_int current / elapsed else 0);
          instant = (case last_at of
             None \<Rightarrow> 0
           | Some t \<Rightarrow> (let e = seconds (end_at - t) in if e > 0 then of_int (current - sampled) / e else 0));
          instant = (if done' \<and> instant = 0 then average else instant);
          remaining = tot - current;
          eta = (if \<not> done' \<and> remaining > 0 \<and> average > 0 then of_int remaining / average else 0)
      in (instant, average, duration, eta))"

definition job_sample :: "int \<Rightarrow> transfer_job \<Rightarrow> transfer_job" where
  "job_sample now j =
     (if \<not> tj_done j \<and> (case tj_last_at j of None \<Rightarrow> True | Some t \<Rightarrow> now - t \<ge> minTransferSampleInterval)
      then j\<lparr>tj_last_at := Some now, tj_last := tj_bytes j\<rparr> else j)"

definition newTransferSnapshot :: "int \<Rightarrow> transfer_job \<Rightarrow> transfer_snapshot \<times> transfer_job" where
  "newTransferSnapshot now j =
     (let percent = (if tj_total j > 0 then of_int (tj_bytes j) / of_int (tj_total j) * 100
                     else if tj_status j = TransferCompleted then 100 else 0);
          (instant, average, duration, eta) =
            transferStats now (tj_started j) (finishedAt j) (tj_last_at j) (tj_last j) (tj_bytes j) (tj_total j) (tj_done j)
      in (\<lparr>sn_bytes = tj_bytes j, sn_total = tj_total j, sn_percent = percent, sn_instant = instant, sn_average = average,
            sn_duration = duration, sn_eta = eta, sn_done = tj_done j, sn_status = tj_status j, sn_err = tj_err j\<rparr>,
          job_sample now j))"

subsection \<open>The transfer at work\<close>

text \<open>
  Where the goroutine is: before its source is open, before it has a client, between making the client and handing
  it over, copying, or about to record how it ended.
\<close>

datatype job_pc =
    JStart
  | JSourced
  | JClient
  | JCopy
  | JEnd "transfer_error option"
  | JDone

datatype client_state = NoClient | ClientOpen | ClientClosed

text \<open>
  \<open>js_pending\<close>: an abort that has left its critical section and not canceled the context yet, with its cause and the
  closer it took. \<open>js_closing\<close>: a goroutine that was handed the closer and has not closed it yet. \<open>js_copied\<close> is a
  ghost: the copy ran to its end.
\<close>

record job_sys =
  js_job :: transfer_job
  js_pc :: job_pc
  js_client :: client_state
  js_pending :: "(transfer_error \<times> bool) option"
  js_closing :: bool
  js_copied :: bool

definition new_job_sys :: "transfer_job \<Rightarrow> job_sys" where
  "new_job_sys j =
     \<lparr>js_job = j, js_pc = JStart, js_client = NoClient, js_pending = None, js_closing = False, js_copied = False\<rparr>"

text \<open>When the transfer returns, its deferred calls close the client.\<close>

definition job_end :: "transfer_error option \<Rightarrow> job_sys \<Rightarrow> job_sys" where
  "job_end r s = s\<lparr>js_pc := JEnd r, js_client := (if js_client s = ClientOpen then ClientClosed else js_client s)\<rparr>"

inductive job_step :: "job_sys \<Rightarrow> job_sys \<Rightarrow> bool" where
  job_source_fails: "js_pc s = JStart \<Longrightarrow> job_step s (job_end (Some e) s)"
| job_source_opens: "js_pc s = JStart \<Longrightarrow> job_step s (s\<lparr>js_pc := JSourced, js_job := setTotal n (js_job s)\<rparr>)"
| job_client_fails: "js_pc s = JSourced \<Longrightarrow> job_step s (job_end (Some e) s)"
| job_client_made: "js_pc s = JSourced \<Longrightarrow> job_step s (s\<lparr>js_pc := JClient, js_client := ClientOpen\<rparr>)"
| job_client_handed:
    "js_pc s = JClient \<Longrightarrow> setCloser (js_job s) = (True, j) \<Longrightarrow> job_step s (s\<lparr>js_pc := JCopy, js_job := j\<rparr>)"
| job_client_refused:
    "js_pc s = JClient \<Longrightarrow> setCloser (js_job s) = (False, j) \<Longrightarrow> job_step s (job_end (tj_ctx j) s)"
| job_copies: "js_pc s = JCopy \<Longrightarrow> js_client s = ClientOpen \<Longrightarrow> job_step s (s\<lparr>js_job := job_add n (js_job s)\<rparr>)"
| job_copy_fails: "js_pc s = JCopy \<Longrightarrow> job_step s (job_end (Some e) s)"
| job_copy_ends: "js_pc s = JCopy \<Longrightarrow> js_client s = ClientOpen \<Longrightarrow> job_step s (job_end None (s\<lparr>js_copied := True\<rparr>))"
| job_finishes: "js_pc s = JEnd err \<Longrightarrow> job_step s (s\<lparr>js_pc := JDone, js_job := finish now err (js_job s)\<rparr>)"

text \<open>What happens to it from the outside: an abort, in its two parts, the cancellation of the session's context, its parent, and the
  goroutine that closes the client.\<close>

definition abort_begin :: "transfer_error \<Rightarrow> job_sys \<Rightarrow> job_sys" where
  "abort_begin cause s =
     (let ((first, closer), j) = abort_section (js_job s) in
      s\<lparr>js_job := j, js_pending := (if first then Some (cause, closer) else js_pending s)\<rparr>)"

definition abort_end :: "job_sys \<Rightarrow> job_sys" where
  "abort_end s =
     (case js_pending s of
        None \<Rightarrow> s
      | Some (cause, closer) \<Rightarrow>
          s\<lparr>js_job := job_cancel cause (js_job s), js_pending := None, js_closing := js_closing s \<or> closer\<rparr>)"

definition parent_canceled :: "transfer_error \<Rightarrow> job_sys \<Rightarrow> job_sys" where
  "parent_canceled cause s = s\<lparr>js_job := job_cancel cause (js_job s)\<rparr>"

definition close_client :: "job_sys \<Rightarrow> job_sys" where
  "close_client s = s\<lparr>js_closing := False, js_client := (if js_client s = ClientOpen then ClientClosed else js_client s)\<rparr>"

inductive job_own :: "job_sys \<Rightarrow> job_sys \<Rightarrow> bool" where
  own_step: "job_step s s' \<Longrightarrow> job_own s s'"
| own_abort_end: "job_own s (abort_end s)"
| own_close: "js_closing s \<Longrightarrow> job_own s (close_client s)"

inductive job_event :: "job_sys \<Rightarrow> job_sys \<Rightarrow> bool" where
  event_abort: "job_event s (abort_begin cause s)"
| event_parent: "job_event s (parent_canceled cause s)"
| event_sample: "job_event s (s\<lparr>js_job := job_sample now (js_job s)\<rparr>)"
| event_own: "job_own s s' \<Longrightarrow> job_event s s'"

lemma event_step: "job_step s s' \<Longrightarrow> job_event s s'"
  by (rule event_own, rule own_step)

lemma event_abort_end: "job_event s (abort_end s)"
  by (rule event_own, rule own_abort_end)

inductive job_reach :: "job_sys \<Rightarrow> bool" where
  job_new: "job_reach (new_job_sys ((newTransferJob parent jid session l r now)\<lparr>tj_source := src, tj_sink := snk\<rparr>))"
| job_next: "job_reach s \<Longrightarrow> job_event s s' \<Longrightarrow> job_reach s'"

subsection \<open>Invariants\<close>

definition job_running :: "transfer_job \<Rightarrow> bool" where
  "job_running j \<longleftrightarrow> \<not> tj_done j \<and> \<not> tj_done_chan j \<and> tj_status j = TransferRunning \<and> tj_err j = None"

definition no_closer :: "job_sys \<Rightarrow> bool" where
  "no_closer s \<longleftrightarrow> \<not> tj_closer (js_job s) \<and> \<not> js_closing s \<and> (\<forall>c. js_pending s \<noteq> Some (c, True))"

definition job_at :: "job_pc \<Rightarrow> job_sys \<Rightarrow> bool" where
  "job_at pc s =
     (case pc of
        JStart \<Rightarrow> job_running (js_job s) \<and> js_client s = NoClient \<and> no_closer s \<and> \<not> js_copied s
      | JSourced \<Rightarrow> job_running (js_job s) \<and> js_client s = NoClient \<and> no_closer s \<and> \<not> js_copied s
      | JClient \<Rightarrow> job_running (js_job s) \<and> js_client s = ClientOpen \<and> no_closer s \<and> \<not> js_copied s
      | JCopy \<Rightarrow> job_running (js_job s) \<and> js_client s \<noteq> NoClient \<and> \<not> js_copied s
          \<and> (if tj_aborted (js_job s)
             then (\<exists>c. js_pending s = Some (c, True)) \<or> js_closing s \<or> js_client s = ClientClosed
             else tj_closer (js_job s) \<and> js_client s = ClientOpen)
      | JEnd r \<Rightarrow> job_running (js_job s) \<and> js_client s \<noteq> ClientOpen
          \<and> (r = None \<longrightarrow> js_copied s \<or> tj_aborted (js_job s)) \<and> (js_copied s \<longrightarrow> r = None)
      | JDone \<Rightarrow> tj_done (js_job s) \<and> tj_done_chan (js_job s) \<and> js_client s \<noteq> ClientOpen \<and> \<not> tj_closer (js_job s)
          \<and> (tj_status (js_job s) = TransferCompleted \<and> tj_err (js_job s) = None \<and> (js_copied s \<or> tj_aborted (js_job s))
             \<or> tj_status (js_job s) = TransferCanceled \<and> tj_err (js_job s) = Some ErrTransferCanceled \<and> \<not> js_copied s
             \<or> tj_status (js_job s) = TransferFailed \<and> tj_err (js_job s) \<notin> {None, Some ErrTransferCanceled} \<and> \<not> js_copied s))"

definition job_inv :: "job_sys \<Rightarrow> bool" where
  "job_inv s \<longleftrightarrow> job_at (js_pc s) s
     \<and> (js_pending s \<noteq> None \<longrightarrow> tj_aborted (js_job s)) \<and> (js_closing s \<longrightarrow> tj_aborted (js_job s))
     \<and> (tj_aborted (js_job s) \<longrightarrow> \<not> tj_closer (js_job s) \<and> (js_pending s \<noteq> None \<or> tj_ctx (js_job s) \<noteq> None))
     \<and> (js_pending s \<noteq> None \<longrightarrow> \<not> js_closing s)"

lemmas job_inv_defs = job_inv_def job_at_def job_running_def no_closer_def

lemma job_new_inv: "job_inv (new_job_sys ((newTransferJob parent jid session l r now)\<lparr>tj_source := src, tj_sink := snk\<rparr>))"
  by (simp add: job_inv_defs new_job_sys_def newTransferJob_def)

lemma cancel_ctx_some [simp]: "cancel_ctx c x \<noteq> None" "cancel_ctx c (Some y) = Some y" "cancel_ctx c None = Some c"
  by (auto simp: cancel_ctx_def split: option.split)

lemma finish_fields [simp]:
  "tj_done (finish now err j)" "tj_done_chan (finish now err j)" "\<not> tj_closer (finish now err j)"
  "tj_aborted (finish now err j) = tj_aborted j" "tj_ctx (finish now err j) = cancel_ctx ErrContextCanceled (tj_ctx j)"
  "tj_id (finish now err j) = tj_id j" "tj_session (finish now err j) = tj_session j"
  by (auto simp: finish_def Let_def split: option.split transfer_error.split)

text \<open>The recorded outcome.\<close>

definition job_outcome :: "transfer_error option \<Rightarrow> transfer_job \<Rightarrow> transfer_error option" where
  "job_outcome err j =
     (case err of None \<Rightarrow> None
      | Some e \<Rightarrow> (case tj_ctx j of Some c \<Rightarrow> (if c \<noteq> ErrContextCanceled then Some c else Some e) | None \<Rightarrow> Some e))"

lemma job_outcome_None: "job_outcome err j = None \<longleftrightarrow> err = None"
  by (auto simp: job_outcome_def split: option.splits)

lemma finish_outcome:
  "tj_status (finish now err j) =
     (case job_outcome err j of None \<Rightarrow> TransferCompleted | Some ErrTransferCanceled \<Rightarrow> TransferCanceled | _ \<Rightarrow> TransferFailed)"
  "tj_err (finish now err j) = (case job_outcome err j of None \<Rightarrow> tj_err j | e \<Rightarrow> e)"
  unfolding job_outcome_def finish_def Let_def by (simp_all split: option.split transfer_error.split)

lemma finish_cases:
  "err = None \<and> tj_status (finish now err j) = TransferCompleted \<and> tj_err (finish now err j) = tj_err j
   \<or> err \<noteq> None \<and> tj_status (finish now err j) = TransferCanceled \<and> tj_err (finish now err j) = Some ErrTransferCanceled
   \<or> err \<noteq> None \<and> tj_status (finish now err j) = TransferFailed \<and> tj_err (finish now err j) \<notin> {None, Some ErrTransferCanceled}"
proof (cases "job_outcome err j")
  case None
  then show ?thesis using job_outcome_None [of err j] by (simp add: finish_outcome)
next
  case (Some e)
  then have "err \<noteq> None" using job_outcome_None [of err j] by simp
  then show ?thesis by (cases e) (simp_all add: finish_outcome Some)
qed

lemma job_step_inv: "job_step s s' \<Longrightarrow> job_inv s \<Longrightarrow> job_inv s'"
proof (induction rule: job_step.induct)
  case (job_finishes s err now)
  then show ?case
    using finish_cases [of err now "js_job s"] by (cases err) (auto simp: job_inv_defs)
next
  case (job_copies s n)
  then show ?case by (cases "tj_aborted (js_job s)") (auto simp: job_inv_defs job_add_def)
next
  case (job_client_handed s j)
  then show ?case by (cases "tj_aborted (js_job s)") (auto simp: job_inv_defs setCloser_def)
next
  case (job_client_refused s j)
  then show ?case by (cases "tj_aborted (js_job s)") (auto simp: job_inv_defs setCloser_def job_end_def)
qed (simp_all add: job_inv_defs job_end_def setTotal_def job_add_def)

lemma abort_begin_inv: "job_inv s \<Longrightarrow> job_inv (abort_begin cause s)"
  by (cases "js_pc s") (auto simp: job_inv_defs abort_begin_def abort_section_def)

lemma abort_end_inv: "job_inv s \<Longrightarrow> job_inv (abort_end s)"
  by (cases "js_pending s"; cases "js_pc s") (auto simp: job_inv_defs abort_end_def job_cancel_def)

lemma parent_inv: "job_inv s \<Longrightarrow> job_inv (parent_canceled cause s)"
  by (cases "js_pc s") (auto simp: job_inv_defs parent_canceled_def job_cancel_def)

lemma sample_fields [simp]:
  "tj_done (job_sample now j) = tj_done j" "tj_done_chan (job_sample now j) = tj_done_chan j"
  "tj_status (job_sample now j) = tj_status j" "tj_err (job_sample now j) = tj_err j"
  "tj_closer (job_sample now j) = tj_closer j" "tj_aborted (job_sample now j) = tj_aborted j"
  "tj_ctx (job_sample now j) = tj_ctx j" "tj_bytes (job_sample now j) = tj_bytes j"
  "tj_id (job_sample now j) = tj_id j" "tj_session (job_sample now j) = tj_session j"
  by (simp_all add: job_sample_def)

lemma sample_inv: "job_inv s \<Longrightarrow> job_inv (s\<lparr>js_job := job_sample now (js_job s)\<rparr>)"
  by (cases "js_pc s") (simp_all add: job_inv_defs)

lemma close_client_inv: "job_inv s \<Longrightarrow> js_closing s \<Longrightarrow> job_inv (close_client s)"
  by (cases "js_client s"; cases "js_pc s") (auto simp: job_inv_defs close_client_def)

lemma job_event_inv: "job_event s s' \<Longrightarrow> job_inv s \<Longrightarrow> job_inv s'"
proof (induction rule: job_event.induct)
  case (event_own s s')
  then show ?case
    by (induction rule: job_own.induct) (simp_all add: job_step_inv abort_end_inv close_client_inv)
qed (simp_all add: abort_begin_inv parent_inv sample_inv)

lemma job_reach_inv: "job_reach s \<Longrightarrow> job_inv s"
  by (induction rule: job_reach.induct) (simp_all add: job_new_inv job_event_inv)

subsection \<open>How a transfer ends\<close>

definition job_result :: "transfer_job \<Rightarrow> transfer_status \<times> transfer_error option \<times> int" where
  "job_result j = (tj_status j, tj_err j, tj_bytes j)"

text \<open>Why the job ended, given what its transfer returned.\<close>

definition told_why :: "job_sys \<Rightarrow> job_sys \<Rightarrow> bool" where
  "told_why s s' \<longleftrightarrow>
     (case js_pc s of
        JEnd r \<Rightarrow> js_pc s' \<noteq> JDone \<or> job_result (js_job s')
          = (case job_outcome r (js_job s) of
               None \<Rightarrow> (TransferCompleted, None, tj_bytes (js_job s))
             | Some ErrTransferCanceled \<Rightarrow> (TransferCanceled, Some ErrTransferCanceled, tj_bytes (js_job s))
             | Some e \<Rightarrow> (TransferFailed, Some e, tj_bytes (js_job s)))
      | JDone \<Rightarrow> job_result (js_job s') = job_result (js_job s)
      | _ \<Rightarrow> js_pc s' \<noteq> JDone)"

lemma finish_bytes: "tj_bytes (finish now err j) = tj_bytes j"
  by (auto simp: finish_def Let_def split: option.split transfer_error.split)

lemma finish_result:
  "tj_err j = None \<Longrightarrow> job_result (finish now r j) =
     (case job_outcome r j of
        None \<Rightarrow> (TransferCompleted, None, tj_bytes j)
      | Some ErrTransferCanceled \<Rightarrow> (TransferCanceled, Some ErrTransferCanceled, tj_bytes j)
      | Some e \<Rightarrow> (TransferFailed, Some e, tj_bytes j))"
  by (simp add: job_result_def finish_outcome finish_bytes split: option.split transfer_error.split)

lemma outside_keeps:
  "job_result (js_job (abort_begin cause s)) = job_result (js_job s)" "js_pc (abort_begin cause s) = js_pc s"
  "job_result (js_job (abort_end s)) = job_result (js_job s)" "js_pc (abort_end s) = js_pc s"
  "job_result (js_job (parent_canceled cause s)) = job_result (js_job s)" "js_pc (parent_canceled cause s) = js_pc s"
  "job_result (job_sample now j) = job_result j"
  "job_result (js_job (close_client s)) = job_result (js_job s)" "js_pc (close_client s) = js_pc s"
  by (auto simp: job_result_def abort_begin_def abort_section_def abort_end_def job_cancel_def parent_canceled_def
    close_client_def split: option.split prod.split)

lemma told_why_outside: "job_result (js_job s') = job_result (js_job s) \<Longrightarrow> js_pc s' = js_pc s \<Longrightarrow> told_why s s'"
  by (simp add: told_why_def split: job_pc.split)

lemma told_why_step: "job_step s s' \<Longrightarrow> job_inv s \<Longrightarrow> told_why s s'"
proof (induction rule: job_step.induct)
  case (job_finishes s err now)
  then have "tj_err (js_job s) = None" by (simp add: job_inv_defs)
  then show ?case using job_finishes.hyps by (simp add: told_why_def finish_result)
qed (simp_all add: told_why_def job_end_def)

definition keeps_cause :: "job_sys \<Rightarrow> job_sys \<Rightarrow> bool" where
  "keeps_cause s s' \<longleftrightarrow> tj_ctx (js_job s) = None \<or> tj_ctx (js_job s') = tj_ctx (js_job s)"

lemma cancel_ctx_keeps: "x = None \<or> cancel_ctx c x = x"
  by (cases x) simp_all

lemma keeps_cause_event: "job_event s s' \<Longrightarrow> keeps_cause s s'"
proof (induction rule: job_event.induct)
  case (event_own s s')
  have step: "job_step s s' \<Longrightarrow> keeps_cause s s'" for s s'
    by (induction rule: job_step.induct)
      (auto simp: keeps_cause_def job_end_def setTotal_def job_add_def setCloser_def cancel_ctx_keeps
        split: if_splits)
  from event_own show ?case
  proof (induction rule: job_own.induct)
    case (own_step s s')
    then show ?case by (rule step)
  qed (auto simp: keeps_cause_def abort_end_def job_cancel_def close_client_def cancel_ctx_keeps split: option.split)
qed (auto simp: keeps_cause_def abort_begin_def abort_section_def abort_end_def job_cancel_def parent_canceled_def
    close_client_def cancel_ctx_keeps split: option.split)

lemma told_why_event: "job_reach s \<Longrightarrow> job_event s s' \<Longrightarrow> told_why s s'"
proof -
  assume r: "job_reach s" and e: "job_event s s'"
  have own: "job_own s s' \<Longrightarrow> job_inv s \<Longrightarrow> told_why s s'" for s s'
    by (induction rule: job_own.induct) (simp_all add: told_why_step told_why_outside outside_keeps)
  show ?thesis using e job_reach_inv [OF r]
    by (induction rule: job_event.induct) (simp_all add: own told_why_outside outside_keeps)
qed

text \<open>
  A transfer says why it ended, once: the first cause its context is canceled with stays, a transfer that fails
  under such a cause ends with it and not with the error of the torn connection, an explicit cancellation as canceled
  and anything else as failed, and whatever comes later changes neither status, error nor bytes.
\<close>

theorem job_tells_first_cause:
  assumes "job_reach s" and "job_event s s'"
  shows "keeps_cause s s' \<and> told_why s s'"
  by (simp add: keeps_cause_event [OF assms(2)] told_why_event [OF assms])

text \<open>How far a transfer is from its end, copying left aside.\<close>

fun job_rank :: "job_pc \<Rightarrow> nat" where
  "job_rank JStart = 5"
| "job_rank JSourced = 4"
| "job_rank JClient = 3"
| "job_rank JCopy = 2"
| "job_rank (JEnd r) = 1"
| "job_rank JDone = 0"

definition nears_end :: "job_sys \<Rightarrow> bool" where
  "nears_end s \<longleftrightarrow> (js_pc s = JDone \<or> (\<exists>s'. job_step s s')) \<and> (\<forall>s'. job_step s s' \<longrightarrow> job_rank (js_pc s') < job_rank (js_pc s))"

lemma job_can_step: "js_pc s \<noteq> JDone \<Longrightarrow> \<exists>s'. job_step s s'"
proof (cases "js_pc s")
  case JClient
  obtain r j where c: "setCloser (js_job s) = (r, j)" by force
  show ?thesis
  proof (cases r)
    case True
    with c have "setCloser (js_job s) = (True, j)" by simp
    from job_client_handed [OF JClient this] show ?thesis by blast
  next
    case False
    with c have "setCloser (js_job s) = (False, j)" by simp
    from job_client_refused [OF JClient this] show ?thesis by blast
  qed
qed (use job_source_fails job_client_fails job_copy_fails job_finishes in blast)+


subsection \<open>A transfer canceled at the wrong moment\<close>

definition demo_job :: job_sys where
  "demo_job = new_job_sys ((newTransferJob None ''upload-1'' ''s'' ''a'' ''b'' 0)\<lparr>tj_source := False, tj_sink := False\<rparr>)"

definition demo_client :: job_sys where
  "demo_client = demo_job\<lparr>js_pc := JSourced, js_job := setTotal 9 (js_job demo_job)\<rparr>\<lparr>js_pc := JClient, js_client := ClientOpen\<rparr>"

lemma demo_client_reach: "job_reach demo_client"
proof -
  have 0: "job_reach demo_job" unfolding demo_job_def by (rule job_new)
  have "job_event demo_job (demo_job\<lparr>js_pc := JSourced, js_job := setTotal 9 (js_job demo_job)\<rparr>)" (is "job_event _ ?s")
    by (rule event_step, rule job_source_opens) (simp add: demo_job_def new_job_sys_def)
  from job_next [OF 0 this] have 1: "job_reach ?s" .
  have "job_event ?s demo_client"
    unfolding demo_client_def by (rule event_step, rule job_client_made) simp
  from job_next [OF 1 this] show ?thesis .
qed


theorem job_tells_first_cause_witness:
  "keeps_cause demo_client (abort_begin ErrTransferCanceled demo_client)
   \<and> told_why demo_client (abort_begin ErrTransferCanceled demo_client)"
  by (rule job_tells_first_cause [OF demo_client_reach event_abort])

text \<open>
  \<open>abortCause\<close> marks the job before it cancels the context. A transfer that offers its client in between is refused,
  reads no cause, and returns no error: the job is reported completed, and nothing was copied.
\<close>

lemma canceled_reported_completed:
  "\<exists>s. job_reach s \<and> tj_status (js_job s) = TransferCompleted \<and> \<not> js_copied s \<and> tj_bytes (js_job s) = 0"
proof -
  let ?a = "abort_begin ErrTransferCanceled demo_client"
  let ?e = "job_end (tj_ctx (js_job ?a)) ?a"
  let ?d = "?e\<lparr>js_pc := JDone, js_job := finish 1 None (js_job ?e)\<rparr>"
  have a: "job_reach ?a" by (rule job_next [OF demo_client_reach event_abort])
  have vals: "js_pc ?a = JClient" "tj_aborted (js_job ?a)" "tj_ctx (js_job ?a) = None" "tj_bytes (js_job ?a) = 0"
      "\<not> js_copied ?a" "tj_err (js_job ?a) = None"
    by (simp_all add: demo_client_def demo_job_def new_job_sys_def newTransferJob_def abort_begin_def abort_section_def setTotal_def)
  have "job_step ?a ?e" by (rule job_client_refused) (use vals in \<open>simp_all add: setCloser_def\<close>)
  then have e: "job_reach ?e" by (rule job_next [OF a event_step])
  have "job_step ?e ?d" by (rule job_finishes) (use vals in \<open>simp add: job_end_def\<close>)
  then have d: "job_reach ?d" by (rule job_next [OF e event_step])
  have "tj_status (js_job ?d) = TransferCompleted \<and> \<not> js_copied ?d \<and> tj_bytes (js_job ?d) = 0"
    using vals by (simp add: finish_outcome finish_bytes job_outcome_def job_end_def)
  with d show ?thesis by blast
qed

end
