(* ===== verification/Ses_Spool.thy ===== *)
theory Ses_Spool
  imports Gw_Path
begin

text \<open>
  Output of a remote command that may not fit in memory, \<open>internal/session/spooling_buffer.go\<close>: a buffer that
  moves to a file once it has grown past a threshold.

  The spool files are a map from paths to contents, handed from call to call. \<open>spool_faults\<close> says what fails: a
  failing write still puts some bytes into the file.
\<close>

subsection \<open>The buffer\<close>

datatype spool_error =
    SpoolMkdir
  | SpoolCreate
  | SpoolWrite
  | SpoolClosed

record spool_buffer =
  sb_session :: string
  sb_id :: string
  sb_threshold :: int
  sb_buf :: string
  sb_open :: bool
  sb_path :: string
  sb_size :: int
  sb_spilled :: bool
  sb_err :: "spool_error option"

type_synonym spool_files = "(string, string) gomap"

record spool_faults =
  sf_mkdir :: bool
  sf_create :: bool
  sf_flush :: "nat option"
  sf_write :: "nat option"

definition NewSpoolingBuffer :: "string \<Rightarrow> string \<Rightarrow> int \<Rightarrow> spool_buffer" where
  "NewSpoolingBuffer session sid threshold =
     \<lparr>sb_session = session, sb_id = sid, sb_threshold = threshold, sb_buf = [], sb_open = False, sb_path = [],
      sb_size = 0, sb_spilled = False, sb_err = None\<rparr>"

text \<open>Writing to the open file: all of it, or the bytes before the failure.\<close>

definition file_write :: "nat option \<Rightarrow> string \<Rightarrow> string \<Rightarrow> spool_files \<Rightarrow> bool \<times> spool_files" where
  "file_write fault path p d =
     (let old = (case map_of d path of Some c \<Rightarrow> c | None \<Rightarrow> []) in
      case fault of
        None \<Rightarrow> (True, AList.update path (old @ p) d)
      | Some k \<Rightarrow> (False, AList.update path (old @ take k p) d))"

definition spool_path :: "spool_buffer \<Rightarrow> string" where
  "spool_path b = path_clean (sb_session b @ ''/'' @ sb_id b @ ''.out'')"

definition spool_spill ::
  "spool_faults \<Rightarrow> string \<Rightarrow> spool_buffer \<Rightarrow> spool_files \<Rightarrow> (nat \<times> spool_error option) \<times> spool_buffer \<times> spool_files" where
  "spool_spill f p b d =
     (if sf_mkdir f then ((0, Some SpoolMkdir), b\<lparr>sb_err := Some SpoolMkdir\<rparr>, d)
      else if sf_create f then ((0, Some SpoolCreate), b\<lparr>sb_err := Some SpoolCreate\<rparr>, d)
      else
        (let path = spool_path b;
             d0 = AList.update path [] d;
             b0 = b\<lparr>sb_open := True, sb_path := path, sb_spilled := True\<rparr>;
             (ok, d1) = (if sb_buf b = [] then (True, d0) else file_write (sf_flush f) path (sb_buf b) d0)
         in if \<not> ok then ((0, Some SpoolWrite), b0\<lparr>sb_open := False, sb_err := Some SpoolWrite\<rparr>, d1)
            else
              (let (ok', d2) = file_write (sf_write f) path p d1 in
               if ok' then ((length p, None), b0, d2)
               else ((case sf_write f of Some k \<Rightarrow> min k (length p) | None \<Rightarrow> 0, Some SpoolWrite),
                     b0\<lparr>sb_open := False, sb_err := Some SpoolWrite\<rparr>, d2))))"

definition spool_Write ::
  "spool_faults \<Rightarrow> string \<Rightarrow> spool_buffer \<Rightarrow> spool_files \<Rightarrow> (nat \<times> spool_error option) \<times> spool_buffer \<times> spool_files" where
  "spool_Write f p b d =
     (case sb_err b of
        Some e \<Rightarrow> ((0, Some e), b, d)
      | None \<Rightarrow>
          (let b = b\<lparr>sb_size := sb_size b + int (length p)\<rparr> in
           if sb_spilled b then
             (if \<not> sb_open b then ((0, Some SpoolClosed), b\<lparr>sb_err := Some SpoolClosed\<rparr>, d)
              else
                (let (ok, d') = file_write (sf_write f) (sb_path b) p d in
                 if ok then ((length p, None), b, d')
                 else ((case sf_write f of Some k \<Rightarrow> min k (length p) | None \<Rightarrow> 0, Some SpoolWrite),
                       b\<lparr>sb_err := Some SpoolWrite\<rparr>, d')))
           else if sb_size b > sb_threshold b then spool_spill f p b d
           else ((length p, None), b\<lparr>sb_buf := sb_buf b @ p\<rparr>, d)))"

definition spool_Close :: "spool_buffer \<Rightarrow> spool_buffer" where
  "spool_Close b = b\<lparr>sb_open := False\<rparr>"

definition spool_String :: "spool_buffer \<Rightarrow> string" where
  "spool_String b = sb_buf b"

definition mapSpoolID :: "spool_buffer \<Rightarrow> string" where
  "mapSpoolID b = (if sb_spilled b then sb_id b else [])"

subsection \<open>A buffer is the bytes written to it\<close>

text \<open>What can be read back: the file once there is one, else the memory.\<close>

definition spool_content :: "spool_buffer \<Rightarrow> spool_files \<Rightarrow> string" where
  "spool_content b d = (if sb_spilled b then (case map_of d (sb_path b) of Some c \<Rightarrow> c | None \<Rightarrow> []) else sb_buf b)"

datatype spool_op =
    SpWrite spool_faults string
  | SpClose

fun spool_do :: "spool_op \<Rightarrow> spool_buffer \<times> spool_files \<Rightarrow> spool_buffer \<times> spool_files" where
  "spool_do (SpWrite f p) (b, d) = snd (spool_Write f p b d)"
| "spool_do SpClose (b, d) = (spool_Close b, d)"

fun op_bytes :: "spool_op \<Rightarrow> string" where
  "op_bytes (SpWrite f p) = p"
| "op_bytes SpClose = []"

definition spool_bytes :: "spool_op list \<Rightarrow> string" where
  "spool_bytes ops = concat (map op_bytes ops)"

definition spool_inv :: "string \<Rightarrow> spool_buffer \<Rightarrow> spool_files \<Rightarrow> bool" where
  "spool_inv ws b d \<longleftrightarrow>
     prefix (spool_content b d) ws \<and> prefix (sb_buf b) ws
     \<and> (sb_spilled b \<longrightarrow> map_of d (sb_path b) \<noteq> None \<and> sb_path b = spool_path b \<and> sb_threshold b < int (length ws))
     \<and> int (length (sb_buf b)) \<le> max 0 (sb_threshold b)
     \<and> (sb_err b = None \<longrightarrow> spool_content b d = ws \<and> sb_size b = int (length ws))
     \<and> (sb_open b \<longrightarrow> sb_spilled b)
     \<and> (\<not> sb_spilled b \<and> sb_err b = None \<longrightarrow> int (length ws) \<le> max 0 (sb_threshold b))"

lemma spool_content_simps [simp]:
  "\<not> sb_spilled b \<Longrightarrow> spool_content b d = sb_buf b"
  "sb_spilled b \<Longrightarrow> map_of d (sb_path b) = Some c \<Longrightarrow> spool_content b d = c"
  by (simp_all add: spool_content_def)

lemma file_write_content:
  "file_write fault path p d = (ok, d') \<Longrightarrow> map_of d path = Some c \<Longrightarrow>
     \<exists>q. map_of d' path = Some (c @ q) \<and> prefix q p \<and> (ok \<longrightarrow> q = p) \<and> (ok \<longleftrightarrow> fault = None)"
  by (auto simp: file_write_def Let_def take_is_prefix split: option.splits)

lemma spool_inv_stuck:
  assumes "spool_inv ws b d" and "sb_err b' \<noteq> None" and "sb_buf b' = sb_buf b" and "sb_spilled b' = sb_spilled b"
    and "sb_path b' = sb_path b" and "spool_path b' = spool_path b" and "sb_threshold b' = sb_threshold b"
    and "sb_open b' \<longrightarrow> sb_open b"
  shows "spool_inv (ws @ p) b' d"
  using assms by (auto simp: spool_inv_def spool_content_def intro: prefix_prefix)

lemma spool_path_cong [simp]:
  "spool_path (b\<lparr>sb_size := n\<rparr>) = spool_path b" "spool_path (b\<lparr>sb_err := e\<rparr>) = spool_path b"
  "spool_path (b\<lparr>sb_open := x\<rparr>) = spool_path b" "spool_path (b\<lparr>sb_spilled := x\<rparr>) = spool_path b"
  "spool_path (b\<lparr>sb_path := y\<rparr>) = spool_path b" "spool_path (b\<lparr>sb_buf := y\<rparr>) = spool_path b"
  by (simp_all add: spool_path_def)

lemma spill_inv:
  assumes buf: "sb_buf b = ws" "int (length ws) \<le> max 0 (sb_threshold b)" "\<not> sb_spilled b" "\<not> sb_open b" "sb_err b = None"
    and size: "sb_size b = int (length (ws @ p))" "sb_threshold b < sb_size b"
    and w: "spool_spill f p b d = (res, b', d')"
  shows "spool_inv (ws @ p) b' d' \<and> (snd res = None \<longleftrightarrow> sb_err b' = None)"
proof (cases "sf_mkdir f \<or> sf_create f")
  case True
  then show ?thesis using w buf by (auto simp: spool_spill_def spool_inv_def split: if_splits)
next
  case False
  let ?path = "spool_path b"
  let ?d0 = "AList.update ?path [] d"
  define w1 where "w1 = (if ws = [] then (True, ?d0) else file_write (sf_flush f) ?path ws ?d0)"
  obtain ok d1 where w1': "w1 = (ok, d1)" by force
  have "map_of ?d0 ?path = Some []" by simp
  then obtain q where q: "map_of d1 ?path = Some q" "prefix q ws" "ok \<longrightarrow> q = ws"
  proof (cases "ws = []")
    case True
    then have "map_of d1 ?path = Some []" "ok" using w1' by (auto simp: w1_def)
    then show ?thesis using True that by simp
  next
    case False
    then have "file_write (sf_flush f) ?path ws ?d0 = (ok, d1)" using w1' by (simp add: w1_def)
    from file_write_content [OF this \<open>map_of ?d0 ?path = Some []\<close>] show ?thesis using that by auto
  qed
  obtain ok' d2 where w2: "file_write (sf_write f) ?path p d1 = (ok', d2)" by force
  obtain q' where q': "map_of d2 ?path = Some (q @ q')" "prefix q' p" "ok' \<longrightarrow> q' = p"
    using file_write_content [OF w2 q(1)] that by auto
  let ?b0 = "b\<lparr>sb_open := True, sb_path := ?path, sb_spilled := True\<rparr>"
  have eq: "spool_spill f p b d = (if \<not> ok then ((0, Some SpoolWrite), ?b0\<lparr>sb_open := False, sb_err := Some SpoolWrite\<rparr>, d1)
      else if ok' then ((length p, None), ?b0, d2)
      else ((case sf_write f of Some k \<Rightarrow> min k (length p) | None \<Rightarrow> 0, Some SpoolWrite),
            ?b0\<lparr>sb_open := False, sb_err := Some SpoolWrite\<rparr>, d2))"
    unfolding spool_spill_def Let_def buf(1) w1_def [symmetric] w1' prod.case w2 using False by simp
  show ?thesis
  proof (cases ok)
    case bad: False
    then have "res = (0, Some SpoolWrite)" "b' = ?b0\<lparr>sb_open := False, sb_err := Some SpoolWrite\<rparr>" "d' = d1"
      using w bad by (simp_all add: eq)
    then show ?thesis using q buf size by (auto simp: spool_inv_def intro: prefix_prefix)
  next
    case ok: True
    then have qw: "q = ws" using q(3) by simp
    show ?thesis
    proof (cases ok')
      case True
      then have "res = (length p, None)" "b' = ?b0" "d' = d2"
        using w ok True by (simp_all add: eq)
      then show ?thesis using q' qw True buf size by (auto simp: spool_inv_def)
    next
      case bad: False
      then have "snd res = Some SpoolWrite" "b' = ?b0\<lparr>sb_open := False, sb_err := Some SpoolWrite\<rparr>" "d' = d2"
        using w ok bad by (auto simp: eq)
      then show ?thesis using q' qw buf size by (auto simp: spool_inv_def)
    qed
  qed
qed

lemma spool_write_inv:
  assumes inv: "spool_inv ws b d" and w: "spool_Write f p b d = (res, b', d')"
  shows "spool_inv (ws @ p) b' d' \<and> (snd res = None \<longleftrightarrow> sb_err b' = None)"
proof (cases "sb_err b")
  case (Some e)
  then show ?thesis using w spool_inv_stuck [OF inv, of b] by (auto simp: spool_Write_def)
next
  case None
  let ?b = "b\<lparr>sb_size := sb_size b + int (length p)\<rparr>"
  have ws: "spool_content b d = ws" "sb_size b = int (length ws)" using inv None by (simp_all add: spool_inv_def)
  consider "sb_spilled b" "\<not> sb_open b" | "sb_spilled b" "sb_open b" | "\<not> sb_spilled b" "sb_threshold b < sb_size ?b"
    | "\<not> sb_spilled b" "\<not> sb_threshold b < sb_size ?b" by blast
  then show ?thesis
  proof cases
    case 1
    then show ?thesis using w None spool_inv_stuck [OF inv, of b'] by (auto simp: spool_Write_def Let_def)
  next
    case 2
    have "map_of d (sb_path b) \<noteq> None" using inv 2 unfolding spool_inv_def by blast
    then obtain c where c: "map_of d (sb_path b) = Some c" by blast
    have "spool_content b d = c" by (rule spool_content_simps(2) [OF 2(1) c])
    with ws(1) have c: "map_of d (sb_path b) = Some c" "c = ws" using c by simp_all
    obtain ok d1 where f: "file_write (sf_write f) (sb_path b) p d = (ok, d1)" by force
    obtain q where q: "map_of d1 (sb_path b) = Some (ws @ q)" "prefix q p" "ok \<longrightarrow> q = p"
      using file_write_content [OF f c(1)] c(2) that by auto
    have "d' = d1" "b' = (if ok then ?b else ?b\<lparr>sb_err := Some SpoolWrite\<rparr>)" "snd res = None \<longleftrightarrow> ok"
      using w None 2 f by (auto simp: spool_Write_def Let_def split: if_splits)
    then show ?thesis using q inv None ws 2 by (auto simp: spool_inv_def intro: prefix_prefix)
  next
    case 3
    then have "spool_spill f p ?b d = (res, b', d')" using w None by (simp add: spool_Write_def)
    moreover have "sb_buf ?b = ws" "\<not> sb_open ?b" "sb_size ?b = int (length (ws @ p))"
      "int (length ws) \<le> max 0 (sb_threshold ?b)" "sb_err ?b = None" "\<not> sb_spilled ?b" "sb_threshold ?b < sb_size ?b"
      using inv None ws 3 by (simp_all add: spool_inv_def)
    ultimately show ?thesis using spill_inv [of ?b ws p f d res b' d'] by blast
  next
    case 4
    then have "b' = ?b\<lparr>sb_buf := sb_buf b @ p\<rparr>" "d' = d" "res = (length p, None)"
      using w None by (simp_all add: spool_Write_def)
    then show ?thesis using inv None ws 4 by (auto simp: spool_inv_def)
  qed
qed

lemma spool_close_inv: "spool_inv ws b d \<Longrightarrow> spool_inv ws (spool_Close b) d"
  by (auto simp: spool_inv_def spool_Close_def spool_content_def)

lemma do_inv: "spool_inv ws (fst bd) (snd bd) \<Longrightarrow> spool_inv (ws @ op_bytes x) (fst (spool_do x bd)) (snd (spool_do x bd))"
proof (cases x; cases bd)
  fix f p b d assume x: "x = SpWrite f p" "bd = (b, d)" and inv: "spool_inv ws (fst bd) (snd bd)"
  obtain res b' d' where "spool_Write f p b d = (res, b', d')" using prod_cases3 by blast
  with spool_write_inv [of ws b d f p res b' d'] inv x show ?thesis by simp
qed (simp add: spool_close_inv)

lemma spool_run_inv:
  "spool_inv ws (fst bd) (snd bd) \<Longrightarrow>
     spool_inv (ws @ spool_bytes ops) (fst (fold spool_do ops bd)) (snd (fold spool_do ops bd))"
proof (induction ops arbitrary: ws bd)
  case (Cons x ops)
  from Cons.IH [OF do_inv [OF Cons.prems, of x]] show ?case by (simp add: spool_bytes_def)
qed (simp add: spool_bytes_def)

lemma spill_threshold: "sb_threshold (fst (snd (spool_spill f p b d))) = sb_threshold b"
  by (simp add: spool_spill_def Let_def split: prod.split)

lemma write_threshold: "sb_threshold (fst (snd (spool_Write f p b d))) = sb_threshold b"
  by (simp add: spool_Write_def Let_def spill_threshold split: prod.split option.split)

lemma do_threshold: "sb_threshold (fst (spool_do x bd)) = sb_threshold (fst bd)"
  by (cases x; cases bd) (simp_all add: write_threshold spool_Close_def)

lemma new_inv: "spool_inv [] (NewSpoolingBuffer session sid threshold) d"
  by (simp add: spool_inv_def NewSpoolingBuffer_def)

text \<open>
  C35. A spooling buffer stands for the bytes written to it, whatever fails and whenever it is closed: what can be
  read back is always a beginning of them, and all of them as long as no write has failed, when its size is theirs
  too; then there is a file exactly when they are more than the threshold, and memory holds no more than that.
\<close>

theorem spool_refines_bytes:
  assumes "0 \<le> threshold" and "fold spool_do ops (NewSpoolingBuffer session sid threshold, d) = (b, d')"
  shows "prefix (spool_content b d') (spool_bytes ops) \<and> prefix (spool_String b) (spool_bytes ops)
    \<and> int (length (spool_String b)) \<le> threshold
    \<and> (sb_err b \<noteq> None \<or> spool_content b d' = spool_bytes ops \<and> sb_size b = int (length (spool_bytes ops))
         \<and> (sb_spilled b \<longleftrightarrow> threshold < int (length (spool_bytes ops))))"
proof -
  have "sb_threshold (fst (fold spool_do ops bd)) = sb_threshold (fst bd)" for bd
    by (induction ops arbitrary: bd) (simp_all add: do_threshold)
  then have t: "sb_threshold b = threshold" using assms(2) by (metis NewSpoolingBuffer_def fst_conv spool_buffer.select_convs(3))
  have "spool_inv (spool_bytes ops) b d'"
    using spool_run_inv [of "[]" "(NewSpoolingBuffer session sid threshold, d)" ops] new_inv assms(2) by simp
  then show ?thesis using assms(1) t by (auto simp: spool_inv_def spool_String_def)
qed

definition sound_disk :: spool_faults where
  "sound_disk = \<lparr>sf_mkdir = False, sf_create = False, sf_flush = None, sf_write = None\<rparr>"

definition demo_spool :: "spool_buffer \<times> spool_files" where
  "demo_spool = fold spool_do [SpWrite sound_disk ''ab'', SpWrite sound_disk ''cd'', SpClose] (NewSpoolingBuffer ''s'' ''x'' 3, [])"

theorem spool_refines_bytes_witness:
  "spool_content (fst demo_spool) (snd demo_spool) = ''abcd'' \<and> sb_spilled (fst demo_spool)"
proof -
  have "sb_err (fst demo_spool) = None" by code_simp
  then show ?thesis
    using spool_refines_bytes [of 3 "[SpWrite sound_disk ''ab'', SpWrite sound_disk ''cd'', SpClose]" "''s''" "''x''" "[]"
      "fst demo_spool" "snd demo_spool"]
    by (simp add: demo_spool_def spool_bytes_def)
qed

text \<open>What \<open>String\<close> returns of a spilled buffer: the part that was in memory, not the empty string.\<close>

lemma spilled_string_kept: "sb_spilled (fst demo_spool) \<and> spool_String (fst demo_spool) = ''ab''"
  by code_simp

end
