(* ===== verification/Ses_Pool.thy ===== *)
theory Ses_Pool
  imports Ses_Names Ses_Job Ses_Spool Blob_Http
begin

text \<open>
  The SSH session pool, the event loop of \<open>internal/session/pool.go\<close> and its handlers in \<open>pool_handlers.go\<close>: the
  sessions, and the transfer jobs, which outlive them.

  Clients and forwards are numbers. A handler returns its response, what it does to the outside in order, and the new
  state. The transfers run beside the loop, as steps of \<open>Ses_Job\<close>.
\<close>

subsection \<open>State\<close>

record session =
  se_id :: string
  se_machine :: string
  se_created :: int
  se_client :: nat
  se_ping :: "int option"
  se_spools :: "(string, string) gomap"
  se_forwards :: "nat list"
  se_ctx :: "transfer_error option"
  se_agent :: string
  se_banner :: string
  se_platform :: string

record pool_state =
  ps_sessions :: "(string, session) gomap"
  ps_uploads :: "(string, job_sys) gomap"
  ps_downloads :: "(string, job_sys) gomap"
  ps_live :: int

definition new_pool_state :: pool_state where
  "new_pool_state = \<lparr>ps_sessions = [], ps_uploads = [], ps_downloads = [], ps_live = 0\<rparr>"

datatype pool_error =
    SessionNotFound string
  | UploadNotFound string
  | DownloadNotFound string
  | SpoolNotFound string
  | PathRefused
  | DialFailed string
  | SaveFailed string

datatype pool_fx =
    FxCloseClient nat
  | FxCloseForward nat
  | FxRemoveSpool string
  | FxRemoveSpoolDir string
  | FxCloseSource
  | FxExec nat exec_request

subsection \<open>Options\<close>

record pool_options =
  pl_command_timeout :: int
  pl_max_output :: int
  pl_interval :: int
  pl_timeout :: int
  pl_retention :: int
  pl_local_set :: bool
  pl_spool_set :: bool

datatype pool_fs = GivenFS | DenyFS string | TempSpoolFS

definition pool_setDefaults :: "pool_options \<Rightarrow> pool_options \<times> pool_fs \<times> pool_fs" where
  "pool_setDefaults o' =
     (o'\<lparr>pl_command_timeout := (if pl_command_timeout o' \<le> 0 then 10 * 1000000000 else pl_command_timeout o'),
        pl_max_output := (if pl_max_output o' \<le> 0 then 8192 else pl_max_output o'),
        pl_interval := (if pl_interval o' \<le> 0 then 15 * 1000000000 else pl_interval o'),
        pl_timeout := (if pl_timeout o' \<le> 0 then 15 * 1000000000 else pl_timeout o'),
        pl_retention := (if pl_retention o' \<le> 0 then 60 * 60 * 1000000000 else pl_retention o')\<rparr>,
      if pl_local_set o' then GivenFS else DenyFS ''host file access is not configured for this server'',
      if pl_spool_set o' then GivenFS else TempSpoolFS)"

subsection \<open>Jobs of the loop\<close>

definition jobsOf :: "(string, job_sys) gomap \<Rightarrow> string \<Rightarrow> string list" where
  "jobsOf jobs sid =
     map fst (filter (\<lambda>(_, s). tj_session (js_job s) = sid \<and> \<not> terminal (js_job s)) (AList.clearjunk jobs))"

definition job_expired :: "int \<Rightarrow> int \<Rightarrow> job_sys \<Rightarrow> bool" where
  "job_expired retention now s = (case finishedAt (js_job s) of Some t \<Rightarrow> now - t > retention | None \<Rightarrow> False)"

definition evict :: "int \<Rightarrow> int \<Rightarrow> (string, job_sys) gomap \<Rightarrow> (string, job_sys) gomap" where
  "evict retention now jobs = filter (\<lambda>(_, s). \<not> job_expired retention now s) (AList.clearjunk jobs)"

definition map_jobs :: "(string \<Rightarrow> job_sys \<Rightarrow> job_sys) \<Rightarrow> (string, job_sys) gomap \<Rightarrow> (string, job_sys) gomap" where
  "map_jobs f jobs = map (\<lambda>(k, s). (k, f k s)) jobs"

subsection \<open>Opening and closing\<close>

record dial_result =
  dr_machine :: string
  dr_client :: nat
  dr_forwards :: "nat list"
  dr_err :: "string option"
  dr_agent :: string
  dr_banner :: string

definition handleDialResult ::
  "(string \<Rightarrow> string) \<Rightarrow> (nat \<Rightarrow> nat \<times> nat) \<Rightarrow> nat \<Rightarrow> int \<Rightarrow> dial_result \<Rightarrow> pool_state
     \<Rightarrow> (pool_error + string) \<times> pool_fx list \<times> pool_state" where
  "handleDialResult uni draw nano now res st =
     (case dr_err res of
        Some e \<Rightarrow> (Inl (DialFailed e), [], st)
      | None \<Rightarrow>
          (let sid = generateSessionID uni (dr_machine res) (\<lambda>k. map_of (ps_sessions st) k \<noteq> None) draw nano;
               sess = \<lparr>se_id = sid, se_machine = dr_machine res, se_created = now, se_client = dr_client res, se_ping = None,
                 se_spools = [], se_forwards = dr_forwards res, se_ctx = None, se_agent = dr_agent res,
                 se_banner = truncateBanner (dr_banner res), se_platform = detectPlatform (dr_agent res)\<rparr>
           in (Inr sid, [], st\<lparr>ps_sessions := AList.update sid sess (ps_sessions st), ps_live := ps_live st + 1\<rparr>)))"

text \<open>
  Canceling the session's context cancels its children's, the contexts of its jobs; aborting begins here and runs on
  beside the loop.
\<close>

definition cancel_children :: "string \<Rightarrow> transfer_error \<Rightarrow> (string, job_sys) gomap \<Rightarrow> (string, job_sys) gomap" where
  "cancel_children sid cause = map_jobs (\<lambda>_ s. if tj_session (js_job s) = sid then parent_canceled cause s else s)"

definition abort_jobs :: "transfer_error \<Rightarrow> string list \<Rightarrow> (string, job_sys) gomap \<Rightarrow> (string, job_sys) gomap" where
  "abort_jobs cause ks = map_jobs (\<lambda>k s. if k \<in> set ks then abort_begin cause s else s)"

definition close_jobs :: "string \<Rightarrow> transfer_error \<Rightarrow> (string, job_sys) gomap \<Rightarrow> (string, job_sys) gomap" where
  "close_jobs sid cause jobs =
     (let jobs' = cancel_children sid cause jobs in abort_jobs cause (jobsOf jobs' sid) jobs')"

definition handleClose :: "string \<Rightarrow> transfer_error option \<Rightarrow> pool_state \<Rightarrow> pool_fx list \<times> pool_state" where
  "handleClose sid cause st =
     (case map_of (ps_sessions st) sid of
        None \<Rightarrow> ([], st)
      | Some s \<Rightarrow>
          (let c = (case cause of Some c \<Rightarrow> c | None \<Rightarrow> ErrSessionClosed) in
           (map (\<lambda>(_, p). FxRemoveSpool p) (AList.clearjunk (se_spools s)) @ map FxCloseForward (se_forwards s)
              @ [FxRemoveSpoolDir sid, FxCloseClient (se_client s)],
            st\<lparr>ps_sessions := AList.delete sid (ps_sessions st),
               ps_uploads := close_jobs sid c (ps_uploads st),
               ps_downloads := close_jobs sid c (ps_downloads st), ps_live := ps_live st - 1\<rparr>)))"

definition handleGet :: "string \<Rightarrow> pool_state \<Rightarrow> pool_error + nat" where
  "handleGet sid st = (case map_of (ps_sessions st) sid of None \<Rightarrow> Inl (SessionNotFound sid) | Some s \<Rightarrow> Inr (se_client s))"

definition handleMachine :: "string \<Rightarrow> pool_state \<Rightarrow> pool_error + string" where
  "handleMachine sid st = (case map_of (ps_sessions st) sid of None \<Rightarrow> Inl (SessionNotFound sid) | Some s \<Rightarrow> Inr (se_machine s))"

definition session_status :: "int \<Rightarrow> session \<Rightarrow> string" where
  "session_status now s =
     (case se_ping s of None \<Rightarrow> ''new'' | Some t \<Rightarrow> if now - t < 30 * 1000000000 then ''connected'' else ''stale'')"

definition handleList :: "int \<Rightarrow> pool_state \<Rightarrow> (session \<times> string) list" where
  "handleList now st = map (\<lambda>(_, s). (s, session_status now s)) (AList.clearjunk (ps_sessions st))"

definition set_session :: "string \<Rightarrow> session \<Rightarrow> pool_state \<Rightarrow> pool_state" where
  "set_session sid s st = st\<lparr>ps_sessions := AList.update sid s (ps_sessions st)\<rparr>"

definition handleTouch :: "string \<Rightarrow> int \<Rightarrow> pool_state \<Rightarrow> (pool_error + unit) \<times> pool_state" where
  "handleTouch sid at_time st =
     (case map_of (ps_sessions st) sid of
        None \<Rightarrow> (Inl (SessionNotFound sid), st)
      | Some s \<Rightarrow> (Inr (), set_session sid (s\<lparr>se_ping := (if at_time = 0 then None else Some at_time)\<rparr>) st))"

subsection \<open>Spools and commands\<close>

definition handleRegisterSpool :: "string \<Rightarrow> string \<Rightarrow> string \<Rightarrow> pool_state \<Rightarrow> (pool_error + unit) \<times> pool_state" where
  "handleRegisterSpool sid spid path st =
     (case map_of (ps_sessions st) sid of
        None \<Rightarrow> (Inl (SessionNotFound sid), st)
      | Some s \<Rightarrow> (Inr (), set_session sid (s\<lparr>se_spools := AList.update spid path (se_spools s)\<rparr>) st))"

definition handleGetSpool :: "string \<Rightarrow> string \<Rightarrow> pool_state \<Rightarrow> pool_error + string" where
  "handleGetSpool sid spid st =
     (case map_of (ps_sessions st) sid of
        None \<Rightarrow> Inl (SessionNotFound sid)
      | Some s \<Rightarrow> (case map_of (se_spools s) spid of None \<Rightarrow> Inl (SpoolNotFound spid) | Some p \<Rightarrow> Inr p))"

definition handleDeleteSpool :: "string \<Rightarrow> string \<Rightarrow> pool_state \<Rightarrow> (pool_error + unit) \<times> pool_fx list \<times> pool_state" where
  "handleDeleteSpool sid spid st =
     (case map_of (ps_sessions st) sid of
        None \<Rightarrow> (Inl (SessionNotFound sid), [], st)
      | Some s \<Rightarrow>
          (case map_of (se_spools s) spid of
             None \<Rightarrow> (Inl (SpoolNotFound spid), [], st)
           | Some p \<Rightarrow> (Inr (), [FxRemoveSpool p], set_session sid (s\<lparr>se_spools := AList.delete spid (se_spools s)\<rparr>) st)))"

definition handleExec :: "exec_request \<Rightarrow> pool_state \<Rightarrow> (pool_error + unit) \<times> pool_fx list" where
  "handleExec r st =
     (case map_of (ps_sessions st) (ex_session r) of
        None \<Rightarrow> (Inl (SessionNotFound (ex_session r)), [])
      | Some s \<Rightarrow> (Inr (), [FxExec (se_client s) (r\<lparr>ex_comment := ex_comment r \<and> se_platform s = ''linux''\<rparr>)]))"

text \<open>
  \<open>SaveSpool\<close>: the spool files are read, and the host files, \<open>host\<close>, are written. \<open>sv_copy\<close> is a failure after some
  bytes.
\<close>

record save_faults =
  sv_mkdir :: bool
  sv_create :: bool
  sv_copy :: "nat option"
  sv_close :: bool

definition SaveSpool ::
  "(string \<Rightarrow> bool) \<Rightarrow> save_faults \<Rightarrow> spool_files \<Rightarrow> string \<Rightarrow> string \<Rightarrow> string \<Rightarrow> (string, string) gomap \<Rightarrow> pool_state
     \<Rightarrow> (pool_error + unit) \<times> pool_fx list \<times> (string, string) gomap \<times> pool_state" where
  "SaveSpool resolves f spools sid spid local_path host st =
     (if \<not> resolves local_path then (Inl PathRefused, [], host, st)
      else
        (case handleGetSpool sid spid st of
           Inl e \<Rightarrow> (Inl e, [], host, st)
         | Inr p \<Rightarrow>
             (case map_of spools p of
                None \<Rightarrow> (Inl (SaveFailed ''open spool''), [], host, st)
              | Some content \<Rightarrow>
                  (if sv_mkdir f then (Inl (SaveFailed ''create destination directory''), [], host, st)
                   else if sv_create f then (Inl (SaveFailed ''create destination''), [], host, st)
                   else
                     (case sv_copy f of
                        Some k \<Rightarrow> (Inl (SaveFailed ''write destination''), [], AList.update local_path (take k content) host, st)
                      | None \<Rightarrow>
                          (let host' = AList.update local_path content host in
                           if sv_close f then (Inl (SaveFailed ''close destination''), [], host', st)
                           else (let (r, fx, st') = handleDeleteSpool sid spid st in (r, fx, host', st'))))))))"

subsection \<open>Transfers\<close>

record transfer_request =
  tq_session :: string
  tq_local :: string
  tq_remote :: string
  tq_stream :: bool

definition start_job :: "session \<Rightarrow> string \<Rightarrow> transfer_request \<Rightarrow> bool \<Rightarrow> bool \<Rightarrow> int \<Rightarrow> job_sys" where
  "start_job s jid r source sink now =
     new_job_sys ((newTransferJob (se_ctx s) jid (tq_session r) (tq_local r) (tq_remote r) now)
       \<lparr>tj_source := source, tj_sink := sink\<rparr>)"

definition handleUpload ::
  "int \<Rightarrow> (string \<Rightarrow> bool) \<Rightarrow> int \<Rightarrow> nat \<Rightarrow> transfer_request \<Rightarrow> pool_state \<Rightarrow> (pool_error + string) \<times> pool_fx list \<times> pool_state" where
  "handleUpload retention resolves now nano r st =
     (let fx = (if tq_stream r then [FxCloseSource] else []) in
      case map_of (ps_sessions st) (tq_session r) of
        None \<Rightarrow> (Inl (SessionNotFound (tq_session r)), fx, st)
      | Some s \<Rightarrow>
          (if \<not> tq_stream r \<and> \<not> resolves (tq_local r) then (Inl PathRefused, fx, st)
           else
             (let jid = ''upload-'' @ dec_nat nano in
              (Inr jid, [], st\<lparr>ps_uploads := AList.update jid (start_job s jid r (tq_stream r) False now) (evict retention now (ps_uploads st))\<rparr>))))"

definition handleDownload ::
  "int \<Rightarrow> (string \<Rightarrow> bool) \<Rightarrow> int \<Rightarrow> nat \<Rightarrow> transfer_request \<Rightarrow> pool_state \<Rightarrow> (pool_error + string) \<times> pool_state" where
  "handleDownload retention resolves now nano r st =
     (case map_of (ps_sessions st) (tq_session r) of
        None \<Rightarrow> (Inl (SessionNotFound (tq_session r)), st)
      | Some s \<Rightarrow>
          (if \<not> tq_stream r \<and> \<not> resolves (tq_local r) then (Inl PathRefused, st)
           else
             (let jid = ''download-'' @ dec_nat nano in
              (Inr jid, st\<lparr>ps_downloads := AList.update jid (start_job s jid r False (tq_stream r) now)
                 (evict retention now (ps_downloads st))\<rparr>))))"

text \<open>A job is found by its id, whether or not its session is still there.\<close>

definition find_job ::
  "(string \<Rightarrow> pool_error) \<Rightarrow> (string, job_sys) gomap \<Rightarrow> string \<Rightarrow> string \<Rightarrow> pool_state \<Rightarrow> pool_error + job_sys" where
  "find_job not_found jobs sid jid st =
     (case map_of jobs jid of
        Some j \<Rightarrow> Inr j
      | None \<Rightarrow> (case map_of (ps_sessions st) sid of None \<Rightarrow> Inl (SessionNotFound sid) | Some _ \<Rightarrow> Inl (not_found jid)))"

definition findUploadJob :: "pool_state \<Rightarrow> string \<Rightarrow> string \<Rightarrow> pool_error + job_sys" where
  "findUploadJob st sid jid = find_job UploadNotFound (ps_uploads st) sid jid st"

definition findDownloadJob :: "pool_state \<Rightarrow> string \<Rightarrow> string \<Rightarrow> pool_error + job_sys" where
  "findDownloadJob st sid jid = find_job DownloadNotFound (ps_downloads st) sid jid st"

definition job_status :: "int \<Rightarrow> job_sys \<Rightarrow> transfer_snapshot \<times> job_sys" where
  "job_status now s = (let (sn, j) = newTransferSnapshot now (js_job s) in (sn, s\<lparr>js_job := j\<rparr>))"

definition handleUploadStatus :: "int \<Rightarrow> string \<Rightarrow> string \<Rightarrow> pool_state \<Rightarrow> (pool_error + transfer_snapshot) \<times> pool_state" where
  "handleUploadStatus now sid jid st =
     (case findUploadJob st sid jid of
        Inl e \<Rightarrow> (Inl e, st)
      | Inr s \<Rightarrow> (let (sn, s') = job_status now s in (Inr sn, st\<lparr>ps_uploads := AList.update jid s' (ps_uploads st)\<rparr>)))"

definition handleDownloadStatus :: "int \<Rightarrow> string \<Rightarrow> string \<Rightarrow> pool_state \<Rightarrow> (pool_error + transfer_snapshot) \<times> pool_state" where
  "handleDownloadStatus now sid jid st =
     (case findDownloadJob st sid jid of
        Inl e \<Rightarrow> (Inl e, st)
      | Inr s \<Rightarrow> (let (sn, s') = job_status now s in (Inr sn, st\<lparr>ps_downloads := AList.update jid s' (ps_downloads st)\<rparr>)))"

definition handleUploadCancel :: "string \<Rightarrow> string \<Rightarrow> pool_state \<Rightarrow> pool_error option \<times> pool_state" where
  "handleUploadCancel sid jid st =
     (case findUploadJob st sid jid of
        Inl e \<Rightarrow> (Some e, st)
      | Inr s \<Rightarrow> (None, st\<lparr>ps_uploads := AList.update jid (abort_begin ErrTransferCanceled s) (ps_uploads st)\<rparr>))"

definition handleDownloadCancel :: "string \<Rightarrow> string \<Rightarrow> pool_state \<Rightarrow> pool_error option \<times> pool_state" where
  "handleDownloadCancel sid jid st =
     (case findDownloadJob st sid jid of
        Inl e \<Rightarrow> (Some e, st)
      | Inr s \<Rightarrow> (None, st\<lparr>ps_downloads := AList.update jid (abort_begin ErrTransferCanceled s) (ps_downloads st)\<rparr>))"

text \<open>
  What a caller that waits for a job may be told: its state once it is done, or, when the caller gives up, its state
  so far with the caller's error. None yet: it waits on.
\<close>

definition wait_responses :: "int \<Rightarrow> bool \<Rightarrow> job_sys \<Rightarrow> (transfer_snapshot \<times> bool) list" where
  "wait_responses now caller_gone s =
     (if terminal (js_job s) then [(fst (job_status now s), False)] else [])
     @ (if caller_gone then [(fst (job_status now s), True)] else [])"

text \<open>
  \<open>UploadFrom\<close>: whether the request reached the loop, and whether the caller was still there for the answer.
\<close>

definition UploadFrom ::
  "bool \<Rightarrow> bool \<Rightarrow> int \<Rightarrow> int \<Rightarrow> nat \<Rightarrow> string \<Rightarrow> string \<Rightarrow> pool_state \<Rightarrow> (pool_error + string) option \<times> pool_fx list \<times> pool_state" where
  "UploadFrom sent answered retention now nano sid remote st =
     (if \<not> sent then (None, [FxCloseSource], st)
      else
        (let (r, fx, st') = handleUpload retention (\<lambda>_. True) now nano
               \<lparr>tq_session = sid, tq_local = [], tq_remote = remote, tq_stream = True\<rparr> st
         in if answered then (Some r, fx, st') else (None, fx @ [FxCloseSource], st')))"

text \<open>When the loop's context is done, it closes what the sessions hold.\<close>

definition shutdown :: "pool_state \<Rightarrow> pool_fx list" where
  "shutdown st =
     concat (map (\<lambda>(_, s). map (\<lambda>(_, p). FxRemoveSpool p) (AList.clearjunk (se_spools s)) @ map FxCloseForward (se_forwards s)
       @ [FxRemoveSpoolDir (se_id s), FxCloseClient (se_client s)]) (AList.clearjunk (ps_sessions st)))"

subsection \<open>The loop\<close>

text \<open>
  One turn of the loop, at a time, or one step of a transfer beside it. Two assumptions are made of names: a new
  session's id is free when its machine is given one (see \<open>generateSessionID_free\<close>), and no two jobs start in the same
  nanosecond.
\<close>

inductive pool_step :: "int \<Rightarrow> int \<Rightarrow> pool_state \<Rightarrow> pool_state \<Rightarrow> bool" for retention :: int and now :: int where
  pool_dial:
    "handleDialResult uni draw nano now res st = (r, fx, st') \<Longrightarrow> (\<forall>sid. r = Inr sid \<longrightarrow> map_of (ps_sessions st) sid = None)
      \<Longrightarrow> pool_step retention now st st'"
| pool_close: "pool_step retention now st (snd (handleClose sid cause st))"
| pool_touch: "pool_step retention now st (snd (handleTouch sid now st))"
| pool_register: "pool_step retention now st (snd (handleRegisterSpool sid spid path st))"
| pool_delete_spool: "pool_step retention now st (snd (snd (handleDeleteSpool sid spid st)))"
| pool_upload:
    "map_of (ps_uploads st) (''upload-'' @ dec_nat nano) = None
      \<Longrightarrow> pool_step retention now st (snd (snd (handleUpload retention resolves now nano r st)))"
| pool_download:
    "map_of (ps_downloads st) (''download-'' @ dec_nat nano) = None
      \<Longrightarrow> pool_step retention now st (snd (handleDownload retention resolves now nano r st))"
| pool_upload_status: "pool_step retention now st (snd (handleUploadStatus now sid jid st))"
| pool_download_status: "pool_step retention now st (snd (handleDownloadStatus now sid jid st))"
| pool_upload_cancel: "pool_step retention now st (snd (handleUploadCancel sid jid st))"
| pool_download_cancel: "pool_step retention now st (snd (handleDownloadCancel sid jid st))"
| pool_upload_runs:
    "map_of (ps_uploads st) jid = Some s \<Longrightarrow> job_own s s'
      \<Longrightarrow> pool_step retention now st (st\<lparr>ps_uploads := AList.update jid s' (ps_uploads st)\<rparr>)"
| pool_download_runs:
    "map_of (ps_downloads st) jid = Some s \<Longrightarrow> job_own s s'
      \<Longrightarrow> pool_step retention now st (st\<lparr>ps_downloads := AList.update jid s' (ps_downloads st)\<rparr>)"

inductive pool_reach :: "int \<Rightarrow> pool_state \<Rightarrow> bool" for retention :: int where
  pool_new: "pool_reach retention new_pool_state"
| pool_next: "pool_reach retention st \<Longrightarrow> pool_step retention now st st' \<Longrightarrow> pool_reach retention st'"

subsection \<open>Invariants\<close>

definition job_kept :: "(string \<Rightarrow> bool) \<Rightarrow> job_sys \<Rightarrow> bool" where
  "job_kept live s \<longleftrightarrow> terminal (js_job s) \<or> tj_aborted (js_job s) \<or> live (tj_session (js_job s))"

definition jobs_ok :: "(string \<Rightarrow> bool) \<Rightarrow> (string, job_sys) gomap \<Rightarrow> bool" where
  "jobs_ok live jobs \<longleftrightarrow> (\<forall>k s. map_of jobs k = Some s \<longrightarrow> tj_id (js_job s) = k \<and> job_reach s \<and> job_kept live s)"

definition live_session :: "pool_state \<Rightarrow> string \<Rightarrow> bool" where
  "live_session st sid \<longleftrightarrow> map_of (ps_sessions st) sid \<noteq> None"

definition pool_inv :: "pool_state \<Rightarrow> bool" where
  "pool_inv st \<longleftrightarrow>
     ps_live st = int (card (dom (map_of (ps_sessions st))))
     \<and> (\<forall>k s. map_of (ps_sessions st) k = Some s \<longrightarrow> se_id s = k \<and> se_ctx s = None)
     \<and> jobs_ok (live_session st) (ps_uploads st) \<and> jobs_ok (live_session st) (ps_downloads st)"

lemma map_of_map_jobs [simp]: "map_of (map_jobs f m) k = map_option (f k) (map_of m k)"
  by (induction m) (auto simp: map_jobs_def)

lemma map_of_evict:
  "map_of (evict retention now jobs) k =
     (case map_of jobs k of Some s \<Rightarrow> if job_expired retention now s then None else Some s | None \<Rightarrow> None)"
  using map_of_kept [of "\<lambda>s. \<not> job_expired retention now s" jobs k] by (auto simp: evict_def split: option.split)

lemma jobs_ok_update:
  assumes "jobs_ok live jobs" and "tj_id (js_job s) = k" and "job_reach s" and "job_kept live s"
  shows "jobs_ok live (AList.update k s jobs)"
  using assms by (simp add: jobs_ok_def)

lemma jobs_ok_sub:
  "jobs_ok live jobs \<Longrightarrow> \<forall>k s. map_of jobs' k = Some s \<longrightarrow> map_of jobs k = Some s \<Longrightarrow> jobs_ok live jobs'"
  by (auto simp: jobs_ok_def)

lemma job_kept_mono: "job_kept live s \<Longrightarrow> \<forall>k. live k \<longrightarrow> live' k \<Longrightarrow> job_kept live' s"
  by (auto simp: job_kept_def)

lemma jobs_ok_mono: "jobs_ok live jobs \<Longrightarrow> \<forall>k. live k \<longrightarrow> live' k \<Longrightarrow> jobs_ok live' jobs"
  using job_kept_mono unfolding jobs_ok_def by blast

lemma job_step_id: "job_step s s' \<Longrightarrow> tj_id (js_job s') = tj_id (js_job s) \<and> tj_session (js_job s') = tj_session (js_job s)"
  by (induction rule: job_step.induct) (auto simp: job_end_def setTotal_def job_add_def setCloser_def split: if_splits)

lemma job_event_id: "job_event s s' \<Longrightarrow> tj_id (js_job s') = tj_id (js_job s) \<and> tj_session (js_job s') = tj_session (js_job s)"
proof (induction rule: job_event.induct)
  case (event_own s s')
  then show ?case
    by (induction rule: job_own.induct)
      (auto simp: job_step_id abort_end_def job_cancel_def close_client_def split: option.split)
qed (auto simp: abort_begin_def abort_section_def parent_canceled_def job_cancel_def)

lemma job_event_aborted: "job_event s s' \<Longrightarrow> tj_aborted (js_job s) \<Longrightarrow> tj_aborted (js_job s')"
proof (induction rule: job_event.induct)
  case (event_own s s')
  have "job_step s s' \<Longrightarrow> tj_aborted (js_job s) \<Longrightarrow> tj_aborted (js_job s')" for s s'
    by (induction rule: job_step.induct) (auto simp: job_end_def setTotal_def job_add_def setCloser_def split: if_splits)
  with event_own show ?case
    by (induction rule: job_own.induct) (auto simp: abort_end_def job_cancel_def close_client_def split: option.split)
qed (auto simp: abort_begin_def abort_section_def parent_canceled_def job_cancel_def)

lemma job_event_done: "job_event s s' \<Longrightarrow> js_pc s = JDone \<Longrightarrow> js_pc s' = JDone"
proof (induction rule: job_event.induct)
  case (event_own s s')
  have "job_step s s' \<Longrightarrow> js_pc s \<noteq> JDone" for s s' by (induction rule: job_step.induct) simp_all
  with event_own show ?case by (induction rule: job_own.induct) (auto simp: outside_keeps)
qed (simp_all add: outside_keeps)

lemma terminal_iff: "job_reach s \<Longrightarrow> terminal (js_job s) \<longleftrightarrow> js_pc s = JDone"
  using job_reach_inv [of s] by (cases "js_pc s") (simp_all add: job_inv_defs terminal_def)

lemma job_event_terminal: "job_reach s \<Longrightarrow> job_event s s' \<Longrightarrow> terminal (js_job s) \<Longrightarrow> terminal (js_job s')"
  using job_event_done terminal_iff job_next by metis

lemma job_event_kept: "job_reach s \<Longrightarrow> job_event s s' \<Longrightarrow> job_kept live s \<Longrightarrow> job_kept live s'"
  using job_event_aborted job_event_terminal job_event_id unfolding job_kept_def by metis

lemma jobs_ok_event:
  assumes "jobs_ok live jobs" and "map_of jobs k = Some s" and "job_event s s'"
  shows "jobs_ok live (AList.update k s' jobs)"
proof -
  have s: "tj_id (js_job s) = k" "job_reach s" "job_kept live s" using assms(1,2) by (auto simp: jobs_ok_def)
  show ?thesis
    by (rule jobs_ok_update [OF assms(1)])
      (use job_event_id [OF assms(3)] s job_next [OF s(2) assms(3)] job_event_kept [OF s(2) assms(3)] in auto)
qed

lemma start_job_reach: "job_reach (start_job s jid r source sink now)"
  unfolding start_job_def by (rule job_new)

lemma start_job_fields [simp]:
  "tj_id (js_job (start_job s jid r source sink now)) = jid"
  "tj_session (js_job (start_job s jid r source sink now)) = tq_session r"
  by (simp_all add: start_job_def new_job_sys_def newTransferJob_def)

text \<open>What closing does to one job.\<close>

definition closed_job :: "string \<Rightarrow> transfer_error \<Rightarrow> job_sys \<Rightarrow> job_sys" where
  "closed_job sid cause s =
     (if tj_session (js_job s) \<noteq> sid then s
      else if terminal (js_job s) then parent_canceled cause s else abort_begin cause (parent_canceled cause s))"

lemma parent_canceled_fields [simp]:
  "tj_session (js_job (parent_canceled cause s)) = tj_session (js_job s)" "terminal (js_job (parent_canceled cause s)) = terminal (js_job s)"
  by (simp_all add: parent_canceled_def job_cancel_def terminal_def)

lemma jobsOf_iff: "k \<in> set (jobsOf jobs sid) \<longleftrightarrow> (\<exists>s. map_of jobs k = Some s \<and> tj_session (js_job s) = sid \<and> \<not> terminal (js_job s))"
proof -
  have "(k, s) \<in> set (AList.clearjunk jobs) \<longleftrightarrow> map_of jobs k = Some s" for s
    using map_of_eq_Some_iff [OF distinct_clearjunk, of jobs k s] by (simp add: map_of_clearjunk)
  then show ?thesis by (force simp: jobsOf_def)
qed

lemma map_of_close_jobs [simp]: "map_of (close_jobs sid cause jobs) k = map_option (closed_job sid cause) (map_of jobs k)"
  by (cases "map_of jobs k")
    (auto simp: close_jobs_def abort_jobs_def cancel_children_def Let_def jobsOf_iff closed_job_def)

lemma closed_job_events: "\<exists>s1. (s1 = s \<or> job_event s s1) \<and> (closed_job sid cause s = s1 \<or> job_event s1 (closed_job sid cause s))"
  unfolding closed_job_def using event_parent event_abort by metis

lemma closed_job_reach: "job_reach s \<Longrightarrow> job_reach (closed_job sid cause s)"
  using closed_job_events [of s sid cause] job_next by metis

lemma abort_begin_aborted [simp]: "tj_aborted (js_job (abort_begin cause s))"
  by (simp add: abort_begin_def abort_section_def)

lemma closed_job_id [simp]: "tj_id (js_job (closed_job sid cause s)) = tj_id (js_job s)"
  "tj_session (js_job (closed_job sid cause s)) = tj_session (js_job s)"
  using closed_job_events [of s sid cause] job_event_id by metis+

lemma closed_job_kept:
  "job_kept live s \<Longrightarrow> job_kept (\<lambda>k. live k \<and> k \<noteq> sid) (closed_job sid cause s)"
  by (auto simp: job_kept_def closed_job_def)

lemma close_jobs_ok: "jobs_ok live jobs \<Longrightarrow> jobs_ok (\<lambda>k. live k \<and> k \<noteq> sid) (close_jobs sid cause jobs)"
  by (auto simp: jobs_ok_def closed_job_reach closed_job_kept)

lemma live_simps [simp]:
  "live_session (st\<lparr>ps_uploads := jobs\<rparr>) = live_session st" "live_session (st\<lparr>ps_downloads := jobs\<rparr>) = live_session st"
  "live_session (st\<lparr>ps_live := n\<rparr>) = live_session st"
  by (simp_all add: live_session_def fun_eq_iff)

lemma inv_sessions:
  assumes inv: "pool_inv st" and s: "map_of (ps_sessions st) sid = Some s" and new: "se_id s' = se_id s" "se_ctx s' = se_ctx s"
  shows "pool_inv (set_session sid s' st)"
proof -
  have dom: "dom (map_of (AList.update sid s' (ps_sessions st))) = dom (map_of (ps_sessions st))"
    using s by auto
  have live: "live_session (set_session sid s' st) = live_session st"
    using s by (auto simp: live_session_def set_session_def fun_eq_iff)
  have "se_id s' = sid \<and> se_ctx s' = None" using inv s new by (simp add: pool_inv_def)
  then have "\<forall>k t. map_of (AList.update sid s' (ps_sessions st)) k = Some t \<longrightarrow> se_id t = k \<and> se_ctx t = None"
    using inv by (simp add: pool_inv_def)
  then show ?thesis using inv unfolding pool_inv_def live by (simp add: set_session_def dom del: AList.update_conv')
qed

lemma inv_uploads: "pool_inv st \<Longrightarrow> jobs_ok (live_session st) jobs \<Longrightarrow> pool_inv (st\<lparr>ps_uploads := jobs\<rparr>)"
  by (simp add: pool_inv_def live_session_def)

lemma inv_downloads: "pool_inv st \<Longrightarrow> jobs_ok (live_session st) jobs \<Longrightarrow> pool_inv (st\<lparr>ps_downloads := jobs\<rparr>)"
  by (simp add: pool_inv_def live_session_def)

lemma evict_ok: "jobs_ok live jobs \<Longrightarrow> jobs_ok live (evict retention now jobs)"
  by (rule jobs_ok_sub) (auto simp: map_of_evict split: option.splits if_splits)

lemma upload_inv:
  assumes "pool_inv st"
  shows "pool_inv (snd (snd (handleUpload retention resolves now nano r st)))"
    and "pool_inv (snd (handleDownload retention resolves now nano r st))"
proof -
  have "jobs_ok (live_session st) (AList.update jid (start_job s jid r src snk now) (evict retention now jobs))"
    if "map_of (ps_sessions st) (tq_session r) = Some s" "jobs_ok (live_session st) jobs" for s jid src snk jobs
    by (intro jobs_ok_update evict_ok) (use that in \<open>simp_all add: start_job_reach job_kept_def live_session_def\<close>)
  then show "pool_inv (snd (snd (handleUpload retention resolves now nano r st)))"
    "pool_inv (snd (handleDownload retention resolves now nano r st))"
    using assms by (auto simp: handleUpload_def handleDownload_def Let_def pool_inv_def [of st]
      intro!: inv_uploads inv_downloads split: option.split)
qed

lemma job_status_event: "job_event s (snd (job_status now s))"
  using event_sample [of s now] by (simp add: job_status_def newTransferSnapshot_def Let_def split: prod.split)

lemma find_job_Inr: "find_job nf jobs sid jid st = Inr s \<longleftrightarrow> map_of jobs jid = Some s"
  by (auto simp: find_job_def split: option.splits)

lemma status_inv:
  assumes "pool_inv st"
  shows "pool_inv (snd (handleUploadStatus now sid jid st))" and "pool_inv (snd (handleDownloadStatus now sid jid st))"
    and "pool_inv (snd (handleUploadCancel sid jid st))" and "pool_inv (snd (handleDownloadCancel sid jid st))"
proof -
  have up: "pool_inv (st\<lparr>ps_uploads := AList.update jid s' (ps_uploads st)\<rparr>)"
    if "map_of (ps_uploads st) jid = Some s" "job_event s s'" for s s'
    using assms that by (intro inv_uploads jobs_ok_event) (auto simp: pool_inv_def)
  have down: "pool_inv (st\<lparr>ps_downloads := AList.update jid s' (ps_downloads st)\<rparr>)"
    if "map_of (ps_downloads st) jid = Some s" "job_event s s'" for s s'
    using assms that by (intro inv_downloads jobs_ok_event) (auto simp: pool_inv_def)
  note ev = job_status_event event_abort
  show "pool_inv (snd (handleUploadStatus now sid jid st))"
    using up ev assms by (auto simp: handleUploadStatus_def findUploadJob_def find_job_Inr prod.case_eq_if split: sum.split)
  show "pool_inv (snd (handleDownloadStatus now sid jid st))"
    using down ev assms by (auto simp: handleDownloadStatus_def findDownloadJob_def find_job_Inr prod.case_eq_if split: sum.split)
  show "pool_inv (snd (handleUploadCancel sid jid st))"
    using up ev assms by (auto simp: handleUploadCancel_def findUploadJob_def find_job_Inr split: sum.split)
  show "pool_inv (snd (handleDownloadCancel sid jid st))"
    using down ev assms by (auto simp: handleDownloadCancel_def findDownloadJob_def find_job_Inr split: sum.split)
qed

lemma close_inv: 
  assumes "pool_inv st"
  shows "pool_inv (snd (handleClose sid cause st))"
proof (cases "map_of (ps_sessions st) sid")
  case None
  then show ?thesis using assms by (simp add: handleClose_def)
next
  case (Some s)
  let ?c = "case cause of Some c \<Rightarrow> c | None \<Rightarrow> ErrSessionClosed"
  let ?st = "snd (handleClose sid cause st)"
  have st: "?st = st\<lparr>ps_sessions := AList.delete sid (ps_sessions st), ps_uploads := close_jobs sid ?c (ps_uploads st),
      ps_downloads := close_jobs sid ?c (ps_downloads st), ps_live := ps_live st - 1\<rparr>"
    by (simp add: handleClose_def Some Let_def)
  have live: "live_session ?st = (\<lambda>k. live_session st k \<and> k \<noteq> sid)"
    by (auto simp: st live_session_def fun_eq_iff)
  have fin: "finite (dom (map_of (ps_sessions st)))" by (rule finite_dom_map_of)
  have "sid \<in> dom (map_of (ps_sessions st))" using Some by blast
  then have "int (card (dom (map_of (ps_sessions st)) - {sid})) = int (card (dom (map_of (ps_sessions st)))) - 1"
    using fin card_Suc_Diff1 [OF fin] by (metis add_diff_cancel_left' of_nat_Suc)
  moreover have "dom (map_of (AList.delete sid (ps_sessions st))) = dom (map_of (ps_sessions st)) - {sid}" by auto
  ultimately show ?thesis
    using assms close_jobs_ok [of "live_session st" _ sid ?c] unfolding pool_inv_def live by (simp add: st)
qed

lemma dial_inv:
  assumes inv: "pool_inv st" and d: "handleDialResult uni draw nano now res st = (r, fx, st')"
    and free: "\<forall>sid. r = Inr sid \<longrightarrow> map_of (ps_sessions st) sid = None"
  shows "pool_inv st'"
proof (cases "dr_err res")
  case (Some e)
  then show ?thesis using d inv by (simp add: handleDialResult_def)
next
  case None
  define sid where "sid = generateSessionID uni (dr_machine res) (\<lambda>k. map_of (ps_sessions st) k \<noteq> None) draw nano"
  define s where "s = \<lparr>se_id = sid, se_machine = dr_machine res, se_created = now, se_client = dr_client res, se_ping = None,
    se_spools = [], se_forwards = dr_forwards res, se_ctx = None, se_agent = dr_agent res,
    se_banner = truncateBanner (dr_banner res), se_platform = detectPlatform (dr_agent res)\<rparr>"
  have r: "r = Inr sid" and st': "st' = st\<lparr>ps_sessions := AList.update sid s (ps_sessions st), ps_live := ps_live st + 1\<rparr>"
    using d None by (simp_all add: handleDialResult_def Let_def sid_def s_def)
  have s: "se_id s = sid" "se_ctx s = None" by (simp_all add: s_def)
  have "sid \<notin> dom (map_of (ps_sessions st))" using free r by auto
  then have card: "card (dom (map_of (AList.update sid s (ps_sessions st)))) = card (dom (map_of (ps_sessions st))) + 1"
    using finite_dom_map_of [of "ps_sessions st"] by simp
  have mono: "\<forall>k. live_session st k \<longrightarrow> live_session st' k" by (simp add: st' live_session_def)
  show ?thesis
    using inv s card jobs_ok_mono [OF _ mono] unfolding pool_inv_def by (auto simp: st' split: if_splits)
qed

lemma pool_step_inv: "pool_step retention now st st' \<Longrightarrow> pool_inv st \<Longrightarrow> pool_inv st'"
proof (induction rule: pool_step.induct)
  case (pool_touch st sid)
  then show ?case by (auto simp: handleTouch_def intro!: inv_sessions split: option.split)
next
  case (pool_register st sid spid path)
  then show ?case by (auto simp: handleRegisterSpool_def intro!: inv_sessions split: option.split)
next
  case (pool_delete_spool st sid spid)
  then show ?case by (auto simp: handleDeleteSpool_def intro!: inv_sessions split: option.split)
next
  case (pool_upload_runs st jid s s')
  then show ?case by (intro inv_uploads jobs_ok_event) (auto simp: pool_inv_def event_own)
next
  case (pool_download_runs st jid s s')
  then show ?case by (intro inv_downloads jobs_ok_event) (auto simp: pool_inv_def event_own)
qed (simp_all add: dial_inv close_inv upload_inv status_inv)

lemma pool_reach_inv: "pool_reach retention st \<Longrightarrow> pool_inv st"
proof (induction rule: pool_reach.induct)
  case pool_new
  then show ?case by (simp add: pool_inv_def new_pool_state_def jobs_ok_def)
qed (simp add: pool_step_inv)

subsection \<open>What closing a session does\<close>

text \<open>Every transfer of the session has its cause, and ends by \<open>abort_ends_transfer\<close>.\<close>

definition stopped :: "job_sys \<Rightarrow> bool" where
  "stopped s \<longleftrightarrow> terminal (js_job s) \<or> tj_aborted (js_job s) \<and> tj_ctx (js_job s) \<noteq> None"

definition stops_jobs :: "string \<Rightarrow> (string, job_sys) gomap \<Rightarrow> (string, job_sys) gomap \<Rightarrow> bool" where
  "stops_jobs sid jobs jobs' \<longleftrightarrow>
     (\<forall>k. case map_of jobs k of
            None \<Rightarrow> map_of jobs' k = None
          | Some s \<Rightarrow> (if tj_session (js_job s) = sid then (\<exists>s'. map_of jobs' k = Some s' \<and> stopped s')
                      else map_of jobs' k = Some s))"

lemma cancel_ctx_ex [simp]: "\<exists>y. cancel_ctx c x = Some y"
  by (cases x) simp_all

lemma closed_job_stopped: "tj_session (js_job s) = sid \<Longrightarrow> stopped (closed_job sid cause s)"
  by (simp add: closed_job_def stopped_def parent_canceled_def job_cancel_def abort_begin_def abort_section_def terminal_def)

lemma close_stops: "stops_jobs sid jobs (close_jobs sid cause jobs)"
proof -
  have "tj_session (js_job s) \<noteq> sid \<Longrightarrow> closed_job sid cause s = s" for s by (simp add: closed_job_def)
  then show ?thesis by (simp add: stops_jobs_def closed_job_stopped split: option.split)
qed


subsection \<open>Jobs outlive their sessions\<close>

definition same_job :: "job_sys \<Rightarrow> job_sys \<Rightarrow> bool" where
  "same_job s s' \<longleftrightarrow> tj_id (js_job s') = tj_id (js_job s) \<and> tj_session (js_job s') = tj_session (js_job s)
     \<and> (\<not> terminal (js_job s) \<or> terminal (js_job s') \<and> job_result (js_job s') = job_result (js_job s))"

definition jobs_last :: "int \<Rightarrow> int \<Rightarrow> (string, job_sys) gomap \<Rightarrow> (string, job_sys) gomap \<Rightarrow> bool" where
  "jobs_last retention now jobs jobs' \<longleftrightarrow>
     (\<forall>k s. map_of jobs k = Some s \<longrightarrow> job_expired retention now s \<or> (\<exists>s'. map_of jobs' k = Some s' \<and> same_job s s'))"

lemma same_job_refl [simp]: "same_job s s"
  by (simp add: same_job_def)

lemma jobs_last_refl [simp]: "jobs_last retention now jobs jobs"
  by (simp add: jobs_last_def)

lemma same_job_event: "job_reach s \<Longrightarrow> job_event s s' \<Longrightarrow> same_job s s'"
proof -
  assume r: "job_reach s" and e: "job_event s s'"
  have "terminal (js_job s) \<Longrightarrow> job_result (js_job s') = job_result (js_job s)"
    using told_why_event [OF r e] terminal_iff [OF r] by (simp add: told_why_def)
  then show ?thesis using job_event_id [OF e] job_event_terminal [OF r e] by (auto simp: same_job_def)
qed

lemma same_job_trans: "same_job s t \<Longrightarrow> same_job t u \<Longrightarrow> same_job s u"
  by (auto simp: same_job_def)

lemma same_job_closed: "job_reach s \<Longrightarrow> same_job s (closed_job sid cause s)"
  using closed_job_events [of s sid cause] same_job_event job_next same_job_trans same_job_refl by metis

lemma last_update:
  assumes "map_of jobs k = Some s" and "same_job s s'"
  shows "jobs_last retention now jobs (AList.update k s' jobs)"
  using assms by (auto simp: jobs_last_def)

lemma last_event:
  "jobs_ok live jobs \<Longrightarrow> map_of jobs k = Some s \<Longrightarrow> job_event s s' \<Longrightarrow> jobs_last retention now jobs (AList.update k s' jobs)"
  using last_update same_job_event unfolding jobs_ok_def by blast

lemma last_start:
  assumes "map_of jobs k = None"
  shows "jobs_last retention now jobs (AList.update k s' (evict retention now jobs))"
proof -
  have "k' \<noteq> k" if "map_of jobs k' = Some s" for k' s using that assms by auto
  then show ?thesis by (auto simp: jobs_last_def map_of_evict)
qed

lemma last_close: "jobs_ok live jobs \<Longrightarrow> jobs_last retention now jobs (close_jobs sid cause jobs)"
  by (auto simp: jobs_last_def jobs_ok_def same_job_closed)


text \<open>
  In every state the pool reaches, transfers run only on sessions that are there: an upload or download whose
  session is gone is over or aborted. Sessions and jobs are filed under their own ids, no live session's context is
  canceled, each job is in a state its transfer can reach, and the count of live sessions is exact.
\<close>

theorem pool_stays_consistent: "pool_reach retention st \<Longrightarrow> pool_inv st"
  by (rule pool_reach_inv)

subsection \<open>Spooled output is not lost\<close>

text \<open>
  Saving spooled output to a file never loses it: on success, which needs the whole copy and the close to
  succeed, the file holds all of it and the spool is dropped;
  on any failure the spool stays registered and no spool file is removed; a refused path is not touched.
\<close>

theorem save_spool_keeps_output:
  assumes "SaveSpool resolves f spools sid spid local_path host st = (r, fx, host', st')"
  shows "(case r of
      Inl e \<Rightarrow> st' = st \<and> fx = [] \<and> (resolves local_path \<or> host' = host)
    | Inr _ \<Rightarrow> resolves local_path \<and> sv_copy f = None \<and> \<not> sv_close f
        \<and> handleGetSpool sid spid st' = Inl (SpoolNotFound spid)
        \<and> (\<exists>p. handleGetSpool sid spid st = Inr p \<and> fx = [FxRemoveSpool p] \<and> map_of host' local_path = map_of spools p
             \<and> map_of spools p \<noteq> None))"
  using assms
  by (auto simp: SaveSpool_def handleGetSpool_def handleDeleteSpool_def set_session_def Let_def
    split: if_splits option.splits sum.splits)

subsection \<open>Who closes the source of an upload\<close>

lemma source_closed_once:
  assumes "UploadFrom sent answered retention now nano sid remote st = (r, fx, st')" and "answered \<or> \<not> sent"
    and "map_of (ps_uploads st) (''upload-'' @ dec_nat nano) = None"
  shows "(fx = [FxCloseSource] \<and> st' = st) \<or> (fx = [] \<and> map_of (ps_uploads st') (''upload-'' @ dec_nat nano) \<noteq> None)"
  using assms by (auto simp: UploadFrom_def handleUpload_def Let_def split: option.splits if_splits)

text \<open>
  A caller that gives up after its request was delivered closes the source although the pool has taken it, and the
  transfer reads from a closed source.
\<close>

lemma source_closed_under_transfer:
  assumes "map_of (ps_sessions st) sid = Some s" and "UploadFrom True False retention now nano sid remote st = (r, fx, st')"
  shows "FxCloseSource \<in> set fx \<and> (\<exists>j. map_of (ps_uploads st') (''upload-'' @ dec_nat nano) = Some j \<and> tj_source (js_job j))"
  using assms by (auto simp: UploadFrom_def handleUpload_def Let_def start_job_def new_job_sys_def)

subsection \<open>A pool at work\<close>

definition demo_dial :: dial_result where
  "demo_dial = \<lparr>dr_machine = ''h'', dr_client = 1, dr_forwards = [2], dr_err = None, dr_agent = ''SSH-2.0-OpenSSH_9'', dr_banner = []\<rparr>"

definition demo_sid :: string where
  "demo_sid = generateSessionID (\<lambda>x. x) ''h'' (\<lambda>k. False) (\<lambda>i. (i, i)) 7"

definition demo_open :: pool_state where
  "demo_open = snd (snd (handleDialResult (\<lambda>x. x) (\<lambda>i. (i, i)) 7 0 demo_dial new_pool_state))"

definition demo_request :: transfer_request where
  "demo_request = \<lparr>tq_session = demo_sid, tq_local = ''a'', tq_remote = ''b'', tq_stream = False\<rparr>"

definition demo_upload :: pool_state where
  "demo_upload = snd (snd (handleUpload 1 (\<lambda>_. True) 0 7 demo_request demo_open))"

lemma demo_open_reach: "pool_reach 1 demo_open"
proof -
  have "pool_step 1 0 new_pool_state demo_open"
    unfolding demo_open_def
    by (rule pool_dial [where uni = "\<lambda>x. x" and draw = "\<lambda>i. (i, i)" and nano = 7 and res = demo_dial]) 
      (simp_all add: handleDialResult_def demo_dial_def new_pool_state_def Let_def)
  from pool_next [OF pool_new this] show ?thesis .
qed

lemma demo_open_session: "\<exists>s. map_of (ps_sessions demo_open) demo_sid = Some s \<and> se_spools s = []"
  by (simp add: demo_open_def handleDialResult_def demo_dial_def new_pool_state_def Let_def demo_sid_def)

lemma demo_upload_reach: "pool_reach 1 demo_upload"
proof -
  have "pool_step 1 0 demo_open demo_upload" unfolding demo_upload_def
    by (rule pool_upload) (simp add: demo_open_def handleDialResult_def demo_dial_def new_pool_state_def Let_def)
  from pool_next [OF demo_open_reach this] show ?thesis .
qed


theorem pool_stays_consistent_witness: "pool_inv demo_upload"
  by (rule pool_stays_consistent [OF demo_upload_reach])


theorem save_spool_keeps_output_witness:
  "fst (snd (snd (SaveSpool (\<lambda>_. True) \<lparr>sv_mkdir = False, sv_create = False, sv_copy = None, sv_close = False\<rparr>
     [(''x.out'', ''hello'')] demo_sid ''x'' ''a'' [] (snd (handleRegisterSpool demo_sid ''x'' ''x.out'' demo_open)))))
   = [(''a'', ''hello'')]"
proof -
  let ?f = "\<lparr>sv_mkdir = False, sv_create = False, sv_copy = None, sv_close = False\<rparr>"
  let ?st = "snd (handleRegisterSpool demo_sid ''x'' ''x.out'' demo_open)"
  obtain r fx host st where sv: "SaveSpool (\<lambda>_. True) ?f [(''x.out'', ''hello'')] demo_sid ''x'' ''a'' [] ?st = (r, fx, host, st)"
    using prod_cases4 by blast
  obtain s where s: "map_of (ps_sessions demo_open) demo_sid = Some s" using demo_open_session by blast
  then have "r = Inr ()" "host = AList.update ''a'' ''hello'' []"
    using sv by (auto simp: SaveSpool_def handleGetSpool_def handleRegisterSpool_def handleDeleteSpool_def set_session_def Let_def)
  then show ?thesis using save_spool_keeps_output [OF sv] sv by simp
qed

end
