(* ===== verification/Ses_Copy.thy ===== *)
theory Ses_Copy
  imports Ses_Job "HOL-Library.Multiset"
begin

text \<open>
  The pipelined upload, \<open>internal/session/copy.go\<close>: one goroutine reads the source into buffers and hands the chunks
  over, \<open>uploadConcurrency\<close> goroutines write them at their offsets and count what was acknowledged. The buffers are
  shared and reused, so their contents are a store and a chunk names its buffer.

  The remote file maps an offset to the byte at it; a write request may fail after some of its bytes. The source is
  the bytes it delivers and the way it ends.
\<close>

subsection \<open>State\<close>

definition uploadChunkSize :: nat where
  "uploadChunkSize = 32 * 1024"

definition uploadConcurrency :: nat where
  "uploadConcurrency = 64"

datatype source_end = SrcEOF | SrcUnexpectedEOF | SrcFails transfer_error

datatype read_result = ReadOk | ReadEOF | ReadUnexpectedEOF | ReadFailed transfer_error

text \<open>\<open>io.ReadFull\<close>: the bytes read, and the error.\<close>

definition ReadFull :: "nat \<Rightarrow> string \<Rightarrow> source_end \<Rightarrow> string \<times> read_result" where
  "ReadFull n src fin =
     (if n \<le> length src then (take n src, ReadOk)
      else (src, case fin of
              SrcEOF \<Rightarrow> if src = [] then ReadEOF else ReadUnexpectedEOF
            | SrcUnexpectedEOF \<Rightarrow> ReadUnexpectedEOF
            | SrcFails e \<Rightarrow> ReadFailed e))"

text \<open>
  The reader waits for a free buffer, holds one, offers a chunk of it, or has returned; a worker waits for a chunk,
  writes one at an offset, counts it, hands its buffer back, or has returned, with the chunk it failed on.
\<close>

datatype copy_reader = RWait | RHold nat | RSend nat nat read_result | RReturned

datatype copy_worker =
    WRange
  | WWrite nat nat nat
  | WCount nat nat
  | WFree nat
  | WFailed nat nat nat
  | WReturned

record copy_state =
  cp_src :: string
  cp_end :: source_end
  cp_off :: nat
  cp_bufs :: "nat \<Rightarrow> string"
  cp_free :: "nat list"
  cp_reader :: copy_reader
  cp_workers :: "copy_worker list"
  cp_dst :: "nat \<rightharpoonup> char"
  cp_job :: transfer_job
  cp_err :: "transfer_error option"
  cp_ctx :: "transfer_error option"

definition copy_start :: "transfer_job \<Rightarrow> string \<Rightarrow> source_end \<Rightarrow> transfer_error option \<Rightarrow> copy_state" where
  "copy_start j src fin ctx =
     \<lparr>cp_src = src, cp_end = fin, cp_off = 0, cp_bufs = (\<lambda>_. replicate uploadChunkSize (CHR 0x00)),
      cp_free = [0..<uploadConcurrency], cp_reader = RWait, cp_workers = replicate uploadConcurrency WRange,
      cp_dst = Map.empty, cp_job = j, cp_err = None, cp_ctx = ctx\<rparr>"

text \<open>\<open>errgroup\<close>: the first error of a goroutine is the group's, and cancels its context.\<close>

definition group_fail :: "transfer_error \<Rightarrow> copy_state \<Rightarrow> copy_state" where
  "group_fail e s =
     s\<lparr>cp_err := (case cp_err s of None \<Rightarrow> Some e | Some e' \<Rightarrow> Some e'), cp_ctx := cancel_ctx e (cp_ctx s)\<rparr>"

text \<open>The end of the reader's loop body: another round, or the return.\<close>

definition after_read :: "read_result \<Rightarrow> copy_state \<Rightarrow> copy_state" where
  "after_read r s =
     (case r of
        ReadOk \<Rightarrow> s\<lparr>cp_reader := RWait\<rparr>
      | ReadEOF \<Rightarrow> s\<lparr>cp_reader := RReturned\<rparr>
      | ReadUnexpectedEOF \<Rightarrow> s\<lparr>cp_reader := RReturned\<rparr>
      | ReadFailed e \<Rightarrow> group_fail e (s\<lparr>cp_reader := RReturned\<rparr>))"

definition reader_read :: "nat \<Rightarrow> copy_state \<Rightarrow> copy_state" where
  "reader_read b s =
     (let (d, r) = ReadFull uploadChunkSize (cp_src s) (cp_end s);
          s' = s\<lparr>cp_src := drop (length d) (cp_src s),
                 cp_bufs := (cp_bufs s)(b := d @ drop (length d) (cp_bufs s b))\<rparr>
      in if d \<noteq> [] then s'\<lparr>cp_reader := RSend b (length d) r\<rparr> else after_read r s')"

definition put_worker :: "nat \<Rightarrow> copy_worker \<Rightarrow> copy_state \<Rightarrow> copy_state" where
  "put_worker i w s = s\<lparr>cp_workers := (cp_workers s)[i := w]\<rparr>"

text \<open>\<open>dst.WriteAt\<close>.\<close>

definition write_at :: "nat \<Rightarrow> string \<Rightarrow> (nat \<rightharpoonup> char) \<Rightarrow> (nat \<rightharpoonup> char)" where
  "write_at off d f = (\<lambda>i. if off \<le> i \<and> i < off + length d then Some (d ! (i - off)) else f i)"

subsection \<open>The goroutines\<close>

inductive copy_step :: "copy_state \<Rightarrow> copy_state \<Rightarrow> bool" where
  step_take: "cp_reader s = RWait \<Longrightarrow> cp_free s = b # bs \<Longrightarrow>
     copy_step s (s\<lparr>cp_free := bs, cp_reader := RHold b\<rparr>)"
| step_stop: "cp_reader s = RWait \<or> cp_reader s = RSend b n r \<Longrightarrow> cp_ctx s = Some c \<Longrightarrow>
     copy_step s (group_fail c (s\<lparr>cp_reader := RReturned\<rparr>))"
| step_read: "cp_reader s = RHold b \<Longrightarrow> copy_step s (reader_read b s)"
| step_send: "cp_reader s = RSend b n r \<Longrightarrow> i < length (cp_workers s) \<Longrightarrow> cp_workers s ! i = WRange \<Longrightarrow>
     copy_step s (after_read r (put_worker i (WWrite b n (cp_off s)) (s\<lparr>cp_off := cp_off s + n\<rparr>)))"
| step_written: "i < length (cp_workers s) \<Longrightarrow> cp_workers s ! i = WWrite b n off \<Longrightarrow>
     copy_step s (put_worker i (WCount b n) (s\<lparr>cp_dst := write_at off (take n (cp_bufs s b)) (cp_dst s)\<rparr>))"
| step_fails: "i < length (cp_workers s) \<Longrightarrow> cp_workers s ! i = WWrite b n off \<Longrightarrow> k \<le> n \<Longrightarrow>
     copy_step s (group_fail e (put_worker i (WFailed b n off)
       (s\<lparr>cp_dst := write_at off (take k (cp_bufs s b)) (cp_dst s)\<rparr>)))"
| step_count: "i < length (cp_workers s) \<Longrightarrow> cp_workers s ! i = WCount b n \<Longrightarrow>
     copy_step s (put_worker i (WFree b) (s\<lparr>cp_job := job_add (int n) (cp_job s)\<rparr>))"
| step_give_back: "i < length (cp_workers s) \<Longrightarrow> cp_workers s ! i = WFree b \<Longrightarrow> length (cp_free s) < uploadConcurrency \<Longrightarrow>
     copy_step s (put_worker i WRange (s\<lparr>cp_free := cp_free s @ [b]\<rparr>))"
| step_done: "i < length (cp_workers s) \<Longrightarrow> cp_workers s ! i = WRange \<Longrightarrow> cp_reader s = RReturned \<Longrightarrow>
     copy_step s (put_worker i WReturned s)"
| step_canceled: "cp_ctx s = None \<Longrightarrow> copy_step s (s\<lparr>cp_ctx := Some c\<rparr>)"

inductive copy_reach :: "transfer_job \<Rightarrow> string \<Rightarrow> source_end \<Rightarrow> copy_state \<Rightarrow> bool" for j src fin where
  copy_init: "copy_reach j src fin (copy_start j src fin ctx)"
| copy_next: "copy_reach j src fin s \<Longrightarrow> copy_step s s' \<Longrightarrow> copy_reach j src fin s'"

text \<open>\<open>g.Wait()\<close> returns when every goroutine has, with the error of the group.\<close>

definition worker_returned :: "copy_worker \<Rightarrow> bool" where
  "worker_returned w \<longleftrightarrow> (case w of WReturned \<Rightarrow> True | WFailed _ _ _ \<Rightarrow> True | _ \<Rightarrow> False)"

definition copy_returned :: "copy_state \<Rightarrow> bool" where
  "copy_returned s \<longleftrightarrow> cp_reader s = RReturned \<and> list_all worker_returned (cp_workers s)"

text \<open>
  A download is one goroutine: the writer, or the reader of a store's copy, looks at the context before each call and
  counts what the call says it moved.
\<close>

definition progressWriter_Write ::
  "transfer_error option \<Rightarrow> nat \<times> transfer_error option \<Rightarrow> transfer_job \<Rightarrow> (nat \<times> transfer_error option) \<times> transfer_job" where
  "progressWriter_Write ctx written j =
     (case ctx of Some c \<Rightarrow> ((0, Some c), j) | None \<Rightarrow> (written, job_add (int (fst written)) j))"

definition progressReader_Read ::
  "transfer_error option \<Rightarrow> nat \<times> transfer_error option \<Rightarrow> transfer_job \<Rightarrow> (nat \<times> transfer_error option) \<times> transfer_job" where
  "progressReader_Read ctx got j =
     (case ctx of Some c \<Rightarrow> ((0, Some c), j) | None \<Rightarrow> (got, job_add (int (fst got)) j))"

subsection \<open>What the goroutines hold\<close>

lemma sum_list_put:
  fixes xs :: "'a::comm_monoid_add list"
  shows "i < length xs \<Longrightarrow> sum_list (xs[i := x]) + xs ! i = sum_list xs + x"
  by (induction xs arbitrary: i) (auto simp: nth_Cons' algebra_simps split: nat.splits)

definition reader_bag :: "copy_reader \<Rightarrow> nat multiset" where
  "reader_bag r = (case r of RHold b \<Rightarrow> {#b#} | RSend b _ _ \<Rightarrow> {#b#} | _ \<Rightarrow> {#})"

definition worker_bag :: "copy_worker \<Rightarrow> nat multiset" where
  "worker_bag w = (case w of WWrite b _ _ \<Rightarrow> {#b#} | WCount b _ \<Rightarrow> {#b#} | WFree b \<Rightarrow> {#b#} | WFailed b _ _ \<Rightarrow> {#b#} | _ \<Rightarrow> {#})"

definition buffers :: "copy_state \<Rightarrow> nat multiset" where
  "buffers s = mset (cp_free s) + reader_bag (cp_reader s) + sum_list (map worker_bag (cp_workers s))"

definition all_buffers :: "nat multiset" where
  "all_buffers = mset [0..<uploadConcurrency]"

lemma all_buffers_nonempty: "all_buffers \<noteq> {#}"
  by (simp add: all_buffers_def uploadConcurrency_def del: mset_upt)

text \<open>The bytes of a chunk that are not counted yet, and the offsets a worker still has to write.\<close>

definition uncounted :: "copy_worker \<Rightarrow> nat" where
  "uncounted w = (case w of WWrite _ n _ \<Rightarrow> n | WCount _ n \<Rightarrow> n | WFailed _ n _ \<Rightarrow> n | _ \<Rightarrow> 0)"

definition unwritten :: "copy_worker \<Rightarrow> nat set" where
  "unwritten w = (case w of WWrite _ n off \<Rightarrow> {off..<off + n} | WFailed _ n off \<Rightarrow> {off..<off + n} | _ \<Rightarrow> {})"

named_theorems copy_simps \<open>the small operations of the pipeline unfolded\<close>

declare group_fail_def [copy_simps] put_worker_def [copy_simps] after_read_def [copy_simps]
  reader_read_def [copy_simps] reader_bag_def [copy_simps] worker_bag_def [copy_simps]
  uncounted_def [copy_simps] unwritten_def [copy_simps] buffers_def [copy_simps]

text \<open>\<open>own_inv\<close>: no buffer is in two places, and none is lost while the reader runs.\<close>

definition own_inv :: "copy_state \<Rightarrow> bool" where
  "own_inv s \<longleftrightarrow> length (cp_workers s) = uploadConcurrency \<and> buffers s \<subseteq># all_buffers
     \<and> (cp_reader s \<noteq> RReturned \<longrightarrow> buffers s = all_buffers)"

lemma buffers_put:
  assumes "i < length (cp_workers s)"
  shows "buffers (put_worker i w s) + worker_bag (cp_workers s ! i) = buffers s + worker_bag w"
  using assms sum_list_put [of i "map worker_bag (cp_workers s)" "worker_bag w"]
  by (simp add: buffers_def put_worker_def map_update ac_simps)

lemma buffers_after_read: "buffers (after_read r s) + reader_bag (cp_reader s) = buffers s"
  by (cases r) (simp_all add: after_read_def group_fail_def buffers_def reader_bag_def)

lemma reader_after_read: "cp_reader (after_read r s) = (if r = ReadOk then RWait else RReturned)"
  by (cases r) (simp_all add: after_read_def group_fail_def)

lemma workers_after_read [simp]: "cp_workers (after_read r s) = cp_workers s"
  by (cases r) (simp_all add: after_read_def group_fail_def)

lemma workers_put [simp]: "cp_workers (put_worker i w s) = (cp_workers s)[i := w]" "cp_reader (put_worker i w s) = cp_reader s"
  by (simp_all add: put_worker_def)

lemma group_fail_frame [simp]:
  "buffers (group_fail e s) = buffers s" "cp_free (group_fail e s) = cp_free s" "cp_workers (group_fail e s) = cp_workers s" "cp_reader (group_fail e s) = cp_reader s"
  by (simp_all add: group_fail_def buffers_def)

lemma reader_read_bag:
  assumes "cp_reader s = RHold b"
  shows "cp_workers (reader_read b s) = cp_workers s \<and>
    ((\<exists>n r. cp_reader (reader_read b s) = RSend b n r) \<and> buffers (reader_read b s) = buffers s
     \<or> cp_reader (reader_read b s) = RReturned \<and> buffers (reader_read b s) \<subseteq># buffers s)"
  using assms by (auto simp: reader_read_def Let_def ReadFull_def after_read_def group_fail_def buffers_def reader_bag_def
    uploadChunkSize_def split: source_end.splits)

lemma own_keep:
  "own_inv s \<Longrightarrow> buffers s' = buffers s \<Longrightarrow> length (cp_workers s') = length (cp_workers s)
     \<Longrightarrow> cp_reader s' = cp_reader s \<or> cp_reader s \<noteq> RReturned \<Longrightarrow> own_inv s'"
  by (auto simp: own_inv_def)

lemma own_lose:
  "own_inv s \<Longrightarrow> buffers s' \<subseteq># buffers s \<Longrightarrow> length (cp_workers s') = length (cp_workers s)
     \<Longrightarrow> cp_reader s' = RReturned \<Longrightarrow> own_inv s'"
  by (auto simp: own_inv_def intro: subset_mset.order_trans)

lemma sum_list_none [simp]: "sum_list (replicate n (0::'a::comm_monoid_add)) = 0"
  by (induction n) auto

lemma sum_list_all_none: "(\<And>x. x \<in> set xs \<Longrightarrow> f x = (0::'a::comm_monoid_add)) \<Longrightarrow> sum_list (map f xs) = 0"
  by (induction xs) auto

lemma own_inv_start: "own_inv (copy_start j src fin ctx)"
  by (simp add: own_inv_def copy_start_def copy_simps all_buffers_def)

lemma own_inv_step: "copy_step s s' \<Longrightarrow> own_inv s \<Longrightarrow> own_inv s'"
proof (induction rule: copy_step.induct)
  case (step_take s b bs)
  then show ?case by (auto elim!: own_keep simp: buffers_def reader_bag_def)
next
  case (step_stop s b n r c)
  then show ?case by (auto elim!: own_lose simp: buffers_def reader_bag_def)
next
  case (step_read s b)
  from reader_read_bag [OF step_read(1)] show ?case
  proof (elim conjE disjE)
    assume "buffers (reader_read b s) = buffers s" and "cp_workers (reader_read b s) = cp_workers s"
    with step_read show ?thesis by - (rule own_keep [of s], simp_all)
  next
    assume "buffers (reader_read b s) \<subseteq># buffers s" and "cp_workers (reader_read b s) = cp_workers s"
      and "cp_reader (reader_read b s) = RReturned"
    with step_read show ?thesis by - (rule own_lose [of s], simp_all)
  qed
next
  case (step_send s b n r i)
  let ?t = "put_worker i (WWrite b n (cp_off s)) (s\<lparr>cp_off := cp_off s + n\<rparr>)"
  have "buffers ?t = buffers s + {#b#}"
    using step_send buffers_put [of i "s\<lparr>cp_off := cp_off s + n\<rparr>" "WWrite b n (cp_off s)"]
    by (simp add: worker_bag_def buffers_def)
  then have "buffers (after_read r ?t) = buffers s"
    using buffers_after_read [of r ?t] step_send by (simp add: reader_bag_def)
  with step_send show ?case by - (rule own_keep [of s], auto)
next
  case (step_written i s b n off)
  then show ?case
    using buffers_put [of i "s\<lparr>cp_dst := write_at off (take n (cp_bufs s b)) (cp_dst s)\<rparr>" "WCount b n"]
    by - (rule own_keep [of s], auto simp: worker_bag_def buffers_def)
next
  case (step_fails i s b n off k e)
  then show ?case
    using buffers_put [of i "s\<lparr>cp_dst := write_at off (take k (cp_bufs s b)) (cp_dst s)\<rparr>" "WFailed b n off"]
    by - (rule own_keep [of s], auto simp: worker_bag_def buffers_def)
next
  case (step_count i s b n)
  then show ?case using buffers_put [of i "s\<lparr>cp_job := job_add (int n) (cp_job s)\<rparr>" "WFree b"]
    by - (rule own_keep [of s], auto simp: worker_bag_def buffers_def)
next
  case (step_give_back i s b)
  then show ?case using buffers_put [of i "s\<lparr>cp_free := cp_free s @ [b]\<rparr>" WRange]
    by - (rule own_keep [of s], auto simp: worker_bag_def buffers_def)
next
  case (step_done i s)
  then show ?case using buffers_put [of i s WReturned] by - (rule own_keep [of s], auto simp: worker_bag_def buffers_def)
next
  case (step_canceled s c)
  then show ?case by - (rule own_keep [of s], auto simp: buffers_def)
qed

text \<open>\<open>read_inv\<close>: where the reader is in the source, \<open>src\<close>, and what it holds of it.\<close>

definition read_inv :: "string \<Rightarrow> source_end \<Rightarrow> copy_state \<Rightarrow> bool" where
  "read_inv src fin s \<longleftrightarrow> cp_end s = fin \<and> cp_off s \<le> length src \<and> (cp_err s = None \<or> cp_ctx s \<noteq> None) \<and>
     (case cp_reader s of
        RSend b n r \<Rightarrow> 0 < n \<and> cp_off s + n \<le> length src \<and> take n (cp_bufs s b) = take n (drop (cp_off s) src)
          \<and> cp_src s = drop (cp_off s + n) src
          \<and> (case r of ReadOk \<Rightarrow> True | ReadFailed e \<Rightarrow> fin = SrcFails e | _ \<Rightarrow> cp_src s = [] \<and> (\<forall>e. fin \<noteq> SrcFails e))
      | RReturned \<Rightarrow> cp_err s = None \<longrightarrow> cp_off s = length src \<and> (\<forall>e. fin \<noteq> SrcFails e)
      | _ \<Rightarrow> cp_src s = drop (cp_off s) src)"

text \<open>\<open>chunk_inv\<close>: what the workers hold of it.\<close>

definition chunk_ok :: "string \<Rightarrow> copy_state \<Rightarrow> copy_worker \<Rightarrow> bool" where
  "chunk_ok src s w \<longleftrightarrow>
     (case w of
        WWrite b n off \<Rightarrow> off + n \<le> cp_off s \<and> take n (cp_bufs s b) = take n (drop off src)
      | WFailed b n off \<Rightarrow> off + n \<le> cp_off s \<and> cp_err s \<noteq> None
      | WReturned \<Rightarrow> cp_reader s = RReturned
      | _ \<Rightarrow> True)"

definition dst_inv :: "string \<Rightarrow> copy_state \<Rightarrow> bool" where
  "dst_inv src s \<longleftrightarrow> (\<forall>i x. cp_dst s i = Some x \<longrightarrow> i < cp_off s \<and> x = src ! i)
     \<and> (\<forall>i<cp_off s. cp_dst s i = None \<longrightarrow> (\<exists>w\<in>set (cp_workers s). i \<in> unwritten w))"

definition count_inv :: "transfer_job \<Rightarrow> copy_state \<Rightarrow> bool" where
  "count_inv j s \<longleftrightarrow> tj_bytes (cp_job s) + int (sum_list (map uncounted (cp_workers s))) = tj_bytes j + int (cp_off s)"

lemma read_inv_step: "copy_step s s' \<Longrightarrow> read_inv src fin s \<Longrightarrow> read_inv src fin s'"
proof (induction rule: copy_step.induct)
  case (step_read s b)
  then show ?case
    by (auto simp: read_inv_def reader_read_def Let_def ReadFull_def after_read_def group_fail_def cancel_ctx_def
      uploadChunkSize_def ac_simps split: source_end.splits if_splits option.splits)
next
  case (step_send s b n r i)
  then show ?case
    by (auto simp: read_inv_def after_read_def put_worker_def group_fail_def cancel_ctx_def
      split: read_result.splits option.splits)
qed (auto simp: read_inv_def group_fail_def put_worker_def cancel_ctx_def split: option.splits copy_reader.splits read_result.splits)

lemma uncounted_put:
  assumes "i < length ws"
  shows "sum_list (map uncounted (ws[i := w])) + uncounted (ws ! i) = sum_list (map uncounted ws) + uncounted w"
  using assms sum_list_put [of i "map uncounted ws" "uncounted w"] by (simp add: map_update)

lemma after_read_frame [simp]:
  "cp_job (after_read r s) = cp_job s" "cp_off (after_read r s) = cp_off s" "cp_dst (after_read r s) = cp_dst s"
  "cp_bufs (after_read r s) = cp_bufs s"
  by (cases r; simp add: after_read_def group_fail_def)+

lemma group_fail_frame2 [simp]:
  "cp_job (group_fail e s) = cp_job s" "cp_off (group_fail e s) = cp_off s" "cp_dst (group_fail e s) = cp_dst s"
  "cp_bufs (group_fail e s) = cp_bufs s" "cp_err (group_fail e s) \<noteq> None"
  by (simp_all add: group_fail_def split: option.splits)

lemma put_worker_frame [simp]:
  "cp_job (put_worker i w s) = cp_job s" "cp_off (put_worker i w s) = cp_off s" "cp_dst (put_worker i w s) = cp_dst s"
  "cp_bufs (put_worker i w s) = cp_bufs s" "cp_err (put_worker i w s) = cp_err s"
  by (simp_all add: put_worker_def)

lemma reader_read_frame [simp]:
  "cp_job (reader_read b s) = cp_job s" "cp_off (reader_read b s) = cp_off s" "cp_dst (reader_read b s) = cp_dst s"
  "cp_workers (reader_read b s) = cp_workers s"
  by (auto simp: reader_read_def Let_def case_prod_beta)

lemma count_inv_step: "copy_step s s' \<Longrightarrow> count_inv j s \<Longrightarrow> count_inv j s'"
proof (induction rule: copy_step.induct)
  case (step_send s b n r i)
  then show ?case using uncounted_put [of i "cp_workers s" "WWrite b n (cp_off s)"]
    by (simp add: count_inv_def uncounted_def)
next
  case (step_written i s b n off)
  then show ?case using uncounted_put [of i "cp_workers s" "WCount b n"] by (simp add: count_inv_def uncounted_def)
next
  case (step_fails i s b n off k e)
  then show ?case using uncounted_put [of i "cp_workers s" "WFailed b n off"] by (simp add: count_inv_def uncounted_def)
next
  case (step_count i s b n)
  then show ?case using uncounted_put [of i "cp_workers s" "WFree b"]
    by (simp add: count_inv_def uncounted_def job_add_def)
next
  case (step_give_back i s b)
  then show ?case using uncounted_put [of i "cp_workers s" WRange] by (simp add: count_inv_def uncounted_def)
next
  case (step_done i s)
  then show ?case using uncounted_put [of i "cp_workers s" WReturned] by (simp add: count_inv_def uncounted_def)
qed (simp_all add: count_inv_def)

lemma in_sum_list: "w \<in> set ws \<Longrightarrow> f w \<subseteq># sum_list (map f ws)"
  by (induction ws) (auto intro: subset_mset.order_trans)

lemma buffer_not_shared:
  assumes "own_inv s" and "b \<in># reader_bag (cp_reader s)" and "w \<in> set (cp_workers s)"
  shows "b \<notin># worker_bag w"
proof
  assume "b \<in># worker_bag w"
  with in_sum_list [OF assms(3), of worker_bag] have "b \<in># sum_list (map worker_bag (cp_workers s))"
    by (rule mset_subset_eqD)
  then have "0 < count (sum_list (map worker_bag (cp_workers s))) b" and "0 < count (reader_bag (cp_reader s)) b"
    using assms(2) by (simp_all only: count_greater_zero_iff)
  moreover have "count (buffers s) b = count (mset (cp_free s)) b + count (reader_bag (cp_reader s)) b
      + count (sum_list (map worker_bag (cp_workers s))) b" by (simp add: buffers_def)
  ultimately have "1 < count (buffers s) b" by linarith
  moreover have "count (buffers s) b \<le> count all_buffers b"
    using assms(1) by (simp add: own_inv_def mset_subset_eq_count)
  moreover have "count all_buffers b \<le> 1"
    using distinct_count_atmost_1 [of "[0..<uploadConcurrency]"] by (simp add: all_buffers_def split: if_splits)
  ultimately show False by simp
qed

definition chunk_inv :: "string \<Rightarrow> copy_state \<Rightarrow> bool" where
  "chunk_inv src s \<longleftrightarrow> (\<forall>w\<in>set (cp_workers s). chunk_ok src s w)"

lemma chunk_ok_mono:
  assumes "chunk_ok src s w" and "cp_off s \<le> cp_off s'" and "\<And>b. b \<in># worker_bag w \<Longrightarrow> cp_bufs s' b = cp_bufs s b"
    and "cp_err s' = None \<Longrightarrow> cp_err s = None" and "cp_reader s = RReturned \<Longrightarrow> cp_reader s' = RReturned"
  shows "chunk_ok src s' w"
  using assms by (cases w) (fastforce simp: chunk_ok_def worker_bag_def)+

lemma chunk_inv_put:
  assumes "chunk_inv src s" and "cp_workers s' = (cp_workers s)[i := w]" and "chunk_ok src s' w"
    and "cp_off s \<le> cp_off s'" and "cp_bufs s' = cp_bufs s"
    and "cp_err s' = None \<Longrightarrow> cp_err s = None" and "cp_reader s = RReturned \<Longrightarrow> cp_reader s' = RReturned"
  shows "chunk_inv src s'"
proof -
  have "chunk_ok src s' v" if "v \<in> set (cp_workers s)" for v
    using assms that by (intro chunk_ok_mono [of src s v s']) (auto simp: chunk_inv_def)
  then show ?thesis
    using set_update_subset_insert [of "cp_workers s" i w] assms(2,3) by (auto simp: chunk_inv_def)
qed

lemma reader_read_bufs: "b' \<noteq> b \<Longrightarrow> cp_bufs (reader_read b s) b' = cp_bufs s b'"
  by (auto simp: reader_read_def Let_def case_prod_beta)

lemma group_fail_keeps_err: "cp_err (group_fail e s) = None \<Longrightarrow> cp_err s = None"
  by simp

lemma after_read_keeps_err: "cp_err (after_read r s) = None \<Longrightarrow> cp_err s = None"
  by (cases r) (simp_all add: after_read_def)

lemma reader_read_keeps_err: "cp_err (reader_read b s) = None \<Longrightarrow> cp_err s = None"
  by (auto simp: reader_read_def Let_def case_prod_beta dest!: after_read_keeps_err split: if_splits)

lemma chunk_inv_keep:
  assumes "chunk_inv src s" and "cp_workers s' = cp_workers s" and "cp_off s' = cp_off s"
    and "\<And>w b. w \<in> set (cp_workers s) \<Longrightarrow> b \<in># worker_bag w \<Longrightarrow> cp_bufs s' b = cp_bufs s b"
    and "cp_err s' = None \<Longrightarrow> cp_err s = None" and "cp_reader s = RReturned \<Longrightarrow> cp_reader s' = RReturned"
  shows "chunk_inv src s'"
proof -
  have "chunk_ok src s' w" if "w \<in> set (cp_workers s)" for w
    using assms that by (intro chunk_ok_mono [of src s w s']) (auto simp: chunk_inv_def)
  then show ?thesis using assms(2) by (auto simp: chunk_inv_def)
qed

lemma worker_chunk: "chunk_inv src s \<Longrightarrow> i < length (cp_workers s) \<Longrightarrow> cp_workers s ! i = w \<Longrightarrow> chunk_ok src s w"
  by (auto simp: chunk_inv_def)

lemma chunk_inv_step:
  "copy_step s s' \<Longrightarrow> own_inv s \<Longrightarrow> read_inv src fin s \<Longrightarrow> chunk_inv src s \<Longrightarrow> chunk_inv src s'"
proof (induction rule: copy_step.induct)
  case (step_read s b)
  have "b' \<noteq> b" if "w \<in> set (cp_workers s)" and "b' \<in># worker_bag w" for w b'
    using buffer_not_shared [OF step_read(2), of b w] that step_read(1) by (auto simp: reader_bag_def)
  with step_read show ?case
    by - (rule chunk_inv_keep [of src s], auto simp: reader_read_bufs dest: reader_read_keeps_err)
next
  case (step_send s b n r i)
  then show ?case
    by - (rule chunk_inv_put [of src s _ i "WWrite b n (cp_off s)"], auto simp: chunk_ok_def read_inv_def dest!: after_read_keeps_err)
next
  case (step_written i s b n off)
  then show ?case by - (rule chunk_inv_put [of src s _ i "WCount b n"], auto simp: chunk_ok_def)
next
  case (step_fails i s b n off k e)
  then have "chunk_ok src s (WWrite b n off)" by (auto intro: worker_chunk)
  with step_fails show ?case
    by - (rule chunk_inv_put [of src s _ i "WFailed b n off"], auto simp: chunk_ok_def)
next
  case (step_count i s b n)
  then show ?case by - (rule chunk_inv_put [of src s _ i "WFree b"], auto simp: chunk_ok_def)
next
  case (step_give_back i s b)
  then show ?case by - (rule chunk_inv_put [of src s _ i WRange], auto simp: chunk_ok_def)
next
  case (step_done i s)
  then show ?case by - (rule chunk_inv_put [of src s _ i WReturned], auto simp: chunk_ok_def)
qed (erule chunk_inv_keep; auto)+

lemma still_unwritten:
  assumes "i < length ws" and "x \<in> unwritten w \<or> (\<exists>v\<in>set ws. x \<in> unwritten v \<and> v \<noteq> ws ! i)"
  shows "\<exists>v\<in>set (ws[i := w]). x \<in> unwritten v"
proof -
  have "v \<in> set (ws[i := w])" if "v \<in> set ws" "v \<noteq> ws ! i" for v
    using that by (metis in_set_conv_nth length_list_update nth_list_update_neq)
  with assms show ?thesis by (auto intro: set_update_memI)
qed

lemma unwritten_idle: "unwritten WRange = {}"
  by (simp add: unwritten_def)

lemma dst_inv_keep:
  "dst_inv src s \<Longrightarrow> cp_workers s' = cp_workers s \<Longrightarrow> cp_off s' = cp_off s \<Longrightarrow> cp_dst s' = cp_dst s \<Longrightarrow> dst_inv src s'"
  by (simp add: dst_inv_def)

text \<open>A worker that writes nothing any more changes its state.\<close>

lemma dst_inv_put:
  assumes "dst_inv src s" and "i < length (cp_workers s)" and "unwritten (cp_workers s ! i) = {}"
    and "cp_workers s' = (cp_workers s)[i := w]" and "cp_off s' = cp_off s" and "cp_dst s' = cp_dst s"
  shows "dst_inv src s'"
  using assms still_unwritten [of i "cp_workers s" _ w] by (auto simp: dst_inv_def) (metis empty_iff)

text \<open>A worker sends the first \<open>k\<close> bytes of its chunk.\<close>

lemma dst_inv_write:
  assumes d: "dst_inv src s" and i: "i < length (cp_workers s)" "cp_workers s ! i = WWrite b n off"
    and chunk: "chunk_ok src s (WWrite b n off)" and src: "cp_off s \<le> length src" and k: "k \<le> n"
    and s': "cp_workers s' = (cp_workers s)[i := w]" "cp_off s' = cp_off s"
      "cp_dst s' = write_at off (take k (cp_bufs s b)) (cp_dst s)"
    and w: "{off + k..<off + n} \<subseteq> unwritten w"
  shows "dst_inv src s'"
proof -
  have buf: "take n (cp_bufs s b) = take n (drop off src)" and le: "off + n \<le> cp_off s" using chunk by (auto simp: chunk_ok_def)
  have len: "length (take k (cp_bufs s b)) = k"
    using arg_cong [OF buf, of length] le src k by simp
  have byte: "take k (cp_bufs s b) ! m = src ! (off + m)" if "m < k" for m
    using arg_cong [OF buf, of "\<lambda>xs. xs ! m"] that k le src by simp
  have "x < cp_off s \<and> c = src ! x" if "cp_dst s' x = Some c" for x c
    using that d byte [of "x - off"] le k unfolding s'(3) write_at_def len
    by (cases "off \<le> x \<and> x < off + k") (auto simp: dst_inv_def)
  moreover have "\<exists>v\<in>set (cp_workers s'). x \<in> unwritten v" if "x < cp_off s" "cp_dst s' x = None" for x
  proof -
    note x_off = that(1)
    have x: "\<not> (off \<le> x \<and> x < off + k)" and "cp_dst s x = None"
      using that(2) unfolding s'(3) write_at_def len by (auto split: if_splits)
    then obtain v where v: "v \<in> set (cp_workers s)" "x \<in> unwritten v"
      using d x_off unfolding dst_inv_def by blast
    have "x \<in> unwritten w" if "v = cp_workers s ! i"
    proof -
      have "x \<in> {off + k..<off + n}" using that v(2) i(2) x by (auto simp: unwritten_def)
      with w show ?thesis by blast
    qed
    then have "x \<in> unwritten w \<or> v \<noteq> cp_workers s ! i" by blast
    with still_unwritten [OF i(1), of x w] v show ?thesis unfolding s'(1) by blast
  qed
  ultimately show ?thesis using s'(2) by (auto simp: dst_inv_def)
qed

lemma dst_inv_step:
  "copy_step s s' \<Longrightarrow> read_inv src fin s \<Longrightarrow> chunk_inv src s \<Longrightarrow> dst_inv src s \<Longrightarrow> dst_inv src s'"
proof (induction rule: copy_step.induct)
  case (step_send s b n r i)
  let ?w = "WWrite b n (cp_off s)"
  have old: "\<exists>v\<in>set ((cp_workers s)[i := ?w]). x \<in> unwritten v" if "v \<in> set (cp_workers s)" "x \<in> unwritten v" for v x
    using step_send(2,3) that still_unwritten [of i "cp_workers s" x ?w] unwritten_idle by (metis empty_iff)
  have new: "\<exists>v\<in>set ((cp_workers s)[i := ?w]). x \<in> unwritten v" if "cp_off s \<le> x" "x < cp_off s + n" for x
    by (rule still_unwritten [OF step_send(2)]) (use that in \<open>simp add: unwritten_def\<close>)
  from step_send(6) show ?case unfolding dst_inv_def
    by simp (meson old new linorder_not_less trans_less_add1)
next
  case (step_written i s b n off)
  then have "chunk_ok src s (WWrite b n off)" and "cp_off s \<le> length src" by (auto intro: worker_chunk simp: read_inv_def)
  with step_written show ?case
    by - (rule dst_inv_write [of src s i b n off n _ "WCount b n"], auto simp: unwritten_def)
next
  case (step_fails i s b n off k e)
  then have "chunk_ok src s (WWrite b n off)" and "cp_off s \<le> length src" by (auto intro: worker_chunk simp: read_inv_def)
  with step_fails show ?case
    by - (rule dst_inv_write [of src s i b n off k _ "WFailed b n off"], auto simp: unwritten_def)
next
  case (step_count i s b n)
  then show ?case by - (rule dst_inv_put [of src s i _ "WFree b"], auto simp: unwritten_def)
next
  case (step_give_back i s b)
  then show ?case by - (rule dst_inv_put [of src s i _ WRange], auto simp: unwritten_def)
next
  case (step_done i s)
  then show ?case by - (rule dst_inv_put [of src s i _ WReturned], auto simp: unwritten_def)
qed (erule dst_inv_keep; simp)+

definition copy_inv :: "transfer_job \<Rightarrow> string \<Rightarrow> source_end \<Rightarrow> copy_state \<Rightarrow> bool" where
  "copy_inv j src fin s \<longleftrightarrow> own_inv s \<and> read_inv src fin s \<and> chunk_inv src s \<and> dst_inv src s \<and> count_inv j s"

lemma copy_inv_start: "copy_inv j src fin (copy_start j src fin ctx)"
  by (simp add: copy_inv_def own_inv_start)
    (simp add: copy_start_def read_inv_def chunk_inv_def chunk_ok_def dst_inv_def count_inv_def uncounted_def)

lemma copy_inv_step: "copy_step s s' \<Longrightarrow> copy_inv j src fin s \<Longrightarrow> copy_inv j src fin s'"
  using own_inv_step read_inv_step chunk_inv_step dst_inv_step count_inv_step unfolding copy_inv_def by blast

lemma copy_reach_inv: "copy_reach j src fin s \<Longrightarrow> copy_inv j src fin s"
  by (induction rule: copy_reach.induct) (simp_all add: copy_inv_start copy_inv_step)

subsection \<open>What is delivered\<close>

lemma all_returned:
  assumes "copy_inv j src fin s" and "copy_returned s" and "cp_err s = None" and "w \<in> set (cp_workers s)"
  shows "w = WReturned"
proof -
  have "worker_returned w" using assms(2,4) by (auto simp: copy_returned_def list_all_iff)
  moreover have "chunk_ok src s w" using assms(1,4) by (simp add: copy_inv_def chunk_inv_def)
  ultimately show ?thesis using assms(3) by (cases w) (auto simp: worker_returned_def chunk_ok_def)
qed

lemma unwritten_uncounted:
  "finite (\<Union>w\<in>set ws. unwritten w) \<and> card (\<Union>w\<in>set ws. unwritten w) \<le> sum_list (map uncounted ws)"
proof (induction ws)
  case (Cons w ws)
  have "finite (unwritten w)" and "card (unwritten w) \<le> uncounted w" by (cases w; simp add: unwritten_def uncounted_def)+
  then show ?case
    using Cons card_Un_le [of "unwritten w" "\<Union>v\<in>set ws. unwritten v"] by auto
qed simp

definition whole_file :: "string \<Rightarrow> nat \<rightharpoonup> char" where
  "whole_file src = (\<lambda>i. if i < length src then Some (src ! i) else None)"

lemma delivers:
  assumes "copy_reach j src fin s" and "copy_returned s" and "cp_err s = None"
  shows "cp_dst s = whole_file src \<and> tj_bytes (cp_job s) = tj_bytes j + int (length src)"
proof -
  have inv: "copy_inv j src fin s" using assms(1) by (rule copy_reach_inv)
  note all = all_returned [OF inv assms(2,3)]
  have off: "cp_off s = length src" using inv assms(2,3) by (auto simp: copy_inv_def read_inv_def copy_returned_def)
  have "uncounted w = 0" if "w \<in> set (cp_workers s)" for w using all [OF that] by (simp add: uncounted_def)
  then have zero: "sum_list (map uncounted (cp_workers s)) = 0" by (rule sum_list_all_none)
  have counted: "tj_bytes (cp_job s) + int (sum_list (map uncounted (cp_workers s))) = tj_bytes j + int (cp_off s)"
    using inv by (simp add: copy_inv_def count_inv_def)
  have "unwritten w = {}" if "w \<in> set (cp_workers s)" for w using all [OF that] by (simp add: unwritten_def)
  then have "cp_dst s i = whole_file src i" for i
    using inv off by (cases "cp_dst s i") (auto simp: copy_inv_def dst_inv_def whole_file_def)
  then show ?thesis using counted [unfolded zero off] by auto
qed


text \<open>
  C33. At every moment of an upload, failed or canceled ones too, the bytes reported as sent are no more than those
  that are on the remote host, and every byte there is the source's at its offset.
\<close>

theorem copy_progress_honest:
  assumes "copy_reach j src fin s"
  shows "tj_bytes (cp_job s) - tj_bytes j \<le> int (card (dom (cp_dst s))) \<and> cp_dst s \<subseteq>\<^sub>m whole_file src"
proof -
  have inv: "copy_inv j src fin s" using assms(1) by (rule copy_reach_inv)
  let ?u = "\<Union>w\<in>set (cp_workers s). unwritten w"
  have in_src: "i < cp_off s \<and> x = src ! i" if "cp_dst s i = Some x" for i x
    using inv that by (simp add: copy_inv_def dst_inv_def)
  then have fin: "finite (dom (cp_dst s))" by (intro finite_subset [OF _ finite_lessThan [of "cp_off s"]]) auto
  have "{..<cp_off s} \<subseteq> dom (cp_dst s) \<union> ?u" using inv by (auto simp: copy_inv_def dst_inv_def)
  then have "cp_off s \<le> card (dom (cp_dst s) \<union> ?u)"
    using card_mono [of "dom (cp_dst s) \<union> ?u" "{..<cp_off s}"] fin unwritten_uncounted by simp
  also have "\<dots> \<le> card (dom (cp_dst s)) + sum_list (map uncounted (cp_workers s))"
    using card_Un_le [of "dom (cp_dst s)" ?u] unwritten_uncounted [of "cp_workers s"] by linarith
  finally have "tj_bytes (cp_job s) - tj_bytes j \<le> int (card (dom (cp_dst s)))"
    using inv by (simp add: copy_inv_def count_inv_def)
  moreover have "cp_off s \<le> length src" using inv by (simp add: copy_inv_def read_inv_def)
  then have "cp_dst s \<subseteq>\<^sub>m whole_file src" using in_src by (force simp: map_le_def whole_file_def)
  ultimately show ?thesis by simp
qed

subsection \<open>Every upload returns\<close>

definition reader_steps :: "copy_reader \<Rightarrow> nat" where
  "reader_steps r = (case r of RWait \<Rightarrow> 2 | RHold _ \<Rightarrow> 1 | RSend _ _ _ \<Rightarrow> 8 | RReturned \<Rightarrow> 0)"

definition worker_steps :: "copy_worker \<Rightarrow> nat" where
  "worker_steps w = (case w of WRange \<Rightarrow> 1 | WWrite _ _ _ \<Rightarrow> 4 | WCount _ _ \<Rightarrow> 3 | WFree _ \<Rightarrow> 2 | _ \<Rightarrow> 0)"

definition copy_steps_left :: "copy_state \<Rightarrow> nat" where
  "copy_steps_left s = 10 * length (cp_src s) + reader_steps (cp_reader s) + sum_list (map worker_steps (cp_workers s))
     + (if cp_ctx s = None then 1 else 0)"

lemma worker_steps_put:
  assumes "i < length ws"
  shows "sum_list (map worker_steps (ws[i := w])) + worker_steps (ws ! i) = sum_list (map worker_steps ws) + worker_steps w"
  using assms sum_list_put [of i "map worker_steps ws" "worker_steps w"] by (simp add: map_update)

lemma group_fail_steps: "copy_steps_left (group_fail e s) \<le> copy_steps_left s"
  by (simp add: copy_steps_left_def group_fail_def cancel_ctx_def split: option.splits)

lemma after_read_steps:
  "copy_steps_left (after_read r s) + reader_steps (cp_reader s) \<le> copy_steps_left s + 2"
  by (cases r) (auto simp: copy_steps_left_def after_read_def reader_steps_def group_fail_def cancel_ctx_def split: option.splits)

lemma put_worker_steps:
  "i < length (cp_workers s) \<Longrightarrow> copy_steps_left (put_worker i w s) + worker_steps (cp_workers s ! i) = copy_steps_left s + worker_steps w"
  using worker_steps_put [of i "cp_workers s" w] by (simp add: copy_steps_left_def put_worker_def)

lemma copy_steps_frame [simp]:
  "copy_steps_left (s\<lparr>cp_off := x\<rparr>) = copy_steps_left s" "copy_steps_left (s\<lparr>cp_dst := d\<rparr>) = copy_steps_left s"
  "copy_steps_left (s\<lparr>cp_job := k\<rparr>) = copy_steps_left s" "copy_steps_left (s\<lparr>cp_free := f\<rparr>) = copy_steps_left s"
  by (simp_all add: copy_steps_left_def)

lemma copy_step_decreases: "copy_step s s' \<Longrightarrow> copy_steps_left s' < copy_steps_left s"
proof (induction rule: copy_step.induct)
  case (step_stop s b n r c)
  then show ?case
    by (intro le_less_trans [OF group_fail_steps]) (auto simp: copy_steps_left_def reader_steps_def)
next
  case (step_read s b)
  have "7 < 10 * length (cp_src s)" if "cp_src s \<noteq> []" using that by (cases "cp_src s") auto
  with step_read show ?case
    by (auto simp: copy_steps_left_def reader_read_def Let_def ReadFull_def after_read_def group_fail_def reader_steps_def
      cancel_ctx_def uploadChunkSize_def split: source_end.splits option.splits)
next
  case (step_send s b n r i)
  then show ?case
    using put_worker_steps [of i "s\<lparr>cp_off := cp_off s + n\<rparr>" "WWrite b n (cp_off s)"]
      after_read_steps [of r "put_worker i (WWrite b n (cp_off s)) (s\<lparr>cp_off := cp_off s + n\<rparr>)"]
    by (simp add: worker_steps_def reader_steps_def)
next
  case (step_written i s b n off)
  then show ?case
    using put_worker_steps [of i "s\<lparr>cp_dst := write_at off (take n (cp_bufs s b)) (cp_dst s)\<rparr>" "WCount b n"]
    by (simp add: worker_steps_def)
next
  case (step_fails i s b n off k e)
  let ?t = "put_worker i (WFailed b n off) (s\<lparr>cp_dst := write_at off (take k (cp_bufs s b)) (cp_dst s)\<rparr>)"
  from step_fails have "copy_steps_left ?t < copy_steps_left s"
    using put_worker_steps [of i "s\<lparr>cp_dst := write_at off (take k (cp_bufs s b)) (cp_dst s)\<rparr>" "WFailed b n off"]
    by (simp add: worker_steps_def)
  then show ?case using group_fail_steps [of e ?t] by linarith
next
  case (step_count i s b n)
  then show ?case using put_worker_steps [of i "s\<lparr>cp_job := job_add (int n) (cp_job s)\<rparr>" "WFree b"]
    by (simp add: worker_steps_def)
next
  case (step_give_back i s b)
  then show ?case using put_worker_steps [of i "s\<lparr>cp_free := cp_free s @ [b]\<rparr>" WRange] by (simp add: worker_steps_def)
next
  case (step_done i s)
  then show ?case using put_worker_steps [of i s WReturned] by (simp add: worker_steps_def)
qed (auto simp: copy_steps_left_def reader_steps_def)

text \<open>A run without faults: nobody cancels, the source does not fail and no write does.\<close>

definition fault_free :: "copy_state \<Rightarrow> bool" where
  "fault_free s \<longleftrightarrow> cp_err s = None \<and> cp_ctx s = None \<and> (\<forall>e. cp_end s \<noteq> SrcFails e)"

definition good_step :: "copy_state \<Rightarrow> copy_state \<Rightarrow> bool" where
  "good_step s s' \<longleftrightarrow> copy_step s s' \<and> (fault_free s \<longrightarrow> fault_free s')"

lemma free_has_room:
  assumes "own_inv s" and "w \<in> set (cp_workers s)" and "b \<in># worker_bag w"
  shows "length (cp_free s) < uploadConcurrency"
proof -
  have "b \<in># sum_list (map worker_bag (cp_workers s))" using in_sum_list [OF assms(2)] assms(3) by (rule mset_subset_eqD)
  then have "0 < size (sum_list (map worker_bag (cp_workers s)))" by (metis nonempty_has_size empty_iff set_mset_empty)
  moreover have "size (buffers s) \<le> size all_buffers" using assms(1) by (auto simp: own_inv_def intro: size_mset_mono)
  ultimately show ?thesis by (simp add: buffers_def all_buffers_def)
qed

lemma worker_moves:
  assumes "copy_inv j src fin s" and "w \<in> set (cp_workers s)" and "\<not> worker_returned w" and "w \<noteq> WRange"
  shows "\<exists>s'. good_step s s'"
proof -
  obtain i where i: "i < length (cp_workers s)" "cp_workers s ! i = w" using assms(2) by (auto simp: in_set_conv_nth)
  have room: "length (cp_free s) < uploadConcurrency" if "w = WFree b" for b
    using free_has_room [of s w b] assms(1,2) that by (simp add: copy_inv_def worker_bag_def)
  show ?thesis
  proof (cases w)
    case (WWrite b n off)
    with i show ?thesis using step_written [of i s b n off] by (auto simp: good_step_def fault_free_def put_worker_def)
  next
    case (WCount b n)
    with i show ?thesis using step_count [of i s b n] by (auto simp: good_step_def fault_free_def put_worker_def)
  next
    case (WFree b)
    with i room show ?thesis using step_give_back [of i s b] by (auto simp: good_step_def fault_free_def put_worker_def)
  qed (use assms(3,4) in \<open>simp_all add: worker_returned_def\<close>)
qed

lemma idle_worker:
  assumes inv: "copy_inv j src fin s" and "w \<in> set (cp_workers s)" and "w = WRange \<or> worker_returned w"
    and "cp_reader s \<noteq> RReturned" and "cp_ctx s = None"
  shows "w = WRange"
proof -
  have "chunk_ok src s w" and "cp_err s = None" using inv assms(2,5) by (auto simp: copy_inv_def chunk_inv_def read_inv_def)
  with assms(3,4) show ?thesis by (cases w) (auto simp: chunk_ok_def worker_returned_def)
qed

lemma good_stop: "cp_ctx s = Some c \<Longrightarrow> cp_reader s = RWait \<or> cp_reader s = RSend b n r \<Longrightarrow> \<exists>s'. good_step s s'"
  using step_stop [of s b n r c] by (auto simp: good_step_def fault_free_def)

lemma fault_free_send:
  assumes "read_inv src fin s" and "cp_reader s = RSend b n r" and "fault_free s"
  shows "fault_free (after_read r (put_worker i w (s\<lparr>cp_off := m\<rparr>)))"
  using assms by (cases r) (auto simp: fault_free_def after_read_def put_worker_def read_inv_def group_fail_def)

lemma fault_free_read: "fault_free s \<Longrightarrow> fault_free (reader_read b s)"
  by (auto simp: fault_free_def reader_read_def Let_def ReadFull_def after_read_def group_fail_def split: source_end.splits)

lemma reader_moves:
  assumes inv: "copy_inv j src fin s" and run: "cp_reader s \<noteq> RReturned"
    and idle: "\<And>w. w \<in> set (cp_workers s) \<Longrightarrow> w = WRange \<or> worker_returned w"
  shows "\<exists>s'. good_step s s'"
proof (cases "cp_ctx s")
  case None
  then have all: "w = WRange" if "w \<in> set (cp_workers s)" for w using idle_worker [OF inv that idle [OF that] run] by simp
  have len: "length (cp_workers s) = uploadConcurrency" and own: "buffers s = all_buffers"
    using inv run by (auto simp: copy_inv_def own_inv_def)
  show ?thesis
  proof (cases "cp_reader s")
    case RWait
    have "worker_bag w = {#}" if "w \<in> set (cp_workers s)" for w using all [OF that] by (simp add: worker_bag_def)
    then have "sum_list (map worker_bag (cp_workers s)) = {#}" by (rule sum_list_all_none)
    with own RWait have "cp_free s \<noteq> []" using all_buffers_nonempty by (auto simp: buffers_def reader_bag_def)
    with RWait show ?thesis using step_take [of s "hd (cp_free s)" "tl (cp_free s)"] by (auto simp: good_step_def fault_free_def)
  next
    case (RHold b)
    then show ?thesis using step_read [of s b] fault_free_read [of s b] by (auto simp: good_step_def)
  next
    case (RSend b n r)
    moreover have "0 < length (cp_workers s)" and "cp_workers s ! 0 = WRange"
      using len all [of "cp_workers s ! 0"] by (simp_all add: uploadConcurrency_def)
    ultimately show ?thesis
      using step_send [of s b n r 0] fault_free_send [of src fin s b n r 0] inv
      by (auto simp: good_step_def copy_inv_def)
  qed (use run in simp)
next
  case (Some c)
  show ?thesis
  proof (cases "cp_reader s")
    case (RHold b)
    then show ?thesis using step_read [of s b] fault_free_read [of s b] by (auto simp: good_step_def)
  qed (use run good_stop [OF Some] in auto)
qed

lemma copy_moves:
  assumes inv: "copy_inv j src fin s" and wait: "\<not> copy_returned s"
  shows "\<exists>s'. good_step s s'"
proof (cases "\<exists>w\<in>set (cp_workers s). \<not> worker_returned w \<and> w \<noteq> WRange")
  case True
  then show ?thesis using worker_moves [OF inv] by blast
next
  case False
  then have idle: "w = WRange \<or> worker_returned w" if "w \<in> set (cp_workers s)" for w using that by blast
  show ?thesis
  proof (cases "cp_reader s = RReturned")
    case True
    then obtain i where "i < length (cp_workers s)" "cp_workers s ! i = WRange"
      using wait idle by (fastforce simp: copy_returned_def list_all_iff in_set_conv_nth)
    then show ?thesis using step_done [of i s] True by (auto simp: good_step_def fault_free_def put_worker_def)
  qed (use reader_moves [OF inv _ idle] in blast)
qed


lemma good_run:
  "copy_reach j src fin s \<Longrightarrow> fault_free s \<Longrightarrow> \<exists>s'. copy_reach j src fin s' \<and> copy_returned s' \<and> fault_free s'"
proof (induction "copy_steps_left s" arbitrary: s rule: less_induct)
  case less
  show ?case
  proof (cases "copy_returned s")
    case False
    then obtain s' where "copy_step s s'" and "fault_free s'"
      using copy_moves [OF copy_reach_inv [OF less(2)]] less(3) by (auto simp: good_step_def)
    then show ?thesis using less copy_step_decreases copy_next by blast
  qed (use less in blast)
qed

text \<open>
  The end of a source that broke off is taken for its end: an upload of what arrived of a longer file succeeds, when
  the source reports \<open>io.ErrUnexpectedEOF\<close>, as the body of an HTTP response does.
\<close>

theorem truncated_source_succeeds:
  "\<exists>s. copy_reach j src SrcUnexpectedEOF s \<and> copy_returned s \<and> cp_err s = None \<and> cp_dst s = whole_file src"
proof -
  have "fault_free (copy_start j src SrcUnexpectedEOF None)" by (simp add: fault_free_def copy_start_def)
  from good_run [OF copy_init this] obtain s
    where s: "copy_reach j src SrcUnexpectedEOF s" "copy_returned s" "cp_err s = None" by (auto simp: fault_free_def)
  then show ?thesis using delivers by blast
qed

subsection \<open>Witnesses\<close>

definition demo_upload_job :: transfer_job where
  "demo_upload_job = newTransferJob None ''upload-1'' ''s'' ''a'' ''b'' 0"

lemma demo_copy_run:
  "\<exists>s. copy_reach demo_upload_job ''abc'' SrcEOF s \<and> copy_returned s \<and> cp_err s = None"
proof -
  have "fault_free (copy_start demo_upload_job ''abc'' SrcEOF None)" by (simp add: fault_free_def copy_start_def)
  from good_run [OF copy_init this] show ?thesis by (auto simp: fault_free_def)
qed


theorem copy_progress_honest_witness:
  "cp_dst (copy_start demo_upload_job ''abc'' SrcEOF None) \<subseteq>\<^sub>m whole_file ''abc''"
  using copy_progress_honest [OF copy_init, of demo_upload_job "''abc''" SrcEOF None] by simp


end
