(* ===== verification/Ses_Addr.thy ===== *)
theory Ses_Addr
  imports Gw_Discovery Fx_Http
begin

text \<open>
  How the SSH client reads addresses: targets and the tokens of \<open>ssh_config\<close> (\<open>internal/session/config.go\<close>), and
  local forwards (\<open>internal/session/forward.go\<close>), with what they use of \<open>strconv\<close>, \<open>strings\<close> and \<open>net\<close>.
\<close>

subsection \<open>strconv\<close>

definition digit_val :: "char \<Rightarrow> int" where
  "digit_val c = int (byte_of c) - 48"

definition digits_val :: "string \<Rightarrow> int" where
  "digits_val ds = foldl (\<lambda>a c. 10 * a + digit_val c) 0 ds"

text \<open>\<open>strconv.Atoi\<close>, \<open>None\<close> for its errors; an \<open>int\<close> has 64 bits.\<close>

definition atoi :: "string \<Rightarrow> int option" where
  "atoi s =
     (let neg = (s \<noteq> [] \<and> hd s = CHR ''-'');
          ds = (if s \<noteq> [] \<and> (hd s = CHR ''-'' \<or> hd s = CHR ''+'') then tl s else s);
          v = (if neg then - digits_val ds else digits_val ds)
      in if ds = [] \<or> \<not> list_all digit_byte ds then None
         else if - (2 ^ 63) \<le> v \<and> v < 2 ^ 63 then Some v else None)"

definition itoa :: "int \<Rightarrow> string" where
  "itoa z = (if z < 0 then CHR ''-'' # dec_nat (nat (- z)) else dec_nat (nat z))"

lemma digit_of: "k < 10 \<Longrightarrow> digit_byte (char_of (48 + k)) \<and> digit_val (char_of (48 + k)) = int k"
  by (simp add: digit_byte_def digit_val_def)

lemma dec_nat_digits: "dec_nat n \<noteq> [] \<and> list_all digit_byte (dec_nat n) \<and> digits_val (dec_nat n) = int n"
proof (induction n rule: dec_nat.induct)
  case (1 n)
  show ?case
  proof (cases "n < 10")
    case True
    then show ?thesis using digit_of [of n] by (subst (1 2 3) dec_nat.simps) (simp add: digits_val_def)
  next
    case False
    with 1 show ?thesis using digit_of [of "n mod 10"]
      by (subst (1 2 3) dec_nat.simps) (auto simp: digits_val_def zdiv_int zmod_int)
  qed
qed

lemma digit_byte_sign: "digit_byte c \<Longrightarrow> c \<noteq> CHR ''-'' \<and> c \<noteq> CHR ''+'' \<and> c \<noteq> CHR '':'' \<and> c \<noteq> CHR '']'' \<and> c \<noteq> CHR ''[''"
  by (auto simp: digit_byte_def)

lemma atoi_itoa:
  assumes "- (2 ^ 63) \<le> z" and "z < 2 ^ 63"
  shows "atoi (itoa z) = Some z"
proof (cases "z < 0")
  case True
  then show ?thesis using assms dec_nat_digits [of "nat (- z)"] by (auto simp: atoi_def itoa_def Let_def)
next
  case False
  have "digit_byte (hd (dec_nat (nat z)))" using dec_nat_digits [of "nat z"] by (cases "dec_nat (nat z)") auto
  with False show ?thesis
    using assms dec_nat_digits [of "nat z"] digit_byte_sign by (auto simp: atoi_def itoa_def Let_def)
qed

subsection \<open>strings and net\<close>

text \<open>The string before the last occurrence of another, and what follows it.\<close>

fun cut_last_str :: "string \<Rightarrow> string \<Rightarrow> (string \<times> string) option" where
  "cut_last_str p [] = None"
| "cut_last_str p (c # cs) =
     (case cut_last_str p cs of
        Some (x, y) \<Rightarrow> Some (c # x, y)
      | None \<Rightarrow> (if has_prefix (c # cs) p then Some ([], drop (length p) (c # cs)) else None))"

text \<open>\<open>strings.Trim(s, "[]")\<close>.\<close>

definition trim_brackets :: "string \<Rightarrow> string" where
  "trim_brackets s =
     (let b = (\<lambda>c. c = CHR ''['' \<or> c = CHR '']'') in rev (dropWhile b (rev (dropWhile b s))))"

definition join_host_port :: "string \<Rightarrow> string \<Rightarrow> string" where
  "join_host_port host port =
     (if CHR '':'' \<in> set host then ''['' @ host @ '']:'' @ port else host @ '':'' @ port)"

text \<open>\<open>net.SplitHostPort\<close>, \<open>None\<close> for its errors.\<close>

definition split_host_port :: "string \<Rightarrow> (string \<times> string) option" where
  "split_host_port s =
     (case cut_last (CHR '':'') s of
        None \<Rightarrow> None
      | Some (before, port) \<Rightarrow>
          (if hd s = CHR ''['' then
             (case index_byte s (CHR '']'') of
                None \<Rightarrow> None
              | Some e \<Rightarrow>
                  (if Suc e \<noteq> length before then None
                   else if CHR ''['' \<in> set (tl s) \<or> CHR '']'' \<in> set (drop (Suc e) s) then None
                   else Some (drop 1 (take e s), port)))
           else if CHR '':'' \<in> set before then None
           else if CHR ''['' \<in> set s \<or> CHR '']'' \<in> set s then None
           else Some (before, port)))"

subsection \<open>Targets\<close>

text \<open>User, host and port of \<open>[user@]host[:port]\<close>; the port is 0 when there is none or it is no number.\<close>

definition target_port :: "string \<Rightarrow> int" where
  "target_port p = (case atoi p of Some n \<Rightarrow> n | None \<Rightarrow> 0)"

definition parse_host :: "string \<Rightarrow> string \<times> int" where
  "parse_host s =
     (if has_prefix s ''['' then
        (case cut_last_str '']:'' s of
           Some (h, p) \<Rightarrow> (drop 1 h, target_port p)
         | None \<Rightarrow> (trim_brackets s, 0))
      else
        (case cut_last (CHR '':'') s of
           Some (h, p) \<Rightarrow> (h, target_port p)
         | None \<Rightarrow> (s, 0)))"

definition parseTarget :: "string \<Rightarrow> string \<times> string \<times> int" where
  "parseTarget target =
     (if target = [] then ([], [], 0)
      else
        (case cut_last (CHR ''@'') target of
           Some (usr, s) \<Rightarrow> (usr, parse_host s)
         | None \<Rightarrow> ([], parse_host target)))"

text \<open>\<open>%h\<close>, \<open>%p\<close>, \<open>%r\<close> and \<open>%%\<close>; any other \<open>%\<close> stands for itself.\<close>

fun expandSSHTokens :: "string \<Rightarrow> string \<Rightarrow> string \<Rightarrow> string \<Rightarrow> string" where
  "expandSSHTokens [] host port usr = []"
| "expandSSHTokens [c] host port usr = [c]"
| "expandSSHTokens (c # d # cs) host port usr =
     (if c = CHR ''%'' \<and> d = CHR ''h'' then host @ expandSSHTokens cs host port usr
      else if c = CHR ''%'' \<and> d = CHR ''p'' then port @ expandSSHTokens cs host port usr
      else if c = CHR ''%'' \<and> d = CHR ''r'' then usr @ expandSSHTokens cs host port usr
      else if c = CHR ''%'' \<and> d = CHR ''%'' then CHR ''%'' # expandSSHTokens cs host port usr
      else c # expandSSHTokens (d # cs) host port usr)"

subsection \<open>Local forwards\<close>

datatype forward_error =
    FwdUnsupported string
  | FwdMissingHost string
  | FwdMissingPort string
  | FwdInvalidPort string
  | FwdListenAddr forward_error
  | FwdTargetAddr forward_error
  | FwdListen string

definition splitForwardAddr :: "string \<Rightarrow> forward_error + (string \<times> string)" where
  "splitForwardAddr spec =
     (case split_host_port spec of
        Some (h, p) \<Rightarrow> Inr (h, p)
      | None \<Rightarrow>
          (case cut_last (CHR '':'') spec of
             None \<Rightarrow> Inl (FwdMissingPort spec)
           | Some (host, port) \<Rightarrow>
               (if port = [] then Inl (FwdMissingPort spec)
                else if atoi port = None then Inl (FwdInvalidPort port)
                else Inr (trim_brackets host, port))))"

definition parseForwardTargetAddr :: "string \<Rightarrow> forward_error + string" where
  "parseForwardTargetAddr spec =
     (case splitForwardAddr spec of
        Inl e \<Rightarrow> Inl e
      | Inr (host, port) \<Rightarrow> (if host = [] then Inl (FwdMissingHost spec) else Inr (join_host_port host port)))"

definition parseForwardListenAddr :: "string \<Rightarrow> forward_error + string" where
  "parseForwardListenAddr spec =
     (if atoi spec \<noteq> None then Inr (join_host_port ''127.0.0.1'' spec) else parseForwardTargetAddr spec)"

record local_forward =
  lf_listen :: string
  lf_target :: string

definition parseLocalForward :: "string \<Rightarrow> forward_error + local_forward" where
  "parseLocalForward raw =
     (case str_fields raw of
        [l, t] \<Rightarrow>
          (case parseForwardListenAddr l of
             Inl e \<Rightarrow> Inl (FwdListenAddr e)
           | Inr listen \<Rightarrow>
               (case parseForwardTargetAddr t of
                  Inl e \<Rightarrow> Inl (FwdTargetAddr e)
                | Inr targ \<Rightarrow> Inr \<lparr>lf_listen = listen, lf_target = targ\<rparr>))
      | _ \<Rightarrow> Inl (FwdUnsupported raw))"

text \<open>
  \<open>startLocalForwards\<close> opens a listener for each directive; \<open>listens\<close> says whether an address can be listened on
  while others are. When one fails those already open are closed. The result has the open listeners.
\<close>

fun start_forwards :: "(string list \<Rightarrow> string \<Rightarrow> bool) \<Rightarrow> string list \<Rightarrow> string list \<Rightarrow> forward_error option \<times> string list" where
  "start_forwards listens opened [] = (None, opened)"
| "start_forwards listens opened (raw # raws) =
     (case parseLocalForward raw of
        Inl e \<Rightarrow> (Some e, [])
      | Inr fwd \<Rightarrow>
          (if listens opened (lf_listen fwd) then start_forwards listens (opened @ [lf_listen fwd]) raws
           else (Some (FwdListen (lf_listen fwd)), [])))"

definition startLocalForwards ::
  "(string list \<Rightarrow> string \<Rightarrow> bool) \<Rightarrow> (string \<Rightarrow> string \<Rightarrow> string list) \<Rightarrow> string \<Rightarrow> forward_error option \<times> string list" where
  "startLocalForwards listens get_all alias = start_forwards listens [] (get_all alias ''LocalForward'')"

subsection \<open>Cutting at the last separator\<close>

lemma cut_last_None: "cut_last b s = None \<longleftrightarrow> b \<notin> set s"
  by (induction s) (auto split: option.splits)

lemma cut_last_none [simp]: "b \<notin> set s \<Longrightarrow> cut_last b s = None"
  by (simp add: cut_last_None)

lemma cut_last_app [simp]: "b \<notin> set y \<Longrightarrow> cut_last b (x @ b # y) = Some (x, y)"
  by (induction x) simp_all

lemma cut_last_SomeD: "cut_last b s = Some (x, y) \<Longrightarrow> s = x @ b # y \<and> b \<notin> set y"
  by (induction s arbitrary: x) (auto simp: cut_last_None split: option.splits if_splits)

lemma cut_last_bracket_none: "CHR '':'' \<notin> set s \<Longrightarrow> cut_last_str '']:'' s = None"
proof (induction s)
  case (Cons c cs)
  then show ?case by (cases cs) (auto simp: has_prefix_def)
qed simp

lemma cut_last_bracket: "CHR '':'' \<notin> set y \<Longrightarrow> cut_last_str '']:'' (x @ '']:'' @ y) = Some (x, y)"
  by (induction x) (simp_all add: cut_last_bracket_none has_prefix_def)

lemma cut_last_bracket_end: "CHR '']'' \<notin> set s \<Longrightarrow> cut_last_str '']:'' (s @ '']'') = None"
  by (induction s) (auto simp: has_prefix_def)

subsection \<open>Writing a target and reading it\<close>

lemma itoa_digits: "0 \<le> p \<Longrightarrow> list_all digit_byte (itoa p)"
  using dec_nat_digits [of "nat p"] by (simp add: itoa_def)

lemma itoa_plain: "0 \<le> p \<Longrightarrow> CHR '':'' \<notin> set (itoa p) \<and> CHR ''@'' \<notin> set (itoa p) \<and> CHR ''['' \<notin> set (itoa p) \<and> CHR '']'' \<notin> set (itoa p)"
  using itoa_digits [of p] by (auto simp: list_all_iff digit_byte_def)

text \<open>A target as a user writes it: an IPv6 address in brackets, the port when it is not the default.\<close>

definition show_host :: "string \<Rightarrow> int \<Rightarrow> string" where
  "show_host host port =
     (if port = 0 then (if CHR '':'' \<in> set host then ''['' @ host @ '']'' else host) else join_host_port host (itoa port))"

definition show_target :: "string \<Rightarrow> string \<Rightarrow> int \<Rightarrow> string" where
  "show_target usr host port = (if usr = [] then show_host host port else usr @ ''@'' @ show_host host port)"

text \<open>A name or an address: it has neither brackets nor a sign that starts another part.\<close>

definition plain_host :: "string \<Rightarrow> bool" where
  "plain_host host \<longleftrightarrow> host \<noteq> [] \<and> CHR ''@'' \<notin> set host \<and> CHR ''['' \<notin> set host \<and> CHR '']'' \<notin> set host"

lemma trim_brackets_id: "CHR ''['' \<notin> set s \<Longrightarrow> CHR '']'' \<notin> set s \<Longrightarrow> trim_brackets s = s"
proof -
  assume *: "CHR ''['' \<notin> set s" "CHR '']'' \<notin> set s"
  have "dropWhile (\<lambda>c. c = CHR ''['' \<or> c = CHR '']'') r = r" if "set r \<subseteq> set s" for r
    using that * by (cases r) auto
  then show ?thesis by (simp add: trim_brackets_def)
qed

lemma trim_brackets_in:
  assumes "s \<noteq> []" "CHR ''['' \<notin> set s" "CHR '']'' \<notin> set s"
  shows "trim_brackets (''['' @ s @ '']'') = s"
proof -
  let ?b = "\<lambda>c. c = CHR ''['' \<or> c = CHR '']''"
  have keep: "dropWhile ?b (r @ t) = r @ t" if "r \<noteq> []" "set r \<subseteq> set s" for r t
    using that assms by (cases r) auto
  show ?thesis using keep [of s "'']''"] keep [of "rev s" "[]"] assms by (simp add: trim_brackets_def)
qed

lemma parse_show_host:
  assumes "plain_host host" and "0 \<le> port" and "port < 2 ^ 63"
  shows "parse_host (show_host host port) = (host, port)"
proof -
  have host: "host \<noteq> []" "CHR ''['' \<notin> set host" "CHR '']'' \<notin> set host" using assms(1) by (simp_all add: plain_host_def)
  have num: "CHR '':'' \<notin> set (itoa port)" "target_port (itoa port) = port"
    using itoa_plain [OF assms(2)] atoi_itoa [of port] assms(2,3) by (simp_all add: target_port_def)
  have nb: "\<not> has_prefix (host @ r) ''[''" for r using host by (cases host) (auto simp: has_prefix_def)
  show ?thesis
  proof (cases "CHR '':'' \<in> set host")
    case True
    have "cut_last_str '']:'' (''['' @ host @ '']'') = None"
      using host cut_last_bracket_end [of "''['' @ host"] by simp
    then show ?thesis
      using True host num cut_last_bracket [of "itoa port" "''['' @ host"] trim_brackets_in [of host]
      by (auto simp: parse_host_def show_host_def join_host_port_def has_prefix_def)
  next
    case False
    then show ?thesis using host num nb [of "[]"] nb by (simp add: parse_host_def show_host_def join_host_port_def cut_last_None)
  qed
qed

text \<open>
  A target is read as it was written: whoever the user is, the host a plain name, an address or an IPv6 address
  in brackets, and the port any number from 1 on, or left out.
\<close>

theorem target_roundtrip:
  assumes "plain_host host" and "0 \<le> port" and "port < 2 ^ 63"
  shows "parseTarget (show_target usr host port) = (usr, host, port)"
proof -
  have "CHR ''@'' \<notin> set (show_host host port)" and "show_host host port \<noteq> []"
    using assms itoa_plain [of port] by (auto simp: plain_host_def show_host_def join_host_port_def)
  then show ?thesis
    using parse_show_host [OF assms] by (simp add: parseTarget_def show_target_def cut_last_None)
qed

text \<open>An address without brackets is taken for a host that ends at its last colon.\<close>

theorem bare_ipv6_target_misread: "parseTarget ''root@fe80::1'' = (''root'', ''fe80:'', 1)"
  by (simp add: parseTarget_def parse_host_def has_prefix_def target_port_def atoi_def digits_val_def digit_val_def digit_byte_def)

definition quote_tokens :: "string \<Rightarrow> string" where
  "quote_tokens s = concat (map (\<lambda>c. if c = CHR ''%'' then ''%%'' else [c]) s)"

lemma expand_plain: "c \<noteq> CHR ''%'' \<Longrightarrow> expandSSHTokens (c # s) host port usr = c # expandSSHTokens s host port usr"
  by (cases s) auto

lemma expand_quoted: "expandSSHTokens (quote_tokens s) host port usr = s"
  by (induction s) (auto simp: quote_tokens_def expand_plain)

subsection \<open>Addresses of forwards\<close>

definition bracket :: "char \<Rightarrow> bool" where
  "bracket c \<longleftrightarrow> c = CHR ''['' \<or> c = CHR '']''"

definition bare :: "string \<Rightarrow> bool" where
  "bare s \<longleftrightarrow> s \<noteq> [] \<and> \<not> bracket (hd s) \<and> \<not> bracket (last s)"

lemma trim_brackets_alt: "trim_brackets s = rev (dropWhile bracket (rev (dropWhile bracket s)))"
  by (simp add: trim_brackets_def bracket_def [abs_def] Let_def)

lemma trim_bare: "trim_brackets s \<noteq> [] \<Longrightarrow> bare (trim_brackets s)"
proof -
  assume ne: "trim_brackets s \<noteq> []"
  define u where "u = dropWhile bracket s"
  have t: "trim_brackets s = rev (dropWhile bracket (rev u))" by (simp add: trim_brackets_alt u_def)
  with ne have "u \<noteq> []" by auto
  then have hd: "\<not> bracket (hd u)" unfolding u_def by (rule hd_dropWhile)
  have "dropWhile bracket (rev u) \<noteq> []" using ne t by simp
  then have "\<not> bracket (hd (dropWhile bracket (rev u)))" by (rule hd_dropWhile)
  then have last: "\<not> bracket (last (trim_brackets s))" using t by (simp add: last_rev)
  have "u = trim_brackets s @ rev (takeWhile bracket (rev u))"
    unfolding t by (metis rev_append rev_rev_ident takeWhile_dropWhile_id)
  then have "hd u = hd (trim_brackets s)" using ne by (metis hd_append2)
  with ne hd last show ?thesis by (simp add: bare_def)
qed

lemma bare_trim: "bare s \<Longrightarrow> trim_brackets s = s"
proof -
  assume b: "bare s"
  then have "dropWhile bracket s = s" and "dropWhile bracket (rev s) = rev s"
    by (auto simp: bare_def dropWhile_eq_self_iff hd_rev)
  then show ?thesis by (simp add: trim_brackets_alt)
qed

lemma bare_trim_in: "bare s \<Longrightarrow> trim_brackets (''['' @ s @ '']'') = s"
proof -
  assume b: "bare s"
  then have "dropWhile bracket (s @ '']'') = s @ '']''" and "dropWhile bracket (rev s) = rev s"
    by (auto simp: bare_def dropWhile_eq_self_iff hd_rev)
  then show ?thesis by (simp add: trim_brackets_alt bracket_def)
qed

lemma split_join:
  assumes "CHR ''['' \<notin> set h" "CHR '']'' \<notin> set h" and "CHR '':'' \<notin> set p" "CHR ''['' \<notin> set p" "CHR '']'' \<notin> set p"
  shows "split_host_port (join_host_port h p) = Some (h, p)"
proof (cases "CHR '':'' \<in> set h")
  case True
  have "index_byte (''['' @ h @ '']:'' @ p) (CHR '']'') = Some (Suc (length h))"
    using assms index_byte_append_notin [of "CHR '']''" "''['' @ h"] by simp
  moreover have "cut_last (CHR '':'') (''['' @ h @ '']:'' @ p) = Some (''['' @ h @ '']'', p)"
    using cut_last_app [of "CHR '':''" p "''['' @ h @ '']''"] assms by simp
  ultimately show ?thesis using True assms by (simp add: split_host_port_def join_host_port_def)
next
  case False
  then show ?thesis using assms by (cases h) (auto simp: split_host_port_def join_host_port_def)
qed

lemma split_host_portD:
  assumes "split_host_port s = Some (h, p)"
  shows "CHR ''['' \<notin> set h \<and> CHR '']'' \<notin> set h \<and> CHR '':'' \<notin> set p \<and> CHR ''['' \<notin> set p \<and> CHR '']'' \<notin> set p"
proof -
  obtain bef where c: "cut_last (CHR '':'') s = Some (bef, p)"
    using assms by (auto simp: split_host_port_def split: option.splits if_splits)
  then have s: "s = bef @ CHR '':'' # p" "CHR '':'' \<notin> set p" using cut_last_SomeD by blast+
  show ?thesis
  proof (cases "hd s = CHR ''[''")
    case True
    then obtain e where e: "index_byte s (CHR '']'') = Some e" "Suc e = length bef" "CHR ''['' \<notin> set (tl s)"
        "CHR '']'' \<notin> set (drop (Suc e) s)" and h: "h = drop 1 (take e s)"
      using assms c by (auto simp: split_host_port_def split: option.splits if_splits)
    have "set h \<subseteq> set (tl s)" unfolding h by (cases s; cases e) (auto dest: in_set_takeD)
    moreover have "CHR '']'' \<notin> set h" using index_byte_SomeD [OF e(1)] unfolding h by (auto dest: in_set_dropD)
    moreover have "drop (Suc e) s = CHR '':'' # p" using s(1) e(2) by simp
    moreover have "set p \<subseteq> set (tl s)" using s(1) e(2) by (cases bef) auto
    ultimately show ?thesis using e s(2) by auto
  next
    case False
    then show ?thesis using assms c s by (auto simp: split_host_port_def split: if_splits)
  qed
qed

lemma split_bracketed_host:
  assumes "bare h" and "\<not> (CHR ''['' \<notin> set h \<and> CHR '']'' \<notin> set h)" and "CHR '':'' \<notin> set p"
  shows "split_host_port (join_host_port h p) = None"
proof (cases "CHR '':'' \<in> set h")
  case True
  let ?s = "''['' @ h @ '']:'' @ p"
  have c: "cut_last (CHR '':'') ?s = Some (''['' @ h @ '']'', p)"
    using cut_last_app [of "CHR '':''" p "''['' @ h @ '']''"] assms(3) by simp
  show ?thesis
  proof (cases "CHR '']'' \<in> set h")
    case in_h: True
    then obtain h1 h2 where h: "h = h1 @ CHR '']'' # h2" "CHR '']'' \<notin> set h1" by (meson split_list_first)
    then have "index_byte ?s (CHR '']'') = Some (Suc (length h1))"
      using index_byte_append_notin [of "CHR '']''" "''['' @ h1"] by simp
    then show ?thesis using c True h by (simp add: split_host_port_def join_host_port_def)
  next
    case False
    then have "index_byte ?s (CHR '']'') = Some (Suc (length h))"
      using index_byte_append_notin [of "CHR '']''" "''['' @ h"] by simp
    then show ?thesis using c True False assms(2) by (simp add: split_host_port_def join_host_port_def)
  qed
next
  case False
  then show ?thesis using assms by (cases h) (auto simp: split_host_port_def join_host_port_def bare_def bracket_def)
qed

lemma atoi_plain: "atoi p \<noteq> None \<Longrightarrow> p \<noteq> [] \<and> CHR '':'' \<notin> set p \<and> CHR ''['' \<notin> set p \<and> CHR '']'' \<notin> set p"
  by (cases p) (auto simp: atoi_def Let_def list_all_iff digit_byte_def split: if_splits)

lemma join_cut: "CHR '':'' \<notin> set p \<Longrightarrow>
    cut_last (CHR '':'') (join_host_port h p) = Some (if CHR '':'' \<in> set h then ''['' @ h @ '']'' else h, p)"
  using cut_last_app [of "CHR '':''" p "''['' @ h @ '']''"] by (simp add: join_host_port_def)

text \<open>
  The address a forward is given is in a normal form: an address that was accepted is accepted as it came out,
  unchanged, so what is listened on and dialed does not depend on how often it was parsed.
\<close>

theorem forward_address_canonical:
  assumes "parseForwardTargetAddr spec = Inr a"
  shows "parseForwardTargetAddr a = Inr a"
proof -
  obtain h p where hp: "splitForwardAddr spec = Inr (h, p)" "h \<noteq> []" "a = join_host_port h p"
    using assms by (auto simp: parseForwardTargetAddr_def split: sum.splits if_splits)
  consider (plain) "CHR ''['' \<notin> set h \<and> CHR '']'' \<notin> set h" "CHR '':'' \<notin> set p" "CHR ''['' \<notin> set p" "CHR '']'' \<notin> set p"
    | (odd) "\<not> (CHR ''['' \<notin> set h \<and> CHR '']'' \<notin> set h)" "bare h" "atoi p \<noteq> None" "CHR '':'' \<notin> set p"
  proof (cases "split_host_port spec")
    case None
    then obtain x where "h = trim_brackets x" and a: "atoi p \<noteq> None"
      using hp(1) by (auto simp: splitForwardAddr_def split: option.splits if_splits)
    then have "bare h" using trim_bare hp(2) by blast
    then show ?thesis using that atoi_plain [OF a] a by blast
  next
    case (Some q)
    then have "split_host_port spec = Some (h, p)" using hp(1) by (cases q) (simp add: splitForwardAddr_def)
    then show ?thesis using that(1) split_host_portD by blast
  qed
  then show ?thesis
  proof cases
    case plain
    then have "split_host_port a = Some (h, p)" using split_join hp(3) by blast
    then show ?thesis using hp by (simp add: parseForwardTargetAddr_def splitForwardAddr_def)
  next
    case odd
    have "split_host_port a = None" using split_bracketed_host [OF odd(2,1,4)] hp(3) by simp
    moreover have "trim_brackets (if CHR '':'' \<in> set h then ''['' @ h @ '']'' else h) = h"
      using bare_trim bare_trim_in odd(2) by simp
    moreover have "p \<noteq> []" using atoi_plain odd(3) by blast
    ultimately show ?thesis using hp odd join_cut [of p h] by (simp add: parseForwardTargetAddr_def splitForwardAddr_def)
  qed
qed

text \<open>
  A port that is no number, or none at all, is refused only where \<open>net.SplitHostPort\<close> cannot read the address.
\<close>

theorem forward_port_unchecked:
  "parseForwardTargetAddr ''localhost:abc'' = Inr ''localhost:abc'' \<and> parseForwardTargetAddr ''localhost:'' = Inr ''localhost:''
   \<and> parseForwardTargetAddr ''localhost:80:abc'' = Inl (FwdInvalidPort ''abc'')"
  by (simp add: parseForwardTargetAddr_def splitForwardAddr_def split_host_port_def join_host_port_def atoi_def digit_byte_def)

text \<open>Either there is one open listener for each directive, in order, or there is none.\<close>

lemma forwards_all_or_none:
  "start_forwards listens opened raws = (e, ls) \<Longrightarrow>
     (case e of
        Some _ \<Rightarrow> ls = []
      | None \<Rightarrow> \<exists>fwds. map parseLocalForward raws = map Inr fwds \<and> ls = opened @ map lf_listen fwds)"
proof (induction raws arbitrary: opened)
  case (Cons raw raws)
  show ?case
  proof (cases "parseLocalForward raw")
    case (Inr fwd)
    show ?thesis
    proof (cases "listens opened (lf_listen fwd) \<and> e = None")
      case True
      then obtain fwds where "map parseLocalForward raws = map Inr fwds" "ls = (opened @ [lf_listen fwd]) @ map lf_listen fwds"
        using Inr Cons.prems Cons.IH [of "opened @ [lf_listen fwd]"] by auto
      with Inr True have "map parseLocalForward (raw # raws) = map Inr (fwd # fwds) \<and> ls = opened @ map lf_listen (fwd # fwds)"
        by simp
      with True show ?thesis by (auto simp del: list.map)
    qed (use Inr Cons.prems Cons.IH [of "opened @ [lf_listen fwd]"] in \<open>auto split: if_splits option.splits\<close>)
  qed (use Cons.prems in auto)
qed auto

subsection \<open>Witnesses\<close>

theorem target_roundtrip_witness: "parseTarget (show_target ''root'' ''fe80::1'' 22) = (''root'', ''fe80::1'', 22)"
  by (rule target_roundtrip) (simp_all add: plain_host_def)

theorem forward_address_canonical_witness: "parseForwardTargetAddr ''[::1]:80'' = Inr ''[::1]:80''"
proof -
  have "parseForwardTargetAddr ''::1:80'' = Inr ''[::1]:80''"
    by (simp add: parseForwardTargetAddr_def splitForwardAddr_def split_host_port_def join_host_port_def atoi_def
      digit_byte_def digits_val_def digit_val_def trim_brackets_def)
  then show ?thesis by (rule forward_address_canonical)
qed

end
