(* ===== verification/Ses_SshConfig.thy ===== *)
theory Ses_SshConfig
  imports Ses_Addr Mcp_Http Fx_Fs
begin

text \<open>
  The machines a user's \<open>ssh_config\<close> names, \<open>internal/session/sshconfig.go\<close>: the parser of one file and the walk over
  the files it includes. Files and \<open>filepath.Glob\<close> are arguments.
\<close>

subsection \<open>Lines and fields\<close>

text \<open>
  \<open>bufio.Scanner\<close> over lines: a carriage return at the end is dropped, and a line that does not fit its buffer
  together with its newline ends the scan.
\<close>

definition maxTokenSize :: nat where
  "maxTokenSize = 64 * 1024"

definition drop_cr :: "string \<Rightarrow> string" where
  "drop_cr l = (if l \<noteq> [] \<and> last l = CHR 0x0D then butlast l else l)"

definition scan_lines :: "string \<Rightarrow> string list" where
  "scan_lines s =
     (let ps = split_byte (CHR 0x0A) s; ls = (if last ps = [] then butlast ps else ps)
      in map drop_cr (takeWhile (\<lambda>l. length l < maxTokenSize) ls))"

definition field_sep :: "char \<Rightarrow> bool" where
  "field_sep c \<longleftrightarrow> c = CHR '' '' \<or> c = CHR 0x09 \<or> c = CHR ''=''"

text \<open>\<open>strings.FieldsFunc\<close>; \<open>cur\<close> is the field being read, reversed.\<close>

fun sep_fields :: "string \<Rightarrow> string \<Rightarrow> string list" where
  "sep_fields cur [] = (if cur = [] then [] else [rev cur])"
| "sep_fields cur (c # cs) =
     (if field_sep c then (if cur = [] then [] else [rev cur]) @ sep_fields [] cs else sep_fields (c # cur) cs)"

definition config_fields :: "string \<Rightarrow> string list" where
  "config_fields raw =
     (let line = trim_space raw;
          line' = (case str_cut line (CHR ''#'') of Some (before, _) \<Rightarrow> trim_space before | None \<Rightarrow> line)
      in sep_fields [] line')"

subsection \<open>One file\<close>

record machine =
  ma_name :: string
  ma_user :: string

record config_parser =
  pa_machines :: "machine list"
  pa_hosts :: "string list"
  pa_user :: string
  pa_includes :: "string list"

definition host_pattern :: "string \<Rightarrow> bool" where
  "host_pattern h \<longleftrightarrow> h = [] \<or> h = ''*'' \<or> list_ex (\<lambda>c. c \<in> {CHR ''*'', CHR ''?'', CHR ''['', CHR '']''}) h"

definition flush_hosts :: "config_parser \<Rightarrow> config_parser" where
  "flush_hosts p =
     p\<lparr>pa_machines := pa_machines p @ map (\<lambda>h. \<lparr>ma_name = h, ma_user = pa_user p\<rparr>) (filter (\<lambda>h. \<not> host_pattern h) (pa_hosts p)),
       pa_hosts := [], pa_user := []\<rparr>"

text \<open>One line; the patterns of an \<open>Include\<close> are kept for the caller, in order.\<close>

definition parse_config_line :: "(string \<Rightarrow> string) \<Rightarrow> string \<Rightarrow> config_parser \<Rightarrow> config_parser" where
  "parse_config_line uni raw p =
     (case config_fields raw of
        [] \<Rightarrow> p
      | kw # args \<Rightarrow>
          (if to_lower uni kw = ''host'' then (flush_hosts p)\<lparr>pa_hosts := args\<rparr>
           else if to_lower uni kw = ''user'' then
             (if args \<noteq> [] \<and> pa_hosts p \<noteq> [] then p\<lparr>pa_user := hd args\<rparr> else p)
           else if to_lower uni kw = ''include'' then (flush_hosts p)\<lparr>pa_includes := pa_includes p @ args\<rparr>
           else p))"

definition parseSSHConfig :: "(string \<Rightarrow> string) \<Rightarrow> string \<Rightarrow> machine list \<times> string list" where
  "parseSSHConfig uni content =
     (let p = flush_hosts (fold (parse_config_line uni) (scan_lines content)
                \<lparr>pa_machines = [], pa_hosts = [], pa_user = [], pa_includes = []\<rparr>)
      in (pa_machines p, pa_includes p))"

subsection \<open>A file and what it includes\<close>

record ssh_files =
  sf_open :: "string \<Rightarrow> string option"
  sf_glob :: "string \<Rightarrow> string list"
  sf_lower :: "string \<Rightarrow> string"
  sf_home :: string

definition path_dir :: "string \<Rightarrow> string" where
  "path_dir p = path_clean (rev (dropWhile (\<lambda>c. c \<noteq> CHR ''/'') (rev p)))"

definition include_path :: "string \<Rightarrow> string \<Rightarrow> string \<Rightarrow> string" where
  "include_path home base inc =
     (case cut_prefix inc ''~/'' of
        Some rest \<Rightarrow> path_join home rest
      | None \<Rightarrow> (if path_is_abs inc then inc else path_join base inc))"

definition include_files :: "ssh_files \<Rightarrow> string \<Rightarrow> string \<Rightarrow> string list" where
  "include_files w base inc =
     (let p = include_path (sf_home w) base inc in if sf_glob w p = [] then [p] else sf_glob w p)"

text \<open>The names seen are those of the machines found.\<close>

definition add_machine :: "machine \<Rightarrow> machine list \<Rightarrow> machine list" where
  "add_machine m ms = (if ma_name m \<in> set (map ma_name ms) then ms else ms @ [m])"

function load_config :: "ssh_files \<Rightarrow> nat \<Rightarrow> string \<Rightarrow> machine list \<Rightarrow> machine list" where
  "load_config w depth path ms =
     (if depth > 10 then ms
      else
        (case sf_open w path of
           None \<Rightarrow> ms
         | Some content \<Rightarrow>
             (let (parsed, incs) = parseSSHConfig (sf_lower w) content;
                  files = concat (map (include_files w (path_dir path)) incs)
              in fold add_machine parsed (fold (load_config w (Suc depth)) files ms))))"
  by pat_completeness auto
termination
  by (relation "measure (\<lambda>(w, depth, path, ms). 11 - depth)") auto

declare load_config.simps [simp del]

definition listMachinesFromRoots :: "ssh_files \<Rightarrow> string list \<Rightarrow> machine list" where
  "listMachinesFromRoots w roots = fold (load_config w 0) roots []"

definition ListMachines :: "ssh_files \<Rightarrow> machine list" where
  "ListMachines w = listMachinesFromRoots w [path_join (sf_home w) ''.ssh/config'', ''/etc/ssh/ssh_config'']"

subsection \<open>What is listed\<close>

text \<open>A name that can be given as a target: a word without pattern signs, comment signs and separators.\<close>

definition machine_word :: "string \<Rightarrow> bool" where
  "machine_word h \<longleftrightarrow> \<not> host_pattern h \<and> \<not> list_ex (\<lambda>c. field_sep c \<or> c = CHR ''#'') h"

lemma sep_fields_words:
  "f \<in> set (sep_fields cur s) \<Longrightarrow> f \<noteq> [] \<and> set f \<subseteq> set cur \<union> {c \<in> set s. \<not> field_sep c}"
proof (induction cur s arbitrary: f rule: sep_fields.induct)
  case (2 cur c cs)
  show ?case
  proof (cases "field_sep c")
    case True
    then consider "f = rev cur" "cur \<noteq> []" | "f \<in> set (sep_fields [] cs)" using 2(3) by (auto split: if_splits)
    then show ?thesis using 2(1) [OF True, of f] by cases auto
  next
    case False
    then show ?thesis using 2(2) [OF False, of f] 2(3) by auto
  qed
qed (auto split: if_splits)

lemma trim_space_subset: "set (trim_space s) \<subseteq> set s"
proof -
  have "set (strip_left encs r) \<subseteq> set r" for encs r
    by (induction encs r rule: strip_left.induct)
      (subst strip_left.simps, auto split: option.splits dest: in_set_dropD)
  then show ?thesis unfolding trim_space_def by (metis set_rev subset_trans)
qed

lemma str_cut_before: "str_cut s b = Some (x, y) \<Longrightarrow> b \<notin> set x"
  using index_byte_SomeD by (fastforce simp: str_cut_def split: option.splits)

lemma config_fields_words:
  assumes "f \<in> set (config_fields raw)"
  shows "f \<noteq> [] \<and> \<not> list_ex (\<lambda>c. field_sep c \<or> c = CHR ''#'') f"
proof -
  define line where
    "line = (case str_cut (trim_space raw) (CHR ''#'') of Some (before, _) \<Rightarrow> trim_space before | None \<Rightarrow> trim_space raw)"
  have "CHR ''#'' \<notin> set line"
  proof (cases "str_cut (trim_space raw) (CHR ''#'')")
    case None
    then show ?thesis by (auto simp: line_def str_cut_def index_byte_None split: option.splits)
  next
    case (Some p)
    then show ?thesis using str_cut_before trim_space_subset by (cases p) (force simp: line_def)
  qed
  moreover have "f \<in> set (sep_fields [] line)" using assms by (simp add: config_fields_def line_def Let_def)
  ultimately show ?thesis using sep_fields_words [of f "[]" line] by (auto simp: list_ex_iff)
qed

definition parser_ok :: "config_parser \<Rightarrow> bool" where
  "parser_ok p \<longleftrightarrow> (\<forall>m\<in>set (pa_machines p). machine_word (ma_name m))
     \<and> (\<forall>h\<in>set (pa_hosts p). \<not> list_ex (\<lambda>c. field_sep c \<or> c = CHR ''#'') h)"

lemma flush_ok: "parser_ok p \<Longrightarrow> parser_ok (flush_hosts p)"
  by (auto simp: parser_ok_def flush_hosts_def machine_word_def)

lemma parse_line_ok: "parser_ok p \<Longrightarrow> parser_ok (parse_config_line uni raw p)"
proof -
  assume ok: "parser_ok p"
  have args: "\<forall>f\<in>set args. \<not> list_ex (\<lambda>c. field_sep c \<or> c = CHR ''#'') f" if "config_fields raw = kw # args" for kw args
    using config_fields_words [of _ raw] that by auto
  show ?thesis
    using ok flush_ok [OF ok] args
    by (auto simp: parse_config_line_def parser_ok_def split: list.splits)
qed

lemma parse_words: "m \<in> set (fst (parseSSHConfig uni content)) \<Longrightarrow> machine_word (ma_name m)"
proof -
  have keep: "parser_ok (fold (parse_config_line uni) ls p)" if "parser_ok p" for ls p
    using that by (induction ls arbitrary: p) (simp_all add: parse_line_ok)
  have "parser_ok (flush_hosts (fold (parse_config_line uni) (scan_lines content)
      \<lparr>pa_machines = [], pa_hosts = [], pa_user = [], pa_includes = []\<rparr>))"
    by (rule flush_ok, rule keep) (simp add: parser_ok_def)
  then show "m \<in> set (fst (parseSSHConfig uni content)) \<Longrightarrow> machine_word (ma_name m)"
    by (simp add: parseSSHConfig_def Let_def parser_ok_def)
qed

definition machines_ok :: "machine list \<Rightarrow> bool" where
  "machines_ok ms \<longleftrightarrow> distinct (map ma_name ms) \<and> list_all (\<lambda>m. machine_word (ma_name m)) ms"

text \<open>Loading only adds at the end, so the first machine of a name stays.\<close>

definition extends :: "machine list \<Rightarrow> machine list \<Rightarrow> bool" where
  "extends ms ms' \<longleftrightarrow> prefix ms ms' \<and> (machines_ok ms \<longrightarrow> machines_ok ms')"

lemma extends_trans: "extends a b \<Longrightarrow> extends b c \<Longrightarrow> extends a c"
  by (auto simp: extends_def intro: prefix_order.trans)

lemma extends_fold: "(\<And>x ms. x \<in> set xs \<Longrightarrow> extends ms (f x ms)) \<Longrightarrow> extends ms (fold f xs ms)"
proof (induction xs arbitrary: ms)
  case (Cons x xs)
  then have "extends ms (f x ms)" and "extends (f x ms) (fold f xs (f x ms))" by simp_all
  then show ?case using extends_trans by simp
qed (simp add: extends_def)

lemma extends_add: "machine_word (ma_name m) \<Longrightarrow> extends ms (add_machine m ms)"
  by (auto simp: extends_def add_machine_def machines_ok_def)

lemma load_extends: "extends ms (load_config w depth path ms)"
proof (induction w depth path ms rule: load_config.induct)
  case (1 w depth path ms)
  show ?case
  proof (cases "depth > 10 \<or> sf_open w path = None")
    case True
    then have "load_config w depth path ms = ms" by (subst load_config.simps) auto
    then show ?thesis by (simp add: extends_def)
  next
    case False
    then obtain content where c: "sf_open w path = Some content" by auto
    obtain parsed incs where p: "parseSSHConfig (sf_lower w) content = (parsed, incs)" by (cases "parseSSHConfig (sf_lower w) content")
    let ?files = "concat (map (include_files w (path_dir path)) incs)"
    have "extends ms' (load_config w (Suc depth) f ms')" if "f \<in> set ?files" for f ms'
      using 1 [OF _ c p [symmetric] refl _ that] False by simp
    then have "extends ms (fold (load_config w (Suc depth)) ?files ms)" by (rule extends_fold)
    moreover have "extends ms' (add_machine m ms')" if "m \<in> set parsed" for m ms'
      using extends_add parse_words [of m "sf_lower w" content] that p by simp
    then have "extends ms' (fold add_machine parsed ms')" for ms' by (rule extends_fold)
    moreover have "load_config w depth path ms = fold add_machine parsed (fold (load_config w (Suc depth)) ?files ms)"
      using False c p by (subst load_config.simps) simp
    ultimately show ?thesis using extends_trans by simp
  qed
qed


text \<open>A negated pattern is listed like a machine.\<close>

lemmas demo_parse = parseSSHConfig_def scan_lines_def maxTokenSize_def drop_cr_def parse_config_line_def flush_hosts_def
  config_fields_def trim_space_ink ink_byte_def str_cut_def field_sep_def to_lower_def is_ascii_def lower_byte_def
  host_pattern_def Let_def char_of_def bit_iff_odd

definition demo_negated :: string where
  "demo_negated = ''Host !bad good'' @ [CHR 0x0A] @ ''User u'' @ [CHR 0x0A]"

theorem negated_pattern_listed:
  "fst (parseSSHConfig (\<lambda>s. s) demo_negated) = [\<lparr>ma_name = ''!bad'', ma_user = ''u''\<rparr>, \<lparr>ma_name = ''good'', ma_user = ''u''\<rparr>]"
  by (simp add: demo_negated_def demo_parse)

text \<open>
  What an included file says of a machine comes before what the including file said of it above the \<open>Include\<close>, where
  \<open>ssh\<close> takes the first value; and of two users in a block it is the second that counts.
\<close>

definition demo_files :: ssh_files where
  "demo_files = \<lparr>sf_open = map_of [(''/c'', ''Host a'' @ [CHR 0x0A] @ ''User one'' @ [CHR 0x0A] @ ''Include d''),
      (''/d'', ''Host a'' @ [CHR 0x0A] @ ''User two'' @ [CHR 0x0A] @ ''User three'')],
     sf_glob = (\<lambda>_. []), sf_lower = (\<lambda>s. s), sf_home = ''/''\<rparr>"

theorem included_before_above: "listMachinesFromRoots demo_files [''/c''] = [\<lparr>ma_name = ''a'', ma_user = ''three''\<rparr>]"
  by (simp add: listMachinesFromRoots_def load_config.simps demo_files_def demo_parse include_files_def include_path_def
    add_machine_def cut_prefix_def has_prefix_def path_is_abs_def path_join_def path_dir_def path_clean_def)

end
