(* ===== verification/Ses_Client.thy ===== *)
theory Ses_Client
  imports Ses_Addr Fx_Fs
begin

text \<open>
  How a connection is configured, \<open>internal/session/config.go\<close>: what the fields of a \<open>Config\<close>, the target and
  \<open>ssh_config\<close> resolve to, which host keys are accepted, which keys and passwords are offered, and keeping the
  connection alive.

  The outside is the record \<open>ssh_world\<close>: the environment, files, the settings parsed by \<open>kevinburke/ssh_config\<close>, the
  parsers of keys, \<open>known_hosts\<close> and the agent.
\<close>

subsection \<open>The outside\<close>

record ssh_key =
  sk_type :: string
  sk_blob :: string

text \<open>\<open>KeyMismatch\<close> is \<open>knownhosts.KeyError\<close>, with the keys that are stored.\<close>

datatype host_key_answer = KeyAccepted | KeyMismatch "ssh_key list" | KeyRefused string

datatype known_error = KnownMissing | KnownBroken string

type_synonym host_key_callback = "string \<Rightarrow> string \<Rightarrow> ssh_key \<Rightarrow> host_key_answer"

text \<open>
  \<open>sw_get\<close> and \<open>sw_get_all\<close> take the home directory whose settings are read. \<open>sw_known\<close> is \<open>knownhosts.New\<close> of a
  path, \<open>sw_known_again\<close> what it says after the file was made, or could not be.
\<close>

record ssh_world =
  sw_env :: "string \<Rightarrow> string"
  sw_user :: "(string \<times> string) option"
  sw_get :: "string \<Rightarrow> string \<Rightarrow> string \<Rightarrow> string"
  sw_get_all :: "string \<Rightarrow> string \<Rightarrow> string \<Rightarrow> string list"
  sw_read :: "string \<Rightarrow> string option"
  sw_private :: "string \<Rightarrow> ssh_key option"
  sw_private_pass :: "string \<Rightarrow> string \<Rightarrow> ssh_key option"
  sw_public :: "string \<Rightarrow> ssh_key option"
  sw_known :: "string \<Rightarrow> known_error + host_key_callback"
  sw_known_again :: "string \<Rightarrow> known_error + host_key_callback"
  sw_probe :: ssh_key
  sw_agent :: "string \<Rightarrow> bool"
  sw_lower :: "string \<Rightarrow> string"
  sw_fold :: "string \<Rightarrow> string \<Rightarrow> bool"

text \<open>\<open>strings.EqualFold\<close>; the Unicode tables are consulted for strings that are not ASCII.\<close>

definition equal_fold :: "ssh_world \<Rightarrow> string \<Rightarrow> string \<Rightarrow> bool" where
  "equal_fold w a b = (if is_ascii a \<and> is_ascii b then map lower_byte a = map lower_byte b else sw_fold w a b)"

record ssh_config =
  cf_machine :: string
  cf_user :: string
  cf_port :: int
  cf_key_path :: string
  cf_password :: string
  cf_timeout :: int
  cf_known_hosts :: string
  cf_proxy_jump :: string
  cf_home :: string

definition homeDir :: "ssh_world \<Rightarrow> string" where
  "homeDir w =
     (if sw_env w ''HOME'' \<noteq> [] then sw_env w ''HOME''
      else (case sw_user w of Some (_, h) \<Rightarrow> h | None \<Rightarrow> ''/root''))"

definition effectiveHome :: "ssh_world \<Rightarrow> ssh_config \<Rightarrow> string" where
  "effectiveHome w c = (if cf_home c \<noteq> [] then cf_home c else homeDir w)"

definition currentUser :: "ssh_world \<Rightarrow> string" where
  "currentUser w = (case sw_user w of Some (u, _) \<Rightarrow> u | None \<Rightarrow> ''root'')"

subsection \<open>Host keys\<close>

definition known_hosts_path :: "string \<Rightarrow> string \<Rightarrow> string" where
  "known_hosts_path kh home = (if kh = [] then path_join home ''.ssh/known_hosts'' else kh)"

definition hostKeyCallback :: "ssh_world \<Rightarrow> string \<Rightarrow> string \<Rightarrow> host_key_callback" where
  "hostKeyCallback w kh home =
     (if kh = ''insecure'' then (\<lambda>_ _ _. KeyAccepted)
      else
        (let path = known_hosts_path kh home;
             loaded = (case sw_known w path of Inl KnownMissing \<Rightarrow> sw_known_again w path | r \<Rightarrow> r)
         in case loaded of
              Inl e \<Rightarrow> (\<lambda>_ _ _. KeyRefused ''known_hosts unavailable'')
            | Inr cb \<Rightarrow> cb))"

definition add_new :: "'a \<Rightarrow> 'a list \<Rightarrow> 'a list" where
  "add_new x xs = (if x \<in> set xs then xs else xs @ [x])"

definition algos_at :: "host_key_callback \<Rightarrow> ssh_key \<Rightarrow> string \<Rightarrow> string list \<Rightarrow> string list" where
  "algos_at cb probe addr algos =
     (case cb addr '':0'' probe of
        KeyMismatch want \<Rightarrow> fold (\<lambda>k. add_new (sk_type k)) want algos
      | _ \<Rightarrow> algos)"

definition knownHostsAlgorithms :: "ssh_world \<Rightarrow> string \<Rightarrow> string \<Rightarrow> string list \<Rightarrow> string list" where
  "knownHostsAlgorithms w kh home addrs = fold (algos_at (hostKeyCallback w kh home) (sw_probe w)) addrs []"

text \<open>The loop over the addresses; \<open>first\<close> at the alias.\<close>

fun check_addresses :: "host_key_callback \<Rightarrow> string \<Rightarrow> ssh_key \<Rightarrow> bool \<Rightarrow> string list \<Rightarrow> host_key_answer" where
  "check_addresses cb remote key first [] = KeyRefused ''host key unknown''"
| "check_addresses cb remote key first (addr # addrs) =
     (case cb addr remote key of
        KeyAccepted \<Rightarrow> KeyAccepted
      | KeyMismatch want \<Rightarrow>
          (if want \<noteq> [] \<and> first then KeyRefused ''host key changed'' else check_addresses cb remote key False addrs)
      | KeyRefused _ \<Rightarrow> check_addresses cb remote key False addrs)"

definition multiAddrHostKeyCallback :: "ssh_world \<Rightarrow> string \<Rightarrow> string \<Rightarrow> string list \<Rightarrow> host_key_callback" where
  "multiAddrHostKeyCallback w kh home addrs = (\<lambda>_ remote key. check_addresses (hostKeyCallback w kh home) remote key True addrs)"

subsection \<open>Authentication\<close>

text \<open>\<open>AuthAgent\<close>: the keys of the agent, all of them or those in a list.\<close>

datatype auth_method = AuthKey ssh_key | AuthPassword string | AuthKeyboard string | AuthAgent "ssh_key list option"

datatype auth_error = KeyUnreadable string | KeyUnparsable string | NoAuthMethods string

definition tryParseWithPass :: "ssh_world \<Rightarrow> string \<Rightarrow> string \<Rightarrow> ssh_key option" where
  "tryParseWithPass w pass key = (if pass = [] then None else sw_private_pass w key pass)"

text \<open>The public key of a file, and whether it can sign.\<close>

definition loadKeyFile :: "ssh_world \<Rightarrow> string \<Rightarrow> string \<Rightarrow> ssh_key option \<times> ssh_key option" where
  "loadKeyFile w path pass =
     (case sw_read w path of
        None \<Rightarrow> (None, None)
      | Some data \<Rightarrow>
          (case sw_private w data of
             Some k \<Rightarrow> (Some k, Some k)
           | None \<Rightarrow>
               (case tryParseWithPass w pass data of
                  Some k \<Rightarrow> (Some k, Some k)
                | None \<Rightarrow> (sw_public w data, None))))"

definition buildKeyPaths :: "string list \<Rightarrow> string \<Rightarrow> bool \<Rightarrow> string list" where
  "buildKeyPaths paths home only =
     (if only \<and> paths \<noteq> [] then paths
      else fold add_new (paths @ map (\<lambda>n. path_join home (''.ssh/'' @ n)) [''id_ed25519'', ''id_rsa'', ''id_ecdsa'']) [])"

definition expand_home :: "string \<Rightarrow> string \<Rightarrow> string" where
  "expand_home home p = (case cut_prefix p ''~/'' of Some rest \<Rightarrow> path_join home rest | None \<Rightarrow> p)"

definition resolveAgentSock :: "ssh_world \<Rightarrow> string \<Rightarrow> string \<Rightarrow> string" where
  "resolveAgentSock w alias home =
     (let ia = sw_get w home alias ''IdentityAgent''; l = to_lower (sw_lower w) ia in
      if l = [] \<or> l = ''ssh_auth_sock'' then sw_env w ''SSH_AUTH_SOCK''
      else if l = ''none'' then []
      else expand_home home ia)"

text \<open>What the agent's signers come to when they are asked for.\<close>

definition filteredAgentSigners :: "ssh_key list \<Rightarrow> ssh_key list \<Rightarrow> ssh_key list" where
  "filteredAgentSigners pubs ks = filter (\<lambda>k. list_ex (\<lambda>a. a = k) pubs) ks"

definition key_path_method :: "ssh_world \<Rightarrow> ssh_config \<Rightarrow> auth_error + auth_method list" where
  "key_path_method w c =
     (case sw_read w (cf_key_path c) of
        None \<Rightarrow> Inl (KeyUnreadable (cf_key_path c))
      | Some data \<Rightarrow>
          (case sw_private w data of
             Some k \<Rightarrow> Inr [AuthKey k]
           | None \<Rightarrow>
               (case tryParseWithPass w (cf_password c) data of
                  Some k \<Rightarrow> Inr [AuthKey k]
                | None \<Rightarrow> Inl (KeyUnparsable (cf_key_path c)))))"

definition identities_only :: "ssh_world \<Rightarrow> string \<Rightarrow> string \<Rightarrow> bool" where
  "identities_only w alias home \<longleftrightarrow> equal_fold w (sw_get w home alias ''IdentitiesOnly'') ''yes''"

definition key_paths :: "ssh_world \<Rightarrow> string \<Rightarrow> string \<Rightarrow> string list" where
  "key_paths w alias home =
     buildKeyPaths (map (expand_home home) (sw_get_all w home alias ''IdentityFile'')) home (identities_only w alias home)"

definition authMethods :: "ssh_world \<Rightarrow> ssh_config \<Rightarrow> string \<Rightarrow> string \<Rightarrow> auth_error + auth_method list" where
  "authMethods w c alias home =
     (if cf_key_path c \<noteq> [] then key_path_method w c
      else
        (let pw = cf_password c;
             passwords = (if pw \<noteq> [] then [AuthPassword pw, AuthKeyboard pw] else []);
             only = identities_only w alias home;
             sock = resolveAgentSock w alias home;
             loaded = map (\<lambda>p. loadKeyFile w p pw) (key_paths w alias home);
             signers = map AuthKey (List.map_filter snd loaded);
             pubs = List.map_filter fst loaded;
             agent = (if sock \<noteq> [] \<and> sw_agent w sock then
                        (if only \<and> pubs \<noteq> [] then [AuthAgent (Some pubs)]
                         else if \<not> only then [AuthAgent None] else [])
                      else []);
             m = passwords @ agent @ signers
         in if m = [] \<and> only then Inl (NoAuthMethods alias) else Inr m))"

subsection \<open>The configuration of a client\<close>

record client_config =
  cc_user :: string
  cc_auth :: "auth_method list"
  cc_hostkey :: host_key_callback
  cc_timeout :: int
  cc_algos :: "string list"

definition target_alias :: "ssh_config \<Rightarrow> string" where
  "target_alias c = (case parseTarget (cf_machine c) of (_, alias, _) \<Rightarrow> if alias = [] then cf_machine c else alias)"

definition resolved_user :: "ssh_world \<Rightarrow> ssh_config \<Rightarrow> string" where
  "resolved_user w c =
     (let usr = fst (parseTarget (cf_machine c));
          usr = (if usr = [] then sw_get w (effectiveHome w c) (target_alias c) ''User'' else usr);
          usr = (if cf_user c \<noteq> [] then cf_user c else usr)
      in if usr = [] then currentUser w else usr)"

definition resolved_port :: "ssh_world \<Rightarrow> ssh_config \<Rightarrow> int" where
  "resolved_port w c =
     (let port = snd (snd (parseTarget (cf_machine c)));
          set = sw_get w (effectiveHome w c) (target_alias c) ''Port'';
          port = (if port = 0 \<and> set \<noteq> [] then (case atoi set of Some p \<Rightarrow> p | None \<Rightarrow> port) else port);
          port = (if cf_port c \<noteq> 0 then cf_port c else port)
      in if port = 0 then 22 else port)"

definition resolved_host :: "ssh_world \<Rightarrow> ssh_config \<Rightarrow> string" where
  "resolved_host w c =
     (let alias = target_alias c; name = sw_get w (effectiveHome w c) alias ''HostName'' in
      if name \<noteq> [] then expandSSHTokens name alias (itoa (resolved_port w c)) (resolved_user w c) else alias)"

definition second :: int where
  "second = 1000000000"

definition dial_timeout :: "ssh_config \<Rightarrow> int" where
  "dial_timeout c =
     (if cf_timeout c > 0 then (if cf_timeout c > 3600 then 3600 else cf_timeout c) * second else 30 * second)"

text \<open>The configuration, the address to dial, and the one the host is known by.\<close>

definition clientConfig :: "ssh_world \<Rightarrow> ssh_config \<Rightarrow> auth_error + (client_config \<times> string \<times> string)" where
  "clientConfig w c =
     (let home = effectiveHome w c; alias = target_alias c; host = resolved_host w c;
          port = itoa (resolved_port w c);
          tcp = join_host_port host port; ssh = join_host_port alias port;
          addrs = (if host \<noteq> alias then [ssh, tcp] else [ssh]);
          hkcb = (if host \<noteq> alias then multiAddrHostKeyCallback w (cf_known_hosts c) home [ssh, tcp]
                  else hostKeyCallback w (cf_known_hosts c) home)
      in case authMethods w c alias home of
           Inl e \<Rightarrow> Inl e
         | Inr auth \<Rightarrow>
             Inr (\<lparr>cc_user = resolved_user w c, cc_auth = auth, cc_hostkey = hkcb, cc_timeout = dial_timeout c,
                   cc_algos = knownHostsAlgorithms w (cf_known_hosts c) home addrs\<rparr>, tcp, ssh))"

subsection \<open>Keeping a connection alive\<close>

text \<open>A number of seconds as a \<open>time.Duration\<close>, which wraps around at 64 bits.\<close>

definition duration :: "int \<Rightarrow> int" where
  "duration secs = (secs * second + 2 ^ 63) mod 2 ^ 64 - 2 ^ 63"

text \<open>\<open>time.NewTicker\<close> panics unless its interval is positive.\<close>

datatype keepalive = KeepOff | KeepEvery int int | KeepPanic

definition startKeepalive :: "ssh_world \<Rightarrow> string \<Rightarrow> string \<Rightarrow> string \<Rightarrow> keepalive" where
  "startKeepalive w alias home version =
     (case atoi (sw_get w home alias ''ServerAliveInterval'') of
        None \<Rightarrow> KeepOff
      | Some secs \<Rightarrow>
          (if secs \<le> 0 then KeepOff
           else
             (let n = (case atoi (sw_get w home alias ''ServerAliveCountMax'') of
                         Some n \<Rightarrow> if n > 0 then n else 3
                       | None \<Rightarrow> 3)
              in if \<not> str_contains version ''OpenSSH'' then KeepOff
                 else if duration secs \<le> 0 then KeepPanic
                 else KeepEvery (duration secs) n)))"

text \<open>The loop, over the answers to its probes: whether it closes the connection.\<close>

fun keepalive_loop :: "int \<Rightarrow> int \<Rightarrow> bool list \<Rightarrow> bool" where
  "keepalive_loop most fails [] = False"
| "keepalive_loop most fails (ok # oks) =
     (if ok then keepalive_loop most 0 oks
      else if fails + 1 \<ge> most then True
      else keepalive_loop most (fails + 1) oks)"

subsection \<open>Which host keys are accepted\<close>

lemma fold_add_new: "set (fold add_new xs ys) = set xs \<union> set ys \<and> (distinct ys \<longrightarrow> distinct (fold add_new xs ys))"
  by (induction xs arbitrary: ys) (auto simp: add_new_def)

lemma check_accepts:
  "check_addresses cb remote key first addrs = KeyAccepted \<Longrightarrow> \<exists>addr\<in>set addrs. cb addr remote key = KeyAccepted"
  by (induction addrs arbitrary: first) (auto split: host_key_answer.splits if_splits)

lemma check_alias_changed:
  "cb addr remote key = KeyMismatch want \<Longrightarrow> want \<noteq> [] \<Longrightarrow> check_addresses cb remote key True (addr # addrs) \<noteq> KeyAccepted"
  by simp

text \<open>The keys that stand in \<open>known_hosts\<close> for an address: those a probe with another key is told.\<close>

definition changed_at :: "host_key_callback \<Rightarrow> string \<Rightarrow> string \<Rightarrow> ssh_key \<Rightarrow> bool" where
  "changed_at cb addr remote key = (case cb addr remote key of KeyMismatch want \<Rightarrow> want \<noteq> [] | _ \<Rightarrow> False)"


lemma known_unreadable:
  assumes "kh \<noteq> ''insecure''" and "sw_known w (known_hosts_path kh home) = Inl (KnownBroken e)"
  shows "hostKeyCallback w kh home addr remote key \<noteq> KeyAccepted"
  using assms by (simp add: hostKeyCallback_def Let_def)

text \<open>The algorithms asked for are the types of the stored keys, each once.\<close>

lemma algos_at_set:
  "set (algos_at cb probe addr algos) = set algos \<union> (case cb addr '':0'' probe of KeyMismatch want \<Rightarrow> sk_type ` set want | _ \<Rightarrow> {})"
proof -
  have types: "set (fold (\<lambda>k. add_new (sk_type k)) want xs) = set xs \<union> sk_type ` set want" for want xs
    by (induction want arbitrary: xs) (auto simp: add_new_def)
  show ?thesis by (cases "cb addr '':0'' probe") (simp_all add: algos_at_def types)
qed

lemma algos_stored:
  "set (knownHostsAlgorithms w kh home addrs) =
     {sk_type k | k addr want. addr \<in> set addrs \<and> hostKeyCallback w kh home addr '':0'' (sw_probe w) = KeyMismatch want \<and> k \<in> set want}"
proof -
  let ?cb = "hostKeyCallback w kh home"
  let ?at = "\<lambda>addr. case ?cb addr '':0'' (sw_probe w) of KeyMismatch want \<Rightarrow> sk_type ` set want | _ \<Rightarrow> {}"
  have "set (fold (algos_at ?cb (sw_probe w)) addrs xs) = set xs \<union> (\<Union>addr\<in>set addrs. ?at addr)" for xs
    by (induction addrs arbitrary: xs) (auto simp: algos_at_set)
  then have "set (knownHostsAlgorithms w kh home addrs) = (\<Union>addr\<in>set addrs. ?at addr)"
    by (simp add: knownHostsAlgorithms_def)
  moreover have "?at addr = {sk_type k | k want. ?cb addr '':0'' (sw_probe w) = KeyMismatch want \<and> k \<in> set want}" for addr
    by (auto split: host_key_answer.splits)
  ultimately show ?thesis by auto
qed

subsection \<open>Which keys are offered\<close>

text \<open>The keys a server sees when the agent holds \<open>ks\<close>.\<close>

definition offered :: "ssh_key list \<Rightarrow> auth_method list \<Rightarrow> ssh_key set" where
  "offered ks ms =
     (\<Union>m\<in>set ms. case m of AuthKey k \<Rightarrow> {k} | AuthAgent None \<Rightarrow> set ks | AuthAgent (Some pubs) \<Rightarrow> set (filteredAgentSigners pubs ks) | _ \<Rightarrow> {})"

definition file_keys :: "ssh_world \<Rightarrow> string \<Rightarrow> string list \<Rightarrow> ssh_key set" where
  "file_keys w pass paths = {k. \<exists>p\<in>set paths. fst (loadKeyFile w p pass) = Some k}"

lemma loadKeyFile_signer: "snd (loadKeyFile w p pass) = Some k \<Longrightarrow> fst (loadKeyFile w p pass) = Some k"
  by (auto simp: loadKeyFile_def split: option.splits)

lemma map_filter_iff: "x \<in> set (List.map_filter f xs) \<longleftrightarrow> (\<exists>y\<in>set xs. f y = Some x)"
  by (induction xs) (auto simp: List.map_filter_simps split: option.splits)

text \<open>
  C11. With \<open>IdentitiesOnly\<close> a server sees no key beyond those of the identity files, whatever keys the agent holds:
  the files \<open>ssh_config\<close> lists, when it lists any. With an explicit key file it sees that key and nothing else, no password
  either.
\<close>

theorem identities_only_respected:
  assumes "authMethods w c alias home = Inr ms" and "identities_only w alias home \<or> cf_key_path c \<noteq> []"
  shows "if cf_key_path c \<noteq> [] then \<exists>k. ms = [AuthKey k] \<and> k \<in> file_keys w (cf_password c) [cf_key_path c]
    else offered ks ms \<subseteq> file_keys w (cf_password c)
      (let listed = map (expand_home home) (sw_get_all w home alias ''IdentityFile'')
       in if listed \<noteq> [] then listed else key_paths w alias home)"
proof (cases "cf_key_path c = []")
  case False
  then show ?thesis using assms(1)
    by (auto simp: authMethods_def key_path_method_def file_keys_def loadKeyFile_def split: option.splits)
next
  case True
  then have only: "identities_only w alias home" using assms(2) by simp
  have paths: "(let listed = map (expand_home home) (sw_get_all w home alias ''IdentityFile'')
       in if listed \<noteq> [] then listed else key_paths w alias home) = key_paths w alias home"
    using only by (simp add: key_paths_def buildKeyPaths_def Let_def)
  let ?loaded = "map (\<lambda>p. loadKeyFile w p (cf_password c)) (key_paths w alias home)"
  have pub: "k \<in> file_keys w (cf_password c) (key_paths w alias home)" if "k \<in> set (List.map_filter fst ?loaded)" for k
    using that by (auto simp: map_filter_iff file_keys_def)
  have sign: "k \<in> file_keys w (cf_password c) (key_paths w alias home)" if "k \<in> set (List.map_filter snd ?loaded)" for k
    using that loadKeyFile_signer by (fastforce simp: map_filter_iff file_keys_def)
  have "m \<in> set ms \<Longrightarrow> (\<exists>x. m = AuthPassword x \<or> m = AuthKeyboard x) \<or> m = AuthAgent (Some (List.map_filter fst ?loaded))
      \<or> m \<in> AuthKey ` set (List.map_filter snd ?loaded)" for m
    using assms(1) True only by (auto simp: authMethods_def Let_def split: if_splits)
  then have "offered ks ms \<subseteq> file_keys w (cf_password c) (key_paths w alias home)"
    using pub sign by (fastforce simp: offered_def filteredAgentSigners_def list_ex_iff)
  then show ?thesis using True paths by simp
qed

subsection \<open>What the fields resolve to\<close>

text \<open>The first of some values that is set.\<close>

definition first_set :: "string list \<Rightarrow> string" where
  "first_set xs = (case find (\<lambda>x. x \<noteq> []) xs of Some x \<Rightarrow> x | None \<Rightarrow> [])"

definition first_port :: "int list \<Rightarrow> int" where
  "first_port ps = (case find (\<lambda>p. p \<noteq> 0) ps of Some p \<Rightarrow> p | None \<Rightarrow> 22)"

lemma resolved_user_first:
  "resolved_user w c = first_set [cf_user c, fst (parseTarget (cf_machine c)),
     sw_get w (effectiveHome w c) (target_alias c) ''User'', currentUser w]"
  by (simp add: resolved_user_def first_set_def Let_def)

lemma resolved_port_first:
  "resolved_port w c = first_port [cf_port c, snd (snd (parseTarget (cf_machine c))),
     target_port (sw_get w (effectiveHome w c) (target_alias c) ''Port'')]"
  by (auto simp: resolved_port_def first_port_def target_port_def Let_def atoi_def split: option.splits)

lemma dial_timeout_bounds: "second \<le> dial_timeout c \<and> dial_timeout c \<le> 3600 * second"
  by (simp add: dial_timeout_def second_def)

text \<open>
  A connection is made as the user meant: an explicit user or port goes before the one in the target, that before
  \<open>ssh_config\<close>, and that before the current user and port 22; the timeout is between a second and an hour; and whatever
  address the name resolves to, the host is known by the name.
\<close>

theorem client_config_resolution:
  assumes "clientConfig w c = Inr (cc, tcp, ssh)"
  shows "cc_user cc = first_set [cf_user c, fst (parseTarget (cf_machine c)),
      sw_get w (effectiveHome w c) (target_alias c) ''User'', currentUser w]
    \<and> (\<exists>port. port = first_port [cf_port c, snd (snd (parseTarget (cf_machine c))),
          target_port (sw_get w (effectiveHome w c) (target_alias c) ''Port'')]
        \<and> ssh = join_host_port (target_alias c) (itoa port) \<and> tcp = join_host_port (resolved_host w c) (itoa port))
    \<and> second \<le> cc_timeout cc \<and> cc_timeout cc \<le> 3600 * second"
proof -
  have "cc_user cc = resolved_user w c" and "cc_timeout cc = dial_timeout c"
    and "ssh = join_host_port (target_alias c) (itoa (resolved_port w c))"
    and "tcp = join_host_port (resolved_host w c) (itoa (resolved_port w c))"
    using assms by (auto simp: clientConfig_def Let_def split: sum.splits)
  then show ?thesis using resolved_user_first resolved_port_first dial_timeout_bounds by simp
qed

subsection \<open>When a silent connection is closed\<close>

lemma failures_after_success:
  assumes "n < m"
  shows "(\<exists>a b. replicate n False @ True # xs = a @ replicate m False @ b) \<longleftrightarrow> (\<exists>a b. xs = a @ replicate m False @ b)"
proof
  assume "\<exists>a b. replicate n False @ True # xs = a @ replicate m False @ b"
  then obtain a b where eq: "replicate n False @ True # xs = a @ replicate m False @ b" by blast
  have "n < length a"
  proof (rule ccontr)
    assume "\<not> n < length a"
    moreover have "n - length a < m" using assms by linarith
    ultimately have "(a @ replicate m False @ b) ! n = False" by (simp add: nth_append)
    moreover have "(replicate n False @ True # xs) ! n = True" by (simp add: nth_append)
    ultimately show False using eq by simp
  qed
  then have "xs = drop (Suc n) a @ replicate m False @ b"
    using arg_cong [OF eq, of "drop (Suc n)"] by simp
  then show "\<exists>a b. xs = a @ replicate m False @ b" by blast
next
  assume "\<exists>a b. xs = a @ replicate m False @ b"
  then obtain a b where "xs = a @ replicate m False @ b" by blast
  then have "replicate n False @ True # xs = (replicate n False @ True # a) @ replicate m False @ b" by simp
  then show "\<exists>a b. replicate n False @ True # xs = a @ replicate m False @ b" by blast
qed

lemma keepalive_loop_iff:
  "0 \<le> fails \<Longrightarrow> fails < most \<Longrightarrow> keepalive_loop most fails oks \<longleftrightarrow>
     (\<exists>a b. replicate (nat fails) False @ oks = a @ replicate (nat most) False @ b)"
proof (induction oks arbitrary: fails)
  case Nil
  have "replicate (nat fails) False \<noteq> a @ replicate (nat most) False @ b" for a b
  proof
    assume eq: "replicate (nat fails) False = a @ replicate (nat most) False @ b"
    have "nat fails = length a + (nat most + length b)" using arg_cong [OF eq, of length] by simp
    with Nil show False by linarith
  qed
  then show ?case by simp
next
  case (Cons ok oks)
  have more: "replicate (nat fails) False @ False # oks = replicate (nat (fails + 1)) False @ oks"
    using Cons.prems by (simp add: nat_add_distrib replicate_app_Cons_same)
  show ?case
  proof (cases ok)
    case True
    then show ?thesis using Cons.IH [of 0] Cons.prems failures_after_success [of "nat fails" "nat most" oks] by simp
  next
    case False
    show ?thesis
    proof (cases "fails + 1 \<ge> most")
      case True
      then have "replicate (nat fails) False @ False # oks = [] @ replicate (nat most) False @ oks"
        using more Cons.prems by simp
      then have "\<exists>a b. replicate (nat fails) False @ False # oks = a @ replicate (nat most) False @ b" by blast
      then show ?thesis using False True by simp
    next
      case less: False
      have "0 \<le> fails + 1" and "fails + 1 < most" using less Cons.prems by simp_all
      then have step: "keepalive_loop most fails (ok # oks) \<longleftrightarrow>
          (\<exists>a b. replicate (nat (fails + 1)) False @ oks = a @ replicate (nat most) False @ b)"
        using Cons.IH [of "fails + 1"] False less by simp
      have same: "replicate (nat fails) False @ ok # oks = replicate (nat (fails + 1)) False @ oks"
        using more False by (metis (full_types))
      show ?thesis unfolding step same by (rule refl)
    qed
  qed
qed

text \<open>
  A silent connection is closed when, and only when, as many probes failed one after the other as
  \<open>ServerAliveCountMax\<close> says; a single answer starts the count anew.
\<close>

theorem keepalive_closes_iff:
  assumes "startKeepalive w alias home version = KeepEvery interval most"
  shows "keepalive_loop most 0 oks \<longleftrightarrow> (\<exists>a b. oks = a @ replicate (nat most) False @ b)"
proof -
  have "0 < most" using assms by (auto simp: startKeepalive_def Let_def split: option.splits if_splits)
  then show ?thesis using keepalive_loop_iff [of 0 most oks] by simp
qed

text \<open>An interval of 292 years and more wraps around and ends the process.\<close>

theorem keepalive_interval_overflows:
  assumes "sw_get w home alias ''ServerAliveInterval'' = ''9223372037''" and "str_contains version ''OpenSSH''"
  shows "startKeepalive w alias home version = KeepPanic"
  using assms by (simp add: startKeepalive_def atoi_def digits_val_def digit_val_def digit_byte_def duration_def second_def)

subsection \<open>Witnesses\<close>

definition demo_key :: ssh_key where
  "demo_key = \<lparr>sk_type = ''ssh-ed25519'', sk_blob = ''k''\<rparr>"

definition demo_stored :: host_key_callback where
  "demo_stored = (\<lambda>addr _ key. if addr = ''h:22'' then (if key = demo_key then KeyAccepted else KeyMismatch [demo_key]) else KeyMismatch [])"

definition demo_world :: ssh_world where
  "demo_world = \<lparr>sw_env = (\<lambda>_. ''/s''), sw_user = None,
     sw_get = (\<lambda>_ _ key. if key = ''IdentitiesOnly'' then ''Yes'' else if key = ''ServerAliveInterval'' then ''5'' else []),
     sw_get_all = (\<lambda>_ _ key. if key = ''IdentityFile'' then [''/k''] else []),
     sw_read = (\<lambda>p. if p = ''/k'' then Some ''PRIVATE'' else None), sw_private = (\<lambda>_. Some demo_key),
     sw_private_pass = (\<lambda>_ _. None), sw_public = (\<lambda>_. None), sw_known = (\<lambda>_. Inr demo_stored), sw_known_again = (\<lambda>_. Inr demo_stored),
     sw_probe = \<lparr>sk_type = ''p'', sk_blob = ''p''\<rparr>, sw_agent = (\<lambda>_. True), sw_lower = (\<lambda>s. s), sw_fold = (\<lambda>_ _. False)\<rparr>"

definition demo_ssh :: ssh_config where
  "demo_ssh = \<lparr>cf_machine = ''root@h'', cf_user = [], cf_port = 0, cf_key_path = [], cf_password = ''pw'', cf_timeout = 0,
     cf_known_hosts = [], cf_proxy_jump = [], cf_home = ''/home''\<rparr>"

lemma demo_target: "parseTarget ''root@h'' = (''root'', ''h'', 0)"
  by (simp add: parseTarget_def parse_host_def has_prefix_def)

lemma demo_atoi_none [simp]: "atoi [] = None"
  by (simp add: atoi_def)

lemma demo_itoa: "itoa 22 = ''22''"
  by (simp add: itoa_def dec_nat.simps char_of_def bit_iff_odd)

lemma demo_fold: "equal_fold demo_world ''Yes'' ''yes''"
  by (simp add: equal_fold_def is_ascii_def lower_byte_def char_of_def bit_iff_odd)

lemma demo_identities: "identities_only demo_world alias home"
  using demo_fold by (simp add: identities_only_def demo_world_def)

lemma demo_methods: "\<exists>ms. authMethods demo_world demo_ssh ''h'' ''/home'' = Inr ms"
  by (simp add: authMethods_def demo_ssh_def Let_def)

lemma demo_no_name: "sw_get demo_world home alias ''HostName'' = []"
  by (simp add: demo_world_def)

lemma demo_client: "\<exists>cc. clientConfig demo_world demo_ssh = Inr (cc, ''h:22'', ''h:22'') \<and> cc_user cc = ''root''
    \<and> cc_hostkey cc = demo_stored"
proof -
  have r: "target_alias demo_ssh = ''h''" "resolved_user demo_world demo_ssh = ''root''" "resolved_port demo_world demo_ssh = 22"
      "effectiveHome demo_world demo_ssh = ''/home''"
    by (simp_all add: target_alias_def resolved_user_def resolved_port_def effectiveHome_def demo_ssh_def demo_world_def demo_target)
  then have "resolved_host demo_world demo_ssh = ''h''" by (simp add: resolved_host_def demo_no_name)
  moreover have "hostKeyCallback demo_world (cf_known_hosts demo_ssh) ''/home'' = demo_stored"
    by (simp add: hostKeyCallback_def demo_world_def demo_ssh_def)
  ultimately show ?thesis using r demo_methods by (auto simp: clientConfig_def demo_itoa join_host_port_def Let_def)
qed


theorem identities_only_respected_witness:
  "\<exists>ms. authMethods demo_world demo_ssh ''h'' ''/home'' = Inr ms \<and> offered [\<lparr>sk_type = ''x'', sk_blob = ''y''\<rparr>, demo_key] ms \<subseteq> {demo_key}"
proof -
  obtain ms where ms: "authMethods demo_world demo_ssh ''h'' ''/home'' = Inr ms" using demo_methods by blast
  have "map (expand_home ''/home'') (sw_get_all demo_world ''/home'' ''h'' ''IdentityFile'') = [''/k'']"
    by (simp add: demo_world_def expand_home_def cut_prefix_def has_prefix_def)
  then show ?thesis
    using identities_only_respected [OF ms disjI1 [OF demo_identities], of "[\<lparr>sk_type = ''x'', sk_blob = ''y''\<rparr>, demo_key]"] ms
    by (auto simp: demo_ssh_def file_keys_def loadKeyFile_def demo_world_def)
qed

theorem client_config_resolution_witness: "\<exists>cc tcp ssh. clientConfig demo_world demo_ssh = Inr (cc, tcp, ssh) \<and> cc_timeout cc \<le> 3600 * second"
proof -
  obtain cc where "clientConfig demo_world demo_ssh = Inr (cc, ''h:22'', ''h:22'')" using demo_client by blast
  with client_config_resolution [OF this] show ?thesis by blast
qed

theorem keepalive_closes_iff_witness: "keepalive_loop 3 0 [True, False, False, False]"
proof -
  have "startKeepalive demo_world ''h'' ''/home'' ''SSH-2.0-OpenSSH_9'' = KeepEvery 5000000000 3"
    by (simp add: startKeepalive_def demo_world_def atoi_def digits_val_def digit_val_def digit_byte_def duration_def second_def has_prefix_def)
  from keepalive_closes_iff [OF this, of "[True, False, False, False]"] show ?thesis
    by (auto simp: numeral_3_eq_3 intro: exI [of _ "[True]"])
qed

end
