(* ===== verification/Ses_Dial.thy ===== *)
theory Ses_Dial
  imports Ses_Client
begin

text \<open>
  Making a connection, \<open>dial\<close> and \<open>tunnelThrough\<close> of \<open>internal/session/config.go\<close>. The two call each other for as long
  as jump hosts have jump hosts of their own, which nothing bounds, so they are one partial function over the two
  calls, and \<open>None\<close> is a call that does not return.

  A link is a transport to a host, over the network, a command or a jump host, with an SSH client on top of it. Which
  links can be made and which handshakes succeed is the outside.
\<close>

subsection \<open>Links\<close>

datatype link = TcpLink string | CommandLink string | JumpLink link string

text \<open>Closing a client over a jump host closes the jump host's client too (\<open>jumpedConn\<close>).\<close>

fun links_of :: "link \<Rightarrow> link list" where
  "links_of (JumpLink l addr) = JumpLink l addr # links_of l"
| "links_of l = [l]"

text \<open>The addresses a link goes by, the last one its target.\<close>

fun link_path :: "link \<Rightarrow> string list" where
  "link_path (JumpLink l addr) = link_path l @ [addr]"
| "link_path (TcpLink addr) = [addr]"
| "link_path (CommandLink cmd) = [cmd]"

datatype dial_fx = OpenLink link | CloseLink link | CloseClient link | KeepAlive link keepalive

datatype dial_error =
    DialAuth auth_error
  | DialConnect link
  | DialHandshake link
  | DialJump string dial_error
  | DialJumpConfig string auth_error

record ssh_net =
  sn_connect :: "link \<Rightarrow> bool"
  sn_shake :: "link \<Rightarrow> string \<Rightarrow> client_config \<Rightarrow> bool"
  sn_version :: "link \<Rightarrow> string"

type_synonym dial_result = "(dial_error + link) \<times> dial_fx list"

subsection \<open>One connection\<close>

text \<open>\<open>ssh.NewClientConn\<close> over a new link, closed when the handshake fails.\<close>

definition open_client :: "ssh_net \<Rightarrow> link \<Rightarrow> string \<Rightarrow> client_config \<Rightarrow> dial_result" where
  "open_client n l ssh cc =
     (if \<not> sn_connect n l then (Inl (DialConnect l), [])
      else if \<not> sn_shake n l ssh cc then (Inl (DialHandshake l), [OpenLink l, CloseLink l])
      else (Inr l, [OpenLink l]))"

text \<open>\<open>dialProxyCommand\<close>: the command with its tokens filled in.\<close>

definition proxy_command :: "string \<Rightarrow> string \<Rightarrow> string \<Rightarrow> string" where
  "proxy_command command addr usr =
     (case split_host_port addr of
        Some (host, port) \<Rightarrow> expandSSHTokens command host port usr
      | None \<Rightarrow> expandSSHTokens command addr ''22'' usr)"

definition keep_alive :: "ssh_world \<Rightarrow> ssh_net \<Rightarrow> string \<Rightarrow> string \<Rightarrow> dial_result \<Rightarrow> dial_result" where
  "keep_alive w n alias home res =
     (case res of
        (Inl e, fx) \<Rightarrow> (Inl e, fx)
      | (Inr l, fx) \<Rightarrow> (Inr l, fx @ [KeepAlive l (startKeepalive w alias home (sn_version n l))]))"

definition dial_direct :: "ssh_world \<Rightarrow> ssh_net \<Rightarrow> string \<Rightarrow> string \<Rightarrow> string \<Rightarrow> string \<Rightarrow> client_config \<Rightarrow> dial_result" where
  "dial_direct w n home alias tcp ssh cc =
     (let cmd = sw_get w home alias ''ProxyCommand'' in
      keep_alive w n alias home
        (open_client n (if cmd \<noteq> [] \<and> cmd \<noteq> ''none'' then CommandLink (proxy_command cmd tcp (cc_user cc)) else TcpLink tcp) ssh cc))"

text \<open>The jump host next to the target, and the chain that leads to it.\<close>

definition split_chain :: "string \<Rightarrow> string \<times> string" where
  "split_chain chain =
     (case cut_last (CHR '','') chain of
        None \<Rightarrow> (chain, [])
      | Some (inner, lst) \<Rightarrow> (trim_space lst, trim_space inner))"

definition jump_config :: "string \<Rightarrow> string \<Rightarrow> string \<Rightarrow> ssh_config" where
  "jump_config machine kh home =
     \<lparr>cf_machine = machine, cf_user = [], cf_port = 0, cf_key_path = [], cf_password = [], cf_timeout = 0,
      cf_known_hosts = kh, cf_proxy_jump = [], cf_home = home\<rparr>"

text \<open>From the client of the jump host on to the target.\<close>

definition over_jump :: "ssh_net \<Rightarrow> string \<Rightarrow> string \<Rightarrow> string \<Rightarrow> client_config \<Rightarrow> dial_result \<Rightarrow> dial_result" where
  "over_jump n jump tcp ssh cc res =
     (case res of
        (Inl e, fx) \<Rightarrow> (Inl (DialJump jump e), fx)
      | (Inr jl, fx) \<Rightarrow>
          (let l = JumpLink jl tcp in
           if \<not> sn_connect n l then (Inl (DialConnect l), fx @ [CloseClient jl])
           else if \<not> sn_shake n l ssh cc then (Inl (DialHandshake l), fx @ [OpenLink l, CloseLink l, CloseClient jl])
           else (Inr l, fx @ [OpenLink l])))"

definition config_jump :: "ssh_world \<Rightarrow> string \<Rightarrow> string \<Rightarrow> string" where
  "config_jump w home alias = trim_space (sw_get w home alias ''ProxyJump'')"

definition jump_of :: "ssh_world \<Rightarrow> ssh_config \<Rightarrow> string" where
  "jump_of w c = (if cf_proxy_jump c \<noteq> [] then cf_proxy_jump c else config_jump w (effectiveHome w c) (target_alias c))"

definition jumps :: "string \<Rightarrow> bool" where
  "jumps jump \<longleftrightarrow> jump \<noteq> [] \<and> jump \<noteq> ''none''"

subsection \<open>Dialing\<close>

text \<open>
  \<open>DialMachine\<close> is \<open>Config.dial\<close>; \<open>DialThrough\<close> is \<open>tunnelThrough\<close> with the home directory, the target's addresses
  and configuration, the chain and the known hosts.
\<close>

datatype dial_call = DialMachine ssh_config | DialThrough string string string client_config string string

partial_function (option) dial_run :: "ssh_world \<Rightarrow> ssh_net \<Rightarrow> dial_call \<Rightarrow> dial_result option" where
  "dial_run w n call =
     (case call of
        DialMachine c \<Rightarrow>
          (case clientConfig w c of
             Inl e \<Rightarrow> Some (Inl (DialAuth e), [])
           | Inr (cc, tcp, ssh) \<Rightarrow>
               (if jumps (jump_of w c) then
                  Option.bind (dial_run w n (DialThrough (effectiveHome w c) tcp ssh cc (jump_of w c) (cf_known_hosts c)))
                    (\<lambda>res. Some (keep_alive w n (target_alias c) (effectiveHome w c) res))
                else Some (dial_direct w n (effectiveHome w c) (target_alias c) tcp ssh cc)))
      | DialThrough home tcp ssh cc chain kh \<Rightarrow>
          (case split_chain chain of
             (jump, inner) \<Rightarrow>
               (if inner = [] then
                  Option.bind (dial_run w n (DialMachine (jump_config jump kh home)))
                    (\<lambda>res. Some (over_jump n jump tcp ssh cc res))
                else
                  (case clientConfig w (jump_config jump kh home) of
                     Inl e \<Rightarrow> Some (Inl (DialJumpConfig jump e), [])
                   | Inr (jcc, jtcp, jssh) \<Rightarrow>
                       Option.bind (dial_run w n (DialThrough home jtcp jssh jcc inner kh))
                         (\<lambda>res. Some (over_jump n jump tcp ssh cc (keep_alive w n jump home res)))))))"

subsection \<open>What is left open\<close>

fun apply_fx :: "dial_fx \<Rightarrow> link set \<Rightarrow> link set" where
  "apply_fx (OpenLink l) ls = insert l ls"
| "apply_fx (CloseLink l) ls = ls - {l}"
| "apply_fx (CloseClient l) ls = ls - set (links_of l)"
| "apply_fx (KeepAlive l k) ls = ls"

definition tidy :: "dial_result \<Rightarrow> bool" where
  "tidy res \<longleftrightarrow> fold apply_fx (snd res) {} = (case fst res of Inl _ \<Rightarrow> {} | Inr l \<Rightarrow> set (links_of l))"

lemma tidy_direct: "(\<And>x y. l \<noteq> JumpLink x y) \<Longrightarrow> tidy (open_client n l ssh cc)"
  by (cases l) (auto simp: tidy_def open_client_def)

lemma tidy_keep: "tidy res \<Longrightarrow> tidy (keep_alive w n alias home res)"
  by (cases res; cases "fst res") (simp_all add: tidy_def keep_alive_def)

lemma tidy_jump: "tidy res \<Longrightarrow> tidy (over_jump n jump tcp ssh cc res)"
  by (cases res; cases "fst res") (auto simp: tidy_def over_jump_def Let_def)

lemma dial_tidy: "dial_run w n call = Some res \<Longrightarrow> tidy res"
proof (rule dial_run.raw_induct [where P = "\<lambda>w n call res. tidy res"])
  fix dial w n call res
  assume IH: "\<And>w n call res. dial w n call = Some res \<Longrightarrow> tidy res"
    and eq: "(case call of
        DialMachine c \<Rightarrow>
          (case clientConfig w c of
             Inl e \<Rightarrow> Some (Inl (DialAuth e), [])
           | Inr (cc, tcp, ssh) \<Rightarrow>
               (if jumps (jump_of w c) then
                  Option.bind (dial w n (DialThrough (effectiveHome w c) tcp ssh cc (jump_of w c) (cf_known_hosts c)))
                    (\<lambda>res. Some (keep_alive w n (target_alias c) (effectiveHome w c) res))
                else Some (dial_direct w n (effectiveHome w c) (target_alias c) tcp ssh cc)))
      | DialThrough home tcp ssh cc chain kh \<Rightarrow>
          (case split_chain chain of
             (jump, inner) \<Rightarrow>
               (if inner = [] then
                  Option.bind (dial w n (DialMachine (jump_config jump kh home)))
                    (\<lambda>res. Some (over_jump n jump tcp ssh cc res))
                else
                  (case clientConfig w (jump_config jump kh home) of
                     Inl e \<Rightarrow> Some (Inl (DialJumpConfig jump e), [])
                   | Inr (jcc, jtcp, jssh) \<Rightarrow>
                       Option.bind (dial w n (DialThrough home jtcp jssh jcc inner kh))
                         (\<lambda>res. Some (over_jump n jump tcp ssh cc (keep_alive w n jump home res))))))) = Some res"
  show "tidy res"
    using eq
    by (auto simp: bind_eq_Some_conv tidy_def [of "(Inl _, _)"] dial_direct_def Let_def
      split: dial_call.splits sum.splits prod.splits if_splits
      intro!: tidy_keep tidy_jump tidy_direct dest: IH)
qed

text \<open>
  C13. A connection that cannot be made leaves no link open, whatever fails on the way: not the jump hosts already
  reached, and no half-made client. One that is made holds exactly the links it goes over, so closing it closes them.
\<close>

theorem dial_leaks_nothing:
  assumes "dial_run w n (DialMachine c) = Some (r, fx)"
  shows "case r of
      Inl _ \<Rightarrow> fold apply_fx fx {} = {}
    | Inr l \<Rightarrow> fold apply_fx fx {} = set (links_of l) \<and> apply_fx (CloseClient l) (fold apply_fx fx {}) = {}"
  using dial_tidy [OF assms] by (simp add: tidy_def split: sum.splits)

subsection \<open>When dialing returns\<close>

lemma trim_space_shorter: "length (trim_space s) \<le> length s"
proof -
  have "length (strip_left encs r) \<le> length r" for encs r
    by (induction encs r rule: strip_left.induct) (subst strip_left.simps, auto split: option.splits)
  then show ?thesis unfolding trim_space_def by (metis le_trans length_rev)
qed

lemma split_chain_shorter:
  assumes "split_chain chain = (jump, inner)" and "inner \<noteq> []"
  shows "length inner < length chain"
proof -
  obtain a b where c: "cut_last (CHR '','') chain = Some (a, b)" and "inner = trim_space a"
    using assms by (auto simp: split_chain_def split: option.splits)
  then have "chain = a @ CHR '','' # b" and "length inner \<le> length a" using cut_last_SomeD trim_space_shorter by blast+
  then show ?thesis by simp
qed

text \<open>The jump host dialed first.\<close>

function first_hop :: "string \<Rightarrow> string" where
  "first_hop chain = (case split_chain chain of (jump, inner) \<Rightarrow> if inner = [] then jump else first_hop inner)"
  by pat_completeness auto
termination
  by (relation "measure length") (auto dest: split_chain_shorter [OF sym])

declare first_hop.simps [simp del]

lemma through_returns:
  assumes "\<exists>res. dial_run w n (DialMachine (jump_config (first_hop chain) kh home)) = Some res"
  shows "\<exists>res. dial_run w n (DialThrough home tcp ssh cc chain kh) = Some res"
  using assms
proof (induction chain arbitrary: tcp ssh cc rule: first_hop.induct)
  case (1 chain)
  obtain jump inner where sp: "split_chain chain = (jump, inner)" by (cases "split_chain chain")
  show ?case
  proof (cases "inner = []")
    case True
    then have "first_hop chain = jump" using sp by (simp add: first_hop.simps [of chain])
    then show ?thesis using 1(2) sp True by (subst dial_run.simps) auto
  next
    case False
    then have "first_hop chain = first_hop inner" using sp by (simp add: first_hop.simps [of chain])
    then have "\<exists>res. dial_run w n (DialThrough home tcp ssh cc inner kh) = Some res" for tcp ssh cc
      using 1(1) [OF sp [symmetric] False] 1(2) by simp
    note inner_returns = this
    show ?thesis
    proof (cases "clientConfig w (jump_config jump kh home)")
      case (Inl e)
      then show ?thesis using sp False by (subst dial_run.simps) simp
    next
      case (Inr q)
      obtain jcc jtcp jssh where q: "q = (jcc, jtcp, jssh)" by (cases q)
      obtain res where "dial_run w n (DialThrough home jtcp jssh jcc inner kh) = Some res" using inner_returns by blast
      then show ?thesis using sp False Inr q by (subst dial_run.simps) simp
    qed
  qed
qed

definition machine_alias :: "string \<Rightarrow> string" where
  "machine_alias m = target_alias (jump_config m [] [])"

lemma jump_config_simps [simp]:
  "target_alias (jump_config m kh home) = machine_alias m" "cf_proxy_jump (jump_config m kh home) = []"
  "cf_known_hosts (jump_config m kh home) = kh"
  by (simp_all add: machine_alias_def target_alias_def jump_config_def split: prod.splits)

lemma jump_config_home: "home \<noteq> [] \<Longrightarrow> effectiveHome w (jump_config m kh home) = home"
  by (simp add: jump_config_def effectiveHome_def)


text \<open>
  A \<open>ProxyJump\<close> for every host, the jump host included, never returns: \<open>tunnelThrough\<close> dials the jump host through the
  jump host.
\<close>

definition same_jump :: "ssh_world \<Rightarrow> string \<Rightarrow> string \<Rightarrow> dial_call \<Rightarrow> bool" where
  "same_jump w home m call =
     (case call of
        DialMachine c \<Rightarrow> effectiveHome w c = home \<and> jump_of w c = m \<and> (\<exists>r. clientConfig w c = Inr r)
      | DialThrough h _ _ _ chain _ \<Rightarrow> h = home \<and> chain = m)"

lemma jump_for_all_diverges:
  assumes home: "home \<noteq> []" and m: "jumps m" "CHR '','' \<notin> set m" and all: "\<And>alias. config_jump w home alias = m"
    and auth: "\<And>kh. \<exists>r. clientConfig w (jump_config m kh home) = Inr r"
    and call: "same_jump w home m call"
  shows "dial_run w n call = None"
proof (rule ccontr)
  assume "dial_run w n call \<noteq> None"
  then obtain res where res: "dial_run w n call = Some res" by blast
  have "\<not> (w = w' \<and> same_jump w' home m call')" if "dial_run w' n' call' = Some res'" for w' n' call' res'
  proof (rule dial_run.raw_induct [where P = "\<lambda>w' n call res. \<not> (w = w' \<and> same_jump w' home m call)", OF _ that])
    fix dial w' n call res
    assume IH: "\<And>w' n call res. dial w' n call = Some res \<Longrightarrow> \<not> (w = w' \<and> same_jump w' home m call)"
      and eq: "(case call of
          DialMachine c \<Rightarrow>
            (case clientConfig w' c of
               Inl e \<Rightarrow> Some (Inl (DialAuth e), [])
             | Inr (cc, tcp, ssh) \<Rightarrow>
                 (if jumps (jump_of w' c) then
                    Option.bind (dial w' n (DialThrough (effectiveHome w' c) tcp ssh cc (jump_of w' c) (cf_known_hosts c)))
                      (\<lambda>res. Some (keep_alive w' n (target_alias c) (effectiveHome w' c) res))
                  else Some (dial_direct w' n (effectiveHome w' c) (target_alias c) tcp ssh cc)))
        | DialThrough home tcp ssh cc chain kh \<Rightarrow>
            (case split_chain chain of
               (jump, inner) \<Rightarrow>
                 (if inner = [] then
                    Option.bind (dial w' n (DialMachine (jump_config jump kh home)))
                      (\<lambda>res. Some (over_jump n jump tcp ssh cc res))
                  else
                    (case clientConfig w' (jump_config jump kh home) of
                       Inl e \<Rightarrow> Some (Inl (DialJumpConfig jump e), [])
                     | Inr (jcc, jtcp, jssh) \<Rightarrow>
                         Option.bind (dial w' n (DialThrough home jtcp jssh jcc inner kh))
                           (\<lambda>res. Some (over_jump n jump tcp ssh cc (keep_alive w' n jump home res))))))) = Some res"
    have split: "split_chain m = (m, [])" using m(2) by (simp add: split_chain_def)
    have no: "dial w n call = None" if "same_jump w home m call" for call
      using IH [of w n call] that by (cases "dial w n call") auto
    show "\<not> (w = w' \<and> same_jump w' home m call)"
    proof
      assume *: "w = w' \<and> same_jump w' home m call"
      show False
      proof (cases call)
        case (DialMachine c)
        then obtain cc tcp ssh where "clientConfig w c = Inr (cc, tcp, ssh)" "effectiveHome w c = home" "jump_of w c = m"
          using * by (auto simp: same_jump_def)
        then show False using eq * DialMachine m(1) no [of "DialThrough home tcp ssh cc m (cf_known_hosts c)"]
          by (simp add: same_jump_def)
      next
        case (DialThrough h tcp ssh cc chain kh)
        have "same_jump w home m (DialMachine (jump_config m kh home))"
          using jump_config_home [OF home] all auth [of kh] by (simp add: same_jump_def jump_of_def)
        then show False using eq * DialThrough split no by (simp add: same_jump_def)
      qed
    qed
  qed
  then show False using res call by blast
qed

theorem jump_for_all_never_returns:
  assumes "effectiveHome w c = home" and "home \<noteq> []" and "jumps m" and "CHR '','' \<notin> set m"
    and "\<And>alias. config_jump w home alias = m" and "cf_proxy_jump c = []"
    and "\<And>kh. \<exists>r. clientConfig w (jump_config m kh home) = Inr r" and "clientConfig w c = Inr r"
  shows "dial_run w n (DialMachine c) = None"
  using assms by (cases r) (intro jump_for_all_diverges [of home m], auto simp: same_jump_def jump_of_def)

subsection \<open>The way taken\<close>

text \<open>A jump host as it stands in a chain.\<close>

definition plain_hop :: "string \<Rightarrow> bool" where
  "plain_hop h \<longleftrightarrow> h \<noteq> [] \<and> list_all (\<lambda>c. ink_byte c \<and> c \<noteq> CHR '','') h"

definition hop_address :: "ssh_world \<Rightarrow> string \<Rightarrow> string \<Rightarrow> string \<Rightarrow> string" where
  "hop_address w kh home m = (case clientConfig w (jump_config m kh home) of Inr (_, tcp, _) \<Rightarrow> tcp | Inl _ \<Rightarrow> [])"

lemma plain_hop_ink: "plain_hop h \<Longrightarrow> h \<noteq> [] \<and> ink_byte (hd h) \<and> ink_byte (last h) \<and> CHR '','' \<notin> set h"
  by (auto simp: plain_hop_def list_all_iff)

lemma plain_hop_trim: "plain_hop h \<Longrightarrow> trim_space h = h"
  using plain_hop_ink trim_space_ink by blast

lemma join_snoc: "xs \<noteq> [] \<Longrightarrow> str_join sep (xs @ [x]) = str_join sep xs @ sep @ x"
proof (induction xs rule: induct_list012)
  case (3 a b xs)
  then show ?case by (cases xs) auto
qed auto

lemma join_ends:
  assumes "xs \<noteq> []" and "\<forall>x\<in>set xs. plain_hop x"
  shows "str_join '','' xs \<noteq> [] \<and> hd (str_join '','' xs) = hd (hd xs) \<and> last (str_join '','' xs) = last (last xs)"
  using assms
proof (induction xs rule: rev_induct)
  case (snoc x xs)
  show ?case
  proof (cases "xs = []")
    case False
    then show ?thesis using snoc join_snoc [OF False, of "'',''" x] by (auto simp: plain_hop_def)
  qed (use snoc in \<open>simp add: plain_hop_def\<close>)
qed simp

lemma join_trim:
  assumes "xs \<noteq> []" and "\<forall>x\<in>set xs. plain_hop x"
  shows "trim_space (str_join '','' xs) = str_join '','' xs"
proof -
  have "plain_hop (hd xs)" and "plain_hop (last xs)" using assms by simp_all
  then have "ink_byte (hd (hd xs))" and "ink_byte (last (last xs))" using plain_hop_ink by blast+
  then show ?thesis using join_ends [OF assms] trim_space_ink by metis
qed

lemma split_joined:
  assumes "xs \<noteq> []" and "\<forall>x\<in>set xs. plain_hop x" and "plain_hop h"
  shows "split_chain (str_join '','' (xs @ [h])) = (h, str_join '','' xs)"
proof -
  have "CHR '','' \<notin> set h" using plain_hop_ink [OF assms(3)] by blast
  then show ?thesis
    using join_snoc [OF assms(1), of "'',''" h] join_trim [OF assms(1,2)] plain_hop_trim [OF assms(3)]
    by (simp add: split_chain_def)
qed

lemma over_jump_path:
  "over_jump n jump tcp ssh cc res = (Inr l, fx) \<Longrightarrow> \<exists>jl. fst res = Inr jl \<and> link_path l = link_path jl @ [tcp]"
  by (cases res; cases "fst res") (auto simp: over_jump_def Let_def split: if_splits)

lemma keep_alive_link: "fst (keep_alive w n alias home res) = fst res"
  by (cases res; cases "fst res") (simp_all add: keep_alive_def)

lemma through_path:
  assumes "hops \<noteq> []" and "\<forall>h\<in>set hops. plain_hop h"
    and "dial_run w n (DialThrough home tcp ssh cc (str_join '','' hops) kh) = Some (Inr l, fx)"
  shows "\<exists>near nfx. dial_run w n (DialMachine (jump_config (hd hops) kh home)) = Some (Inr near, nfx) \<and>
    link_path l = link_path near @ map (hop_address w kh home) (tl hops) @ [tcp]"
  using assms
proof (induction hops arbitrary: tcp ssh cc l fx rule: rev_induct)
  case (snoc h hops)
  have h: "plain_hop h" using snoc.prems by simp
  show ?case
  proof (cases "hops = []")
    case True
    have "split_chain h = (h, [])" using plain_hop_ink [OF h] by (simp add: split_chain_def)
    then obtain res where "dial_run w n (DialMachine (jump_config h kh home)) = Some res"
        and "over_jump n h tcp ssh cc res = (Inr l, fx)"
      using snoc.prems(3) True by (subst (asm) dial_run.simps) (auto simp: bind_eq_Some_conv)
    then show ?thesis using over_jump_path [of n h tcp ssh cc res l fx] True by (cases res) auto
  next
    case False
    have plain: "\<forall>h\<in>set hops. plain_hop h" using snoc.prems(2) by simp
    have sp: "split_chain (str_join '','' (hops @ [h])) = (h, str_join '','' hops)" and ne: "str_join '','' hops \<noteq> []"
      using split_joined [OF False plain h] join_ends [OF False plain] by simp_all
    obtain jcc jtcp jssh where cc: "clientConfig w (jump_config h kh home) = Inr (jcc, jtcp, jssh)"
      using snoc.prems(3) sp ne by (subst (asm) dial_run.simps) (auto split: sum.splits)
    obtain res where res: "dial_run w n (DialThrough home jtcp jssh jcc (str_join '','' hops) kh) = Some res"
        and over: "over_jump n h tcp ssh cc (keep_alive w n h home res) = (Inr l, fx)"
      using snoc.prems(3) sp ne cc by (subst (asm) dial_run.simps) (auto simp: bind_eq_Some_conv)
    obtain jl where jl: "fst res = Inr jl" "link_path l = link_path jl @ [tcp]"
      using over_jump_path [OF over] keep_alive_link [of w n h home res] by auto
    have "dial_run w n (DialThrough home jtcp jssh jcc (str_join '','' hops) kh) = Some (Inr jl, snd res)"
      using res jl(1) by (cases res) simp
    from snoc.IH [OF False plain this] show ?thesis using jl(2) cc False by (auto simp: hop_address_def)
  qed
qed simp

text \<open>
  C28. A connection through a chain of jump hosts goes through them from left to right: through the first as dialing that
  machine by itself would, from there to the address of each of the others in turn, and last to the target.
\<close>

theorem tunnel_visits_in_order:
  assumes "hops \<noteq> []" and "\<forall>h\<in>set hops. plain_hop h"
    and "dial_run w n (DialThrough home tcp ssh cc (str_join '','' hops) kh) = Some (Inr l, fx)"
  shows "\<exists>near nfx. dial_run w n (DialMachine (jump_config (hd hops) kh home)) = Some (Inr near, nfx) \<and>
    link_path l = link_path near @ map (hop_address w kh home) (tl hops) @ [tcp]"
  using assms by (rule through_path)

subsection \<open>Witnesses\<close>

text \<open>The machine \<open>h\<close> is reached through \<open>b\<close>; everything answers, or no handshake succeeds.\<close>

definition demo_jump_world :: ssh_world where
  "demo_jump_world = demo_world\<lparr>sw_get := (\<lambda>_ alias key. if key = ''ProxyJump'' \<and> alias = ''h'' then ''b'' else [])\<rparr>"

definition demo_answers :: "bool \<Rightarrow> ssh_net" where
  "demo_answers ok = \<lparr>sn_connect = (\<lambda>_. True), sn_shake = (\<lambda>_ _ _. ok), sn_version = (\<lambda>_. ''SSH-2.0'')\<rparr>"

lemma demo_auth: "cf_key_path c = [] \<Longrightarrow> \<exists>cc tcp ssh. clientConfig demo_jump_world c = Inr (cc, tcp, ssh)"
proof -
  assume "cf_key_path c = []"
  then have "\<exists>ms. authMethods demo_jump_world c al home = Inr ms" for al home
    by (simp add: authMethods_def identities_only_def equal_fold_def demo_jump_world_def is_ascii_def Let_def)
  then obtain ms where "authMethods demo_jump_world c (target_alias c) (effectiveHome demo_jump_world c) = Inr ms" by blast
  then show ?thesis by (simp add: clientConfig_def Let_def)
qed

lemma demo_jump: "config_jump demo_jump_world home alias = (if alias = ''h'' then ''b'' else [])"
proof -
  have "trim_space ''b'' = ''b''" by (rule trim_space_ink) (simp_all add: ink_byte_def)
  moreover have "trim_space [] = []" by (simp add: trim_space_def strip_left.simps lead_enc_def find_None_iff has_prefix_def space_encs_def)
  ultimately show ?thesis by (simp add: config_jump_def demo_jump_world_def)
qed

lemma demo_alias: "machine_alias ''b'' = ''b''" "machine_alias ''a'' = ''a''"
  by (simp_all add: machine_alias_def target_alias_def jump_config_def parseTarget_def parse_host_def has_prefix_def)

lemma demo_direct:
  assumes "m = ''a'' \<or> m = ''b''"
  shows "\<exists>tcp ssh cc. dial_run demo_jump_world n (DialMachine (jump_config m kh ''/home'')) =
    Some (dial_direct demo_jump_world n ''/home'' m tcp ssh cc)"
proof -
  let ?c = "jump_config m kh ''/home''"
  obtain cc tcp ssh where "clientConfig demo_jump_world ?c = Inr (cc, tcp, ssh)"
    using demo_auth [of ?c] by (auto simp: jump_config_def)
  moreover have "jump_of demo_jump_world ?c = []" using assms demo_jump demo_alias by (auto simp: jump_of_def)
  moreover have "effectiveHome demo_jump_world ?c = ''/home''" by (rule jump_config_home) simp
  ultimately have "dial_run demo_jump_world n (DialMachine ?c) = Some (dial_direct demo_jump_world n ''/home'' m tcp ssh cc)"
    using assms demo_alias by (subst dial_run.simps) (auto simp: jumps_def)
  then show ?thesis by blast
qed

lemma demo_reached: "\<exists>near fx. dial_direct w (demo_answers True) home m tcp ssh cc = (Inr near, fx)"
  by (simp add: dial_direct_def open_client_def keep_alive_def demo_answers_def Let_def)

theorem dial_leaks_nothing_witness:
  "\<exists>r fx. dial_run demo_jump_world (demo_answers False) (DialMachine (jump_config ''b'' [] ''/home'')) = Some (r, fx)
     \<and> fx \<noteq> [] \<and> fold apply_fx fx {} = {}"
proof -
  obtain tcp ssh cc where d: "dial_run demo_jump_world (demo_answers False) (DialMachine (jump_config ''b'' [] ''/home'')) =
      Some (dial_direct demo_jump_world (demo_answers False) ''/home'' ''b'' tcp ssh cc)" using demo_direct by blast
  then have "dial_run demo_jump_world (demo_answers False) (DialMachine (jump_config ''b'' [] ''/home'')) =
      Some (Inl (DialHandshake (TcpLink tcp)), [OpenLink (TcpLink tcp), CloseLink (TcpLink tcp)])"
    by (simp add: dial_direct_def open_client_def keep_alive_def demo_answers_def demo_jump_world_def)
  with dial_leaks_nothing [OF this] show ?thesis by simp
qed


theorem tunnel_visits_in_order_witness:
  "\<exists>cc l fx near. dial_run demo_jump_world (demo_answers True) (DialThrough ''/home'' ''t:22'' ''t:22'' cc ''a,b'' []) = Some (Inr l, fx)
     \<and> link_path l = link_path near @ [hop_address demo_jump_world [] ''/home'' ''b'', ''t:22'']"
proof -
  obtain cc :: client_config where True by blast
  let ?call = "DialThrough ''/home'' ''t:22'' ''t:22'' cc (str_join '','' [''a'', ''b'']) []"
  have plain: "\<forall>h\<in>set [''a'', ''b'']. plain_hop h" by (simp add: plain_hop_def ink_byte_def)
  have sp: "split_chain ''a,b'' = (''b'', ''a'')" "split_chain ''a'' = (''a'', [])"
    using split_joined [of "[''a'']" "''b''"] plain by (simp_all add: split_chain_def)
  obtain jcc jtcp jssh where b: "clientConfig demo_jump_world (jump_config ''b'' [] ''/home'') = Inr (jcc, jtcp, jssh)"
    using demo_auth [of "jump_config ''b'' [] ''/home''"] by (auto simp: jump_config_def)
  obtain tcp ssh acc where "dial_run demo_jump_world (demo_answers True) (DialMachine (jump_config ''a'' [] ''/home'')) =
      Some (dial_direct demo_jump_world (demo_answers True) ''/home'' ''a'' tcp ssh acc)" using demo_direct by blast
  with demo_reached have a: "\<exists>near fx. dial_run demo_jump_world (demo_answers True) (DialMachine (jump_config ''a'' [] ''/home'')) = Some (Inr near, fx)"
    by metis
  have "\<exists>l fx. dial_run demo_jump_world (demo_answers True) (DialThrough ''/home'' jtcp jssh jcc ''a'' []) = Some (Inr l, fx)"
    using a sp(2) by (subst dial_run.simps) (auto simp: over_jump_def demo_answers_def Let_def)
  then obtain jl jfx where "dial_run demo_jump_world (demo_answers True) (DialThrough ''/home'' jtcp jssh jcc ''a'' []) = Some (Inr jl, jfx)"
    by blast
  then have "dial_run demo_jump_world (demo_answers True) ?call =
      Some (over_jump (demo_answers True) ''b'' ''t:22'' ''t:22'' cc (keep_alive demo_jump_world (demo_answers True) ''b'' ''/home'' (Inr jl, jfx)))"
    using sp(1) b by (subst dial_run.simps) simp
  then obtain l fx where "dial_run demo_jump_world (demo_answers True) ?call = Some (Inr l, fx)"
    by (auto simp: over_jump_def keep_alive_def demo_answers_def Let_def)
  with tunnel_visits_in_order [OF _ plain this] show ?thesis by auto
qed

end
