(* ===== verification/Am_Silence.thy ===== *)
theory Am_Silence
  imports Gw_Strings
begin

text \<open>
  The alerts, matchers and silences of the Alertmanager server, \<open>internal/tools/alertmanager/matchers.go\<close>,
  \<open>alerts.go\<close>, \<open>silences.go\<close>, \<open>receivers.go\<close> and \<open>status.go\<close>: what a tool call asks of the API, and what it makes of the
  answer. A pointer of the API's models is an option.

  The record \<open>am_world\<close> is the outside: \<open>labels.ParseMatchers\<close> and the other functions of Alertmanager's packages, Go's
  regular expressions and time, and what the API answers. The calls made on it are recorded.
\<close>

subsection \<open>Matchers\<close>

datatype match_type = MatchEqual | MatchNotEqual | MatchRegexp | MatchNotRegexp

record matcher =
  mt_type :: match_type
  mt_name :: string
  mt_value :: string

record matcher_result =
  mr_name :: string
  mr_value :: string
  mr_is_regex :: bool
  mr_is_equal :: bool
  mr_raw :: string

text \<open>\<open>models.Matcher\<close>, as the API takes and gives it.\<close>

record model_matcher =
  mm_name :: "string option"
  mm_value :: "string option"
  mm_is_regex :: "bool option"
  mm_is_equal :: "bool option"

subsection \<open>The API\<close>

record api_status =
  ap_state :: "string option"
  ap_silenced_by :: "string list"
  ap_inhibited_by :: "string list"
  ap_muted_by :: "string list"

record gettable_alert =
  ga_fingerprint :: "string option"
  ga_labels :: "(string, string) gomap"
  ga_annotations :: "(string, string) gomap"
  ga_status :: "api_status option"
  ga_starts :: "int option"
  ga_ends :: "int option"
  ga_receivers :: "string option option list"
  ga_url :: string

record gettable_group =
  gg_labels :: "(string, string) gomap"
  gg_receiver :: "string option option"
  gg_alerts :: "gettable_alert option list"

record gettable_silence =
  gs_id :: "string option"
  gs_matchers :: "model_matcher option list"
  gs_starts :: "int option"
  gs_ends :: "int option"
  gs_created_by :: "string option"
  gs_comment :: "string option"
  gs_updated :: "int option"
  gs_state :: "string option option"

record postable_silence =
  po_matchers :: "model_matcher list"
  po_starts :: int
  po_ends :: int
  po_created_by :: string
  po_comment :: string

text \<open>
  The parameters of \<open>GetAlerts\<close> and \<open>GetAlertGroups\<close>; \<open>aq_states\<close> holds \<open>active\<close>, \<open>silenced\<close>, \<open>inhibited\<close> and the last of
  each, \<open>unprocessed\<close> and \<open>muted\<close>, with \<open>None\<close> for one that is not given.
\<close>

record alert_params =
  aq_filter :: "string list"
  aq_states :: "bool option list"
  aq_receiver :: "string option"

record gettable_receiver =
  re_name :: "string option"
  re_labels :: "(string, string) gomap"

record version_info =
  vi_version :: "string option"
  vi_revision :: "string option"
  vi_go :: "string option"

record cluster_status =
  cl_name :: string
  cl_status :: "string option"
  cl_peers :: "(string option \<times> string option) option list"

record am_status =
  au_version :: "version_info option"
  au_uptime :: "int option"
  au_cluster :: "cluster_status option"
  au_config :: "string option option"

datatype am_call =
    GetAlerts alert_params
  | GetAlertGroups alert_params
  | GetSilences "string list"
  | GetSilence string
  | PostSilence postable_silence
  | DeleteSilence string
  | GetReceivers
  | GetStatus

record am_world =
  aw_parse :: "string \<Rightarrow> string + matcher list"
  aw_string :: "matcher \<Rightarrow> string"
  aw_new :: "match_type \<Rightarrow> string \<Rightarrow> string \<Rightarrow> matcher option"
  aw_regex :: "string \<Rightarrow> (string \<Rightarrow> bool) option"
  aw_time :: "string \<Rightarrow> int option"
  aw_duration :: "string \<Rightarrow> int option"
  aw_format :: "int \<Rightarrow> string"
  aw_now :: int
  aw_alerts :: "alert_params \<Rightarrow> gettable_alert option list option"
  aw_groups :: "alert_params \<Rightarrow> gettable_group option list option"
  aw_silences :: "string list \<Rightarrow> gettable_silence option list option"
  aw_silence :: "string \<Rightarrow> gettable_silence option"
  aw_post :: "postable_silence \<Rightarrow> string option option"
  aw_delete :: "string \<Rightarrow> bool"
  aw_receivers :: "gettable_receiver option list option"
  aw_status :: "am_status option option"

datatype am_error =
    EmptyQuery
  | BadQuery string
  | InvalidMatchers am_error
  | InvalidFilter am_error
  | NoMatcher
  | CatchAll
  | NoCreatedBy
  | NoComment
  | InvalidStart
  | InvalidEnd
  | InvalidDuration
  | EndOrDuration
  | EndNotAfterStart
  | TooLong
  | ApiFailed string

type_synonym 'a am_result = "(am_error + 'a) \<times> am_call list"

subsection \<open>Matchers of a query\<close>

definition parseMatcherQuery :: "am_world \<Rightarrow> string \<Rightarrow> am_error + matcher list" where
  "parseMatcherQuery w query =
     (let q = trim_space query in
      if q = [] then Inl EmptyQuery
      else (case aw_parse w q of Inl e \<Rightarrow> Inl (BadQuery e) | Inr ms \<Rightarrow> Inr ms))"

definition is_equal_type :: "match_type \<Rightarrow> bool" where
  "is_equal_type t \<longleftrightarrow> t = MatchEqual \<or> t = MatchRegexp"

definition is_regex_type :: "match_type \<Rightarrow> bool" where
  "is_regex_type t \<longleftrightarrow> t = MatchRegexp \<or> t = MatchNotRegexp"

definition toMatcherResults :: "am_world \<Rightarrow> matcher list \<Rightarrow> matcher_result list" where
  "toMatcherResults w = map (\<lambda>m. \<lparr>mr_name = mt_name m, mr_value = mt_value m, mr_is_regex = is_regex_type (mt_type m),
     mr_is_equal = is_equal_type (mt_type m), mr_raw = aw_string w m\<rparr>)"

definition matchersToFilter :: "am_world \<Rightarrow> matcher list \<Rightarrow> string list" where
  "matchersToFilter w = map (aw_string w)"

definition matchersToModels :: "matcher list \<Rightarrow> model_matcher list" where
  "matchersToModels = map (\<lambda>m. \<lparr>mm_name = Some (mt_name m), mm_value = Some (mt_value m),
     mm_is_regex = Some (is_regex_type (mt_type m)), mm_is_equal = Some (is_equal_type (mt_type m))\<rparr>)"

definition isBroadRegex :: "am_world \<Rightarrow> string \<Rightarrow> bool" where
  "isBroadRegex w expr =
     (case aw_regex w (''^(?:'' @ expr @ '')$'') of
        None \<Rightarrow> False
      | Some matches \<Rightarrow> matches [] \<or> (matches ''gooners-catch-all-probe'' \<and> matches ''gooners-catch-all-probe-2''))"

definition isScopedMatcher :: "am_world \<Rightarrow> matcher \<Rightarrow> bool" where
  "isScopedMatcher w m =
     (case mt_type m of
        MatchEqual \<Rightarrow> mt_value m \<noteq> []
      | MatchRegexp \<Rightarrow> \<not> isBroadRegex w (mt_value m)
      | _ \<Rightarrow> False)"

definition isCatchAllOnly :: "am_world \<Rightarrow> matcher list \<Rightarrow> bool" where
  "isCatchAllOnly w ms = (if ms = [] then False else \<not> list_ex (isScopedMatcher w) ms)"

definition validateSilenceMatchers :: "am_world \<Rightarrow> matcher list \<Rightarrow> am_error option" where
  "validateSilenceMatchers w ms =
     (if ms = [] then Some NoMatcher else if isCatchAllOnly w ms then Some CatchAll else None)"

text \<open>The answer of \<open>validate_matcher_query\<close>: the matchers, or the error, which is no error of the call.\<close>

definition validateMatcherQuery :: "am_world \<Rightarrow> string \<Rightarrow> am_error + matcher_result list" where
  "validateMatcherQuery w query =
     (case parseMatcherQuery w query of Inl e \<Rightarrow> Inl e | Inr ms \<Rightarrow> Inr (toMatcherResults w ms))"

definition parseFilterOption :: "am_world \<Rightarrow> string \<Rightarrow> am_error + string list" where
  "parseFilterOption w query =
     (if query = [] then Inr []
      else (case parseMatcherQuery w query of Inl e \<Rightarrow> Inl (InvalidFilter e) | Inr ms \<Rightarrow> Inr (matchersToFilter w ms)))"

subsection \<open>Summaries\<close>

record alert_summary =
  as_fingerprint :: string
  as_labels :: "(string, string) gomap"
  as_annotations :: "(string, string) gomap"
  as_state :: string
  as_silenced_by :: "string list"
  as_inhibited_by :: "string list"
  as_muted_by :: "string list"
  as_starts :: string
  as_ends :: string
  as_receivers :: "string list"
  as_url :: string

definition text_of :: "string option \<Rightarrow> string" where
  "text_of x = (case x of None \<Rightarrow> [] | Some s \<Rightarrow> s)"

definition time_of :: "am_world \<Rightarrow> int option \<Rightarrow> string" where
  "time_of w x = (case x of None \<Rightarrow> [] | Some t \<Rightarrow> aw_format w t)"

definition non_nil :: "'a option list \<Rightarrow> 'a list" where
  "non_nil xs = List.map_filter (\<lambda>x. x) xs"

definition alertSummaryFromModel :: "am_world \<Rightarrow> gettable_alert \<Rightarrow> alert_summary" where
  "alertSummaryFromModel w a =
     \<lparr>as_fingerprint = text_of (ga_fingerprint a), as_labels = ga_labels a, as_annotations = ga_annotations a,
      as_state = (case ga_status a of None \<Rightarrow> [] | Some st \<Rightarrow> text_of (ap_state st)),
      as_silenced_by = (case ga_status a of None \<Rightarrow> [] | Some st \<Rightarrow> ap_silenced_by st),
      as_inhibited_by = (case ga_status a of None \<Rightarrow> [] | Some st \<Rightarrow> ap_inhibited_by st),
      as_muted_by = (case ga_status a of None \<Rightarrow> [] | Some st \<Rightarrow> ap_muted_by st),
      as_starts = time_of w (ga_starts a), as_ends = time_of w (ga_ends a),
      as_receivers = non_nil (non_nil (ga_receivers a)), as_url = ga_url a\<rparr>"

definition listAlerts :: "am_world \<Rightarrow> string \<Rightarrow> bool option list \<Rightarrow> string \<Rightarrow> alert_summary list am_result" where
  "listAlerts w query states receiver =
     (case parseFilterOption w query of
        Inl e \<Rightarrow> (Inl e, [])
      | Inr filter' \<Rightarrow>
          (let q = \<lparr>aq_filter = filter', aq_states = states, aq_receiver = (if receiver \<noteq> [] then Some receiver else None)\<rparr>
           in (case aw_alerts w q of
                 None \<Rightarrow> Inl (ApiFailed ''get alerts'')
               | Some answer \<Rightarrow> Inr (map (alertSummaryFromModel w) (non_nil answer)), [GetAlerts q])))"

record group_summary =
  gr_labels :: "(string, string) gomap"
  gr_receiver :: string
  gr_alerts :: "alert_summary list"

definition groupSummary :: "am_world \<Rightarrow> gettable_group \<Rightarrow> group_summary" where
  "groupSummary w g =
     \<lparr>gr_labels = gg_labels g, gr_receiver = (case gg_receiver g of Some n \<Rightarrow> text_of n | None \<Rightarrow> []),
      gr_alerts = map (alertSummaryFromModel w) (non_nil (gg_alerts g))\<rparr>"

definition listAlertGroups :: "am_world \<Rightarrow> string \<Rightarrow> bool option list \<Rightarrow> string \<Rightarrow> group_summary list am_result" where
  "listAlertGroups w query states receiver =
     (case parseFilterOption w query of
        Inl e \<Rightarrow> (Inl e, [])
      | Inr filter' \<Rightarrow>
          (let q = \<lparr>aq_filter = filter', aq_states = states, aq_receiver = (if receiver \<noteq> [] then Some receiver else None)\<rparr>
           in (case aw_groups w q of
                 None \<Rightarrow> Inl (ApiFailed ''get alert groups'')
               | Some answer \<Rightarrow> Inr (map (groupSummary w) (non_nil answer)), [GetAlertGroups q])))"

subsection \<open>Silences\<close>

definition modelMatchType :: "bool \<Rightarrow> bool \<Rightarrow> match_type" where
  "modelMatchType is_equal is_regex =
     (if is_equal \<and> \<not> is_regex then MatchEqual
      else if \<not> is_equal \<and> \<not> is_regex then MatchNotEqual
      else if is_equal \<and> is_regex then MatchRegexp
      else MatchNotRegexp)"

definition flag_of :: "bool option \<Rightarrow> bool" where
  "flag_of x = (case x of None \<Rightarrow> False | Some b \<Rightarrow> b)"

definition modelMatchersToResults :: "am_world \<Rightarrow> model_matcher option list \<Rightarrow> matcher_result list" where
  "modelMatchersToResults w ms =
     map (\<lambda>m. let name = text_of (mm_name m); value = text_of (mm_value m);
                  regex = flag_of (mm_is_regex m); equal = flag_of (mm_is_equal m)
              in \<lparr>mr_name = name, mr_value = value, mr_is_regex = regex, mr_is_equal = equal,
                  mr_raw = (case aw_new w (modelMatchType equal regex) name value of
                              Some lm \<Rightarrow> aw_string w lm | None \<Rightarrow> [])\<rparr>)
       (non_nil ms)"

record silence_summary =
  ss_id :: string
  ss_state :: string
  ss_matchers :: "matcher_result list"
  ss_starts :: string
  ss_ends :: string
  ss_created_by :: string
  ss_comment :: string
  ss_updated :: string

definition silenceSummaryFromModel :: "am_world \<Rightarrow> gettable_silence \<Rightarrow> silence_summary" where
  "silenceSummaryFromModel w g =
     \<lparr>ss_id = text_of (gs_id g), ss_state = (case gs_state g of Some st \<Rightarrow> text_of st | None \<Rightarrow> []),
      ss_matchers = modelMatchersToResults w (gs_matchers g), ss_starts = time_of w (gs_starts g),
      ss_ends = time_of w (gs_ends g), ss_created_by = text_of (gs_created_by g), ss_comment = text_of (gs_comment g),
      ss_updated = time_of w (gs_updated g)\<rparr>"

definition listSilences :: "am_world \<Rightarrow> string \<Rightarrow> silence_summary list am_result" where
  "listSilences w query =
     (case parseFilterOption w query of
        Inl e \<Rightarrow> (Inl e, [])
      | Inr filter' \<Rightarrow>
          (case aw_silences w filter' of
             None \<Rightarrow> Inl (ApiFailed ''get silences'')
           | Some answer \<Rightarrow> Inr (map (silenceSummaryFromModel w) (non_nil answer)), [GetSilences filter']))"

definition getSilence :: "am_world \<Rightarrow> string \<Rightarrow> silence_summary am_result" where
  "getSilence w sid =
     (case aw_silence w sid of
        None \<Rightarrow> Inl (ApiFailed ''get silence'')
      | Some g \<Rightarrow> Inr (silenceSummaryFromModel w g), [GetSilence sid])"

definition preview_params :: "am_world \<Rightarrow> matcher list \<Rightarrow> alert_params" where
  "preview_params w ms = \<lparr>aq_filter = matchersToFilter w ms, aq_states = [None, None, None, None], aq_receiver = None\<rparr>"

text \<open>The matchers of a silence that may be made.\<close>

definition silence_matchers :: "am_world \<Rightarrow> string \<Rightarrow> am_error + matcher list" where
  "silence_matchers w query =
     (case parseMatcherQuery w query of
        Inl e \<Rightarrow> Inl (InvalidMatchers e)
      | Inr ms \<Rightarrow> (case validateSilenceMatchers w ms of Some e \<Rightarrow> Inl e | None \<Rightarrow> Inr ms))"

definition previewSilence :: "am_world \<Rightarrow> string \<Rightarrow> (matcher_result list \<times> alert_summary list) am_result" where
  "previewSilence w query =
     (case silence_matchers w query of
        Inl e \<Rightarrow> (Inl e, [])
      | Inr ms \<Rightarrow>
          (case aw_alerts w (preview_params w ms) of
             None \<Rightarrow> Inl (ApiFailed ''preview matching alerts'')
           | Some answer \<Rightarrow> Inr (toMatcherResults w ms, map (alertSummaryFromModel w) (non_nil answer)),
           [GetAlerts (preview_params w ms)]))"

record create_silence =
  cs_matchers :: string
  cs_starts :: string
  cs_ends :: string
  cs_duration :: string
  cs_created_by :: string
  cs_comment :: string

record created_silence =
  cr_id :: string
  cr_matchers :: "matcher_result list"
  cr_starts :: string
  cr_ends :: string
  cr_matching :: nat

definition silence_start :: "am_world \<Rightarrow> create_silence \<Rightarrow> am_error + int" where
  "silence_start w r =
     (if cs_starts r = [] then Inr (aw_now w)
      else (case aw_time w (cs_starts r) of None \<Rightarrow> Inl InvalidStart | Some t \<Rightarrow> Inr t))"

definition silence_end :: "am_world \<Rightarrow> create_silence \<Rightarrow> int \<Rightarrow> am_error + int" where
  "silence_end w r starts =
     (if (cs_ends r \<noteq> []) = (cs_duration r \<noteq> []) then Inl EndOrDuration
      else if cs_ends r \<noteq> [] then (case aw_time w (cs_ends r) of None \<Rightarrow> Inl InvalidEnd | Some t \<Rightarrow> Inr t)
      else (case aw_duration w (cs_duration r) of None \<Rightarrow> Inl InvalidDuration | Some d \<Rightarrow> Inr (starts + d)))"

text \<open>\<open>Time.Sub\<close>: times and durations are nanoseconds, and a difference that is no duration is the nearest one.\<close>

definition time_sub :: "int \<Rightarrow> int \<Rightarrow> int" where
  "time_sub t u = max (- (2 ^ 63)) (min (2 ^ 63 - 1) (t - u))"

text \<open>The silence a request asks for, when it may be made; \<open>most\<close> is \<open>MaxSilenceDuration\<close>.\<close>

definition silence_request :: "am_world \<Rightarrow> int \<Rightarrow> create_silence \<Rightarrow> am_error + (matcher list \<times> int \<times> int)" where
  "silence_request w most r =
     (case silence_matchers w (cs_matchers r) of
        Inl e \<Rightarrow> Inl e
      | Inr ms \<Rightarrow>
          (if trim_space (cs_created_by r) = [] then Inl NoCreatedBy
           else if trim_space (cs_comment r) = [] then Inl NoComment
           else
             (case silence_start w r of
                Inl e \<Rightarrow> Inl e
              | Inr starts \<Rightarrow>
                  (case silence_end w r starts of
                     Inl e \<Rightarrow> Inl e
                   | Inr ends \<Rightarrow>
                       (if \<not> starts < ends then Inl EndNotAfterStart
                        else if time_sub ends starts > most then Inl TooLong
                        else Inr (ms, starts, ends))))))"

definition createSilence :: "am_world \<Rightarrow> int \<Rightarrow> create_silence \<Rightarrow> created_silence am_result" where
  "createSilence w most r =
     (case silence_request w most r of
        Inl e \<Rightarrow> (Inl e, [])
      | Inr (ms, starts, ends) \<Rightarrow>
          (let q = preview_params w ms;
               sil = \<lparr>po_matchers = matchersToModels ms, po_starts = starts, po_ends = ends,
                      po_created_by = cs_created_by r, po_comment = cs_comment r\<rparr>
           in case aw_alerts w q of
                None \<Rightarrow> (Inl (ApiFailed ''preview matching alerts''), [GetAlerts q])
              | Some answer \<Rightarrow>
                  (case aw_post w sil of
                     None \<Rightarrow> Inl (ApiFailed ''create silence'')
                   | Some payload \<Rightarrow>
                       Inr \<lparr>cr_id = text_of payload, cr_matchers = toMatcherResults w ms, cr_starts = aw_format w starts,
                            cr_ends = aw_format w ends, cr_matching = length answer\<rparr>,
                   [GetAlerts q, PostSilence sil])))"

definition expireSilence :: "am_world \<Rightarrow> string \<Rightarrow> unit am_result" where
  "expireSilence w sid = (if aw_delete w sid then Inr () else Inl (ApiFailed ''expire silence''), [DeleteSilence sid])"

subsection \<open>Receivers and status\<close>

definition listReceivers :: "am_world \<Rightarrow> (string \<times> (string, string) gomap) list am_result" where
  "listReceivers w =
     (case aw_receivers w of
        None \<Rightarrow> Inl (ApiFailed ''get receivers'')
      | Some answer \<Rightarrow>
          Inr (List.map_filter (\<lambda>r. case re_name r of None \<Rightarrow> None | Some n \<Rightarrow> Some (n, re_labels r)) (non_nil answer)),
      [GetReceivers])"

record status_result =
  sr_version :: string
  sr_revision :: string
  sr_go :: string
  sr_uptime :: string
  sr_cluster :: string
  sr_cluster_status :: string
  sr_peers :: "(string \<times> string) list"
  sr_config :: string

definition status_summary :: "am_world \<Rightarrow> am_status \<Rightarrow> status_result" where
  "status_summary w p =
     \<lparr>sr_version = (case au_version p of None \<Rightarrow> [] | Some v \<Rightarrow> text_of (vi_version v)),
      sr_revision = (case au_version p of None \<Rightarrow> [] | Some v \<Rightarrow> text_of (vi_revision v)),
      sr_go = (case au_version p of None \<Rightarrow> [] | Some v \<Rightarrow> text_of (vi_go v)),
      sr_uptime = time_of w (au_uptime p),
      sr_cluster = (case au_cluster p of None \<Rightarrow> [] | Some c \<Rightarrow> cl_name c),
      sr_cluster_status = (case au_cluster p of None \<Rightarrow> [] | Some c \<Rightarrow> text_of (cl_status c)),
      sr_peers = (case au_cluster p of None \<Rightarrow> []
                  | Some c \<Rightarrow> map (\<lambda>(n, a). (text_of n, text_of a)) (non_nil (cl_peers c))),
      sr_config = (case au_config p of None \<Rightarrow> [] | Some c \<Rightarrow> text_of c)\<rparr>"

definition empty_status :: status_result where
  "empty_status = \<lparr>sr_version = [], sr_revision = [], sr_go = [], sr_uptime = [], sr_cluster = [], sr_cluster_status = [],
     sr_peers = [], sr_config = []\<rparr>"

definition getStatus :: "am_world \<Rightarrow> status_result am_result" where
  "getStatus w =
     (case aw_status w of
        None \<Rightarrow> Inl (ApiFailed ''get status'')
      | Some None \<Rightarrow> Inr empty_status
      | Some (Some p) \<Rightarrow> Inr (status_summary w p), [GetStatus])"

subsection \<open>Which silences are made\<close>

text \<open>The contract of \<open>create_silence\<close>: what a request must be for the silence \<open>sil\<close> to be made of it.\<close>

definition positive_matcher :: "am_world \<Rightarrow> matcher \<Rightarrow> bool" where
  "positive_matcher w m \<longleftrightarrow>
     mt_type m = MatchEqual \<and> mt_value m \<noteq> [] \<or> mt_type m = MatchRegexp \<and> \<not> isBroadRegex w (mt_value m)"

lemma isScopedMatcher_iff: "isScopedMatcher w m \<longleftrightarrow> positive_matcher w m"
  by (auto simp: isScopedMatcher_def positive_matcher_def split: match_type.splits)

definition silence_allowed :: "am_world \<Rightarrow> int \<Rightarrow> create_silence \<Rightarrow> matcher list \<Rightarrow> int \<Rightarrow> int \<Rightarrow> bool" where
  "silence_allowed w most r ms starts ends \<longleftrightarrow>
     trim_space (cs_matchers r) \<noteq> [] \<and> aw_parse w (trim_space (cs_matchers r)) = Inr ms \<and>
     (\<exists>m\<in>set ms. positive_matcher w m) \<and>
     trim_space (cs_created_by r) \<noteq> [] \<and> trim_space (cs_comment r) \<noteq> [] \<and>
     (if cs_starts r = [] then starts = aw_now w else aw_time w (cs_starts r) = Some starts) \<and>
     (cs_ends r \<noteq> [] \<and> cs_duration r = [] \<and> aw_time w (cs_ends r) = Some ends \<or>
      cs_ends r = [] \<and> cs_duration r \<noteq> [] \<and> (\<exists>d. aw_duration w (cs_duration r) = Some d \<and> ends = starts + d)) \<and>
     starts < ends \<and> ends \<le> starts + most"

lemma silence_matchers_iff: "silence_matchers w q = Inr ms \<longleftrightarrow>
    trim_space q \<noteq> [] \<and> aw_parse w (trim_space q) = Inr ms \<and> (\<exists>m\<in>set ms. positive_matcher w m)"
  by (auto simp: silence_matchers_def parseMatcherQuery_def validateSilenceMatchers_def isCatchAllOnly_def
      isScopedMatcher_iff list_ex_iff Let_def split: sum.splits if_splits)

lemma time_sub_most: "m < 2 ^ 63 - 1 \<Longrightarrow> 0 \<le> m \<Longrightarrow> u < t \<Longrightarrow> time_sub t u > m \<longleftrightarrow> t - u > m"
  by (auto simp: time_sub_def)

lemma silence_request_iff:
  assumes "0 \<le> most" and "most < 2 ^ 63 - 1"
  shows "silence_request w most r = Inr (ms, starts, ends) \<longleftrightarrow> silence_allowed w most r ms starts ends"
proof (cases "\<exists>ms'. silence_matchers w (cs_matchers r) = Inr ms'")
  case False
  then show ?thesis
    using silence_matchers_iff [of w "cs_matchers r" ms]
    by (auto simp: silence_request_def silence_allowed_def split: sum.splits)
next
  case True
  then obtain ms' where ms': "silence_matchers w (cs_matchers r) = Inr ms'" by blast
  then have "(silence_matchers w (cs_matchers r) = Inr ms) = (ms = ms')" by auto
  then show ?thesis
    using ms' silence_matchers_iff [of w "cs_matchers r" ms]
    by (auto simp: silence_request_def silence_allowed_def silence_start_def silence_end_def
        time_sub_most [OF assms(2,1)] split: option.splits if_splits)
qed

lemma created_allowed:
  assumes "0 \<le> most" and "most < 2 ^ 63 - 1" and "PostSilence sil \<in> set (snd (createSilence w most r))"
  shows "\<exists>ms. silence_allowed w most r ms (po_starts sil) (po_ends sil)"
  using assms(3)
  by (auto simp: createSilence_def Let_def simp flip: silence_request_iff [OF assms(1,2)] split: sum.splits option.splits)


definition demo_matcher :: matcher where
  "demo_matcher = \<lparr>mt_type = MatchEqual, mt_name = ''service'', mt_value = ''web''\<rparr>"

definition demo_posted :: postable_silence where
  "demo_posted = \<lparr>po_matchers = matchersToModels [demo_matcher], po_starts = 100, po_ends = 160, po_created_by = ''me'',
     po_comment = ''restart''\<rparr>"

definition demo_stored :: gettable_silence where
  "demo_stored = \<lparr>gs_id = Some ''1'', gs_matchers = map Some (po_matchers demo_posted), gs_starts = Some 100, gs_ends = Some 160,
     gs_created_by = Some ''me'', gs_comment = Some ''restart'', gs_updated = None, gs_state = None\<rparr>"

text \<open>An Alertmanager with one alert, whose matchers are all \<open>demo_matcher\<close> and whose regular expressions are length bounds.\<close>

definition demo_am :: am_world where
  "demo_am = \<lparr>aw_parse = (\<lambda>_. Inr [demo_matcher]), aw_string = mt_value,
     aw_new = (\<lambda>t n v. Some \<lparr>mt_type = t, mt_name = n, mt_value = v\<rparr>),
     aw_regex = (\<lambda>e. if e = ''^(?:.{1,20})$'' then Some (\<lambda>s. 1 \<le> length s \<and> length s \<le> 20) else None), aw_time = (\<lambda>_. None),
     aw_duration = (\<lambda>_. Some 60), aw_format = (\<lambda>_. ''t''), aw_now = 100, aw_alerts = (\<lambda>_. Some [None]), aw_groups = (\<lambda>_. None),
     aw_silences = (\<lambda>_. None), aw_silence = (\<lambda>_. Some demo_stored), aw_post = (\<lambda>_. Some (Some ''1'')), aw_delete = (\<lambda>_. True),
     aw_receivers = None, aw_status = None\<rparr>"

definition demo_create :: create_silence where
  "demo_create = \<lparr>cs_matchers = ''m'', cs_starts = [], cs_ends = [], cs_duration = ''1m'', cs_created_by = ''me'', cs_comment = ''restart''\<rparr>"

lemma demo_allowed: "silence_allowed demo_am 3600 demo_create [demo_matcher] 100 160"
  by (simp add: silence_allowed_def demo_am_def demo_create_def positive_matcher_def demo_matcher_def trim_space_ink ink_byte_def)

lemma demo_created: "createSilence demo_am 3600 demo_create =
    (Inr \<lparr>cr_id = ''1'', cr_matchers = toMatcherResults demo_am [demo_matcher], cr_starts = ''t'', cr_ends = ''t'', cr_matching = 1\<rparr>,
     [GetAlerts (preview_params demo_am [demo_matcher]), PostSilence demo_posted])"
proof -
  have "silence_request demo_am 3600 demo_create = Inr ([demo_matcher], 100, 160)"
    using demo_allowed by (simp add: silence_request_iff)
  then show ?thesis
    by (simp add: createSilence_def Let_def demo_am_def demo_create_def demo_posted_def text_of_def)
qed


subsection \<open>Silences read back\<close>

lemma modelMatchType_inverse: "modelMatchType (is_equal_type t) (is_regex_type t) = t"
  by (cases t) (simp_all add: modelMatchType_def is_equal_type_def is_regex_type_def)

lemma models_read_back:
  assumes "\<forall>m\<in>set ms. aw_new w (mt_type m) (mt_name m) (mt_value m) = Some m"
  shows "modelMatchersToResults w (map Some (matchersToModels ms)) = toMatcherResults w ms"
  using assms
  by (auto simp: modelMatchersToResults_def matchersToModels_def toMatcherResults_def non_nil_def text_of_def flag_of_def
      map_filter_def comp_def modelMatchType_inverse Let_def)

lemma created_iff: "createSilence w most r = (Inr c, calls) \<longleftrightarrow>
    (\<exists>ms starts ends sil answer payload. silence_request w most r = Inr (ms, starts, ends) \<and>
       sil = \<lparr>po_matchers = matchersToModels ms, po_starts = starts, po_ends = ends,
              po_created_by = cs_created_by r, po_comment = cs_comment r\<rparr> \<and>
       aw_alerts w (preview_params w ms) = Some answer \<and> aw_post w sil = Some payload \<and>
       c = \<lparr>cr_id = text_of payload, cr_matchers = toMatcherResults w ms, cr_starts = aw_format w starts,
            cr_ends = aw_format w ends, cr_matching = length answer\<rparr> \<and>
       calls = [GetAlerts (preview_params w ms), PostSilence sil])"
  by (auto simp: createSilence_def Let_def split: sum.splits option.splits)



text \<open>The preview shows what creating the silence counts.\<close>

lemma preview_counts_same:
  assumes "previewSilence w (cs_matchers r) = (Inr (rs, alerts), calls)" and "createSilence w most r = (Inr c, calls')"
  shows "rs = cr_matchers c \<and> length alerts \<le> cr_matching c"
proof -
  have len: "length (non_nil xs) \<le> length xs" for xs :: "'b option list"
    by (induction xs) (auto simp: non_nil_def map_filter_simps split: option.splits)
  show ?thesis
    using assms
    by (auto simp: created_iff previewSilence_def silence_request_def len split: sum.splits option.splits if_splits prod.splits)
qed

text \<open>
  The guard looks at what a regular expression does with the empty string and with two long probes, so an expression
  for every value of one to twenty characters passes as a matcher that is not a wildcard.
\<close>

lemma bounded_wildcard_passes:
  "validateSilenceMatchers demo_am [\<lparr>mt_type = MatchRegexp, mt_name = ''alertname'', mt_value = ''.{1,20}''\<rparr>] = None"
  by (simp add: validateSilenceMatchers_def isCatchAllOnly_def isScopedMatcher_def isBroadRegex_def demo_am_def)

text \<open>Expiring a silence, listing and reading never post one.\<close>

lemma only_create_posts:
  "PostSilence sil \<notin> set (snd (previewSilence w q))" "PostSilence sil \<notin> set (snd (listSilences w q))"
  "PostSilence sil \<notin> set (snd (getSilence w q))" "PostSilence sil \<notin> set (snd (listAlerts w q st rc))"
  "PostSilence sil \<notin> set (snd (listAlertGroups w q st rc))" "PostSilence sil \<notin> set (snd (expireSilence w q))"
  by (auto simp: previewSilence_def listSilences_def getSilence_def listAlerts_def listAlertGroups_def expireSilence_def
      Let_def split: sum.splits option.splits)

end
