(* ===== verification/Am_Client.thy ===== *)
theory Am_Client
  imports Am_Silence Fx_Http
begin

text \<open>
  The clients of the Alertmanager server, \<open>internal/tools/alertmanager/client.go\<close>: the configuration and its defaults, the
  TLS settings, the allowlist of the HTTP client that both API clients share, and the credentials each of them sends.

  The record \<open>am_outside\<close> is what lies outside: \<open>url.Parse\<close> with the path, the files, the certificate functions, the
  check of \<open>promapi.NewClient\<close> and the encoding of basic authentication. \<open>HTTPClient\<close>, a seam for tests, is nil.
\<close>

record am_config =
  am_url :: string
  am_token :: string
  am_user :: string
  am_password :: string
  am_prom_url :: string
  am_prom_token :: string
  am_prom_user :: string
  am_prom_password :: string
  am_max_silence :: int
  am_timeout :: int
  am_ca_file :: string
  am_cert_file :: string
  am_key_file :: string
  am_skip_verify :: bool

record am_outside =
  ao_parse :: "string \<Rightarrow> (url \<times> string) option"
  ao_file :: "string \<Rightarrow> string option"
  ao_certs :: "string \<Rightarrow> string list"
  ao_pair :: "string \<Rightarrow> string \<Rightarrow> string option"
  ao_prom_ok :: "string \<Rightarrow> bool"
  ao_basic :: "string \<Rightarrow> string \<Rightarrow> string"

definition DefaultMaxSilenceDuration :: int where
  "DefaultMaxSilenceDuration = 24 * 3600 * 1000000000"

definition am_setDefaults :: "am_config \<Rightarrow> am_config" where
  "am_setDefaults c =
     (let c1 = (if am_max_silence c \<le> 0 then c\<lparr>am_max_silence := DefaultMaxSilenceDuration\<rparr> else c)
      in (if am_timeout c1 \<le> 0 then c1\<lparr>am_timeout := 15 * 1000000000\<rparr> else c1))"

subsection \<open>TLS\<close>

record am_tls =
  tl_skip_verify :: bool
  tl_roots :: "string list option"
  tl_pair :: "string option"

datatype client_error =
    NoURLGiven
  | BadURL string
  | RelativeURL string
  | ReadCA string
  | NoCertificates
  | CertWithoutKey
  | BadPair
  | BadPrometheusURL string

definition am_roots :: "am_outside \<Rightarrow> am_config \<Rightarrow> client_error + string list option" where
  "am_roots o' c =
     (if am_ca_file c = [] then Inr None
      else (case ao_file o' (am_ca_file c) of
              None \<Rightarrow> Inl (ReadCA (am_ca_file c))
            | Some pem \<Rightarrow> (if ao_certs o' pem = [] then Inl NoCertificates else Inr (Some (ao_certs o' pem)))))"

definition am_pair :: "am_outside \<Rightarrow> am_config \<Rightarrow> client_error + string option" where
  "am_pair o' c =
     (if am_cert_file c \<noteq> [] \<or> am_key_file c \<noteq> [] then
        (if am_cert_file c = [] \<or> am_key_file c = [] then Inl CertWithoutKey
         else (case ao_pair o' (am_cert_file c) (am_key_file c) of None \<Rightarrow> Inl BadPair | Some p \<Rightarrow> Inr (Some p)))
      else Inr None)"

definition tlsConfig :: "am_outside \<Rightarrow> am_config \<Rightarrow> client_error + am_tls option" where
  "tlsConfig o' c =
     (if am_ca_file c = [] \<and> am_cert_file c = [] \<and> am_key_file c = [] \<and> \<not> am_skip_verify c then Inr None
      else
        (case am_roots o' c of
           Inl e \<Rightarrow> Inl e
         | Inr roots \<Rightarrow>
             (case am_pair o' c of
                Inl e \<Rightarrow> Inl e
              | Inr p \<Rightarrow> Inr (Some \<lparr>tl_skip_verify = am_skip_verify c, tl_roots = roots, tl_pair = p\<rparr>))))"

subsection \<open>The clients\<close>

datatype am_auth = Anonymous | Bearer string | Basic string string

definition auth_choice :: "string \<Rightarrow> string \<Rightarrow> string \<Rightarrow> am_auth" where
  "auth_choice token user password =
     (if token \<noteq> [] then Bearer token
      else if user \<noteq> [] \<or> password \<noteq> [] then Basic user password
      else Anonymous)"

definition allowHosts :: "am_outside \<Rightarrow> am_config \<Rightarrow> string list" where
  "allowHosts o' c =
     AllowHostOf (map_option fst \<circ> ao_parse o') (am_url c) @ AllowHostOf (map_option fst \<circ> ao_parse o') (am_prom_url c)"

record am_client =
  ac_config :: am_config
  ac_scheme :: string
  ac_host :: string
  ac_base :: string
  ac_tls :: "am_tls option"
  ac_http :: http_client
  ac_auth :: am_auth
  ac_prom :: "am_auth option"

definition am_http :: "am_outside \<Rightarrow> am_config \<Rightarrow> http_client" where
  "am_http o' c = NewHTTPClient \<lparr>hp_allow = allowHosts o' c, hp_link_local = False\<rparr> (am_timeout c)"

definition NewClient :: "am_outside \<Rightarrow> am_config \<Rightarrow> client_error + am_client" where
  "NewClient o' cfg =
     (let c = am_setDefaults cfg in
      if am_url c = [] then Inl NoURLGiven
      else
        (case ao_parse o' (am_url c) of
           None \<Rightarrow> Inl (BadURL (am_url c))
         | Some (u, path) \<Rightarrow>
             (if ur_scheme u = [] \<or> ur_host u = [] then Inl (RelativeURL (am_url c))
              else
                (let base = trim_suffix path ''/'' in
                 case tlsConfig o' c of
                   Inl e \<Rightarrow> Inl e
                 | Inr tls \<Rightarrow>
                     (let cl = \<lparr>ac_config = c, ac_scheme = ur_scheme u, ac_host = ur_host u,
                                ac_base = (if base = [] then ''/api/v2'' else base) @ ''/'', ac_tls = tls, ac_http = am_http o' c,
                                ac_auth = auth_choice (am_token c) (am_user c) (am_password c), ac_prom = None\<rparr>
                      in if am_prom_url c = [] then Inr cl
                         else if \<not> ao_prom_ok o' (am_prom_url c) then Inl (BadPrometheusURL (am_prom_url c))
                         else Inr (cl\<lparr>ac_prom :=
                           Some (auth_choice (am_prom_token c) (am_prom_user c) (am_prom_password c))\<rparr>))))))"

definition HasPrometheus :: "am_client \<Rightarrow> bool" where
  "HasPrometheus c \<longleftrightarrow> ac_prom c \<noteq> None"

text \<open>What authentication adds to a request; \<open>promRoundTripper\<close> does it for every request, redirected ones too.\<close>

definition authorize :: "am_outside \<Rightarrow> am_auth \<Rightarrow> http_request \<Rightarrow> http_request" where
  "authorize o' a req =
     (case a of
        Anonymous \<Rightarrow> req
      | Bearer t \<Rightarrow> req\<lparr>rq_header := header_set ''Authorization'' (''Bearer '' @ t) (rq_header req)\<rparr>
      | Basic u p \<Rightarrow> req\<lparr>rq_header := header_set ''Authorization'' (ao_basic o' u p) (rq_header req)\<rparr>)"

definition prom_transport ::
  "(string \<Rightarrow> string) \<Rightarrow> net_world \<Rightarrow> am_outside \<Rightarrow> am_client \<Rightarrow> am_auth \<Rightarrow> unit \<Rightarrow> http_request
     \<Rightarrow> (deny_error + http_request) \<times> unit" where
  "prom_transport uni w o' c a s req = policy_transport uni w (ac_http c) s (authorize o' a req)"

text \<open>
  A query of Prometheus. \<open>promapi\<close> makes an \<open>http.Client\<close> of its own over the transport: \<open>limit\<close> is what that client
  makes of a redirect.
\<close>

definition prom_do ::
  "(string \<Rightarrow> string) \<Rightarrow> net_world \<Rightarrow> am_outside \<Rightarrow> am_client \<Rightarrow> am_auth \<Rightarrow> (http_request \<Rightarrow> deny_error option) \<Rightarrow> nat
     \<Rightarrow> http_request \<Rightarrow> http_request list \<times> deny_error outcome" where
  "prom_do uni w o' c a limit n req =
     (let (sent, out, _) = client_do (prom_transport uni w o' c a) limit (nw_serve w) n () req in (sent, out))"

text \<open>A call of the Alertmanager: the runtime authorizes the request it builds, and the client follows the redirects.\<close>

definition am_do ::
  "(string \<Rightarrow> string) \<Rightarrow> net_world \<Rightarrow> am_outside \<Rightarrow> am_client \<Rightarrow> nat \<Rightarrow> http_request
     \<Rightarrow> http_request list \<times> deny_error outcome" where
  "am_do uni w o' c n req =
     (let (sent, out, _) = client_do (policy_transport uni w (ac_http c)) (check_redirect uni w (ac_http c)) (nw_serve w) n ()
        (authorize o' (ac_auth c) req)
      in (sent, out))"

subsection \<open>What a client is\<close>

lemma am_defaults:
  "am_max_silence (am_setDefaults c) = (if am_max_silence c \<le> 0 then DefaultMaxSilenceDuration else am_max_silence c)"
  "0 < am_max_silence (am_setDefaults c)" "0 < am_timeout (am_setDefaults c)"
  "am_url (am_setDefaults c) = am_url c" "am_prom_url (am_setDefaults c) = am_prom_url c"
  by (auto simp: am_setDefaults_def DefaultMaxSilenceDuration_def Let_def)

lemma new_client_facts:
  assumes "NewClient o' cfg = Inr c"
  shows "ac_config c = am_setDefaults cfg" and "ac_http c = am_http o' (am_setDefaults cfg)"
    and "\<exists>u path. ao_parse o' (am_url cfg) = Some (u, path) \<and> ur_scheme u = ac_scheme c \<and> ur_host u = ac_host c \<and> ac_host c \<noteq> []"
    and "HasPrometheus c \<longleftrightarrow> am_prom_url cfg \<noteq> []"
  using assms by (auto simp: NewClient_def Let_def HasPrometheus_def am_defaults(4,5) split: option.splits sum.splits if_splits)

lemma cert_needs_key:
  "tlsConfig o' c = Inr t \<Longrightarrow> (am_cert_file c = []) = (am_key_file c = [])"
  by (auto simp: tlsConfig_def am_pair_def split: if_splits sum.splits option.splits)

lemma ca_is_used:
  "tlsConfig o' c = Inr t \<Longrightarrow> am_ca_file c \<noteq> [] \<Longrightarrow>
     \<exists>tc roots. t = Some tc \<and> tl_roots tc = Some roots \<and> roots \<noteq> []"
  by (auto simp: tlsConfig_def am_roots_def split: if_splits sum.splits option.splits)

lemma authorize_url [simp]: "rq_url (authorize o' a req) = rq_url req"
  by (simp add: authorize_def split: am_auth.split)

interpretation prom: careful_transport "prom_transport uni w o' c a"
  "\<lambda>r. egress_ok uni w (hc_policy (ac_http c)) r \<and> (\<exists>req. r = authorize o' a req)" for uni w o' c a
  by unfold_locales (auto simp: prom_transport_def policy_transport_def dest: policy_RoundTrip_ok)

lemma allowsHost_append: "allowsHost uni \<lparr>hp_allow = xs @ ys, hp_link_local = l\<rparr> h hp \<longleftrightarrow>
    allowsHost uni \<lparr>hp_allow = xs, hp_link_local = l\<rparr> h hp \<or> allowsHost uni \<lparr>hp_allow = ys, hp_link_local = l\<rparr> h hp"
  by (simp add: allowsHost_def)

lemma allowsHost_unset: "\<not> allowsHost uni \<lparr>hp_allow = AllowHostOf parse [], hp_link_local = l\<rparr> h hp"
  by (simp add: allowsHost_def AllowHostOf_def)

text \<open>A URL whose authority is no pattern.\<close>

definition plain_url :: "(string \<Rightarrow> string) \<Rightarrow> am_outside \<Rightarrow> string \<Rightarrow> url \<Rightarrow> bool" where
  "plain_url uni o' raw u \<longleftrightarrow> (\<exists>path. ao_parse o' raw = Some (u, path)) \<and> \<not> has_prefix (to_lower uni (ur_host u)) ''*''"

definition goes_to :: "(string \<Rightarrow> string) \<Rightarrow> net_world \<Rightarrow> url list \<Rightarrow> http_request \<Rightarrow> bool" where
  "goes_to uni w us r \<longleftrightarrow>
     ur_scheme (rq_url r) \<in> {''http'', ''https''} \<and> (\<exists>u\<in>set us. same_host uni u (rq_url r)) \<and>
     (\<exists>host ip. nw_split w (nw_address w (rq_url r)) = Some host \<and> nw_parse_ip w host = Some ip \<and>
        \<not> link_local_unicast ip \<and> \<not> link_local_multicast ip)"

lemma am_egress:
  assumes "egress_ok uni w (hc_policy (am_http o' c)) r" and "plain_url uni o' (am_url c) u"
    and "am_prom_url c = [] \<and> us = [u] \<or> plain_url uni o' (am_prom_url c) v \<and> us = [u, v]"
  shows "goes_to uni w us r"
proof -
  note host = allow_host_of [where parse = "map_option fst \<circ> ao_parse o'" and uni = uni]
  have "\<exists>x\<in>set us. same_host uni x (rq_url r)"
    using assms host [where raw = "am_url c" and u = u] host [where raw = "am_prom_url c" and u = v]
    by (auto simp: egress_ok_def am_http_def NewHTTPClient_def allowHosts_def allowsHost_append allowsHost_unset plain_url_def)
  then show ?thesis using assms(1) by (auto simp: goes_to_def egress_ok_def am_http_def NewHTTPClient_def)
qed

lemma am_sends: "am_do uni w o' c n req = (sent, out) \<Longrightarrow> r \<in> set sent \<Longrightarrow> egress_ok uni w (hc_policy (ac_http c)) r"
  unfolding am_do_def by (auto split: prod.splits dest: policy.client_sends_ok)

lemma prom_sends: "prom_do uni w o' c a limit n req = (sent, out) \<Longrightarrow> r \<in> set sent \<Longrightarrow>
    egress_ok uni w (hc_policy (ac_http c)) r \<and> (\<exists>req. r = authorize o' a req)"
  unfolding prom_do_def by (auto split: prod.splits dest: prom.client_sends_ok)


text \<open>The credential of Prometheus is on every request, so a redirect to the Alertmanager takes it there.\<close>

lemma prom_credential_everywhere:
  assumes "prom_do uni w o' c a limit n req = (sent, out)" and "r \<in> set sent"
  shows "\<exists>req'. r = authorize o' a req'"
  using assms prom_sends by blast

definition demo_outside :: am_outside where
  "demo_outside = \<lparr>ao_parse = (\<lambda>_. Some (demo_url, [])), ao_file = (\<lambda>_. None), ao_certs = (\<lambda>_. []), ao_pair = (\<lambda>_ _. None),
     ao_prom_ok = (\<lambda>_. True), ao_basic = (\<lambda>_ _. [])\<rparr>"

definition demo_am_config :: am_config where
  "demo_am_config = \<lparr>am_url = ''http://h:80'', am_token = [], am_user = [], am_password = [], am_prom_url = ''http://h:80'',
     am_prom_token = ''t'', am_prom_user = [], am_prom_password = [], am_max_silence = 0, am_timeout = 0, am_ca_file = [],
     am_cert_file = [], am_key_file = [], am_skip_verify = False\<rparr>"

definition demo_am_client :: am_client where
  "demo_am_client = \<lparr>ac_config = am_setDefaults demo_am_config, ac_scheme = ''http'', ac_host = ''h:80'', ac_base = ''/api/v2/'', ac_tls = None,
     ac_http = am_http demo_outside (am_setDefaults demo_am_config), ac_auth = Anonymous, ac_prom = Some (Bearer ''t'')\<rparr>"

lemma demo_new_client: "NewClient demo_outside demo_am_config = Inr demo_am_client"
  by (simp add: NewClient_def Let_def demo_am_config_def am_setDefaults_def demo_outside_def demo_url_def tlsConfig_def
      demo_am_client_def auth_choice_def trim_suffix_def)

lemma demo_plain: "plain_url (\<lambda>s. s) demo_outside ''http://h:80'' demo_url"
  by (simp add: plain_url_def demo_outside_def)
    (simp add: demo_url_def has_prefix_def to_lower_def is_ascii_def lower_byte_def)

lemma demo_am_policy: "hc_policy (ac_http demo_am_client) = \<lparr>hp_allow = [''h:80'', ''h:80''], hp_link_local = False\<rparr>"
  by (simp add: demo_am_client_def am_http_def NewHTTPClient_def allowHosts_def am_setDefaults_def demo_am_config_def
      demo_outside_def AllowHostOf_def demo_hostname) (simp add: demo_url_def)

lemma demo_am_checked: "CheckURL (\<lambda>s. s) (nw_parse_ip demo_net) (hc_policy (ac_http demo_am_client)) (Some demo_url) = None"
  by (simp add: CheckURL_def demo_hostname allowsHost_def demo_am_policy allow_match_def contains_byte demo_net_def)
    (simp add: demo_url_def has_prefix_def to_lower_def is_ascii_def lower_byte_def)


text \<open>A silence that is made through a client is no longer than the configured limit, a day when none is set.\<close>

lemma client_silence_limit:
  assumes "NewClient o' cfg = Inr c" and "am_max_silence cfg < 2 ^ 63 - 1"
    and "PostSilence sil \<in> set (snd (createSilence w (am_max_silence (ac_config c)) r))"
  shows "po_starts sil < po_ends sil \<and>
    po_ends sil - po_starts sil \<le> (if am_max_silence cfg \<le> 0 then DefaultMaxSilenceDuration else am_max_silence cfg)"
proof -
  have m: "0 \<le> am_max_silence (ac_config c)" "am_max_silence (ac_config c) < 2 ^ 63 - 1"
    using new_client_facts(1) [OF assms(1)] assms(2) by (auto simp: am_defaults DefaultMaxSilenceDuration_def)
  show ?thesis
    using created_allowed [OF m assms(3)] new_client_facts(1) [OF assms(1)]
    by (auto simp: silence_allowed_def am_defaults)
qed

end
