(* ===== verification/Am_Query.thy ===== *)
theory Am_Query
  imports Am_Client "HOL-Library.List_Lexorder" "HOL-Library.Char_ord"
begin

text \<open>
  PromQL in the Alertmanager server, \<open>internal/tools/alertmanager/promql.go\<close>: the metric names of an expression, and the
  evaluation of an instant or range query with the statistics of its samples.

  Floating-point numbers are the parameter \<open>'f\<close> with the operations \<open>float_ops\<close>; nothing is assumed of addition and
  division. The parser and its visitor, \<open>metricsql\<close>, and the Prometheus API are parameters too: \<open>pw_visit\<close> gives the
  nodes of an expression, those that are no \<open>MetricExpr\<close> without filters. A sample is its value.
\<close>

subsection \<open>Metric names\<close>

record label_filter =
  lf_label :: string
  lf_value :: string
  lf_negative :: bool
  lf_regexp :: bool

datatype visited = MetricExpr "label_filter list list" | OtherExpr

definition node_names :: "visited \<Rightarrow> string list" where
  "node_names n =
     (case n of
        OtherExpr \<Rightarrow> []
      | MetricExpr [] \<Rightarrow> []
      | MetricExpr (fs # _) \<Rightarrow>
          map lf_value (filter (\<lambda>f. lf_label f = ''__name__'' \<and> \<not> lf_negative f \<and> \<not> lf_regexp f) fs))"

definition parsePromQLMetricNames :: "(string \<Rightarrow> string + visited list) \<Rightarrow> string \<Rightarrow> string + string list" where
  "parsePromQLMetricNames visit expr =
     (case visit expr of Inl e \<Rightarrow> Inl e | Inr ns \<Rightarrow> Inr (sort (remdups (concat (map node_names ns)))))"

definition validatePromQLQuery :: "(string \<Rightarrow> string + visited list) \<Rightarrow> string \<Rightarrow> bool \<times> string list \<times> string" where
  "validatePromQLQuery visit expr =
     (case parsePromQLMetricNames visit expr of Inl e \<Rightarrow> (False, [], e) | Inr names \<Rightarrow> (True, names, []))"

lemma metric_names_exact:
  assumes "visit expr = Inr ns"
  shows "\<exists>names. parsePromQLMetricNames visit expr = Inr names \<and> sorted names \<and> distinct names \<and>
    set names = {lf_value f | f fs gs. MetricExpr (fs # gs) \<in> set ns \<and> f \<in> set fs \<and>
                   lf_label f = ''__name__'' \<and> \<not> lf_negative f \<and> \<not> lf_regexp f}"
proof -
  have "set (node_names n) = {lf_value f | f fs gs. n = MetricExpr (fs # gs) \<and> f \<in> set fs \<and>
      lf_label f = ''__name__'' \<and> \<not> lf_negative f \<and> \<not> lf_regexp f}" for n
    by (auto simp: node_names_def split: visited.splits list.splits)
  then show ?thesis using assms by (auto simp: parsePromQLMetricNames_def)
qed

text \<open>Only the first of the alternatives of a selector is looked at: of \<open>{__name__="a" or __name__="b"}\<close>, \<open>a\<close> alone is named.\<close>

lemma alternatives_not_named:
  "parsePromQLMetricNames (\<lambda>_. Inr [MetricExpr
      [[\<lparr>lf_label = ''__name__'', lf_value = ''a'', lf_negative = False, lf_regexp = False\<rparr>],
       [\<lparr>lf_label = ''__name__'', lf_value = ''b'', lf_negative = False, lf_regexp = False\<rparr>]]]) q = Inr [''a'']"
  by (simp add: parsePromQLMetricNames_def node_names_def)

subsection \<open>Statistics\<close>

record 'f float_ops =
  fl_nan :: "'f \<Rightarrow> bool"
  fl_lt :: "'f \<Rightarrow> 'f \<Rightarrow> bool"
  fl_add :: "'f \<Rightarrow> 'f \<Rightarrow> 'f"
  fl_div :: "'f \<Rightarrow> 'f \<Rightarrow> 'f"
  fl_of :: "nat \<Rightarrow> 'f"

record 'f value_stats =
  vs_min :: 'f
  vs_max :: 'f
  vs_mean :: 'f
  vs_last_mean :: 'f

text \<open>The loop: \<open>count\<close>, \<open>lo\<close>, \<open>hi\<close> and \<open>sum\<close>.\<close>

fun stats_loop :: "'f float_ops \<Rightarrow> 'f list \<Rightarrow> nat \<Rightarrow> 'f \<Rightarrow> 'f \<Rightarrow> 'f \<Rightarrow> nat \<times> 'f \<times> 'f \<times> 'f" where
  "stats_loop F [] count lo hi acc = (count, lo, hi, acc)"
| "stats_loop F (v # vs) count lo hi acc =
     (if fl_nan F v then stats_loop F vs count lo hi acc
      else if count = 0 then stats_loop F vs (count + 1) v v (fl_add F acc v)
      else stats_loop F vs (count + 1) (if fl_lt F v lo then v else lo) (if fl_lt F hi v then v else hi) (fl_add F acc v))"

definition computeStats :: "'f float_ops \<Rightarrow> 'f list \<Rightarrow> 'f value_stats option" where
  "computeStats F values =
     (if values = [] then None
      else
        (let (count, lo, hi, acc) = stats_loop F values 0 (fl_of F 0) (fl_of F 0) (fl_of F 0) in
         if count = 0 then None
         else Some \<lparr>vs_min = lo, vs_max = hi, vs_mean = fl_div F acc (fl_of F count), vs_last_mean = fl_of F 0\<rparr>))"

subsection \<open>Evaluation\<close>

datatype 'f prom_value =
    Matrix "'f list list"
  | Vector "'f list"
  | Scalar 'f
  | OtherValue string

definition value_type :: "'f prom_value \<Rightarrow> string" where
  "value_type v = (case v of Matrix _ \<Rightarrow> ''matrix'' | Vector _ \<Rightarrow> ''vector'' | Scalar _ \<Rightarrow> ''scalar'' | OtherValue t \<Rightarrow> t)"

datatype prom_query = RangeQuery string int int int | InstantQuery string int

record 'f prom_world =
  pw_visit :: "string \<Rightarrow> string + visited list"
  pw_time :: "string \<Rightarrow> int option"
  pw_duration :: "string \<Rightarrow> int option"
  pw_now :: int
  pw_answer :: "prom_query \<Rightarrow> ('f prom_value \<times> string list) option"

record promql_request =
  qr_expr :: string
  qr_time :: string
  qr_start :: string
  qr_end :: string
  qr_step :: string

datatype promql_error =
    NoPrometheus
  | InvalidPromQL string
  | StartWithoutEnd
  | InvalidStartTime
  | InvalidEndTime
  | InvalidStep
  | InvalidTime
  | QueryFailed

record 'f promql_result =
  pr_type :: string
  pr_series :: nat
  pr_values :: "'f value_stats option"
  pr_warnings :: "string list"
  pr_warning :: string

definition parseTimeOrNow :: "'f prom_world \<Rightarrow> string \<Rightarrow> int option" where
  "parseTimeOrNow w s = (if s = [] then Some (pw_now w) else pw_time w s)"

definition query_of :: "'f prom_world \<Rightarrow> promql_request \<Rightarrow> promql_error + prom_query" where
  "query_of w r =
     (if qr_start r \<noteq> [] \<and> qr_end r \<noteq> [] then
        (case pw_time w (qr_start r) of
           None \<Rightarrow> Inl InvalidStartTime
         | Some from' \<Rightarrow>
             (case pw_time w (qr_end r) of
                None \<Rightarrow> Inl InvalidEndTime
              | Some to' \<Rightarrow>
                  (if qr_step r = [] then Inr (RangeQuery (qr_expr r) from' to' (60 * 1000000000))
                   else
                     (case pw_duration w (qr_step r) of
                        None \<Rightarrow> Inl InvalidStep
                      | Some step \<Rightarrow> Inr (RangeQuery (qr_expr r) from' to' step)))))
      else
        (case parseTimeOrNow w (qr_time r) of
           None \<Rightarrow> Inl InvalidTime
         | Some t \<Rightarrow> Inr (InstantQuery (qr_expr r) t)))"

definition numbers :: "'f float_ops \<Rightarrow> 'f list \<Rightarrow> 'f list" where
  "numbers F = filter (\<lambda>v. \<not> fl_nan F v)"

definition last_values :: "'f float_ops \<Rightarrow> 'f list list \<Rightarrow> 'f list" where
  "last_values F m = numbers F (map last (filter (\<lambda>s. s \<noteq> []) m))"

definition matrix_stats :: "'f float_ops \<Rightarrow> 'f list list \<Rightarrow> 'f value_stats option" where
  "matrix_stats F m =
     (case computeStats F (numbers F (concat m)) of
        None \<Rightarrow> None
      | Some st \<Rightarrow>
          (case computeStats F (last_values F m) of
             None \<Rightarrow> Some st
           | Some lst \<Rightarrow> Some (st\<lparr>vs_last_mean := vs_mean lst\<rparr>)))"

definition vector_stats :: "'f float_ops \<Rightarrow> 'f list \<Rightarrow> 'f value_stats option" where
  "vector_stats F v = map_option (\<lambda>st. st\<lparr>vs_last_mean := vs_mean st\<rparr>) (computeStats F (numbers F v))"

definition summarize :: "'f float_ops \<Rightarrow> 'f prom_value \<Rightarrow> string list \<Rightarrow> 'f promql_result" where
  "summarize F val warnings =
     (let r = \<lparr>pr_type = value_type val, pr_series = 0, pr_values = None, pr_warnings = warnings, pr_warning = []\<rparr> in
      case val of
        Matrix m \<Rightarrow>
          (if m = [] then r\<lparr>pr_warning := ''no data''\<rparr> else r\<lparr>pr_series := length m, pr_values := matrix_stats F m\<rparr>)
      | Vector v \<Rightarrow>
          (if v = [] then r\<lparr>pr_warning := ''no data''\<rparr> else r\<lparr>pr_series := length v, pr_values := vector_stats F v\<rparr>)
      | Scalar x \<Rightarrow>
          r\<lparr>pr_series := 1, pr_values := (if fl_nan F x then None
              else Some \<lparr>vs_min = x, vs_max = x, vs_mean = x, vs_last_mean = x\<rparr>)\<rparr>
      | OtherValue _ \<Rightarrow> r\<lparr>pr_warning := ''unsupported result type for summary''\<rparr>)"

text \<open>The handler, and the queries it sends.\<close>

definition evaluatePromQLQuery ::
  "'f float_ops \<Rightarrow> 'f prom_world \<Rightarrow> am_client \<Rightarrow> promql_request \<Rightarrow> (promql_error + 'f promql_result) \<times> prom_query list" where
  "evaluatePromQLQuery F w c r =
     (if \<not> HasPrometheus c then (Inl NoPrometheus, [])
      else
        (case parsePromQLMetricNames (pw_visit w) (qr_expr r) of
           Inl e \<Rightarrow> (Inl (InvalidPromQL e), [])
         | Inr _ \<Rightarrow>
             (if (qr_start r = []) \<noteq> (qr_end r = []) then (Inl StartWithoutEnd, [])
              else
                (case query_of w r of
                   Inl e \<Rightarrow> (Inl e, [])
                 | Inr q \<Rightarrow>
                     (case pw_answer w q of
                        None \<Rightarrow> Inl QueryFailed
                      | Some (val, warnings) \<Rightarrow> Inr (summarize F val warnings), [q])))))"

subsection \<open>What the statistics are\<close>

text \<open>The order of the numbers, as IEEE 754 has it.\<close>

definition float_order :: "'f float_ops \<Rightarrow> bool" where
  "float_order F \<longleftrightarrow>
     (\<forall>x. \<not> fl_lt F x x) \<and> (\<forall>x y z. fl_lt F x y \<longrightarrow> fl_lt F y z \<longrightarrow> fl_lt F x z)"

definition extremes :: "'f float_ops \<Rightarrow> 'f list \<Rightarrow> 'f \<Rightarrow> 'f \<Rightarrow> bool" where
  "extremes F vs lo hi \<longleftrightarrow> lo \<in> set vs \<and> hi \<in> set vs \<and> \<not> fl_nan F lo \<and> \<not> fl_nan F hi \<and>
     (\<forall>v\<in>set vs. \<not> fl_nan F v \<longrightarrow> \<not> fl_lt F v lo \<and> \<not> fl_lt F hi v)"

lemma extremes_step:
  assumes "float_order F" and "extremes F us lo hi" and "\<not> fl_nan F v"
  shows "extremes F (us @ [v]) (if fl_lt F v lo then v else lo) (if fl_lt F hi v then v else hi)"
proof -
  have irr: "\<not> fl_lt F x x" and tr: "fl_lt F x y \<Longrightarrow> fl_lt F y z \<Longrightarrow> fl_lt F x z" for x y z
    using assms(1) unfolding float_order_def by blast+
  have "\<not> fl_lt F u (if fl_lt F v lo then v else lo)" if "u \<in> set (us @ [v])" "\<not> fl_nan F u" for u
    using that assms(2) irr [of v] tr [of u v lo] by (cases "u = v"; cases "fl_lt F v lo") (simp_all add: extremes_def, blast)
  moreover have "\<not> fl_lt F (if fl_lt F hi v then v else hi) u" if "u \<in> set (us @ [v])" "\<not> fl_nan F u" for u
    using that assms(2) irr [of v] tr [of hi v u] by (cases "u = v"; cases "fl_lt F hi v") (simp_all add: extremes_def, blast)
  ultimately show ?thesis using assms(2,3) unfolding extremes_def by simp
qed

lemma stats_loop_extremes:
  assumes "float_order F"
  shows "extremes F us lo hi \<Longrightarrow> 0 < n \<Longrightarrow> stats_loop F vs n lo hi acc = (n', lo', hi', acc') \<Longrightarrow>
    extremes F (us @ vs) lo' hi'"
proof (induction vs arbitrary: us n lo hi acc)
  case (Cons v vs)
  show ?case
  proof (cases "fl_nan F v")
    case True
    then have "extremes F (us @ [v]) lo hi" using Cons.prems(1) by (auto simp: extremes_def)
    then show ?thesis using Cons.IH [of "us @ [v]"] Cons.prems True by simp
  next
    case False
    have "extremes F ((us @ [v]) @ vs) lo' hi'"
      by (rule Cons.IH [OF extremes_step [OF assms Cons.prems(1) False]]) (use Cons.prems(2,3) False in auto)
    then show ?thesis by simp
  qed
qed simp

lemma stats_loop_count: "fst (stats_loop F vs n lo hi acc) = n + length (numbers F vs) \<and>
    snd (snd (snd (stats_loop F vs n lo hi acc))) = fold (\<lambda>v t. fl_add F t v) (numbers F vs) acc"
  by (induction vs arbitrary: n lo hi acc) (auto simp: numbers_def)

lemma stats_loop_start: "stats_loop F vs 0 lo hi acc = (n', lo', hi', acc') \<Longrightarrow> float_order F \<Longrightarrow> 0 < n' \<Longrightarrow>
    extremes F vs lo' hi'"
proof (induction vs)
  case (Cons v vs)
  show ?case
  proof (cases "fl_nan F v")
    case True
    then show ?thesis using Cons by (auto simp: extremes_def)
  next
    case False
    moreover have "extremes F [v] v v" using Cons.prems(2) False by (auto simp: extremes_def float_order_def)
    ultimately show ?thesis using stats_loop_extremes [OF Cons.prems(2), of "[v]" v v 1] Cons.prems(1) by simp
  qed
qed simp

text \<open>
  The statistics of a query are those of the samples that are numbers: there are none exactly when no sample is a
  number; otherwise the least and the greatest value are samples, no number among the samples lies outside them, and the
  mean is the sum of the numbers, added in order, divided by how many there are.
\<close>

theorem stats_exact:
  assumes "float_order F"
  shows "case computeStats F values of
      None \<Rightarrow> numbers F values = []
    | Some st \<Rightarrow> numbers F values \<noteq> [] \<and> extremes F values (vs_min st) (vs_max st) \<and>
        vs_mean st = fl_div F (fold (\<lambda>v t. fl_add F t v) (numbers F values) (fl_of F 0)) (fl_of F (length (numbers F values)))"
proof -
  obtain n lo hi t where l: "stats_loop F values 0 (fl_of F 0) (fl_of F 0) (fl_of F 0) = (n, lo, hi, t)"
    by (metis prod_cases4)
  then show ?thesis
    using stats_loop_count [of F "values" 0 "fl_of F 0" "fl_of F 0" "fl_of F 0"] stats_loop_start [OF l assms] by (auto simp: computeStats_def numbers_def)
qed

definition int_floats :: "int option float_ops" where
  "int_floats = \<lparr>fl_nan = (\<lambda>x. x = None), fl_lt = (\<lambda>x y. x \<noteq> None \<and> y \<noteq> None \<and> the x < the y),
     fl_add = (\<lambda>x y. if x = None \<or> y = None then None else Some (the x + the y)),
     fl_div = (\<lambda>x y. if x = None \<or> y = None then None else Some (the x div the y)), fl_of = (\<lambda>n. Some (int n))\<rparr>"

lemma int_floats_order: "float_order int_floats"
  by (auto simp: float_order_def int_floats_def)

theorem stats_exact_witness:
  "\<exists>st. computeStats int_floats [Some 3, None, Some 1, Some 5] = Some st \<and> vs_mean st = Some 3 \<and>
     extremes int_floats [Some 3, None, Some 1, Some 5] (vs_min st) (vs_max st)"
  using stats_exact [OF int_floats_order, of "[Some 3, None, Some 1, Some 5]"]
  by (auto simp: computeStats_def int_floats_def numbers_def)

lemma query_of_iff:
  "(qr_start r = []) = (qr_end r = []) \<and> query_of w r = Inr q \<longleftrightarrow>
     qr_start r = [] \<and> qr_end r = [] \<and>
        (\<exists>t. (if qr_time r = [] then t = pw_now w else pw_time w (qr_time r) = Some t) \<and> q = InstantQuery (qr_expr r) t) \<or>
     qr_start r \<noteq> [] \<and> qr_end r \<noteq> [] \<and>
        (\<exists>t u d. pw_time w (qr_start r) = Some t \<and> pw_time w (qr_end r) = Some u \<and>
           (if qr_step r = [] then d = 60 * 1000000000 else pw_duration w (qr_step r) = Some d) \<and>
           q = RangeQuery (qr_expr r) t u d)"
proof (cases "qr_start r = []"; cases "qr_end r = []")
  assume "qr_start r \<noteq> []" "qr_end r \<noteq> []"
  then show ?thesis
    by (cases "pw_time w (qr_start r)"; cases "pw_time w (qr_end r)"; cases "pw_duration w (qr_step r)") (auto simp: query_of_def)
qed (auto simp: query_of_def parseTimeOrNow_def split: option.splits)

lemma evaluate_sends:
  "q \<in> set (snd (evaluatePromQLQuery F w c r)) \<longleftrightarrow>
     ac_prom c \<noteq> None \<and> (\<exists>ns. pw_visit w (qr_expr r) = Inr ns) \<and> snd (evaluatePromQLQuery F w c r) = [q] \<and>
     ((qr_start r = []) = (qr_end r = []) \<and> query_of w r = Inr q)"
  by (cases "pw_visit w (qr_expr r)"; cases "query_of w r")
    (auto simp: evaluatePromQLQuery_def HasPrometheus_def parsePromQLMetricNames_def)

text \<open>
  A query is sent to Prometheus exactly when one is configured, the expression parses and the times can be read: an
  instant query, at the time given or now, when neither start nor end is given, a range query, with a step of a minute
  unless another is given, when both are; one alone is an error. At most one query is sent, and it is for the
  expression of the request.
\<close>

theorem query_sent_iff:
  "q \<in> set (snd (evaluatePromQLQuery F w c r)) \<longleftrightarrow>
     ac_prom c \<noteq> None \<and> (\<exists>ns. pw_visit w (qr_expr r) = Inr ns) \<and> snd (evaluatePromQLQuery F w c r) = [q] \<and>
     (qr_start r = [] \<and> qr_end r = [] \<and>
        (\<exists>t. (if qr_time r = [] then t = pw_now w else pw_time w (qr_time r) = Some t) \<and> q = InstantQuery (qr_expr r) t) \<or>
      qr_start r \<noteq> [] \<and> qr_end r \<noteq> [] \<and>
        (\<exists>t u d. pw_time w (qr_start r) = Some t \<and> pw_time w (qr_end r) = Some u \<and>
           (if qr_step r = [] then d = 60 * 1000000000 else pw_duration w (qr_step r) = Some d) \<and>
           q = RangeQuery (qr_expr r) t u d))"
  unfolding evaluate_sends query_of_iff by (rule refl)

text \<open>A value that is no number is left out, but an infinite one is not, and JSON has none: one such sample is in the answer as it is.\<close>

lemma infinite_value_kept:
  assumes "\<not> fl_nan F x"
  shows "\<exists>st. pr_values (summarize F (Vector [x]) ws) = Some st \<and> vs_min st = x \<and> vs_max st = x"
  using assms by (simp add: summarize_def vector_stats_def computeStats_def numbers_def Let_def)

text \<open>When the last value of every series is no number, the mean of the last values is reported as zero.\<close>

lemma last_mean_zero:
  assumes "\<not> fl_nan F x" and "fl_nan F y"
  shows "\<exists>st. pr_values (summarize F (Matrix [[x, y]]) ws) = Some st \<and> vs_last_mean st = fl_of F 0"
  using assms by (simp add: summarize_def matrix_stats_def last_values_def computeStats_def numbers_def Let_def)

end
