(* ===== verification/Blob_S3.thy ===== *)
theory Blob_S3
  imports Blob_Content Fx_Fs
begin

text \<open>
  The blob store on a bucket, \<open>blob/s3/s3.go\<close>: ids that name a server and an object, the prefix that separates tenants,
  and the operations on the bucket they lead to.

  The S3 client is a parameter, \<open>s3_client\<close>, over a state \<open>'b\<close> of the bucket; the calls made on it are recorded. Tracing
  and logging are left out. Times are nanoseconds.
\<close>

subsection \<open>Ids\<close>

definition alnum_byte :: "char \<Rightarrow> bool" where
  "alnum_byte c \<longleftrightarrow> digit_byte c \<or> byte_of c \<in> {65..90::nat} \<or> byte_of c \<in> {97..122::nat}"

definition hex_byte :: "char \<Rightarrow> bool" where
  "hex_byte c \<longleftrightarrow> digit_byte c \<or> byte_of c \<in> {97..102::nat}"

definition validNamespace :: "string \<Rightarrow> bool" where
  "validNamespace s =
     (case s of
        [] \<Rightarrow> False
      | c # cs \<Rightarrow> alnum_byte c \<and> length cs \<le> 63 \<and>
          list_all (\<lambda>x. alnum_byte x \<or> x = CHR ''_'' \<or> x = CHR ''.'' \<or> x = CHR ''-'') cs)"

definition validUUID :: "string \<Rightarrow> bool" where
  "validUUID s \<longleftrightarrow> length s = 36 \<and>
     list_all (\<lambda>(i, c). if i \<in> set [8, 13, 18, 23] then c = CHR ''-'' else hex_byte c) (zip [0..<36] s)"

text \<open>\<open>validID\<close> is both patterns with a slash between, which neither of them matches.\<close>

definition ParseID :: "string \<Rightarrow> (string \<times> string) option" where
  "ParseID oid =
     (case split_slash oid of
        [ns, u] \<Rightarrow> if validNamespace ns \<and> validUUID u then Some (ns, u) else None
      | _ \<Rightarrow> None)"

subsection \<open>The store\<close>

definition trim_slashes :: "string \<Rightarrow> string" where
  "trim_slashes s = trim_right_byte (dropWhile (\<lambda>c. c = CHR ''/'') s) (CHR ''/'')"

definition cleanPrefix :: "string \<Rightarrow> string" where
  "cleanPrefix pre =
     (let p = trim_slashes (path_clean (''/'' @ pre)) in if p = ''.'' then [] else p)"

record s3_options =
  sx_endpoint :: string
  sx_bucket :: string
  sx_namespace :: string
  sx_prefix :: string
  sx_ttl :: int
  sx_max :: int

record s3_store =
  st_bucket :: string
  st_namespace :: string
  st_prefix :: string
  st_ttl :: int
  st_max :: nat

definition maxURLTTL :: int where
  "maxURLTTL = 7 * 24 * 3600 * 1000000000"

definition s3_defaults :: "s3_options \<Rightarrow> blob_error + s3_options" where
  "s3_defaults o' =
     (if sx_endpoint o' = [] then Inl (BadOptions ''Endpoint'')
      else if sx_bucket o' = [] then Inl (BadOptions ''Bucket'')
      else if \<not> validNamespace (sx_namespace o') then Inl (BadOptions ''Namespace'')
      else if sx_ttl o' < 0 then Inl (BadOptions ''URLTTL'')
      else
        (let ttl = (if sx_ttl o' = 0 then DefaultTTL else sx_ttl o') in
         if ttl > maxURLTTL then Inl (BadOptions ''URLTTL'')
         else if sx_max o' < 0 then Inl (BadOptions ''MaxSize'')
         else Inr (o'\<lparr>sx_prefix := cleanPrefix (sx_prefix o'), sx_ttl := ttl,
                      sx_max := (if sx_max o' = 0 then int DefaultMaxSize else sx_max o')\<rparr>)))"

definition parseEndpoint :: "(string \<Rightarrow> url option) \<Rightarrow> string \<Rightarrow> blob_error + (string \<times> bool)" where
  "parseEndpoint parse endpoint =
     (if \<not> str_contains endpoint ''://'' then Inr (endpoint, True)
      else
        (case parse endpoint of
           None \<Rightarrow> Inl (BadOptions ''Endpoint'')
         | Some u \<Rightarrow>
             (if ur_scheme u \<noteq> ''https'' \<and> ur_scheme u \<noteq> ''http'' then Inl (BadOptions ''Endpoint'')
              else if ur_host u = [] then Inl (BadOptions ''Endpoint'')
              else Inr (ur_host u, ur_scheme u = ''https''))))"

text \<open>The policy of the transport that \<open>New\<close> makes when none is given.\<close>

definition endpoint_url :: "string \<Rightarrow> bool \<Rightarrow> string" where
  "endpoint_url host secure = (if secure then ''https'' else ''http'') @ ''://'' @ host"

definition s3_policy :: "(string \<Rightarrow> url option) \<Rightarrow> string \<Rightarrow> bool \<Rightarrow> http_policy" where
  "s3_policy parse host secure =
     \<lparr>hp_allow = AllowHostOf parse (endpoint_url host secure), hp_link_local = False\<rparr>"

text \<open>\<open>connects\<close> is \<open>minio.New\<close>, \<open>exists\<close> is \<open>BucketExists\<close>, \<open>None\<close> an error.\<close>

definition s3_New ::
  "(string \<Rightarrow> url option) \<Rightarrow> (string \<Rightarrow> bool \<Rightarrow> bool) \<Rightarrow> (string \<Rightarrow> bool option) \<Rightarrow> s3_options \<Rightarrow> blob_error + s3_store" where
  "s3_New parse connects present o0 =
     (case s3_defaults o0 of
        Inl e \<Rightarrow> Inl e
      | Inr o' \<Rightarrow>
          (case parseEndpoint parse (sx_endpoint o') of
             Inl e \<Rightarrow> Inl e
           | Inr (host, secure) \<Rightarrow>
               (if \<not> connects host secure then Inl (BadOptions ''Endpoint'')
                else
                  (case present (sx_bucket o') of
                     None \<Rightarrow> Inl (BadOptions ''Bucket'')
                   | Some False \<Rightarrow> Inl (BadOptions ''Bucket'')
                   | Some True \<Rightarrow>
                       Inr \<lparr>st_bucket = sx_bucket o', st_namespace = sx_namespace o', st_prefix = sx_prefix o',
                            st_ttl = sx_ttl o', st_max = nat (sx_max o')\<rparr>))))"

definition WithTenant :: "string \<Rightarrow> s3_store \<Rightarrow> s3_store" where
  "WithTenant pre s = s\<lparr>st_prefix := cleanPrefix pre\<rparr>"

definition s3_key :: "s3_store \<Rightarrow> string \<Rightarrow> string" where
  "s3_key s oid = path_join (st_prefix s) oid"

definition s3_parse :: "s3_store \<Rightarrow> string \<Rightarrow> string option" where
  "s3_parse s oid = (case ParseID oid of None \<Rightarrow> None | Some _ \<Rightarrow> Some (s3_key s oid))"

definition s3_newID :: "s3_store \<Rightarrow> string option \<Rightarrow> string option" where
  "s3_newID s raw = map_option (\<lambda>u. st_namespace s @ ''/'' @ u) raw"

subsection \<open>The bucket\<close>

record s3_meta =
  sm_served :: string
  sm_disposition :: string
  sm_name :: string
  sm_type :: string

datatype s3_call =
    PutObject string string int s3_meta
  | GetObject string string
  | RemoveObject string string
  | Presign string string int

definition call_place :: "s3_call \<Rightarrow> string \<times> string" where
  "call_place c = (case c of PutObject b k _ _ \<Rightarrow> (b, k) | GetObject b k \<Rightarrow> (b, k) | RemoveObject b k \<Rightarrow> (b, k) | Presign b k _ \<Rightarrow> (b, k))"

text \<open>
  \<open>sc_put\<close> is the size that was stored, if the upload went well; \<open>sc_presign\<close> is what a call returns at an instant.
\<close>

record 'b s3_client =
  sc_put :: "string \<Rightarrow> reader \<Rightarrow> int \<Rightarrow> s3_meta \<Rightarrow> 'b \<Rightarrow> nat option \<times> 'b"
  sc_get :: "string \<Rightarrow> 'b \<Rightarrow> (string \<times> s3_meta) option"
  sc_remove :: "string \<Rightarrow> 'b \<Rightarrow> bool \<times> 'b"
  sc_presign :: "string \<Rightarrow> int \<Rightarrow> string option"

record mime_tables =
  mi_by_ext :: "string \<Rightarrow> string"
  mi_media :: "string \<Rightarrow> string option"
  mi_format :: "string \<Rightarrow> (string \<times> string) list \<Rightarrow> string"

type_synonym ('a, 'b) s3_result = "(blob_error + 'a) \<times> 'b \<times> s3_call list"

definition s3_describe ::
  "'b s3_client \<Rightarrow> int \<Rightarrow> s3_store \<Rightarrow> string \<Rightarrow> string \<Rightarrow> string \<Rightarrow> int \<Rightarrow> (blob_error + blob) \<times> s3_call list" where
  "s3_describe C now s oid name mime sz =
     (case s3_parse s oid of
        None \<Rightarrow> (Inl (NotFound oid), [])
      | Some key \<Rightarrow>
          (case sc_presign C key (st_ttl s) of
             None \<Rightarrow> Inl StoreObject
           | Some u \<Rightarrow> Inr \<lparr>bb_id = oid, bb_url = u, bb_name = name, bb_mime = mime, bb_size = sz, bb_expires = now + st_ttl s\<rparr>,
           [Presign (st_bucket s) key (st_ttl s)]))"

text \<open>The name, the type the producing tool declared, and what the object is served as.\<close>

definition upload_meta :: "mime_tables \<Rightarrow> put_options \<Rightarrow> string \<Rightarrow> s3_meta" where
  "upload_meta M opts oid =
     (let name = CleanName (po_name opts) (path_base oid); declared = ContentType (mi_by_ext M) (po_mime opts) name
      in \<lparr>sm_served = ServeType (mi_media M) declared, sm_disposition = ContentDisposition (mi_format M) name,
          sm_name = name, sm_type = declared\<rparr>)"

definition s3_upload ::
  "'b s3_client \<Rightarrow> mime_tables \<Rightarrow> int \<Rightarrow> s3_store \<Rightarrow> string \<Rightarrow> reader \<Rightarrow> int \<Rightarrow> put_options \<Rightarrow> 'b \<Rightarrow> (blob, 'b) s3_result" where
  "s3_upload C M now s oid r sz opts b =
     (let m = upload_meta M opts oid;
          n = (if sz \<le> 0 \<or> sz > int (st_max s) then - 1 else sz);
          put = PutObject (st_bucket s) (s3_key s oid) n m
      in case sc_put C (s3_key s oid) r n m b of
           (None, b1) \<Rightarrow> (Inl StoreObject, b1, [put])
         | (Some stored, b1) \<Rightarrow>
             (if stored > st_max s
              then (Inl TooLarge, snd (sc_remove C (s3_key s oid) b1), [put, RemoveObject (st_bucket s) (s3_key s oid)])
              else (let (res, calls) = s3_describe C now s oid (sm_name m) (sm_type m) (int stored) in (res, b1, put # calls))))"

text \<open>\<open>io.LimitReader\<close>.\<close>

definition limit_reader :: "reader \<Rightarrow> nat \<Rightarrow> reader" where
  "limit_reader r n = \<lparr>rd_data = take n (rd_data r), rd_fails = (rd_fails r \<and> length (rd_data r) < n)\<rparr>"

definition s3_Put ::
  "'b s3_client \<Rightarrow> mime_tables \<Rightarrow> int \<Rightarrow> string option \<Rightarrow> s3_store \<Rightarrow> reader \<Rightarrow> put_options \<Rightarrow> 'b \<Rightarrow> (blob, 'b) s3_result" where
  "s3_Put C M now raw s r opts b =
     (if po_size opts > 0 \<and> po_size opts > int (st_max s) then (Inl TooLarge, b, [])
      else
        (case s3_newID s raw of
           None \<Rightarrow> (Inl NoBlobID, b, [])
         | Some oid \<Rightarrow> s3_upload C M now s oid (limit_reader r (st_max s + 1)) (po_size opts) opts b))"

text \<open>\<open>src\<close> is the file system to attach from: \<open>Stat\<close> and \<open>Open\<close>.\<close>

definition s3_Attach ::
  "'b s3_client \<Rightarrow> mime_tables \<Rightarrow> int \<Rightarrow> string option \<Rightarrow> s3_store
     \<Rightarrow> ((string \<Rightarrow> file_info option) \<times> (string \<Rightarrow> reader option)) option \<Rightarrow> string \<Rightarrow> put_options \<Rightarrow> 'b \<Rightarrow> (blob, 'b) s3_result" where
  "s3_Attach C M now raw s src name opts b =
     (case src of
        None \<Rightarrow> (Inl NoSource, b, [])
      | Some (stat, open_file) \<Rightarrow>
          (case stat name of
             None \<Rightarrow> (Inl StatFailed, b, [])
           | Some info \<Rightarrow>
               (if fi_dir info then (Inl IsDirectory, b, [])
                else if \<not> fi_regular info then (Inl NotRegular, b, [])
                else if fi_size info > int (st_max s) then (Inl TooLarge, b, [])
                else
                  (case open_file name of
                     None \<Rightarrow> (Inl StatFailed, b, [])
                   | Some f \<Rightarrow>
                       (case s3_newID s raw of
                          None \<Rightarrow> (Inl NoBlobID, b, [])
                        | Some oid \<Rightarrow>
                            (let opts' = (if po_name opts = [] then opts\<lparr>po_name := path_base name\<rparr> else opts)
                             in s3_upload C M now s oid f (fi_size info) opts' b))))))"

definition metaName :: "s3_meta \<Rightarrow> string \<Rightarrow> string" where
  "metaName m oid = CleanName (sm_name m) (path_base oid)"

definition metaType :: "mime_tables \<Rightarrow> s3_meta \<Rightarrow> string" where
  "metaType M m = (if sm_type m \<noteq> [] then sm_type m else ContentType (mi_by_ext M) (sm_served m) [])"

definition s3_Open ::
  "'b s3_client \<Rightarrow> mime_tables \<Rightarrow> int \<Rightarrow> s3_store \<Rightarrow> string \<Rightarrow> 'b \<Rightarrow> (string \<times> blob, 'b) s3_result" where
  "s3_Open C M now s oid b =
     (case s3_parse s oid of
        None \<Rightarrow> (Inl (NotFound oid), b, [])
      | Some key \<Rightarrow>
          (case sc_get C key b of
             None \<Rightarrow> (Inl (NotFound oid), b, [GetObject (st_bucket s) key])
           | Some (data, m) \<Rightarrow>
               (case s3_describe C now s oid (metaName m oid) (metaType M m) (int (length data)) of
                  (Inl e, calls) \<Rightarrow> (Inl e, b, GetObject (st_bucket s) key # calls)
                | (Inr d, calls) \<Rightarrow> (Inr (data, d), b, GetObject (st_bucket s) key # calls))))"

definition s3_Delete :: "'b s3_client \<Rightarrow> s3_store \<Rightarrow> string \<Rightarrow> 'b \<Rightarrow> (unit, 'b) s3_result" where
  "s3_Delete C s oid b =
     (case s3_parse s oid of
        None \<Rightarrow> (Inl (NotFound oid), b, [])
      | Some key \<Rightarrow>
          (case sc_remove C key b of (ok, b1) \<Rightarrow> (if ok then Inr () else Inl StoreObject, b1, [RemoveObject (st_bucket s) key])))"

subsection \<open>Keys\<close>

lemma join_split_slash: "join_slash (split_slash s) = s"
proof (induction s)
  case (Cons c s)
  then show ?case
    by (cases "split_slash s"; cases "tl (split_slash s)") auto
qed simp

lemma split_slash_inj: "split_slash s = split_slash t \<Longrightarrow> s = t"
  by (metis join_split_slash)

definition prefix_elems :: "string \<Rightarrow> string list" where
  "prefix_elems p = (if p = [] then [] else split_slash p)"

lemma prefix_elems_inj: "prefix_elems p = prefix_elems q \<Longrightarrow> p = q"
  by (auto simp: prefix_elems_def split_slash_inj split: if_splits) (metis split_slash_nonempty)+

definition clean_root :: "string \<Rightarrow> bool" where
  "clean_root p \<longleftrightarrow> list_all plain_elem (prefix_elems p)"

lemma plain_split_ends:
  assumes "r \<noteq> []" and "list_all plain_elem (split_slash r)"
  shows "hd r \<noteq> CHR ''/''" and "last r \<noteq> CHR ''/''"
proof -
  show "hd r \<noteq> CHR ''/''" using assms by (cases r) (auto simp: plain_elem_def)
  show "last r \<noteq> CHR ''/''"
  proof
    assume "last r = CHR ''/''"
    then have "r = butlast r @ CHR ''/'' # []" using assms(1) by (metis append_butlast_last_id)
    then have "split_slash r = split_slash (butlast r) @ [[]]" by (metis split_slash.simps(1) split_slash_append)
    then show False using assms(2) by (simp add: plain_elem_def)
  qed
qed

lemma trim_slashes_plain: "r = [] \<or> list_all plain_elem (split_slash r) \<Longrightarrow> trim_slashes (CHR ''/'' # r) = r"
proof (cases "r = []")
  case False
  assume "r = [] \<or> list_all plain_elem (split_slash r)"
  then have "hd r \<noteq> CHR ''/''" "last r \<noteq> CHR ''/''" using plain_split_ends False by blast+
  moreover from this False have "dropWhile (\<lambda>c. c = CHR ''/'') r = r" "dropWhile (\<lambda>c. c = CHR ''/'') (rev r) = rev r"
    by (simp_all add: dropWhile_eq_self_iff hd_rev)
  ultimately show ?thesis by (simp add: trim_slashes_def trim_right_byte_def)
qed (simp add: trim_slashes_def trim_right_byte_def)

lemma cleanPrefix_clean: "clean_root (cleanPrefix pre)"
proof -
  have "path_clean (CHR ''/'' # pre) = CHR ''/'' # join_slash (abs_elems (CHR ''/'' # pre))"
    by (rule path_clean_abs) (simp add: path_is_abs_def)
  then obtain r where r: "path_clean (CHR ''/'' # pre) = CHR ''/'' # r" by blast
  then have "r = [] \<or> list_all plain_elem (split_slash r)" by (rule clean_absolute)
  then show ?thesis
    using trim_slashes_plain [of r] by (auto simp: cleanPrefix_def r clean_root_def prefix_elems_def Let_def)
qed

lemma validNamespace_plain: "validNamespace ns \<Longrightarrow> plain_elem ns"
  by (auto simp: validNamespace_def plain_elem_def alnum_byte_def digit_byte_def split: list.splits)

lemma validUUID_plain: "validUUID u \<Longrightarrow> plain_elem u"
  by (auto simp: validUUID_def plain_elem_def)

lemma ParseID_iff: "ParseID oid = Some (ns, u) \<longleftrightarrow> split_slash oid = [ns, u] \<and> validNamespace ns \<and> validUUID u"
  by (auto simp: ParseID_def split: list.splits if_splits)

lemma key_elems:
  assumes "clean_root (st_prefix s)" and "ParseID oid = Some (ns, u)"
  shows "split_slash (s3_key s oid) = prefix_elems (st_prefix s) @ [ns, u]"
proof -
  let ?es = "prefix_elems (st_prefix s) @ [ns, u]"
  have oid: "split_slash oid = [ns, u]" "plain_elem ns" "plain_elem u"
    using assms(2) validNamespace_plain validUUID_plain by (auto simp: ParseID_iff)
  have plain: "list_all plain_elem ?es" using assms(1) oid by (simp add: clean_root_def)
  have slash: "\<forall>e\<in>set ?es. CHR ''/'' \<notin> set e"
    using split_slash_elems oid(1) by (auto simp: prefix_elems_def) (metis list.set_intros(1,2) split_slash_elems)+
  let ?p = "if st_prefix s \<noteq> [] then st_prefix s @ ''/'' @ oid else oid"
  have "oid \<noteq> []" using oid(1) by auto
  then have p: "?p \<noteq> []" "split_slash ?p = ?es" by (simp_all add: oid(1) prefix_elems_def split_slash_append)
  then have "hd ?p \<noteq> CHR ''/''" using plain_split_ends(1) [OF p(1)] plain by simp
  then have "s3_key s oid = join_slash ?es"
    using p plain \<open>oid \<noteq> []\<close> by (auto simp: s3_key_def path_join_def path_clean_def clean_plain)
  then show ?thesis using slash by (simp add: split_join_slash)
qed

subsection \<open>Tenants\<close>

text \<open>The operations of a store, and the calls they make on the bucket.\<close>

datatype s3_op =
    PutOp "string option" reader put_options
  | AttachOp "string option" "((string \<Rightarrow> file_info option) \<times> (string \<Rightarrow> reader option)) option" string put_options
  | OpenOp string
  | DeleteOp string

definition s3_calls :: "'b s3_client \<Rightarrow> mime_tables \<Rightarrow> int \<Rightarrow> s3_store \<Rightarrow> s3_op \<Rightarrow> 'b \<Rightarrow> s3_call list" where
  "s3_calls C M now s op b =
     (case op of
        PutOp raw r opts \<Rightarrow> snd (snd (s3_Put C M now raw s r opts b))
      | AttachOp raw src name opts \<Rightarrow> snd (snd (s3_Attach C M now raw s src name opts b))
      | OpenOp oid \<Rightarrow> snd (snd (s3_Open C M now s oid b))
      | DeleteOp oid \<Rightarrow> snd (snd (s3_Delete C s oid b)))"

text \<open>Random ids are version 4 UUIDs in their canonical form.\<close>

definition op_mints_uuid :: "s3_op \<Rightarrow> bool" where
  "op_mints_uuid op =
     (case op of PutOp (Some u) _ _ \<Rightarrow> validUUID u | AttachOp (Some u) _ _ _ \<Rightarrow> validUUID u | _ \<Rightarrow> True)"

text \<open>A store as the program makes one: by \<open>New\<close>, or by \<open>WithTenant\<close> from such a store.\<close>

inductive s3_made :: "s3_store \<Rightarrow> bool" where
  made_new: "s3_New parse connects present o' = Inr s \<Longrightarrow> s3_made s"
| made_tenant: "s3_made s \<Longrightarrow> s3_made (WithTenant pre s)"

lemma s3_made_sound: "s3_made s \<Longrightarrow> validNamespace (st_namespace s) \<and> clean_root (st_prefix s) \<and> 0 < st_max s \<and> 0 < st_ttl s"
proof (induction rule: s3_made.induct)
  case (made_new parse connects present o' s)
  then show ?case
    by (auto simp: s3_New_def s3_defaults_def Let_def cleanPrefix_clean DefaultTTL_def DefaultMaxSize_def
        split: if_splits sum.splits option.splits bool.splits)
next
  case (made_tenant s pre)
  then show ?case by (simp add: WithTenant_def cleanPrefix_clean)
qed

lemma uuid_no_slash: "validUUID u \<Longrightarrow> CHR ''/'' \<notin> set u"
proof
  assume v: "validUUID u" and "CHR ''/'' \<in> set u"
  then obtain i where i: "i < 36" "u ! i = CHR ''/''" by (auto simp: in_set_conv_nth validUUID_def)
  then have "if i \<in> set [8, 13, 18, 23] then u ! i = CHR ''-'' else hex_byte (u ! i)"
    using v by (auto simp: validUUID_def list_all_length)
  then show False using i(2) by (simp add: hex_byte_def digit_byte_def split: if_splits)
qed

lemma newID_parses:
  assumes "validNamespace (st_namespace s)" and "validUUID u"
  shows "ParseID (st_namespace s @ ''/'' @ u) = Some (st_namespace s, u)"
proof -
  have "CHR ''/'' \<notin> set (st_namespace s)"
    using assms(1) by (auto simp: validNamespace_def alnum_byte_def digit_byte_def list_all_iff split: list.splits)
  moreover have "CHR ''/'' \<notin> set u"
    using uuid_no_slash [OF assms(2)] .
  ultimately show ?thesis using assms by (simp add: ParseID_iff split_slash_append split_slash_plain)
qed

lemma describe_calls:
  "s3_describe C now s oid name mime sz = (res, calls) \<Longrightarrow> c \<in> set calls \<Longrightarrow> call_place c = (st_bucket s, s3_key s oid)"
  by (auto simp: s3_describe_def s3_parse_def call_place_def split: option.splits)

lemma upload_calls:
  assumes "c \<in> set (snd (snd (s3_upload C M now s oid r sz opts b)))"
  shows "call_place c = (st_bucket s, s3_key s oid)"
  using assms
  by (auto simp: s3_upload_def Let_def call_place_def dest: describe_calls split: prod.splits option.splits if_splits)

lemma calls_in_tenant:
  assumes "s3_made s" and "op_mints_uuid op" and "c \<in> set (s3_calls C M now s op b)"
  shows "\<exists>oid ns u. ParseID oid = Some (ns, u) \<and> call_place c = (st_bucket s, s3_key s oid)"
proof -
  have minted: ?thesis
    if "c \<in> set (snd (snd (s3_upload C M now s (st_namespace s @ ''/'' @ u) f sz opts b)))" "validUUID u" for u f sz opts
    using upload_calls [OF that(1)] that(2) newID_parses s3_made_sound [OF assms(1)] by blast
  show ?thesis
  proof (cases op)
    case (PutOp raw r opts)
    then obtain u where u: "raw = Some u" "\<not> (po_size opts > 0 \<and> po_size opts > int (st_max s))"
      using assms(3) by (cases raw) (auto simp: s3_calls_def s3_Put_def s3_newID_def split: if_splits)
    then have "c \<in> set (snd (snd (s3_upload C M now s (st_namespace s @ ''/'' @ u) (limit_reader r (st_max s + 1)) (po_size opts) opts b)))"
      using assms(3) PutOp by (auto simp: s3_calls_def s3_Put_def s3_newID_def split: if_splits)
    then show ?thesis by (rule minted) (use assms(2) PutOp u in \<open>simp add: op_mints_uuid_def\<close>)
  next
    case (AttachOp raw src name opts)
    then obtain u f sz opts' where u: "raw = Some u"
      and up: "c \<in> set (snd (snd (s3_upload C M now s (st_namespace s @ ''/'' @ u) f sz opts' b)))"
      using assms(3) by (auto simp: s3_calls_def s3_Attach_def s3_newID_def Let_def split: if_splits option.splits prod.splits)
    show ?thesis by (rule minted [OF up]) (use assms(2) AttachOp u in \<open>simp add: op_mints_uuid_def\<close>)
  next
    case (OpenOp oid)
    then obtain ns u where oid: "ParseID oid = Some (ns, u)"
      using assms(3) by (cases "ParseID oid") (auto simp: s3_calls_def s3_Open_def s3_parse_def)
    then have "call_place c = (st_bucket s, s3_key s oid)"
      using assms(3) OpenOp
      by (auto simp: s3_calls_def s3_Open_def s3_parse_def call_place_def dest: describe_calls split: option.splits prod.splits sum.splits)
    then show ?thesis using oid by blast
  next
    case (DeleteOp oid)
    then obtain ns u where "ParseID oid = Some (ns, u)"
      using assms(3) by (cases "ParseID oid") (auto simp: s3_calls_def s3_Delete_def s3_parse_def)
    then show ?thesis
      using assms(3) DeleteOp by (auto simp: s3_calls_def s3_Delete_def s3_parse_def call_place_def split: prod.splits)
  qed
qed

definition tenant_key :: "s3_store \<Rightarrow> string \<times> string \<Rightarrow> bool" where
  "tenant_key s place \<longleftrightarrow> fst place = st_bucket s \<and>
     (\<exists>ns u. validNamespace ns \<and> validUUID u \<and>
        snd place = (if st_prefix s = [] then [] else st_prefix s @ ''/'') @ ns @ ''/'' @ u)"

lemma parsed_key:
  assumes "s3_made s" and "ParseID oid = Some (ns, u)"
  shows "tenant_key s (st_bucket s, s3_key s oid)"
proof -
  have slash: "CHR ''/'' \<notin> set ns" "CHR ''/'' \<notin> set u"
    using assms(2) split_slash_elems [of _ oid] by (auto simp: ParseID_iff)
  have "split_slash ((if st_prefix s = [] then [] else st_prefix s @ ''/'') @ ns @ ''/'' @ u) = prefix_elems (st_prefix s) @ [ns, u]"
    using slash by (simp add: prefix_elems_def split_slash_append split_slash_plain)
  moreover have "split_slash (s3_key s oid) = prefix_elems (st_prefix s) @ [ns, u]"
    by (rule key_elems [OF _ assms(2)]) (simp add: s3_made_sound [OF assms(1)])
  ultimately have "s3_key s oid = (if st_prefix s = [] then [] else st_prefix s @ ''/'') @ ns @ ''/'' @ u"
    using split_slash_inj by metis
  then show ?thesis using assms(2) by (auto simp: tenant_key_def ParseID_iff)
qed

lemma keys_apart:
  assumes "s3_made s" and "s3_made t" and "ParseID x = Some (ns, u)" and "ParseID y = Some (ns', u')"
    and "s3_key s x = s3_key t y"
  shows "st_prefix s = st_prefix t"
proof -
  have "split_slash (s3_key s x) = prefix_elems (st_prefix s) @ [ns, u]"
    by (rule key_elems [OF _ assms(3)]) (simp add: s3_made_sound [OF assms(1)])
  moreover have "split_slash (s3_key t y) = prefix_elems (st_prefix t) @ [ns', u']"
    by (rule key_elems [OF _ assms(4)]) (simp add: s3_made_sound [OF assms(2)])
  ultimately show ?thesis using assms(5) by (intro prefix_elems_inj) simp
qed

text \<open>
  C17. The prefix of a store is a wall. Whatever ids, names and payloads its operations are called with, every call on the
  bucket is for a key made of the prefix, the namespace of a server and a UUID; and two stores with different
  prefixes, in one bucket or not, never touch the same key, neither to read nor to write nor to hand out a URL.
\<close>

theorem tenants_apart:
  assumes "s3_made s" and "op_mints_uuid op" and "c \<in> set (s3_calls C M now s op b)"
    and "s3_made t" and "op_mints_uuid op'" and "d \<in> set (s3_calls C M now' t op' b')"
  shows "tenant_key s (call_place c) \<and> tenant_key t (call_place d) \<and>
    (st_prefix s = st_prefix t \<or> snd (call_place c) \<noteq> snd (call_place d))"
proof -
  obtain x ns u where c: "ParseID x = Some (ns, u)" "call_place c = (st_bucket s, s3_key s x)"
    using calls_in_tenant [OF assms(1-3)] by blast
  obtain y ns' u' where d: "ParseID y = Some (ns', u')" "call_place d = (st_bucket t, s3_key t y)"
    using calls_in_tenant [OF assms(4-6)] by blast
  show ?thesis
    using parsed_key [OF assms(1) c(1)] parsed_key [OF assms(4) d(1)] keys_apart [OF assms(1,4) c(1) d(1)] c(2) d(2) by auto
qed

definition demo_s3_options :: s3_options where
  "demo_s3_options = \<lparr>sx_endpoint = ''s3'', sx_bucket = ''b'', sx_namespace = ''ssh'', sx_prefix = ''a'', sx_ttl = 0, sx_max = 0\<rparr>"

definition demo_s3 :: s3_store where
  "demo_s3 = \<lparr>st_bucket = ''b'', st_namespace = ''ssh'', st_prefix = ''a'', st_ttl = DefaultTTL, st_max = DefaultMaxSize\<rparr>"

definition demo_uuid :: string where
  "demo_uuid = ''01234567-0123-4123-8123-0123456789ab''"

lemma demo_uuid_valid: "validUUID demo_uuid"
  by (simp add: demo_uuid_def validUUID_def upt_rec hex_byte_def digit_byte_def)

lemma demo_clean_prefix: "cleanPrefix [c] = [c]" if "c \<noteq> CHR ''/''" "c \<noteq> CHR ''.''"
  using that by (simp add: cleanPrefix_def path_clean_def trim_slashes_def trim_right_byte_def)

lemma demo_s3_made: "s3_made demo_s3"
proof -
  have "s3_New (\<lambda>_. None) (\<lambda>_ _. True) (\<lambda>_. Some True) demo_s3_options = Inr demo_s3"
    by (simp add: s3_New_def s3_defaults_def demo_s3_options_def demo_s3_def validNamespace_def alnum_byte_def digit_byte_def
        DefaultTTL_def maxURLTTL_def parseEndpoint_def has_prefix_def demo_clean_prefix)
  then show ?thesis by (rule made_new)
qed

text \<open>A bucket in memory, which presigns as \<open>signs\<close> says.\<close>

definition memory_bucket :: "bool \<Rightarrow> (string, string \<times> s3_meta) gomap s3_client" where
  "memory_bucket signs =
     \<lparr>sc_put = (\<lambda>k r n m b. if rd_fails r then (None, b) else (Some (length (rd_data r)), AList.update k (rd_data r, m) b)),
      sc_get = (\<lambda>k b. map_of b k), sc_remove = (\<lambda>k b. (True, AList.delete k b)),
      sc_presign = (\<lambda>k ttl. if signs then Some (''u'' @ k) else None)\<rparr>"

definition demo_mime :: mime_tables where
  "demo_mime = \<lparr>mi_by_ext = (\<lambda>_. []), mi_media = (\<lambda>_. None), mi_format = (\<lambda>_ _. [])\<rparr>"

definition demo_id :: string where
  "demo_id = ''ssh/'' @ demo_uuid"

lemma demo_id_parses: "ParseID demo_id = Some (''ssh'', demo_uuid)"
  using newID_parses [of demo_s3 demo_uuid] demo_uuid_valid s3_made_sound [OF demo_s3_made]
  by (simp add: demo_id_def demo_s3_def)

theorem tenants_apart_witness:
  "snd (call_place (RemoveObject ''b'' (s3_key demo_s3 demo_id))) \<noteq>
   snd (call_place (RemoveObject ''b'' (s3_key (WithTenant ''c'' demo_s3) demo_id)))"
proof -
  have calls: "RemoveObject ''b'' (s3_key s demo_id) \<in> set (s3_calls (memory_bucket True) demo_mime 0 s (DeleteOp demo_id) [])"
    if "st_bucket s = ''b''" for s
    using that by (simp add: s3_calls_def s3_Delete_def s3_parse_def demo_id_parses memory_bucket_def)
  show ?thesis
    using tenants_apart [OF demo_s3_made _ calls made_tenant [OF demo_s3_made] _ calls, of "''c''"]
    by (simp add: op_mints_uuid_def demo_s3_def WithTenant_def demo_clean_prefix)
qed

subsection \<open>What is stored is read back\<close>

text \<open>
  \<open>PutObject\<close> and \<open>GetObject\<close> as documented: an upload whose size is given rightly, or as unknown, stores the whole
  payload or fails, and what was stored is read back with its metadata, where \<open>keeps\<close> says that a value passes
  through a header unchanged.
\<close>

definition s3_lawful :: "'b s3_client \<Rightarrow> (string \<Rightarrow> bool) \<Rightarrow> bool" where
  "s3_lawful C keeps \<longleftrightarrow>
     (\<forall>k r n m b stored b'. sc_put C k r n m b = (Some stored, b') \<longrightarrow> n = - 1 \<or> n = int (length (rd_data r)) \<longrightarrow>
        keeps (sm_name m) \<longrightarrow> keeps (sm_type m) \<longrightarrow>
        \<not> rd_fails r \<and> stored = length (rd_data r) \<and> sc_get C k b' = Some (rd_data r, m))"

lemma ContentType_nonempty [simp]: "ContentType by_ext declared name \<noteq> []"
  by (simp add: ContentType_def)

lemma upload_ok:
  assumes "s3_upload C M now s oid r sz opts b = (Inr d, b', calls)"
  shows "\<exists>stored. sc_put C (s3_key s oid) r (if sz \<le> 0 \<or> sz > int (st_max s) then - 1 else sz) (upload_meta M opts oid) b = (Some stored, b') \<and>
    stored \<le> st_max s \<and> ParseID oid \<noteq> None \<and> sc_presign C (s3_key s oid) (st_ttl s) = Some (bb_url d) \<and>
    d = \<lparr>bb_id = oid, bb_url = bb_url d, bb_name = sm_name (upload_meta M opts oid), bb_mime = sm_type (upload_meta M opts oid),
         bb_size = int stored, bb_expires = now + st_ttl s\<rparr>"
  using assms
  by (auto simp: s3_upload_def s3_describe_def s3_parse_def Let_def split: prod.splits option.splits if_splits)

lemma upload_meta_type [simp]: "sm_type (upload_meta M opts oid) \<noteq> []"
  by (simp add: upload_meta_def Let_def)


lemma memory_bucket_lawful: "s3_lawful (memory_bucket signs) (\<lambda>_. True)"
  by (simp add: s3_lawful_def memory_bucket_def)

definition demo_payload :: put_options where
  "demo_payload = \<lparr>po_name = ''f'', po_mime = ''text/plain'', po_size = 0, po_ttl = 5\<rparr>"

lemma demo_put:
  "\<exists>d b calls. s3_Put (memory_bucket True) demo_mime 0 (Some demo_uuid) demo_s3 \<lparr>rd_data = ''hi'', rd_fails = False\<rparr> demo_payload [] =
     (Inr d, b, calls) \<and> bb_id d = demo_id"
proof -
  have "s3_newID demo_s3 (Some demo_uuid) = Some demo_id" by (simp add: s3_newID_def demo_s3_def demo_id_def)
  moreover have "2 \<le> st_max demo_s3" by (simp add: demo_s3_def DefaultMaxSize_def)
  ultimately show ?thesis
    by (simp add: s3_Put_def demo_payload_def s3_upload_def s3_describe_def s3_parse_def demo_id_parses memory_bucket_def
        limit_reader_def Let_def)
qed


text \<open>
  A URL that cannot be signed makes the call fail after the bytes landed, and the object stays, where the comment on
  \<open>upload\<close> promises that a failed call leaves nothing.
\<close>

lemma unsigned_object_stays:
  "\<exists>b calls. s3_Put (memory_bucket False) demo_mime 0 (Some demo_uuid) demo_s3 \<lparr>rd_data = ''hi'', rd_fails = False\<rparr> demo_payload [] =
     (Inl StoreObject, b, calls) \<and> map_of b (s3_key demo_s3 demo_id) \<noteq> None"
proof -
  have "s3_newID demo_s3 (Some demo_uuid) = Some demo_id" by (simp add: s3_newID_def demo_s3_def demo_id_def)
  moreover have "2 \<le> st_max demo_s3" by (simp add: demo_s3_def DefaultMaxSize_def)
  ultimately show ?thesis
    by (simp add: s3_Put_def demo_payload_def s3_upload_def s3_describe_def s3_parse_def demo_id_parses memory_bucket_def
        limit_reader_def Let_def)
qed

text \<open>The lifetime that a caller asks for is not looked at.\<close>

lemma ttl_ignored: "s3_Put C M now raw s r (opts\<lparr>po_ttl := ttl\<rparr>) b = s3_Put C M now raw s r opts b"
  by (cases opts) (simp add: s3_Put_def s3_upload_def upload_meta_def split: option.split)

text \<open>What is larger than the limit is not kept: the object is removed again, if the bucket obliges.\<close>

lemma oversized_removed:
  assumes "sc_put C (s3_key s oid) r (if sz \<le> 0 \<or> sz > int (st_max s) then - 1 else sz) (upload_meta M opts oid) b = (Some stored, b1)"
    and "st_max s < stored" and "sc_get C (s3_key s oid) (snd (sc_remove C (s3_key s oid) b1)) = None"
  shows "\<exists>b'. s3_upload C M now s oid r sz opts b = (Inl TooLarge, b', [PutObject (st_bucket s) (s3_key s oid)
      (if sz \<le> 0 \<or> sz > int (st_max s) then - 1 else sz) (upload_meta M opts oid), RemoveObject (st_bucket s) (s3_key s oid)]) \<and>
    sc_get C (s3_key s oid) b' = None"
  using assms by (simp add: s3_upload_def Let_def)

text \<open>The transport of a store reaches the endpoint alone.\<close>

lemma s3_endpoint_only:
  assumes "parse (endpoint_url host secure) = Some u"
    and "\<not> has_prefix (to_lower uni (ur_host u)) ''*''" and "egress_ok uni w (s3_policy parse host secure) r"
  shows "same_host uni u (rq_url r)"
  by (rule allow_host_of [where parse = parse and raw = "endpoint_url host secure" and ll = False, OF assms(1,2)])
    (use assms(3) in \<open>simp add: s3_policy_def egress_ok_def\<close>)

text \<open>
  The name of an object is cleaned when it is stored and again when it is opened, and cleaning is not idempotent: a control
  byte before a blank goes the first time, the blank the second.
\<close>

lemma name_cleaned_twice:
  "CleanName [CHR 0x01, CHR 0x20, CHR ''a''] x = '' a''" "CleanName '' a'' x = ''a''"
proof -
  have trim: "trim_space [CHR 0x01, CHR 0x20, CHR ''a''] = [CHR 0x01, CHR 0x20, CHR ''a'']" "trim_space '' a'' = ''a''"
    by (simp_all add: trim_space_def strip_left.simps lead_enc_def space_encs_def has_prefix_def)
  have runes: "filter printable_rune (runes_of [CHR 0x01, CHR 0x20, CHR ''a'']) = [32, 97]"
      "filter printable_rune (runes_of ''a'') = [97]"
    by (simp_all add: runes_of.simps printable_rune_def)
  have enc: "string_of_runes [32, 97] = '' a''" "string_of_runes [97] = ''a''"
    by (simp_all add: string_of_runes_def encode_ascii char_of_def bit_iff_odd)
  show "CleanName [CHR 0x01, CHR 0x20, CHR ''a''] x = '' a''" "CleanName '' a'' x = ''a''"
    by (simp_all add: CleanName_def trim path_base_def trim_right_byte_def runes enc)
qed

end
