(* ===== verification/Spec2Isabelle.thy ===== *)
theory Spec2Isabelle
  imports Gw_Glob Gw_Router Gw_Names Gw_Secrets Gw_Redact Gw_Config Gw_Features Gw_Registry
    Gw_Scope Gw_Discovery Gw_Path Gw_Blob Gw_Upstream Gw_Gateway Gw_Reload Gw_Reload_Correct Gw_Reach
    Gw_Reloader Mcp_Http Mcp_Auth Fx_Http Fx_Fs Gw_Transport Gw_Inbound
    Blob_Util Blob_Http Blob_Content Ses_Names Ses_Job Ses_Spool Ses_Pool
    Ses_Copy Ses_Addr Ses_SshConfig Ses_Client Ses_Dial
    Am_Silence Am_Client Am_Query Blob_S3
begin

text \<open>
  Verification library of \<open>gooners\<close>, a set of servers for the Model Context Protocol and the gateway in front
  of them. Paths below are relative to \<open>src/\<close>.

  \<^bold>\<open>The program.\<close> The gateway (\<open>internal/gateway\<close>) reads a YAML configuration, starts a client for each upstream
  MCP server, and serves the tools, prompts and resources of all of them under prefixed names, on one endpoint
  or on a route of their own. Between a client and an upstream stand inbound authentication (\<open>mcpauth\<close>), the scopes
  of the client's token, a search over hidden tools, and redaction of what comes back. It follows changes: of an
  upstream's lists, of an upstream's connection, and of the configuration file, by reloading. All its reach to the
  outside goes through \<open>internal/effect\<close>, which confines files to a directory and HTTP to a host. Files too big
  for a tool result go through a blob store (\<open>blob\<close>). The servers that run on remote hosts share a pool of SSH
  sessions with background transfers (\<open>internal/session\<close>). Of the servers over an API, that of the Alertmanager
  (\<open>internal/tools/alertmanager\<close>) adds rules of its own: which silences may be made, and which hosts it speaks to.

  \<^bold>\<open>Theories and code.\<close>

  \<^item> \<open>Gw_Prelude\<close>, \<open>Gw_Strings\<close>, \<open>Gw_Path\<close>, \<open>Mcp_Http\<close>: Go's maps, strings, runes, slash paths, headers and query
    strings, as far as the code uses them, with the lemmas every component shares. A Go map is an association list
    read by \<open>map_of\<close>; the order a loop over it takes is an argument wherever it can be observed.
  \<^item> \<open>Gw_Glob\<close>, \<open>Gw_Router\<close>: name patterns (\<open>glob.go\<close>) and the route trie (\<open>router/router.go\<close>); the trie agrees with
    the longest registered prefix.
  \<^item> \<open>Gw_Names\<close>, \<open>Gw_Features\<close>, \<open>Gw_Registry\<close>: name spaces and collisions (\<open>ns.go\<close>), what of an upstream is exported
    (\<open>upstream.go\<close>, \<open>gateway.go\<close>), and the registry of what is served with its difference against a fresh listing
    (\<open>feature_registry.go\<close>).
  \<^item> \<open>Gw_Secrets\<close>, \<open>Gw_Redact\<close>, \<open>Gw_Config\<close>: secret sources and interpolation (\<open>secret.go\<close>), the redactor
    (\<open>detect.go\<close>, \<open>middleware\<close>), and decoding, defaults and validation of the configuration (\<open>config.go\<close>).
  \<^item> \<open>Gw_Scope\<close>, \<open>Gw_Discovery\<close>, \<open>Gw_Blob\<close>: scopes (\<open>scope.go\<close>, \<open>auth.go\<close>), the catalog tools (\<open>discovery.go\<close>), and
    sharing of host files (\<open>blob.go\<close>).
  \<^item> \<open>Gw_Upstream\<close>: one upstream client as a transition system over its critical sections: connecting,
    supervising, calls, draining and closing (\<open>upstream.go\<close>, \<open>drain.go\<close>).
  \<^item> \<open>Gw_Gateway\<close>, \<open>Gw_Reload\<close>, \<open>Gw_Reload_Correct\<close>, \<open>Gw_Reach\<close>: the gateway's state and handlers (\<open>gateway.go\<close>),
    the reload plan and its application (\<open>reload.go\<close>), what reloading guarantees, and the states a running gateway
    can reach, with the invariant that ties its registry, its upstreams and its routes together.
  \<^item> \<open>Gw_Reloader\<close>: the loops that watch the configuration and reload (\<open>source.go\<close>, \<open>reloader.go\<close>), interleaved
    with edits of the file.
  \<^item> \<open>Mcp_Auth\<close>, \<open>Gw_Inbound\<close>: the secret header and the OAuth server (\<open>mcpauth\<close>), and their use by the gateway.
  \<^item> \<open>Fx_Http\<close>, \<open>Fx_Fs\<close>, \<open>Gw_Transport\<close>: egress policy and confined files (\<open>internal/effect\<close>), and the transports
    of upstreams (\<open>internal/gateway/transport\<close>).
  \<^item> \<open>Blob_Util\<close>, \<open>Blob_Http\<close>, \<open>Blob_Content\<close>: naming rules (\<open>internal/blobutil\<close>), the store over HTTP with its
    interleaved critical sections, and the inline-or-stored convention (\<open>blob\<close>). \<open>Blob_S3\<close> is the store on a bucket
    (\<open>blob/s3\<close>), whose prefixes separate tenants.
  \<^item> \<open>Ses_Names\<close>, \<open>Ses_Job\<close>, \<open>Ses_Spool\<close>, \<open>Ses_Pool\<close> model \<open>internal/session\<close>: identifiers and the command lines that
    are sent to a host (\<open>session_id.go\<close>, \<open>pool_handlers.go\<close>), transfer jobs and their table (\<open>job.go\<close>, \<open>scp.go\<close>), the
    pipelined upload in \<open>Ses_Copy\<close> (\<open>copy.go\<close>), the buffer that spools long output to a file (\<open>spooling_buffer.go\<close>), and the pool with its event loop and
    the transfers that run over it (\<open>pool.go\<close>, \<open>pool_handlers.go\<close>).
  \<^item> \<open>Ses_Addr\<close>, \<open>Ses_SshConfig\<close>, \<open>Ses_Client\<close>, \<open>Ses_Dial\<close> model how a session comes about: targets and forwards
    (\<open>config.go\<close>, \<open>forward.go\<close>), the machines of \<open>ssh_config\<close> (\<open>sshconfig.go\<close>), what a client is configured with and
    which host keys it accepts, and dialing over jump hosts (\<open>config.go\<close>).
  \<^item> \<open>Am_Silence\<close>, \<open>Am_Client\<close>, \<open>Am_Query\<close> model \<open>internal/tools/alertmanager\<close>: alerts, matchers and guarded
    silences, the two API clients with their allowlist and credentials, and PromQL with its statistics.

  \<^bold>\<open>Conventions.\<close> Strings are byte lists, as in Go; runes are numbers. Fallible functions return \<open>error + 'a\<close> or
  an option, with an error type per component. State is a record, returned updated. Where goroutines interleave, the
  units are the sections under a lock, as steps of an inductive relation, and the properties hold for every order
  of them. Interfaces that several parts implement are locales (\<open>blob_contract\<close>, \<open>careful_transport\<close>, \<open>owner_table\<close>,
  \<open>path_router\<close>, \<open>secret_service\<close>), proved once and interpreted on the model.

  \<^bold>\<open>Parameters.\<close> What the sources only call is an argument: the YAML parser, the regular expression engine beyond
  the two built-in expressions, \<open>time.ParseDuration\<close>, URL and address parsing, the SDK's servers and sessions (their
  answers, and the calls made on them are recorded), SHA-256, random bytes, clocks, the operating system's file
  operations, the tables of \<open>mime\<close>. Lower casing outside ASCII is an argument too. Where a property needs such a
  part to behave, the hypothesis says so and its witness gives an instance.

  \<^bold>\<open>Groups of results.\<close> Invariants of the running system: every served tool has a live owner, a reload leaves the
  gateway as a restart would, watching misses no change, closing strands no call, the counters of calls in flight
  are exact, tokens are earned, no object of the store is forgotten, closing the session pool stops every session
  and transfer while a transfer outlives the session entry it began on. Confinement: scopes, files, hosts, shared
  directories, tenants of a bucket, names in headers, passwords kept out of command lines. Host keys and identities: a server is
  trusted and is shown keys only as configured. Refinement: the spooling buffer is the bytes written to it, and the
  pipelined upload puts the bytes of its source on the host in every order of its goroutines. Functional results: the router, collisions, search, validation and decoding, the
  registry's incremental update against building anew. Liveness: a close with calls in flight can finish, and a
  gateway left alone catches up with its configuration.

  \<^bold>\<open>Bounds.\<close> There is no fuel: loops over data are structural or have a measure. Loops that run as long as the
  process does are step relations, and what they achieve is stated as reachability. Dialing through jump hosts need not
  return, so it is a \<open>partial_function\<close> whose \<open>None\<close> is a call that does not; when it returns is proved. Integers
  whose width cannot matter are \<open>int\<close> or \<open>nat\<close>: times in nanoseconds and sizes in bytes stay far below 64 bits. Where
  it can, as for numbers read from \<open>ssh_config\<close>, the bounds and the wrap-around are written out.

  \<^bold>\<open>Not modelled.\<close> Telemetry and logging, which nothing reads. Generated code of the \<open>opencode\<close> client. Command line
  entry points and wiring, and the servers whose tools are calls of a third party's API (host tools, GitLab,
  Grafana, opencode), where what is left is the shape of those calls. The shell and file tools are not modelled.
\<close>

end
